(* ===== verification/Prelude.thy ===== *)
theory Prelude
  imports Main "HOL-Library.Word" "HOL-Library.Sublist" "HOL-Library.Multiset"
begin

text \<open>
  Shared vocabulary of the development: the machine integers of the sources, the
  exceptions they throw, the two error-passing combinators, and a model of the parts of the
  C++ standard library the sources use (\<^verbatim>\<open>std::string\<close> searching, \<^verbatim>\<open>std::to_string\<close>,
  \<^verbatim>\<open>std::stol\<close>, \<^verbatim>\<open>::tolower\<close>, \<^verbatim>\<open>std::sort\<close> and \<^verbatim>\<open>std::unordered_map\<close>),
  with the lemmas the components share.
\<close>

section \<open>Machine integers\<close>

type_synonym u8 = "8 word"
type_synonym u16 = "16 word"
type_synonym u32 = "32 word"
type_synonym u64 = "64 word"

named_theorems ops_defs \<open>definitions of state-changing operations, unfolded by their component\<close>
named_theorems codec_simps \<open>evaluation rules of the codecs\<close>

section \<open>Exceptions and results\<close>

text \<open>
  \<^verbatim>\<open>types::Error\<close> carries a message and a code.  The standard library throws
  \<^verbatim>\<open>std::exception\<close>s of its own (\<^verbatim>\<open>std::invalid_argument\<close>,
  \<^verbatim>\<open>std::out_of_range\<close>), which are not \<^verbatim>\<open>types::Error\<close>s and are caught by
  other handlers.
\<close>

datatype ErrorCode = BadParameter | InternalError

datatype exn = Error (message: string) (ecode: ErrorCode) | StdException string

type_synonym 'a result = "exn + 'a"

definition rbind :: "'a result \<Rightarrow> ('a \<Rightarrow> 'b result) \<Rightarrow> 'b result" where
  "rbind r f = (case r of Inl e \<Rightarrow> Inl e | Inr x \<Rightarrow> f x)"

lemma rbind_simps [simp]:
  "rbind (Inl e) f = Inl e"
  "rbind (Inr x) f = f x"
  by (simp_all add: rbind_def)

lemma rbind_eq_Inr:
  "rbind r f = Inr y \<longleftrightarrow> (\<exists>x. r = Inr x \<and> f x = Inr y)"
  by (cases r) auto

lemma rbind_eq_Inl:
  "rbind r f = Inl e \<longleftrightarrow> r = Inl e \<or> (\<exists>x. r = Inr x \<and> f x = Inl e)"
  by (cases r) auto

text \<open>
  Operations on a state.  A C++ exception does not undo the assignments made before it, so
  an operation returns its state on both branches.
\<close>

type_synonym ('s, 'a) op = "'s \<Rightarrow> 'a result \<times> 's"

definition ret :: "'a \<Rightarrow> ('s, 'a) op" where
  "ret x s = (Inr x, s)"

definition throw :: "exn \<Rightarrow> ('s, 'a) op" where
  "throw e s = (Inl e, s)"

definition sbind :: "('s, 'a) op \<Rightarrow> ('a \<Rightarrow> ('s, 'b) op) \<Rightarrow> ('s, 'b) op" where
  "sbind m f s = (case m s of (Inl e, s') \<Rightarrow> (Inl e, s') | (Inr x, s') \<Rightarrow> f x s')"

definition modify :: "('s \<Rightarrow> 's) \<Rightarrow> ('s, unit) op" where
  "modify f s = (Inr (), f s)"

lemma op_simps [simp]:
  "ret x s = (Inr x, s)"
  "throw e s = (Inl e, s)"
  "modify f s = (Inr (), f s)"
  by (simp_all add: ret_def throw_def modify_def)

lemma sbind_cases:
  "sbind m f s = (case fst (m s) of Inl e \<Rightarrow> (Inl e, snd (m s)) | Inr x \<Rightarrow> f x (snd (m s)))"
  by (simp add: sbind_def split: prod.split sum.split)

lemma sbind_Inl [simp]: "m s = (Inl e, s') \<Longrightarrow> sbind m f s = (Inl e, s')"
  by (simp add: sbind_def)

lemma sbind_Inr [simp]: "m s = (Inr x, s') \<Longrightarrow> sbind m f s = f x s'"
  by (simp add: sbind_def)

lemma sbind_InrE:
  assumes "sbind m f s = (Inr y, t)"
  obtains x s' where "m s = (Inr x, s')" and "f x s' = (Inr y, t)"
  using assms by (auto simp: sbind_def split: prod.splits sum.splits)

text \<open>An invariant of the state, kept on the normal and on the exceptional branch.\<close>

definition keeps :: "('s \<Rightarrow> bool) \<Rightarrow> ('s, 'a) op \<Rightarrow> bool" where
  "keeps P m \<longleftrightarrow> (\<forall>s. P s \<longrightarrow> P (snd (m s)))"

lemma keeps_sbind: "keeps P m \<Longrightarrow> (\<And>x. keeps P (f x)) \<Longrightarrow> keeps P (sbind m f)"
  by (auto simp: keeps_def sbind_cases split: sum.split)

lemma keeps_ret [simp]: "keeps P (ret x)" and keeps_throw [simp]: "keeps P (throw e)"
  by (simp_all add: keeps_def)

lemma keepsD: "keeps P m \<Longrightarrow> P s \<Longrightarrow> m s = (r, t) \<Longrightarrow> P t"
  unfolding keeps_def by (metis snd_conv)

section \<open>Characters and strings\<close>

text \<open>A \<^verbatim>\<open>std::string\<close> is a sequence of bytes: a \<^typ>\<open>char list\<close>.\<close>

abbreviation NUL :: char where "NUL \<equiv> CHR 0x00"
abbreviation CR :: char where "CR \<equiv> CHR 0x0D"
abbreviation LF :: char where "LF \<equiv> CHR 0x0A"

definition crlf :: string where "crlf = [CR, LF]"

definition in_range :: "nat \<Rightarrow> nat \<Rightarrow> char \<Rightarrow> bool" where
  "in_range lo hi c \<longleftrightarrow> lo \<le> of_char c \<and> of_char c \<le> hi"

definition is_digit :: "char \<Rightarrow> bool" where "is_digit = in_range 48 57"

definition is_space :: "char \<Rightarrow> bool" where
  "is_space c \<longleftrightarrow> in_range 9 13 c \<or> in_range 32 32 c"

definition digit_val :: "char \<Rightarrow> nat" where "digit_val c = of_char c - 48"

definition digit_char :: "nat \<Rightarrow> char" where "digit_char n = char_of (48 + n)"

lemma of_char_digit_char: "n < 10 \<Longrightarrow> of_char (digit_char n) = 48 + n"
  by (simp add: digit_char_def)

lemma is_digit_digit_char [simp]: "n < 10 \<Longrightarrow> is_digit (digit_char n)"
  by (simp add: is_digit_def in_range_def of_char_digit_char)

lemma digit_val_digit_char [simp]: "n < 10 \<Longrightarrow> digit_val (digit_char n) = n"
  by (simp add: digit_val_def of_char_digit_char)

lemma digit_val_lt: "is_digit c \<Longrightarrow> digit_val c < 10"
  by (auto simp: is_digit_def in_range_def digit_val_def)

lemma not_space_digit: "is_digit c \<Longrightarrow> \<not> is_space c"
  by (auto simp: is_digit_def is_space_def in_range_def)

text \<open>\<^verbatim>\<open>::tolower\<close> and \<^verbatim>\<open>::toupper\<close> in the C locale, which the program never leaves.\<close>

definition tolower :: "char \<Rightarrow> char" where
  "tolower c = (if in_range 65 90 c then char_of (of_char c + (32::nat)) else c)"

definition toupper :: "char \<Rightarrow> char" where
  "toupper c = (if in_range 97 122 c then char_of (of_char c - (32::nat)) else c)"

lemma toupper_idem [simp]: "toupper (toupper c) = toupper c"
  by (auto simp: toupper_def in_range_def)

lemma tolower_toupper [simp]: "tolower (toupper c) = tolower c"
  by (auto simp: tolower_def toupper_def in_range_def)

subsection \<open>Decimal numbers\<close>

text \<open>\<^verbatim>\<open>std::to_string\<close> of an unsigned number.\<close>

fun to_string :: "nat \<Rightarrow> string" where
  "to_string n = (if n < 10 then [digit_char n] else to_string (n div 10) @ [digit_char (n mod 10)])"

declare to_string.simps [simp del]

definition digits_value :: "string \<Rightarrow> nat" where
  "digits_value ds = foldl (\<lambda>a c. 10 * a + digit_val c) 0 ds"

lemma digits_value_snoc [simp]: "digits_value (ds @ [c]) = 10 * digits_value ds + digit_val c"
  by (simp add: digits_value_def)

lemma digits_value_Nil [simp]: "digits_value [] = 0"
  by (simp add: digits_value_def)

lemma to_string_digits: "\<forall>c \<in> set (to_string n). is_digit c"
proof (induction n rule: to_string.induct)
  case (1 n)
  then show ?case by (subst to_string.simps) auto
qed

lemma to_string_nonempty [simp]: "to_string n \<noteq> []"
  by (subst to_string.simps) simp

lemma digits_value_to_string [simp]: "digits_value (to_string n) = n"
proof (induction n rule: to_string.induct)
  case (1 n)
  show ?case
  proof (cases "n < 10")
    case True
    then show ?thesis by (subst to_string.simps) (simp add: digits_value_def)
  next
    case False
    with 1 show ?thesis by (subst to_string.simps) simp
  qed
qed

lemma to_string_inject [simp]: "to_string m = to_string n \<longleftrightarrow> m = n"
  by (metis digits_value_to_string)

lemma div_low: "a < k \<Longrightarrow> (a + k * x) div k = (x::nat)" and mod_low: "a < k \<Longrightarrow> (a + k * x) mod k = (a::nat)"
  by simp_all

lemma three_bytes:
  "a < 256 \<Longrightarrow> b < 256 \<Longrightarrow> c < 256 \<Longrightarrow> 256 * (a + 256 * (b + 256 * c)) < (4294967296::nat)"
  by simp

lemma to_string_snoc: "0 < n \<Longrightarrow> k < 10 \<Longrightarrow> to_string (10 * n + k) = to_string n @ [digit_char k]"
  by (subst to_string.simps) simp

lemma to_string_digit: "k < 10 \<Longrightarrow> to_string k = [digit_char k]"
  by (subst to_string.simps) simp

lemma length_to_string: "0 < k \<Longrightarrow> length (to_string n) \<le> k \<longleftrightarrow> n < 10 ^ k"
proof (induction n arbitrary: k rule: to_string.induct)
  case (1 n)
  show ?case
  proof (cases "n < 10")
    case True
    have "(10 :: nat) ^ 1 \<le> 10 ^ k" using "1.prems" by (intro power_increasing) auto
    with True have "n < 10 ^ k" by simp
    moreover have "length (to_string n) \<le> k" using True "1.prems" by (simp add: to_string_digit)
    ultimately show ?thesis by blast
  next
    case False
    then have e: "length (to_string n) = Suc (length (to_string (n div 10)))" by (subst to_string.simps) simp
    show ?thesis
    proof (cases "k = 1")
      case True
      with False e show ?thesis by simp
    next
      case k: False
      then obtain j where j: "k = Suc j" "0 < j" using "1.prems" by (cases k) auto
      have "n div 10 < 10 ^ j \<longleftrightarrow> n < 10 ^ Suc j" by (simp add: div_less_iff_less_mult mult.commute)
      with "1.IH" [OF False j(2)] e j(1) show ?thesis by simp
    qed
  qed
qed

lemma digit_char_val: "is_digit c \<Longrightarrow> digit_char (digit_val c) = c"
  by (auto simp: is_digit_def in_range_def digit_char_def digit_val_def)

lemma digits_value_lt: "list_all is_digit ds \<Longrightarrow> digits_value ds < 10 ^ length ds"
proof (induction ds rule: rev_induct)
  case (snoc c ds)
  then have "digit_val c < 10" "digits_value ds < 10 ^ length ds"
    by (simp_all add: digit_val_lt)
  then show ?case by simp
qed simp

lemma digit_char_0: "digit_char 0 = CHR ''0''"
  by code_simp

lemma unat_ucast_u32: "unat (ucast (w::u16) :: u32) = unat w"
proof -
  have "unat w < 65536" using unsigned_less [of w, where ?'a = nat] by simp
  then show ?thesis by (simp add: unsigned_ucast_eq take_bit_nat_eq_self)
qed

lemma unat_ucast_u16: "unat (ucast (w::u32) :: u16) = unat w mod 65536"
  by (simp add: unsigned_ucast_eq take_bit_nat_def)

lemma to_string4:
  assumes "a < 10" "b < 10" "c < 10" "d < 10" "0 < a"
  shows "to_string (1000 * a + 100 * b + 10 * c + d)
       = [digit_char a, digit_char b, digit_char c, digit_char d]"
proof -
  have "1000 * a + 100 * b + 10 * c + d = 10 * (10 * (10 * a + b) + c) + d" by simp
  moreover have "to_string (10 * (10 * (10 * a + b) + c) + d) = to_string (10 * (10 * a + b) + c) @ [digit_char d]"
    "to_string (10 * (10 * a + b) + c) = to_string (10 * a + b) @ [digit_char c]"
    "to_string (10 * a + b) = to_string a @ [digit_char b]"
    by (rule to_string_snoc; use assms in simp)+
  ultimately show ?thesis using assms by (simp only: to_string_digit append_Cons append_Nil)
qed

lemma to_string2:
  assumes "a < 10" "b < 10"
  shows "(if 10 * a + b < 10 then ''0'' else []) @ to_string (10 * a + b) = [digit_char a, digit_char b]"
proof (cases "a = 0")
  case True
  with assms show ?thesis by (simp add: to_string_digit digit_char_0)
next
  case False
  with assms show ?thesis by (simp add: to_string_snoc to_string_digit)
qed

lemma unat_div: "unat (a div b :: 'a::len word) = unat a div unat b"
  by (simp add: unat_div_distrib)

text \<open>
  \<^verbatim>\<open>strtol\<close> in base 10: leading white space, an optional sign, then the longest run of
  digits; what follows is ignored.  \<^verbatim>\<open>std::stol\<close> and \<^verbatim>\<open>std::stoi\<close> throw
  \<^verbatim>\<open>std::invalid_argument\<close> when there is no digit and \<^verbatim>\<open>std::out_of_range\<close> when
  the value does not fit (a \<^verbatim>\<open>long\<close> has 64 bits, an \<^verbatim>\<open>int\<close> 32).
\<close>

definition strtol :: "nat \<Rightarrow> string \<Rightarrow> int result" where
  "strtol width s =
     (let s1 = dropWhile is_space s;
          neg = (s1 \<noteq> [] \<and> hd s1 = CHR ''-'');
          s2 = (if s1 \<noteq> [] \<and> (hd s1 = CHR ''-'' \<or> hd s1 = CHR ''+'') then tl s1 else s1);
          ds = takeWhile is_digit s2;
          v = (if neg then - int (digits_value ds) else int (digits_value ds))
      in if ds = [] then Inl (StdException ''invalid_argument'')
         else if v < - (2 ^ (width - 1)) \<or> 2 ^ (width - 1) \<le> v
              then Inl (StdException ''out_of_range'')
         else Inr v)"

definition stol :: "string \<Rightarrow> int result" where "stol = strtol 64"
definition stoi :: "string \<Rightarrow> int result" where "stoi = strtol 32"

lemma strtol_digits:
  assumes "ds \<noteq> []" and "\<forall>c \<in> set ds. is_digit c"
    and "rest = [] \<or> \<not> is_digit (hd rest)"
    and "digits_value ds < 2 ^ (width - 1)"
  shows "strtol width (ds @ rest) = Inr (int (digits_value ds))"
proof -
  obtain c cs where ds: "ds = c # cs" using assms(1) by (cases ds) auto
  have c: "is_digit c" using assms(2) ds by simp
  have sp: "dropWhile is_space (ds @ rest) = ds @ rest"
    using c by (simp add: ds not_space_digit)
  have sg: "hd (ds @ rest) \<noteq> CHR ''-''" "hd (ds @ rest) \<noteq> CHR ''+''"
    using c by (auto simp: ds is_digit_def in_range_def)
  have tk: "takeWhile is_digit (ds @ rest) = ds"
    using assms(2,3) by (cases rest) (auto simp: takeWhile_append2)
  have "int (digits_value ds) < 2 ^ (width - 1)"
    using assms(4) by (metis of_nat_less_iff of_nat_numeral of_nat_power)
  then show ?thesis
    using sp sg tk assms(1)
    by (simp add: strtol_def Let_def not_le)
       (smt (verit) of_nat_0_le_iff zero_le_power)
qed

text \<open>\<^verbatim>\<open>std::to_string\<close> of a signed number, which \<^verbatim>\<open>std::stoi\<close> reads back.\<close>

definition to_string_int :: "int \<Rightarrow> string" where
  "to_string_int v = (if v < 0 then CHR ''-'' # to_string (nat (- v)) else to_string (nat v))"

lemma to_string_int_chars: "c \<in> set (to_string_int v) \<Longrightarrow> is_digit c \<or> c = CHR ''-''"
  using to_string_digits by (auto simp: to_string_int_def split: if_splits)

lemma stoi_to_string_int:
  assumes "- (2 ^ 31) \<le> v" "v < 2 ^ 31"
  shows "stoi (to_string_int v) = Inr v"
proof (cases "v < 0")
  case False
  then show ?thesis
    using strtol_digits [of "to_string (nat v)" "[]" 32] assms by (simp add: stoi_def to_string_int_def to_string_digits nat_less_iff)
next
  case True
  let ?ds = "to_string (nat (- v))"
  have tk: "takeWhile is_digit ?ds = ?ds" using to_string_digits by simp
  have "\<not> is_space (CHR ''-'')" by code_simp
  with True assms show ?thesis by (simp add: stoi_def strtol_def to_string_int_def Let_def tk del: takeWhile_eq_all_conv)
qed

subsection \<open>Searching\<close>

text \<open>\<^verbatim>\<open>std::string::find\<close>: the first position of a substring; \<^const>\<open>None\<close> is \<^verbatim>\<open>npos\<close>.\<close>

fun find_sub :: "'a list \<Rightarrow> 'a list \<Rightarrow> nat option" where
  "find_sub pat [] = (if pat = [] then Some 0 else None)"
| "find_sub pat (x # xs) =
     (if prefix pat (x # xs) then Some 0 else map_option Suc (find_sub pat xs))"

lemma find_sub_Some:
  "find_sub pat xs = Some p \<Longrightarrow> p + length pat \<le> length xs \<and> prefix pat (drop p xs)"
  by (induction xs arbitrary: p) (auto split: if_splits simp: prefix_length_le dest: prefix_length_le)

lemma find_sub_None:
  "find_sub pat xs = None \<longleftrightarrow> \<not> sublist pat xs"
  by (induction xs) (auto simp: sublist_Cons_right)

lemma find_sub_first:
  "find_sub pat xs = Some p \<Longrightarrow> q < p \<Longrightarrow> \<not> prefix pat (drop q xs)"
  by (induction xs arbitrary: p q) (auto split: if_splits simp: drop_Cons split: nat.splits)

text \<open>A match stays the first match when the text grows at its end.\<close>

lemma find_sub_append: "find_sub pat xs = Some p \<Longrightarrow> find_sub pat (xs @ ys) = Some p"
proof (induction xs arbitrary: p)
  case Nil
  then show ?case by (cases ys) (auto split: if_splits)
next
  case (Cons x xs)
  show ?case
  proof (cases "prefix pat (x # xs)")
    case True
    then have "prefix pat (x # xs @ ys)" by (metis append_Cons prefix_prefix)
    with True Cons.prems show ?thesis by simp
  next
    case False
    with Cons.prems obtain q where q: "find_sub pat xs = Some q" and p: "p = Suc q" by auto
    have "\<not> prefix pat (x # xs @ ys)"
    proof
      assume "prefix pat (x # xs @ ys)"
      moreover have "length pat \<le> length (x # xs)" using find_sub_Some [OF q] by simp
      ultimately have "prefix pat (x # xs)"
        by (metis append_Cons append_take_drop_id prefix_def prefix_length_prefix same_prefix_prefix)
      with False show False ..
    qed
    with Cons.IH [OF q] p show ?thesis by simp
  qed
qed

lemma find_sub_single: "find_sub [c] xs = (if c \<in> set xs then Some (length (takeWhile (\<lambda>x. x \<noteq> c) xs)) else None)"
  by (induction xs) auto

lemma find_sub_single_append:
  "c \<notin> set xs \<Longrightarrow> find_sub [c] (xs @ c # ys) = Some (length xs)"
  by (induction xs) auto

section \<open>Sorting and hash maps of the standard library\<close>

text \<open>
  \<^verbatim>\<open>std::sort\<close> with a comparator.  The order of elements the comparator cannot tell
  apart is unspecified; every list this development sorts comes out of the iteration over an
  unordered container, whose order is a parameter, so a stable sort loses no behaviour.
\<close>

fun sort_insert :: "('a \<Rightarrow> 'a \<Rightarrow> bool) \<Rightarrow> 'a \<Rightarrow> 'a list \<Rightarrow> 'a list" where
  "sort_insert lt x [] = [x]"
| "sort_insert lt x (y # ys) = (if lt x y then x # y # ys else y # sort_insert lt x ys)"

definition std_sort :: "('a \<Rightarrow> 'a \<Rightarrow> bool) \<Rightarrow> 'a list \<Rightarrow> 'a list" where
  "std_sort lt xs = fold (sort_insert lt) xs []"

lemma mset_sort_insert [simp]: "mset (sort_insert lt x ys) = add_mset x (mset ys)"
  by (induction ys) auto

lemma set_sort_insert [simp]: "set (sort_insert lt x ys) = insert x (set ys)"
  by (induction ys) auto

lemma mset_fold_sort_insert: "mset (fold (sort_insert lt) xs acc) = mset xs + mset acc"
  by (induction xs arbitrary: acc) auto

lemma mset_std_sort [simp]: "mset (std_sort lt xs) = mset xs"
  by (simp add: std_sort_def mset_fold_sort_insert)

lemma set_std_sort [simp]: "set (std_sort lt xs) = set xs"
  by (metis mset_std_sort set_mset_mset)

lemma length_std_sort [simp]: "length (std_sort lt xs) = length xs"
  by (metis mset_std_sort size_mset)

lemma distinct_map_std_sort [simp]: "distinct (map f (std_sort lt xs)) = distinct (map f xs)"
  by (metis mset_map mset_std_sort mset_eq_imp_distinct_iff)

text \<open>What \<^verbatim>\<open>std::sort\<close> requires of its comparator, on the elements it sorts.\<close>

locale strict_weak_order =
  fixes A :: "'a set" and lt :: "'a \<Rightarrow> 'a \<Rightarrow> bool"
  assumes asym: "a \<in> A \<Longrightarrow> b \<in> A \<Longrightarrow> lt a b \<Longrightarrow> \<not> lt b a"
    and negtrans: "a \<in> A \<Longrightarrow> b \<in> A \<Longrightarrow> c \<in> A \<Longrightarrow> \<not> lt a b \<Longrightarrow> \<not> lt b c \<Longrightarrow> \<not> lt a c"
begin

lemma sorted_sort_insert:
  "x \<in> A \<Longrightarrow> set ys \<subseteq> A \<Longrightarrow> sorted_wrt (\<lambda>a b. \<not> lt b a) ys \<Longrightarrow>
   sorted_wrt (\<lambda>a b. \<not> lt b a) (sort_insert lt x ys)"
proof (induction ys)
  case Nil
  then show ?case by simp
next
  case (Cons y ys)
  show ?case
  proof (cases "lt x y")
    case True
    have yx: "\<not> lt y x" using True Cons.prems asym by auto
    have "\<forall>z \<in> set ys. \<not> lt z x"
    proof
      fix z assume z: "z \<in> set ys"
      then have "\<not> lt z y" and "z \<in> A" using Cons.prems by auto
      with yx show "\<not> lt z x" using negtrans [of z y x] Cons.prems by auto
    qed
    with True yx Cons.prems show ?thesis by simp
  next
    case False
    with Cons show ?thesis by auto
  qed
qed

lemma sorted_std_sort:
  assumes "set xs \<subseteq> A"
  shows "sorted_wrt (\<lambda>a b. \<not> lt b a) (std_sort lt xs)"
proof -
  have "set xs \<subseteq> A \<Longrightarrow> set acc \<subseteq> A \<Longrightarrow> sorted_wrt (\<lambda>a b. \<not> lt b a) acc \<Longrightarrow>
    sorted_wrt (\<lambda>a b. \<not> lt b a) (fold (sort_insert lt) xs acc)" for acc
    by (induction xs arbitrary: acc) (simp_all add: sorted_sort_insert)
  then show ?thesis using assms by (simp add: std_sort_def)
qed

end

text \<open>
  \<^verbatim>\<open>std::unordered_map\<close> is an association list with distinct keys, in insertion order.
  \<^verbatim>\<open>operator[]\<close> inserts a value-initialised element when the key is absent.  Iteration
  visits every entry once, in an order the standard leaves open: a permutation \<open>iter\<close> that
  the definitions take as a parameter.
\<close>

type_synonym ('k, 'v) umap = "('k \<times> 'v) list"

definition um_at :: "'v \<Rightarrow> ('k, 'v) umap \<Rightarrow> 'k \<Rightarrow> 'v" where
  "um_at d m k = (case map_of m k of None \<Rightarrow> d | Some v \<Rightarrow> v)"

fun um_set :: "'k \<Rightarrow> 'v \<Rightarrow> ('k, 'v) umap \<Rightarrow> ('k, 'v) umap" where
  "um_set k v [] = [(k, v)]"
| "um_set k v ((k', v') # m) = (if k' = k then (k, v) # m else (k', v') # um_set k v m)"

definition um_erase :: "'k \<Rightarrow> ('k, 'v) umap \<Rightarrow> ('k, 'v) umap" where
  "um_erase k m = filter (\<lambda>e. fst e \<noteq> k) m"

lemma map_of_um_set [simp]: "map_of (um_set k v m) = (map_of m)(k \<mapsto> v)"
  by (induction k v m rule: um_set.induct) (auto simp: fun_eq_iff)

lemma keys_um_set: "set (map fst (um_set k v m)) = insert k (set (map fst m))"
  by (induction k v m rule: um_set.induct) auto

lemma distinct_um_set: "distinct (map fst m) \<Longrightarrow> distinct (map fst (um_set k v m))"
proof (induction k v m rule: um_set.induct)
  case (2 k v k' v' m)
  then show ?case using keys_um_set [of k v m] by auto
qed simp

lemma um_at_um_set [simp]: "um_at d (um_set k v m) k' = (if k' = k then v else um_at d m k')"
  by (simp add: um_at_def)

lemma um_at_Nil [simp]: "um_at d [] k = d"
  by (simp add: um_at_def)

lemma map_of_um_erase [simp]: "map_of (um_erase k m) = (map_of m)(k := None)"
  by (induction m) (auto simp: um_erase_def fun_eq_iff)

lemma um_at_mem: "distinct (map fst m) \<Longrightarrow> (k, v) \<in> set m \<Longrightarrow> um_at d m k = v"
  by (simp add: um_at_def)

definition iteration_order :: "(('k, 'v) umap \<Rightarrow> ('k, 'v) umap) \<Rightarrow> bool" where
  "iteration_order iter \<longleftrightarrow> (\<forall>m. mset (iter m) = mset m)"

lemma iteration_order_id [simp]: "iteration_order (\<lambda>m. m)"
  by (simp add: iteration_order_def)

lemma iteration_order_rev [simp]: "iteration_order rev"
  by (simp add: iteration_order_def)

lemma iteration_order_set: "iteration_order iter \<Longrightarrow> set (iter m) = set m"
  unfolding iteration_order_def by (metis set_mset_mset)

lemma iteration_order_length: "iteration_order iter \<Longrightarrow> length (iter m) = length m"
  unfolding iteration_order_def by (metis size_mset)

lemma iteration_order_distinct:
  "iteration_order iter \<Longrightarrow> distinct (map fst (iter m)) = distinct (map fst m)"
  unfolding iteration_order_def by (metis mset_map mset_eq_imp_distinct_iff)

end
