(* ===== verification/Utils.thy ===== *)
theory Utils
  imports Prelude
begin

text \<open>
  Model of \<^verbatim>\<open>src/utils.cpp\<close>: splitting and joining strings, case mapping, the day of
  the week, and the day count between two dates.  The two calendar routines are independent
  closed formulas; they are checked against a reference calendar (leap years, month lengths
  and the successor of a date) and against each other.
\<close>

section \<open>Strings\<close>

text \<open>
  \<^verbatim>\<open>utils::split_string\<close> as the loop it is: with an empty delimiter and a non-empty text
  the loop never makes progress, which is the value \<^const>\<open>None\<close>.
\<close>

partial_function (option) split_string_loop ::
    "string \<Rightarrow> string \<Rightarrow> string list \<Rightarrow> string list option" where
  "split_string_loop str delimiter result =
     (if str = [] then Some result
      else case find_sub delimiter str of
        None \<Rightarrow> Some (result @ [str])
      | Some pos \<Rightarrow>
          split_string_loop (drop (pos + length delimiter) str) delimiter (result @ [take pos str]))"

definition split_string :: "string \<Rightarrow> string \<Rightarrow> string list option" where
  "split_string str delimiter = split_string_loop str delimiter []"

text \<open>
  The same loop as a total function, for the delimiters the sources use, none of which is
  empty.  The callers below are written with it.
\<close>

function split_on :: "string \<Rightarrow> string \<Rightarrow> string list" where
  "split_on delimiter str =
     (if str = [] \<or> delimiter = [] then []
      else case find_sub delimiter str of
        None \<Rightarrow> [str]
      | Some pos \<Rightarrow> take pos str # split_on delimiter (drop (pos + length delimiter) str))"
  by pat_completeness auto
termination
  by (relation "measure (\<lambda>(d, t). length t)") auto

declare split_on.simps [simp del]

lemma split_on_Nil [simp]: "split_on d [] = []"
  by (simp add: split_on.simps)

text \<open>\<^verbatim>\<open>utils::concat_string\<close>\<close>

definition concat_string :: "string list \<Rightarrow> string" where
  "concat_string msgs = foldl (\<lambda>acc msg. acc @ msg) [] msgs"

definition toLowerCase :: "string \<Rightarrow> string" where "toLowerCase str = map tolower str"
definition toUpperCase :: "string \<Rightarrow> string" where "toUpperCase str = map toupper str"

section \<open>Days of the week\<close>

definition days :: "string list" where
  "days = [''mon'', ''tue'', ''wed'', ''thu'', ''fri'', ''sat'', ''sun'', '''']"

definition dow_table :: "u8 list" where
  "dow_table = [0, 3, 2, 5, 0, 3, 5, 1, 4, 6, 2, 4]"

text \<open>
  \<^verbatim>\<open>t[m - 1]\<close>: the index is an \<^verbatim>\<open>int\<close> that no caller checks.  Outside the table the
  read is undefined behaviour; the byte it delivers is the parameter \<open>oob\<close>.
\<close>

definition dow_lookup :: "(int \<Rightarrow> u8) \<Rightarrow> int \<Rightarrow> u8" where
  "dow_lookup oob i = (if 0 \<le> i \<and> i < 12 then dow_table ! nat i else oob i)"

definition day_of_week :: "(int \<Rightarrow> u8) \<Rightarrow> u8 \<Rightarrow> u8 \<Rightarrow> u16 \<Rightarrow> u8" where
  "day_of_week oob d m y =
     (let y' = (if m < 3 then y - 1 else y);
          yi = uint y';
          res = (yi + yi div 4 - yi div 100 + yi div 400
                 + uint (dow_lookup oob (uint m - 1)) + uint d) mod 7
      in if res = 0 then 6 else word_of_int (res - 1))"

fun day_of_week_from_str_loop :: "string \<Rightarrow> nat \<Rightarrow> string list \<Rightarrow> u8" where
  "day_of_week_from_str_loop weekday i [] = 7"
| "day_of_week_from_str_loop weekday i (day # ds) =
     (if i > 6 then 7 else if day = weekday then of_nat i
      else day_of_week_from_str_loop weekday (Suc i) ds)"

definition day_of_week_from_str :: "string \<Rightarrow> u8" where
  "day_of_week_from_str weekday = day_of_week_from_str_loop (toLowerCase weekday) 0 days"

definition day_of_week_bitmask_from_str :: "string \<Rightarrow> u8" where
  "day_of_week_bitmask_from_str weekday = push_bit (unat (day_of_week_from_str weekday)) 1"

definition day_of_week_str_from_bitmask :: "u8 \<Rightarrow> string" where
  "day_of_week_str_from_bitmask code =
     (if code = 1 then days ! 0 else if code = 2 then days ! 1 else if code = 4 then days ! 2
      else if code = 8 then days ! 3 else if code = 16 then days ! 4
      else if code = 32 then days ! 5 else if code = 64 then days ! 6 else days ! 7)"

section \<open>Counting days\<close>

text \<open>Division of C++ \<^verbatim>\<open>int\<close>s truncates towards zero.\<close>

definition cdiv :: "int \<Rightarrow> int \<Rightarrow> int" where
  "cdiv a b = (if a < 0 then - ((- a) div b) else a div b)"

definition rdn :: "int \<Rightarrow> int \<Rightarrow> int \<Rightarrow> u32" where
  "rdn y0 m0 d =
     (let y = (if m0 < 3 then y0 - 1 else y0);
          m = (if m0 < 3 then m0 + 12 else m0)
      in word_of_int (365 * y + cdiv y 4 - cdiv y 100 + cdiv y 400
                      + cdiv (153 * m - 457) 5 + d - 306))"

definition days_between_dates :: "u16 \<Rightarrow> u8 \<Rightarrow> u8 \<Rightarrow> u16 \<Rightarrow> u8 \<Rightarrow> u8 \<Rightarrow> u32" where
  "days_between_dates date1_year date1_month date1_day date2_year date2_month date2_day =
     rdn (uint date2_year) (uint date2_month) (uint date2_day)
     - rdn (uint date1_year) (uint date1_month) (uint date1_day)"

section \<open>Splitting and joining\<close>

lemma concat_string_eq: "concat_string msgs = concat msgs"
proof -
  have "foldl (\<lambda>acc msg. acc @ msg) acc msgs = acc @ concat msgs" for acc
    by (induction msgs arbitrary: acc) auto
  then show ?thesis by (simp add: concat_string_def)
qed

lemma split_string_loop_eq:
  "delimiter \<noteq> [] \<Longrightarrow>
   split_string_loop str delimiter result = Some (result @ split_on delimiter str)"
proof (induction str arbitrary: result rule: length_induct)
  case (1 str)
  show ?case
  proof (cases "str = []")
    case True
    then show ?thesis by (simp add: split_string_loop.simps)
  next
    case False
    show ?thesis
    proof (cases "find_sub delimiter str")
      case None
      with False "1.prems" show ?thesis by (simp add: split_string_loop.simps split_on.simps)
    next
      case (Some pos)
      have "length (drop (pos + length delimiter) str) < length str"
        using False "1.prems" by simp
      with "1.IH" "1.prems"
      have "split_string_loop (drop (pos + length delimiter) str) delimiter (result @ [take pos str])
          = Some ((result @ [take pos str]) @ split_on delimiter (drop (pos + length delimiter) str))"
        by blast
      with False Some "1.prems" show ?thesis
        by (simp add: split_string_loop.simps [of str] split_on.simps [of delimiter str])
    qed
  qed
qed

lemma split_string_eq: "delimiter \<noteq> [] \<Longrightarrow> split_string str delimiter = Some (split_on delimiter str)"
  by (simp add: split_string_def split_string_loop_eq)

lemma find_sub_empty_pattern: "find_sub [] xs = Some 0"
  by (cases xs) simp_all

lemma split_string_loop_diverges:
  assumes ret: "split_string_loop str delimiter result = Some r"
  shows "delimiter = [] \<longrightarrow> str = []"
proof (rule split_string_loop.raw_induct
    [where P = "\<lambda>str delimiter result r. delimiter = [] \<longrightarrow> str = []", OF _ ret])
  fix f str delimiter result r
  assume IH: "\<And>str delimiter result r. f str delimiter result = Some r \<Longrightarrow>
      delimiter = [] \<longrightarrow> str = []"
    and eq: "(if str = [] then Some result
       else case find_sub delimiter str of
         None \<Rightarrow> Some (result @ [str])
       | Some pos \<Rightarrow> f (drop (pos + length delimiter) str) delimiter (result @ [take pos str]))
       = Some r"
  show "delimiter = [] \<longrightarrow> str = []"
  proof
    assume d: "delimiter = []"
    show "str = []"
    proof (rule ccontr)
      assume t: "str \<noteq> []"
      with eq d have "f str [] (result @ [[]]) = Some r"
        by (simp add: find_sub_empty_pattern)
      with IH t show False by blast
    qed
  qed
qed

fun join :: "string \<Rightarrow> string list \<Rightarrow> string" where
  "join d [] = []"
| "join d [t] = t"
| "join d (t # u # ts) = t @ d @ join d (u # ts)"

lemma find_sub_split:
  assumes "find_sub d str = Some pos"
  shows "str = take pos str @ d @ drop (pos + length d) str"
proof -
  have "prefix d (drop pos str)" using find_sub_Some [OF assms] by simp
  then have "drop pos str = d @ drop (length d) (drop pos str)"
    by (metis append_eq_conv_conj prefix_def)
  then show ?thesis
    by (metis add.commute append_take_drop_id drop_drop)
qed

lemma join_Cons: "ts \<noteq> [] \<Longrightarrow> join d (t # ts) = t @ d @ join d ts"
  by (cases ts) auto

text \<open>Joining the tokens gives the text back, up to one delimiter at its end.\<close>

lemma join_split_on:
  assumes "d \<noteq> []"
  shows "str = join d (split_on d str) \<or> str = join d (split_on d str) @ d"
proof (induction str rule: length_induct)
  case (1 str)
  show ?case
  proof (cases "str = []")
    case True
    then show ?thesis by simp
  next
    case False
    show ?thesis
    proof (cases "find_sub d str")
      case None
      with False assms show ?thesis by (simp add: split_on.simps)
    next
      case (Some pos)
      let ?rest = "drop (pos + length d) str"
      have sp: "split_on d str = take pos str # split_on d ?rest"
        using False assms Some by (simp add: split_on.simps)
      have tx: "str = take pos str @ d @ ?rest" by (rule find_sub_split [OF Some])
      show ?thesis
      proof (cases "?rest = []")
        case True
        with sp tx show ?thesis by simp
      next
        case rest: False
        have ne: "split_on d ?rest \<noteq> []"
          using rest assms by (subst split_on.simps) (auto split: option.split)
        have "length ?rest < length str" using False assms by simp
        with 1 have "?rest = join d (split_on d ?rest) \<or> ?rest = join d (split_on d ?rest) @ d"
          by blast
        with sp tx ne show ?thesis by (metis append_assoc join_Cons)
      qed
    qed
  qed
qed

lemma split_on_tokens:
  assumes "d \<noteq> []"
  shows "t \<in> set (split_on d str) \<Longrightarrow> \<not> sublist d t"
proof (induction str rule: length_induct)
  case (1 str)
  show ?case
  proof (cases "str = []")
    case True
    with "1.prems" show ?thesis by simp
  next
    case False
    show ?thesis
    proof (cases "find_sub d str")
      case None
      with False assms "1.prems" have "t = str" by (simp add: split_on.simps)
      with None show ?thesis by (simp add: find_sub_None)
    next
      case (Some pos)
      let ?rest = "drop (pos + length d) str"
      have "t = take pos str \<or> t \<in> set (split_on d ?rest)"
        using False assms Some "1.prems" by (subst (asm) split_on.simps) auto
      then show ?thesis
      proof
        assume t: "t = take pos str"
        show ?thesis
        proof
          assume "sublist d t"
          then obtain p where p: "find_sub d t = Some p"
            by (metis find_sub_None not_Some_eq)
          then have "find_sub d str = Some p"
            using find_sub_append [OF p, of "drop pos str"] t by simp
          with Some have "p = pos" by simp
          with find_sub_Some [OF p] t assms show False
            by (cases d) auto
        qed
      next
        assume "t \<in> set (split_on d ?rest)"
        moreover have "length ?rest < length str" using False assms by simp
        ultimately show ?thesis using "1.IH" by blast
      qed
    qed
  qed
qed

lemma split_on_single_token: "d \<notin> set t \<Longrightarrow> t \<noteq> [] \<Longrightarrow> split_on [d] t = [t]"
  by (simp add: split_on.simps find_sub_single)

lemma split_on_single_Cons:
  "d \<notin> set t \<Longrightarrow> split_on [d] (t @ d # rest) = t # split_on [d] rest"
  by (subst split_on.simps) (simp add: find_sub_single_append)

lemma split_on_join_single:
  "\<forall>t \<in> set ts. d \<notin> set t \<Longrightarrow> ts \<noteq> [] \<Longrightarrow> last ts \<noteq> [] \<Longrightarrow> split_on [d] (join [d] ts) = ts"
proof (induction "[d]" ts rule: join.induct)
  case (2 t)
  then show ?case by (simp add: split_on_single_token)
next
  case (3 t u ts)
  then show ?case by (simp add: split_on_single_Cons)
qed simp

section \<open>The reference calendar\<close>

text \<open>Specification: the proleptic Gregorian calendar, one date after the other.\<close>

definition leap :: "int \<Rightarrow> bool" where
  "leap y \<longleftrightarrow> y mod 4 = 0 \<and> (y mod 100 \<noteq> 0 \<or> y mod 400 = 0)"

definition days_in_month :: "int \<Rightarrow> int \<Rightarrow> int" where
  "days_in_month y m =
     (if m = 2 then (if leap y then 29 else 28)
      else if m = 4 \<or> m = 6 \<or> m = 9 \<or> m = 11 then 30 else 31)"

definition valid_date :: "int \<times> int \<times> int \<Rightarrow> bool" where
  "valid_date = (\<lambda>(y, m, d). 1 \<le> y \<and> 1 \<le> m \<and> m \<le> 12 \<and> 1 \<le> d \<and> d \<le> days_in_month y m)"

definition next_date :: "int \<times> int \<times> int \<Rightarrow> int \<times> int \<times> int" where
  "next_date = (\<lambda>(y, m, d).
     if d < days_in_month y m then (y, m, d + 1)
     else if m < 12 then (y, m + 1, 1)
     else (y + 1, 1, 1))"

lemma days_in_month_pos: "1 \<le> days_in_month y m"
  by (simp add: days_in_month_def)

lemma next_date_valid: "valid_date x \<Longrightarrow> valid_date (next_date x)"
  by (auto simp: valid_date_def next_date_def days_in_month_pos split: prod.splits if_splits)

lemma month_cases:
  fixes m :: int
  assumes "1 \<le> m" "m \<le> 12"
  obtains "m = 1" | "m = 2" | "m = 3" | "m = 4" | "m = 5" | "m = 6" | "m = 7" | "m = 8"
    | "m = 9" | "m = 10" | "m = 11" | "m = 12"
proof -
  have "m = 1 \<or> m = 2 \<or> m = 3 \<or> m = 4 \<or> m = 5 \<or> m = 6 \<or> m = 7 \<or> m = 8 \<or> m = 9
      \<or> m = 10 \<or> m = 11 \<or> m = 12"
    using assms by arith
  then show thesis using that by blast
qed

lemma cdiv_nonneg: "0 \<le> a \<Longrightarrow> cdiv a b = a div b"
  by (simp add: cdiv_def)

text \<open>Months of the calendar as \<^const>\<open>rdn\<close> counts them.\<close>

definition year_days :: "int \<Rightarrow> int" where
  "year_days y = 365 * y + y div 4 - y div 100 + y div 400"

definition month_days :: "int \<Rightarrow> int" where
  "month_days m = (153 * (if m < 3 then m + 12 else m) - 457) div 5"

lemma rdn_eq:
  assumes "1 \<le> y" "1 \<le> m"
  shows "rdn y m d = word_of_int (year_days (if m < 3 then y - 1 else y) + month_days m + d - 306)"
  using assms by (auto simp: rdn_def year_days_def month_days_def Let_def cdiv_nonneg)

lemma div_diff_one: "0 < k \<Longrightarrow> (y::int) div k - (y - 1) div k = (if y mod k = 0 then 1 else 0)"
proof -
  assume k: "0 < k"
  have y: "y = k * (y div k) + y mod k" by simp
  have b: "0 \<le> y mod k" "y mod k < k" using k by auto
  show ?thesis
  proof (cases "y mod k = 0")
    case True
    have "(y - 1) div k = y div k - 1"
    proof (rule int_div_pos_eq [of _ _ _ "k - 1"])
      show "y - 1 = k * (y div k - 1) + (k - 1)" using y True by (simp add: algebra_simps)
    qed (use k in auto)
    with True show ?thesis by simp
  next
    case False
    have "(y - 1) div k = y div k"
      by (rule int_div_pos_eq [of _ _ _ "y mod k - 1"]) (use y b False in auto)
    with False show ?thesis by simp
  qed
qed

lemma leap_count:
  fixes y a4 b4 a100 b100 a400 b400 :: int
  assumes "a4 - b4 = (if P4 then 1 else 0)" "a100 - b100 = (if P100 then 1 else 0)"
    "a400 - b400 = (if P400 then 1 else 0)" "P400 \<Longrightarrow> P100" "P100 \<Longrightarrow> P4"
  shows "(365 * y + a4 - a100 + a400) - (365 * (y - 1) + b4 - b100 + b400)
    = (if P4 \<and> (\<not> P100 \<or> P400) then 366 else 365)"
  using assms by (cases P4; cases P100; cases P400) auto

lemma year_days_step:
  "year_days y - year_days (y - 1) = (if leap y then 366 else 365)"
  unfolding year_days_def leap_def
proof (rule leap_count)
  have d: "(100::int) dvd 400" "(4::int) dvd 100" by simp_all
  show "y mod 400 = 0 \<Longrightarrow> y mod 100 = 0" by (metis d(1) dvd_trans mod_eq_0_iff_dvd)
  show "y mod 100 = 0 \<Longrightarrow> y mod 4 = 0" by (metis d(2) dvd_trans mod_eq_0_iff_dvd)
qed (rule div_diff_one, simp)+

lemma month_days_values:
  "month_days 1 = 306" "month_days 2 = 337" "month_days 3 = 0" "month_days 4 = 31"
  "month_days 5 = 61" "month_days 6 = 92" "month_days 7 = 122" "month_days 8 = 153"
  "month_days 9 = 184" "month_days 10 = 214" "month_days 11 = 245" "month_days 12 = 275"
  by (simp_all add: month_days_def)

definition rdn_int :: "int \<times> int \<times> int \<Rightarrow> int" where
  "rdn_int = (\<lambda>(y, m, d). year_days (if m < 3 then y - 1 else y) + month_days m + d - 306)"

lemma rdn_rdn_int: "valid_date (y, m, d) \<Longrightarrow> rdn y m d = word_of_int (rdn_int (y, m, d))"
  by (auto simp: valid_date_def rdn_int_def rdn_eq)

lemma rdn_int_next:
  assumes "valid_date x"
  shows "rdn_int (next_date x) = rdn_int x + 1"
proof -
  obtain y m d where x: "x = (y, m, d)" by (cases x)
  have v: "1 \<le> y" "1 \<le> m" "m \<le> 12" "d \<le> days_in_month y m"
    using assms by (auto simp: x valid_date_def)
  show ?thesis
    using v(2,3)
    by (cases m rule: month_cases)
       (use v year_days_step [of y] in \<open>auto simp: x next_date_def rdn_int_def days_in_month_def
          month_days_values split: if_splits\<close>)
qed

lemma rdn_int_iterate: "valid_date x \<Longrightarrow> rdn_int ((next_date ^^ n) x) = rdn_int x + int n"
proof (induction n)
  case (Suc n)
  have "valid_date ((next_date ^^ n) x)"
    using Suc.prems by (induction n) (auto simp: next_date_valid)
  with Suc show ?case by (simp add: rdn_int_next)
qed simp

lemma days_between_iterate:
  assumes "valid_date (uint y1, uint m1, uint d1)"
    and "(next_date ^^ n) (uint y1, uint m1, uint d1) = (uint y2, uint m2, uint d2)"
  shows "days_between_dates y1 m1 d1 y2 m2 d2 = of_nat n"
proof -
  have "valid_date ((next_date ^^ n) (uint y1, uint m1, uint d1))"
    using assms(1) by (induction n) (auto simp: next_date_valid)
  then have v2: "valid_date (uint y2, uint m2, uint d2)" using assms(2) by simp
  have "rdn_int (uint y2, uint m2, uint d2) = rdn_int (uint y1, uint m1, uint d1) + int n"
    using rdn_int_iterate [OF assms(1), of n] assms(2) by simp
  then show ?thesis
    by (simp add: days_between_dates_def rdn_rdn_int [OF assms(1)] rdn_rdn_int [OF v2])
qed

section \<open>The day of the week agrees with the day count\<close>

lemma dow_shift: "(if r mod 7 = 0 then 6 else r mod 7 - 1) = (r - 1) mod (7::int)"
proof -
  have b: "0 \<le> r mod 7" "r mod 7 < 7" by simp_all
  have "(r - 1) mod 7 = (r mod 7 - 1) mod 7" by (simp add: mod_diff_left_eq)
  also have "\<dots> = (if r mod 7 = 0 then 6 else r mod 7 - 1)"
    using b by (auto intro!: mod_pos_pos_trivial)
  finally show ?thesis by simp
qed

lemma dow_month:
  assumes "1 \<le> m" "m \<le> 12"
  shows "\<exists>k. uint (dow_lookup oob (m - 1)) = month_days m - 306 + 7 * k"
  using assms
proof (cases m rule: month_cases)
qed (simp_all add: dow_lookup_def dow_table_def month_days_values; presburger)+

lemma uint_day_of_week:
  "uint (day_of_week oob d m y) =
     (let yi = uint (if m < 3 then y - 1 else y)
      in (yi + yi div 4 - yi div 100 + yi div 400
          + uint (dow_lookup oob (uint m - 1)) + uint d - 1) mod 7)"
proof -
  define r where "r = (let yi = uint (if m < 3 then y - 1 else y)
      in yi + yi div 4 - yi div 100 + yi div 400 + uint (dow_lookup oob (uint m - 1)) + uint d)"
  have "day_of_week oob d m y = (if r mod 7 = 0 then 6 else word_of_int (r mod 7 - 1))"
    unfolding day_of_week_def r_def Let_def by (rule refl)
  moreover have "uint (word_of_int (r mod 7 - 1) :: u8) = r mod 7 - 1" if "r mod 7 \<noteq> 0"
  proof -
    have "0 \<le> r mod 7" "r mod 7 < 7" by simp_all
    with that have "0 \<le> r mod 7 - 1" "r mod 7 - 1 < 256" by linarith+
    then show ?thesis by (simp add: word_of_int_inverse)
  qed
  ultimately have "uint (day_of_week oob d m y) = (if r mod 7 = 0 then 6 else r mod 7 - 1)"
    by simp
  also have "\<dots> = (r - 1) mod 7" by (rule dow_shift)
  finally show ?thesis unfolding r_def Let_def .
qed

lemma day_of_week_rdn:
  assumes "valid_date (uint y, uint m, uint d)"
  shows "uint (day_of_week oob d m y) = (rdn_int (uint y, uint m, uint d) - 1) mod 7"
proof -
  have v: "1 \<le> uint y" "1 \<le> uint m" "uint m \<le> 12" using assms by (auto simp: valid_date_def)
  define yi where "yi = (if uint m < 3 then uint y - 1 else uint y)"
  have "1 \<le> y" using v(1) by (simp add: word_le_def)
  then have "uint (y - 1) = uint y - 1" by (simp add: uint_minus_simple_alt)
  then have yi: "uint (if m < 3 then y - 1 else y) = yi"
    by (simp add: yi_def word_less_def)
  obtain k where k: "uint (dow_lookup oob (uint m - 1)) = month_days (uint m) - 306 + 7 * k"
    using dow_month [OF v(2,3)] by blast
  have "rdn_int (uint y, uint m, uint d) - 1
      = (yi + yi div 4 - yi div 100 + yi div 400
         + uint (dow_lookup oob (uint m - 1)) + uint d - 1) + 7 * (52 * yi - k)"
    by (simp add: rdn_int_def year_days_def yi_def k)
  then have "(rdn_int (uint y, uint m, uint d) - 1) mod 7
      = (yi + yi div 4 - yi div 100 + yi div 400
         + uint (dow_lookup oob (uint m - 1)) + uint d - 1) mod 7"
    by (metis mod_mult_self2)
  then show ?thesis unfolding uint_day_of_week yi Let_def by (rule sym)
qed

lemma rdn_int_bounds:
  assumes "valid_date (y, m, d)" and "y < 65536"
  shows "0 \<le> rdn_int (y, m, d) \<and> rdn_int (y, m, d) < 2 ^ 32"
proof -
  have v: "1 \<le> y" "1 \<le> m" "m \<le> 12" "1 \<le> d" "d \<le> 31"
    using assms(1) by (auto simp: valid_date_def days_in_month_def split: if_splits)
  define z where "z = (if m < 3 then y - 1 else y)"
  have z: "0 \<le> z" "z < 65536" "m \<ge> 3 \<Longrightarrow> 1 \<le> z" using v assms(2) by (auto simp: z_def)
  have q: "0 \<le> z div 4" "z div 4 \<le> z" "z div 100 \<le> z" "0 \<le> z div 100" "0 \<le> z div 400" "z div 400 \<le> z"
    using z zdiv_mono2 [of z 1 4] zdiv_mono2 [of z 1 100] zdiv_mono2 [of z 1 400]
    by (simp_all add: pos_imp_zdiv_nonneg_iff)
  have m: "0 \<le> month_days m" "month_days m \<le> 337" "m < 3 \<Longrightarrow> 306 \<le> month_days m"
    using v by (auto simp: month_days_def)
  have "rdn_int (y, m, d) = 365 * z + z div 4 - z div 100 + z div 400 + month_days m + d - 306"
    by (simp add: rdn_int_def year_days_def z_def)
  with q z m v show ?thesis by (cases "m < 3") auto
qed

lemma day_of_week_lt: "uint (day_of_week oob d m y) < 7" and day_of_week_unat: "unat (day_of_week oob d m y) < 7"
  by (simp_all add: uint_day_of_week Let_def unat_eq_nat_uint)

section \<open>Properties\<close>

text \<open>
  C35. \<^verbatim>\<open>utils::split_string\<close> returns exactly when it can: with a non-empty delimiter
  it always returns, its tokens never contain the delimiter, and joining them gives the text
  back up to one trailing delimiter; with an empty delimiter and a non-empty text it never
  returns.
\<close>

theorem split_string_correct:
  "(delimiter \<noteq> [] \<longrightarrow>
     (\<exists>ts. split_string str delimiter = Some ts \<and> (\<forall>t \<in> set ts. \<not> sublist delimiter t) \<and>
       (str = join delimiter ts \<or> str = join delimiter ts @ delimiter))) \<and>
   (delimiter = [] \<and> str \<noteq> [] \<longrightarrow> split_string str delimiter = None)"
proof (intro conjI impI)
  assume d: "delimiter \<noteq> []"
  show "\<exists>ts. split_string str delimiter = Some ts \<and> (\<forall>t \<in> set ts. \<not> sublist delimiter t) \<and>
      (str = join delimiter ts \<or> str = join delimiter ts @ delimiter)"
    using split_string_eq [OF d] split_on_tokens [OF d] join_split_on [OF d] by blast
next
  assume "delimiter = [] \<and> str \<noteq> []"
  then show "split_string str delimiter = None"
    using split_string_loop_diverges [of str delimiter "[]"]
    by (cases "split_string str delimiter") (auto simp: split_string_def)
qed

theorem split_string_correct_witness:
  "(\<exists>ts. split_string ''mon,tue'' '','' = Some ts \<and> (\<forall>t \<in> set ts. \<not> sublist '','' t) \<and>
     (''mon,tue'' = join '','' ts \<or> ''mon,tue'' = join '','' ts @ '','')) \<and>
   split_string ''a'' [] = None"
  using split_string_correct [of "'',''" "''mon,tue''"] split_string_correct [of "[]" "''a''"] by simp

text \<open>
  C34. The two calendar routines agree: on every valid date whose year fits,
  \<^verbatim>\<open>utils::day_of_week\<close> (Sakamoto's table) is the day number of \<^verbatim>\<open>utils::rdn\<close>
  modulo 7, counted from Monday, for whatever lies outside the table.
\<close>

theorem day_of_week_agrees_with_rdn:
  assumes "valid_date (uint y, uint m, uint d)"
  shows "uint (day_of_week oob d m y) = (uint (rdn (uint y) (uint m) (uint d)) - 1) mod 7"
proof -
  define r where "r = rdn_int (uint y, uint m, uint d)"
  have v: "1 \<le> uint y" "uint y < 65536" "1 \<le> uint m" "uint m \<le> 12" "1 \<le> uint d" "uint d < 256"
    using assms by (auto simp: valid_date_def) (use uint_lt2p [of y] uint_lt2p [of d] in auto)
  have r: "0 \<le> r" "r < 2 ^ 32" using rdn_int_bounds [OF assms v(2)] by (simp_all add: r_def)
  then have "uint (rdn (uint y) (uint m) (uint d)) = r"
    by (simp add: rdn_rdn_int [OF assms] r_def [symmetric] word_of_int_inverse)
  then show ?thesis using day_of_week_rdn [OF assms, of oob] by (simp add: r_def)
qed

theorem day_of_week_agrees_with_rdn_witness:
  "uint (day_of_week (\<lambda>_. 0) 25 6 2016) = (uint (rdn (uint (2016::u16)) (uint (6::u8)) (uint (25::u8))) - 1) mod 7"
  by (rule day_of_week_agrees_with_rdn) (simp add: valid_date_def days_in_month_def)

end
