(* ===== verification/Types.thy ===== *)
theory Types
  imports Utils
begin

text \<open>
  Model of \<^verbatim>\<open>src/types.hpp\<close> and \<^verbatim>\<open>src/types.cpp\<close>: the key-value container, the
  request parameter classes with their \<^verbatim>\<open>Required\<close> and \<^verbatim>\<open>Optional\<close> wrappers, and
  the codecs for places, dates, countries and weekdays.  A class derived from
  \<^verbatim>\<open>BaseParameter\<close> is a record that extends \<open>BaseParameter\<close>; a constructor is a
  function into \<^typ>\<open>'a result\<close>.
\<close>

unbundle bit_operations_syntax

section \<open>Key-value storage\<close>

record Object =
  obj_name :: string
  obj_value :: string

type_synonym ObjectMap = "Object list"

fun ObjectMap_at :: "ObjectMap \<Rightarrow> string \<Rightarrow> string" where
  "ObjectMap_at [] name = []"
| "ObjectMap_at (obj # objs) name = (if obj_name obj = name then obj_value obj else ObjectMap_at objs name)"

definition add_object :: "ObjectMap \<Rightarrow> Object \<Rightarrow> ObjectMap" where
  "add_object m obj = m @ [obj]"

section \<open>Codecs\<close>

subsection \<open>Places\<close>

text \<open>
  The union \<^verbatim>\<open>PlaceCodec\<close>: four bytes and the integer they are on a little-endian machine.
\<close>

definition PlaceCodec_int :: "char list \<Rightarrow> u32" where
  "PlaceCodec_int b = word_of_nat
     (of_char (b ! 0) + 256 * (of_char (b ! 1) + 256 * (of_char (b ! 2) + 256 * of_char (b ! 3))))"

definition PlaceCodec_chars :: "u32 \<Rightarrow> char list" where
  "PlaceCodec_chars w = map (\<lambda>i. char_of (unat w div 256 ^ i mod 256)) [0, 1, 2, 3]"

definition origin_to_code :: "string \<Rightarrow> u32" where
  "origin_to_code code = PlaceCodec_int [NUL, code ! 0, code ! 1, code ! 2]"

definition code_to_origin :: "u32 \<Rightarrow> string" where
  "code_to_origin code =
     (let b = PlaceCodec_chars code in [b ! 1, b ! 2, b ! 3])"

subsection \<open>Dates\<close>

definition wrong_date :: "string \<Rightarrow> exn" where
  "wrong_date date = Error (''wrong date format:'' @ [CHR 0x27] @ date @ [CHR 0x27, LF]) BadParameter"

definition date_to_int :: "string \<Rightarrow> u32 result" where
  "date_to_int date =
     (if length date \<noteq> 10 then Inl (wrong_date date)
      else if date ! 4 \<noteq> CHR ''-'' \<or> date ! 7 \<noteq> CHR ''-'' then Inl (wrong_date date)
      else let d1 = take 4 date @ drop 5 date;
               d2 = take 6 d1 @ drop 7 d1
           in case stol d2 of
                Inl e \<Rightarrow> Inl (wrong_date d2)
              | Inr v \<Rightarrow> Inr (word_of_int v))"

definition int_to_date :: "u32 \<Rightarrow> string result" where
  "int_to_date date =
     (if date = 0
      then Inl (Error (''wrong date code:'' @ [CHR 0x27] @ to_string (unat date) @ [CHR 0x27, LF]) InternalError)
      else let year = ucast (date div 10000) :: u16;
               month = ucast ((date - ucast year * 10000) div 100) :: u16;
               day = ucast (date - ucast year * 10000 - ucast month * 100) :: u16
           in Inr (to_string (unat year) @ ''-'' @ (if month < 10 then ''0'' else []) @
                   to_string (unat month) @ ''-'' @ (if day < 10 then ''0'' else []) @
                   to_string (unat day)))"

subsection \<open>Countries\<close>

definition COUNTRIES :: "string list" where
  "COUNTRIES =
     [''AF'', ''AX'', ''AL'', ''DZ'', ''AS'', ''AD'', ''AO'', ''AI'', ''AQ'', ''AG'', ''AR'', ''AM'', ''AW'', ''AU'', ''AT'', ''AZ'',
      ''BS'', ''BH'', ''BD'', ''BB'', ''BY'', ''BE'', ''BZ'', ''BJ'', ''BM'', ''BT'', ''BO'', ''BQ'', ''BA'', ''BW'', ''BV'', ''BR'',
      ''IO'', ''VG'', ''BN'', ''BG'', ''BF'', ''BI'', ''KH'', ''CM'', ''CA'', ''CV'', ''KY'', ''CF'', ''TD'', ''CL'', ''CN'', ''CX'',
      ''CC'', ''CO'', ''KM'', ''CK'', ''CR'', ''HR'', ''CU'', ''CW'', ''CY'', ''CZ'', ''CD'', ''DK'', ''DJ'', ''DM'', ''DO'', ''TL'',
      ''EC'', ''EG'', ''SV'', ''GQ'', ''ER'', ''EE'', ''ET'', ''FK'', ''FO'', ''FJ'', ''FI'', ''FR'', ''GF'', ''PF'', ''TF'', ''GA'',
      ''GM'', ''GE'', ''DE'', ''GH'', ''GI'', ''GR'', ''GL'', ''GD'', ''GP'', ''GU'', ''GT'', ''GG'', ''GN'', ''GW'', ''GY'', ''HT'',
      ''HM'', ''HN'', ''HK'', ''HU'', ''IS'', ''IN'', ''ID'', ''IR'', ''IQ'', ''IE'', ''IM'', ''IL'', ''IT'', ''CI'', ''JM'', ''JP'',
      ''JE'', ''JO'', ''KZ'', ''KE'', ''KI'', ''XK'', ''KW'', ''KG'', ''LA'', ''LV'', ''LB'', ''LS'', ''LR'', ''LY'', ''LI'', ''LT'',
      ''LU'', ''MO'', ''MK'', ''MG'', ''MW'', ''MY'', ''MV'', ''ML'', ''MT'', ''MH'', ''MQ'', ''MR'', ''MU'', ''YT'', ''MX'', ''FM'',
      ''MD'', ''MC'', ''MN'', ''ME'', ''MS'', ''MA'', ''MZ'', ''MM'', ''NA'', ''NR'', ''NP'', ''NL'', ''AN'', ''NC'', ''NZ'', ''NI'',
      ''NE'', ''NG'', ''NU'', ''NF'', ''KP'', ''MP'', ''NO'', ''OM'', ''PK'', ''PW'', ''PS'', ''PA'', ''PG'', ''PY'', ''PE'', ''PH'',
      ''PN'', ''PL'', ''PT'', ''PR'', ''QA'', ''CG'', ''RE'', ''RO'', ''RU'', ''RW'', ''BL'', ''SH'', ''KN'', ''LC'', ''MF'', ''PM'',
      ''VC'', ''WS'', ''SM'', ''ST'', ''SA'', ''SN'', ''RS'', ''CS'', ''SC'', ''SL'', ''SG'', ''SX'', ''SK'', ''SI'', ''SB'', ''SO'',
      ''ZA'', ''GS'', ''KR'', ''SS'', ''ES'', ''LK'', ''SD'', ''SR'', ''SJ'', ''SZ'', ''SE'', ''CH'', ''SY'', ''TW'', ''TJ'', ''TZ'',
      ''TH'', ''TG'', ''TK'', ''TO'', ''TT'', ''TN'', ''TR'', ''TM'', ''TC'', ''TV'', ''VI'', ''UG'', ''UA'', ''AE'', ''GB'', ''US'',
      ''UM'', ''UY'', ''UZ'', ''VU'', ''VA'', ''VE'', ''VN'', ''WF'', ''EH'', ''YE'', ''ZM'', ''ZW'']"

fun country_to_code_loop :: "string \<Rightarrow> nat \<Rightarrow> string list \<Rightarrow> u8 result" where
  "country_to_code_loop country x [] = Inl (Error (''unknown country:'' @ country @ [LF]) BadParameter)"
| "country_to_code_loop country x (code # cs) =
     (if code ! 0 = country ! 0 \<and> code ! 1 = country ! 1 then Inr (of_nat x)
      else country_to_code_loop country (Suc x) cs)"

definition country_to_code :: "string \<Rightarrow> u8 result" where
  "country_to_code country = country_to_code_loop country 0 COUNTRIES"

text \<open>
  The guard of \<^verbatim>\<open>code_to_country\<close> admits the index \<^verbatim>\<open>COUNTRIES.size()\<close>, which is one
  past the end: what that read delivers is the parameter \<open>oob\<close>.
\<close>

definition code_to_country :: "string \<Rightarrow> u8 \<Rightarrow> string result" where
  "code_to_country oob code =
     (if unat code > length COUNTRIES
      then Inl (Error (''CountryCode bad code:'' @ [CHR 0x27] @ to_string (unat code) @ [CHR 0x27, LF]) InternalError)
      else if unat code < length COUNTRIES then Inr (COUNTRIES ! unat code) else Inr oob)"

subsection \<open>Weekdays\<close>

fun weekdays_bitmask_loop :: "string \<Rightarrow> u8 \<Rightarrow> string list \<Rightarrow> u8 result" where
  "weekdays_bitmask_loop days_of_week acc [] = Inr acc"
| "weekdays_bitmask_loop days_of_week acc (day # ds) =
     (let daymask = day_of_week_bitmask_from_str day
      in if daymask > 64
         then Inl (Error (''Bad day '' @ [CHR 0x27] @ day @ [CHR 0x27] @ '' in ['' @ days_of_week @ '']'' @ [LF]) BadParameter)
         else weekdays_bitmask_loop days_of_week (acc OR daymask) ds)"

definition weekdays_bitmask :: "string \<Rightarrow> u8 result" where
  "weekdays_bitmask days_of_week =
     (if length days_of_week = 0 then Inl (Error (''Day of week undefined'' @ [LF]) BadParameter)
      else rbind (weekdays_bitmask_loop days_of_week 0 (split_on '','' days_of_week))
        (\<lambda>result. if result = 0
           then Inl (Error (''Cannot parse days of week:'' @ days_of_week @ [LF]) BadParameter)
           else Inr result))"

section \<open>Parameters\<close>

record BaseParameter =
  paramter_undefined :: bool

definition isUndefined :: "'a BaseParameter_scheme \<Rightarrow> bool" where
  "isUndefined p = paramter_undefined p"

definition isDefined :: "'a BaseParameter_scheme \<Rightarrow> bool" where
  "isDefined p = (\<not> paramter_undefined p)"

subsection \<open>Place codes\<close>

record IATACode = BaseParameter +
  iata_code :: u32

definition IATACode_of_string :: "string \<Rightarrow> IATACode result" where
  "IATACode_of_string iatacode =
     (if length iatacode = 0 then Inr \<lparr>paramter_undefined = True, iata_code = 0\<rparr>
      else if length iatacode \<noteq> 3 then Inl (Error (''Bad IATA code:'' @ iatacode @ [LF]) BadParameter)
      else Inr \<lparr>paramter_undefined = False, iata_code = origin_to_code (toUpperCase iatacode)\<rparr>)"

definition IATACode_of_dbcode :: "u32 \<Rightarrow> IATACode result" where
  "IATACode_of_dbcode dbcode =
     (if dbcode = 0 then Inl (Error (''Bad IATA code:'' @ to_string (unat dbcode) @ [LF]) InternalError)
      else Inr \<lparr>paramter_undefined = False, iata_code = dbcode\<rparr>)"

definition IATACode_eq :: "IATACode \<Rightarrow> IATACode \<Rightarrow> bool" where
  "IATACode_eq d1 d2 = (if isUndefined d1 \<or> isUndefined d2 then False else iata_code d1 = iata_code d2)"

definition IATACode_get_code :: "IATACode \<Rightarrow> u32 result" where
  "IATACode_get_code c =
     (if paramter_undefined c then Inl (Error (''IATACode parameter not defined'' @ [LF]) BadParameter)
      else Inr (iata_code c))"

text \<open>
  An \<^verbatim>\<open>std::unordered_set\<close> with the class's own equality: an element equal to none of the
  stored ones is added.  Undefined codes are equal to nothing, not even to themselves.
\<close>

definition uset_insert :: "('a \<Rightarrow> 'a \<Rightarrow> bool) \<Rightarrow> 'a \<Rightarrow> 'a list \<Rightarrow> 'a list" where
  "uset_insert eq x xs = (if \<exists>y \<in> set xs. eq y x then xs else xs @ [x])"

fun insert_codes :: "(string \<Rightarrow> 'c result) \<Rightarrow> ('c \<Rightarrow> 'c \<Rightarrow> bool) \<Rightarrow> 'c list \<Rightarrow> string list \<Rightarrow> 'c list result" where
  "insert_codes ctor eq codes [] = Inr codes"
| "insert_codes ctor eq codes (t # ts) =
     rbind (ctor t) (\<lambda>c. insert_codes ctor eq (uset_insert eq c codes) ts)"

record IATACodes = BaseParameter +
  iata_codes :: "IATACode list"

definition IATACodes_of_string :: "string \<Rightarrow> IATACodes result" where
  "IATACodes_of_string codes =
     (if length codes = 0 then Inr \<lparr>paramter_undefined = True, iata_codes = []\<rparr>
      else rbind (insert_codes IATACode_of_string IATACode_eq [] (split_on '','' codes))
        (\<lambda>cs. Inr \<lparr>paramter_undefined = False, iata_codes = cs\<rparr>))"

definition IATACodes_add_code :: "IATACodes \<Rightarrow> u32 \<Rightarrow> IATACodes result" where
  "IATACodes_add_code cs dbcode =
     rbind (IATACode_of_dbcode dbcode)
       (\<lambda>c. Inr (cs\<lparr>iata_codes := uset_insert IATACode_eq c (iata_codes cs), paramter_undefined := False\<rparr>))"

subsection \<open>Country codes\<close>

record CountryCode = BaseParameter +
  country_code :: u8

definition CountryCode_of_string :: "string \<Rightarrow> CountryCode result" where
  "CountryCode_of_string code =
     (if length code = 0 then Inr \<lparr>paramter_undefined = True, country_code = 0\<rparr>
      else if length code \<noteq> 2 then Inl (Error (''CountryCode format error:'' @ code @ [LF]) BadParameter)
      else rbind (country_to_code (toUpperCase code))
        (\<lambda>c. Inr \<lparr>paramter_undefined = False, country_code = c\<rparr>))"

definition CountryCode_of_dbcode :: "u8 \<Rightarrow> CountryCode result" where
  "CountryCode_of_dbcode dbcode =
     (if unat dbcode \<ge> length COUNTRIES
      then Inl (Error (''Bad Country code:'' @ to_string (unat dbcode) @ [LF]) InternalError)
      else Inr \<lparr>paramter_undefined = False, country_code = dbcode\<rparr>)"

definition CountryCode_eq :: "CountryCode \<Rightarrow> CountryCode \<Rightarrow> bool" where
  "CountryCode_eq d1 d2 =
     (if isUndefined d1 \<or> isUndefined d2 then False else country_code d1 = country_code d2)"

definition CountryCode_get_code :: "CountryCode \<Rightarrow> u8 result" where
  "CountryCode_get_code c =
     (if paramter_undefined c then Inl (Error (''CountryCode parameter not defined'' @ [LF]) BadParameter)
      else Inr (country_code c))"

record CountryCodes = BaseParameter +
  country_codes :: "CountryCode list"

definition CountryCodes_of_string :: "string \<Rightarrow> CountryCodes result" where
  "CountryCodes_of_string codes =
     (if length codes = 0 then Inr \<lparr>paramter_undefined = True, country_codes = []\<rparr>
      else rbind (insert_codes CountryCode_of_string CountryCode_eq [] (split_on '','' codes))
        (\<lambda>cs. Inr \<lparr>paramter_undefined = False, country_codes = cs\<rparr>))"

definition CountryCodes_add_code :: "CountryCodes \<Rightarrow> u8 \<Rightarrow> CountryCodes result" where
  "CountryCodes_add_code cs dbcode =
     rbind (CountryCode_of_dbcode dbcode)
       (\<lambda>c. Inr (cs\<lparr>country_codes := uset_insert CountryCode_eq c (country_codes cs), paramter_undefined := False\<rparr>))"

subsection \<open>Dates\<close>

record Date = BaseParameter +
  date_code :: u32
  date_day :: u8
  date_month :: u8
  date_year :: u16

definition Date_of_string :: "string \<Rightarrow> Date result" where
  "Date_of_string date =
     (if length date = 0
      then Inr \<lparr>paramter_undefined = True, date_code = 0, date_day = 0, date_month = 0, date_year = 0\<rparr>
      else rbind (date_to_int date)
        (\<lambda>code. Inr \<lparr>paramter_undefined = False, date_code = code,
           date_day = ucast (code mod 100), date_month = ucast (code div 100 mod 100),
           date_year = ucast (code div 10000)\<rparr>))"

definition date_not_defined :: exn where
  "date_not_defined = Error (''Date parameter not defined'' @ [LF]) BadParameter"

definition Date_get_code :: "Date \<Rightarrow> u32 result" where
  "Date_get_code d = (if paramter_undefined d then Inl date_not_defined else Inr (date_code d))"

definition Date_get_year :: "Date \<Rightarrow> u16 result" where
  "Date_get_year d = (if paramter_undefined d then Inl date_not_defined else Inr (date_year d))"

definition Date_get_month :: "Date \<Rightarrow> u8 result" where
  "Date_get_month d = (if paramter_undefined d then Inl date_not_defined else Inr (date_month d))"

definition Date_get_day :: "Date \<Rightarrow> u8 result" where
  "Date_get_day d = (if paramter_undefined d then Inl date_not_defined else Inr (date_day d))"

definition days_after :: "Date \<Rightarrow> Date \<Rightarrow> u32" where
  "days_after this date =
     days_between_dates (date_year date) (date_month date) (date_day date)
       (date_year this) (date_month this) (date_day this)"

definition Date_day_of_week :: "(int \<Rightarrow> u8) \<Rightarrow> Date \<Rightarrow> u8" where
  "Date_day_of_week oob d = day_of_week oob (date_day d) (date_month d) (date_year d)"

definition date_rel :: "(u32 \<Rightarrow> u32 \<Rightarrow> bool) \<Rightarrow> Date \<Rightarrow> Date \<Rightarrow> bool" where
  "date_rel R d1 d2 =
     (if isUndefined d1 \<or> isUndefined d2 then False else R (date_code d1) (date_code d2))"

definition Date_less :: "Date \<Rightarrow> Date \<Rightarrow> bool" where "Date_less = date_rel (<)"
definition Date_le :: "Date \<Rightarrow> Date \<Rightarrow> bool" where "Date_le = date_rel (\<le>)"
definition Date_gt :: "Date \<Rightarrow> Date \<Rightarrow> bool" where "Date_gt = date_rel (>)"
definition Date_ge :: "Date \<Rightarrow> Date \<Rightarrow> bool" where "Date_ge = date_rel (\<ge>)"
definition Date_eq :: "Date \<Rightarrow> Date \<Rightarrow> bool" where "Date_eq = date_rel (=)"

subsection \<open>Weekdays, numbers, booleans\<close>

record Weekdays = BaseParameter +
  wd_bitmask :: u8

definition Weekdays_of_string :: "string \<Rightarrow> Weekdays result" where
  "Weekdays_of_string wd =
     (if length wd = 0 then Inr \<lparr>paramter_undefined = True, wd_bitmask = 0\<rparr>
      else rbind (weekdays_bitmask wd) (\<lambda>m. Inr \<lparr>paramter_undefined = False, wd_bitmask = m\<rparr>))"

definition Weekdays_of_Date :: "(int \<Rightarrow> u8) \<Rightarrow> Date \<Rightarrow> Weekdays" where
  "Weekdays_of_Date oob date =
     \<lparr>paramter_undefined = False, wd_bitmask = push_bit (unat (Date_day_of_week oob date)) 1\<rparr>"

definition get_bitmask :: "Weekdays \<Rightarrow> u8 result" where
  "get_bitmask w =
     (if paramter_undefined w then Inl (Error (''Weekdays value not defined'' @ [LF]) BadParameter)
      else Inr (wd_bitmask w))"

record Number = BaseParameter +
  num_value :: u32

definition Number_of_string :: "string \<Rightarrow> Number result" where
  "Number_of_string number =
     (if length number = 0 then Inr \<lparr>paramter_undefined = True, num_value = 0\<rparr>
      else rbind (stol number) (\<lambda>v. Inr \<lparr>paramter_undefined = False, num_value = word_of_int v\<rparr>))"

definition Number_of_u32 :: "u32 \<Rightarrow> Number" where
  "Number_of_u32 number = \<lparr>paramter_undefined = False, num_value = number\<rparr>"

definition get_value :: "Number \<Rightarrow> u32 result" where
  "get_value n =
     (if paramter_undefined n then Inl (Error (''Number value not defined'' @ [LF]) BadParameter)
      else Inr (num_value n))"

record Boolean = BaseParameter +
  bool_value :: bool

definition Boolean_of_string :: "string \<Rightarrow> Boolean result" where
  "Boolean_of_string param =
     (if length param = 0 then Inr \<lparr>paramter_undefined = True, bool_value = False\<rparr>
      else let p = toLowerCase param
           in if p = ''true'' then Inr \<lparr>paramter_undefined = False, bool_value = True\<rparr>
              else if p = ''false'' then Inr \<lparr>paramter_undefined = False, bool_value = False\<rparr>
              else Inl (Error (''Not a boolean type:'' @ param @ [LF]) BadParameter))"

definition Boolean_of_bool :: "bool \<Rightarrow> Boolean" where
  "Boolean_of_bool val = \<lparr>paramter_undefined = False, bool_value = val\<rparr>"

definition isTrue :: "Boolean \<Rightarrow> bool result" where
  "isTrue b =
     (if paramter_undefined b then Inl (Error (''Boolean value not defined'' @ [LF]) BadParameter)
      else Inr (bool_value b))"

definition isFalse :: "Boolean \<Rightarrow> bool result" where
  "isFalse b =
     (if paramter_undefined b then Inl (Error (''Boolean value not defined'' @ [LF]) BadParameter)
      else Inr (\<not> bool_value b))"

subsection \<open>Required and optional parameters\<close>

text \<open>
  The constructors' function-try-blocks catch \<^verbatim>\<open>types::Error\<close> only: an exception of the
  standard library passes through them.
\<close>

record 'a Optional =
  opt_base :: 'a
  parameter_name :: string
  parameter_value :: string

definition bad_parameter :: "string \<Rightarrow> string \<Rightarrow> exn \<Rightarrow> exn" where
  "bad_parameter name sep err =
     (case err of
        Error msg c \<Rightarrow> Error (''Bad parameter:'' @ name @ sep @ msg) BadParameter
      | StdException w \<Rightarrow> StdException w)"

definition Optional_of :: "(string \<Rightarrow> 'a result) \<Rightarrow> ObjectMap \<Rightarrow> string \<Rightarrow> 'a Optional result" where
  "Optional_of ctor params name =
     (case ctor (ObjectMap_at params name) of
        Inl err \<Rightarrow> Inl (bad_parameter name ''. '' err)
      | Inr b \<Rightarrow> Inr \<lparr>opt_base = b, parameter_name = name, parameter_value = ObjectMap_at params name\<rparr>)"

definition require_defined ::
    "(string \<Rightarrow> 'a BaseParameter_scheme result) \<Rightarrow> string \<Rightarrow> 'a BaseParameter_scheme result" where
  "require_defined ctor v =
     rbind (ctor v) (\<lambda>b. if isUndefined b then Inl (Error (''Must be defined'' @ [LF]) BadParameter) else Inr b)"

definition Required_of ::
    "(string \<Rightarrow> 'a BaseParameter_scheme result) \<Rightarrow> ObjectMap \<Rightarrow> string \<Rightarrow> 'a BaseParameter_scheme result" where
  "Required_of ctor params name =
     (case require_defined ctor (ObjectMap_at params name) of
        Inl err \<Rightarrow> Inl (bad_parameter name ''. '' err)
      | Inr b \<Rightarrow> Inr b)"

definition Required_of_Optional ::
    "(string \<Rightarrow> 'a BaseParameter_scheme result) \<Rightarrow> 'a BaseParameter_scheme Optional \<Rightarrow> 'a BaseParameter_scheme result" where
  "Required_of_Optional ctor parameter =
     (case require_defined ctor (parameter_value parameter) of
        Inl err \<Rightarrow> Inl (bad_parameter (parameter_name parameter) [LF] err)
      | Inr b \<Rightarrow> Inr b)"

section \<open>Lemmas on the codecs\<close>

subsection \<open>Places\<close>

lemma origin_roundtrip:
  assumes "length s = 3"
  shows "code_to_origin (origin_to_code s) = s"
proof -
  obtain a b c where s: "s = [a, b, c]"
    using assms by (auto simp: numeral_3_eq_3 length_Suc_conv)
  define x2 :: nat where "x2 = of_char b + 256 * of_char c"
  define x1 :: nat where "x1 = of_char a + 256 * x2"
  define n :: nat where "n = 256 * x1"
  have bounds: "of_char a < (256::nat)" "of_char b < (256::nat)" "of_char c < (256::nat)"
    by simp_all
  have "n < 4294967296" unfolding n_def x1_def x2_def by (rule three_bytes) (rule bounds)+
  moreover have "origin_to_code s = word_of_nat n"
    by (simp add: s origin_to_code_def PlaceCodec_int_def n_def x1_def x2_def)
  ultimately have n: "unat (origin_to_code s) = n" by (simp add: unat_of_nat)
  have d1: "n div 256 = x1" by (simp add: n_def)
  then have d2: "n div 65536 = x2"
    using div_mult2_eq [of n 256 256] div_low [OF bounds(1), of x2] by (simp add: x1_def)
  then have d3: "n div 16777216 = of_char c"
    using div_mult2_eq [of n 65536 256] div_low [OF bounds(2), of "of_char c"] by (simp add: x2_def)
  show ?thesis
    unfolding code_to_origin_def PlaceCodec_chars_def n
    using mod_low [OF bounds(1), of x2] mod_low [OF bounds(2), of "of_char c"]
    by (simp add: s d1 d2 d3 Let_def x1_def [symmetric] x2_def [symmetric])
       (metis char_of_mod_256 char_of_char)
qed

subsection \<open>Countries\<close>

lemma country_loop_found:
  assumes "i < length cs" "distinct cs" "\<forall>c \<in> set cs. length c = 2"
  shows "country_to_code_loop (cs ! i) x cs = Inr (of_nat (x + i))"
  using assms
proof (induction cs arbitrary: i x)
  case (Cons c cs)
  show ?case
  proof (cases i)
    case 0
    then show ?thesis by simp
  next
    case (Suc j)
    have "cs ! j \<noteq> c" using Cons.prems Suc by (auto simp: nth_mem)
    moreover have "length (cs ! j) = 2" "length c = 2" using Cons.prems Suc by (auto simp: nth_mem)
    ultimately have "\<not> (c ! 0 = cs ! j ! 0 \<and> c ! 1 = cs ! j ! 1)"
      by (auto simp: numeral_2_eq_2 length_Suc_conv)
    with Cons.IH [of j "Suc x"] Cons.prems Suc show ?thesis by auto
  qed
qed simp

lemma country_loop_sound:
  "country_to_code_loop s x cs = Inr c \<Longrightarrow>
    \<exists>i < length cs. c = of_nat (x + i) \<and> cs ! i ! 0 = s ! 0 \<and> cs ! i ! 1 = s ! 1"
proof (induction cs arbitrary: x)
  case (Cons a cs)
  show ?case
  proof (cases "a ! 0 = s ! 0 \<and> a ! 1 = s ! 1")
    case True
    with Cons.prems show ?thesis by (intro exI [of _ 0]) auto
  next
    case False
    with Cons.prems have "country_to_code_loop s (Suc x) cs = Inr c" by (simp split: if_splits)
    from Cons.IH [OF this] obtain i where "i < length cs" "c = of_nat (Suc x + i)"
        "cs ! i ! 0 = s ! 0" "cs ! i ! 1 = s ! 1"
      by blast
    then show ?thesis by (intro exI [of _ "Suc i"]) auto
  qed
qed simp

lemma COUNTRIES_length: "length COUNTRIES = 252"
  by (simp add: COUNTRIES_def)

lemma COUNTRIES_two: "\<forall>c \<in> set COUNTRIES. length c = 2"
proof -
  have "list_all (\<lambda>c. length c = 2) COUNTRIES" by (simp add: COUNTRIES_def)
  then show ?thesis by (simp add: list_all_iff)
qed

lemma COUNTRIES_distinct: "distinct COUNTRIES"
  by (simp add: COUNTRIES_def)

lemma country_to_code_nth: "i < 252 \<Longrightarrow> country_to_code (COUNTRIES ! i) = Inr (of_nat i)"
  using country_loop_found [of i COUNTRIES 0] COUNTRIES_distinct COUNTRIES_two COUNTRIES_length
  by (simp add: country_to_code_def)

lemma country_to_code_sound:
  assumes "country_to_code s = Inr c" and "length s = 2"
  shows "unat c < 252 \<and> COUNTRIES ! unat c = s"
proof -
  obtain i where i: "i < 252" "c = of_nat i" "COUNTRIES ! i ! 0 = s ! 0" "COUNTRIES ! i ! 1 = s ! 1"
    using country_loop_sound assms(1) COUNTRIES_length unfolding country_to_code_def by fastforce
  have u: "unat c = i" using i by (simp add: unat_of_nat)
  have "length (COUNTRIES ! i) = 2" using i COUNTRIES_two COUNTRIES_length by (simp add: nth_mem)
  then have "COUNTRIES ! i = s"
    using i assms(2) by (auto simp: numeral_2_eq_2 length_Suc_conv)
  with i u show ?thesis by simp
qed

subsection \<open>Dates\<close>

text \<open>The shape \<^verbatim>\<open>YYYY-MM-DD\<close>, and the number its digits spell.\<close>

definition iso_date :: "string \<Rightarrow> bool" where
  "iso_date s \<longleftrightarrow> length s = 10 \<and> s ! 4 = CHR ''-'' \<and> s ! 7 = CHR ''-'' \<and>
     list_all is_digit (take 4 s @ take 2 (drop 5 s) @ drop 8 s)"

definition iso_code :: "string \<Rightarrow> nat" where
  "iso_code s = digits_value (take 4 s @ take 2 (drop 5 s) @ drop 8 s)"

lemma iso_dateE:
  assumes "iso_date s"
  obtains a b c d e f g h where "s = [a, b, c, d, CHR ''-'', e, f, CHR ''-'', g, h]"
    "list_all is_digit [a, b, c, d, e, f, g, h]"
proof -
  obtain x0 x1 x2 x3 x4 x5 x6 x7 x8 x9 where "s = [x0, x1, x2, x3, x4, x5, x6, x7, x8, x9]"
    using assms by (auto simp: iso_date_def length_Suc_conv eval_nat_numeral)
  with assms that show thesis by (auto simp: iso_date_def)
qed

lemma date_to_int_iso:
  assumes "iso_date s"
  shows "date_to_int s = Inr (word_of_nat (iso_code s))"
proof -
  obtain a b c d e f g h where s: "s = [a, b, c, d, CHR ''-'', e, f, CHR ''-'', g, h]"
      and ds: "list_all is_digit [a, b, c, d, e, f, g, h]"
    using iso_dateE [OF assms] by metis
  have "digits_value [a, b, c, d, e, f, g, h] < 2 ^ 63"
    using digits_value_lt [OF ds] by simp
  then have "stol [a, b, c, d, e, f, g, h] = Inr (int (digits_value [a, b, c, d, e, f, g, h]))"
    using strtol_digits [of "[a, b, c, d, e, f, g, h]" "[]" 64] ds
    by (simp add: stol_def list_all_iff)
  then show ?thesis by (simp add: s date_to_int_def iso_code_def)
qed

lemma div_mod_parts:
  fixes y m d :: nat
  assumes "m < 100" "d < 100"
  shows "(10000 * y + 100 * m + d) div 10000 = y"
    and "(10000 * y + 100 * m + d - y * 10000) div 100 = m"
    and "10000 * y + 100 * m + d - y * 10000 - m * 100 = d"
  using assms by simp_all

lemma int_to_date_parts:
  fixes y m d :: nat
  assumes y: "y < 10000" and m: "m < 100" and d: "d < 100" and nz: "0 < 10000 * y + 100 * m + d"
  shows "int_to_date (word_of_nat (10000 * y + 100 * m + d)) =
    Inr (to_string y @ ''-'' @ (if m < 10 then ''0'' else []) @ to_string m
         @ ''-'' @ (if d < 10 then ''0'' else []) @ to_string d)"
proof -
  define w :: u32 where "w = word_of_nat (10000 * y + 100 * m + d)"
  have small: "10000 * y + 100 * m + d < 4294967296" using assms by linarith
  then have uw: "unat w = 10000 * y + 100 * m + d" by (simp only: w_def unat_of_nat) simp
  define yy :: u16 where "yy = ucast (w div 10000)"
  have "unat (w div 10000) = y"
    using div_mod_parts(1) [OF m d, of y] by (simp add: unat_div uw)
  then have uy: "unat yy = y" using y by (simp add: yy_def unat_ucast_u16 unat_ucast_u32)
  have "unat (ucast yy * 10000 :: u32) = y * 10000"
    using y uy by (simp add: unat_word_ariths unat_ucast_u16 unat_ucast_u32)
  moreover have "y * 10000 \<le> unat w" by (simp add: uw)
  ultimately have s1: "unat (w - ucast yy * 10000) = unat w - y * 10000"
    by (simp add: unat_sub word_le_nat_alt)
  define mm :: u16 where "mm = ucast ((w - ucast yy * 10000) div 100)"
  have "unat ((w - ucast yy * 10000) div 100) = m"
    using div_mod_parts(2) [OF m d, of y] by (simp only: unat_div s1 uw) simp
  then have um: "unat mm = m" using m by (simp add: mm_def unat_ucast_u16 unat_ucast_u32)
  have "unat (ucast mm * 100 :: u32) = m * 100"
    using m um by (simp add: unat_word_ariths unat_ucast_u16 unat_ucast_u32)
  moreover have "m * 100 \<le> unat w - y * 10000" by (simp add: uw)
  ultimately have s2: "unat (w - ucast yy * 10000 - ucast mm * 100) = unat w - y * 10000 - m * 100"
    using s1 by (simp add: unat_sub word_le_nat_alt)
  define dd :: u16 where "dd = ucast (w - ucast yy * 10000 - ucast mm * 100)"
  have ud: "unat dd = d" using d s2 by (simp add: dd_def unat_ucast_u16 uw)
  have "w \<noteq> 0" using nz uw by auto
  moreover have "(mm < 10) = (m < 10)" "(dd < 10) = (d < 10)"
    using um ud by (simp_all add: word_less_nat_alt)
  ultimately show ?thesis
    unfolding w_def [symmetric] int_to_date_def Let_def
    unfolding yy_def [symmetric] unfolding mm_def [symmetric] unfolding dd_def [symmetric]
    by (simp add: uy um ud)
qed

lemma date_roundtrip:
  assumes "iso_date s" and "s ! 0 \<noteq> CHR ''0''"
  shows "\<exists>c. date_to_int s = Inr c \<and> int_to_date c = Inr s"
proof -
  obtain a b c d e f g h where s: "s = [a, b, c, d, CHR ''-'', e, f, CHR ''-'', g, h]"
      and ds: "list_all is_digit [a, b, c, d, e, f, g, h]"
    using iso_dateE [OF assms(1)] by metis
  note v = digit_val_lt
  let ?y = "1000 * digit_val a + 100 * digit_val b + 10 * digit_val c + digit_val d"
  let ?m = "10 * digit_val e + digit_val f"
  let ?d = "10 * digit_val g + digit_val h"
  have lt: "digit_val a < 10" "digit_val b < 10" "digit_val c < 10" "digit_val d < 10"
      "digit_val e < 10" "digit_val f < 10" "digit_val g < 10" "digit_val h < 10"
    using ds by (simp_all add: v)
  have a0: "0 < digit_val a"
  proof (rule ccontr)
    assume "\<not> 0 < digit_val a"
    then have "digit_char (digit_val a) = CHR ''0''" by (simp add: digit_char_0)
    with digit_char_val [of a] ds assms(2) s show False by simp
  qed
  have code: "iso_code s = 10000 * ?y + 100 * ?m + ?d"
    by (simp add: s iso_code_def digits_value_def)
  have "int_to_date (word_of_nat (iso_code s)) = Inr s"
    unfolding code
    by (subst int_to_date_parts)
       (use lt a0 ds in \<open>simp_all add: s digit_char_val to_string4 to_string2 [simplified append_Cons append_assoc]\<close>)
  then show ?thesis using date_to_int_iso [OF assms(1)] by blast
qed

subsection \<open>Weekdays\<close>

lemma day_of_week_from_str_eq:
  "i < 7 \<Longrightarrow> toLowerCase t = days ! i \<Longrightarrow> day_of_week_from_str t = of_nat i"
  "(\<forall>i < 7. toLowerCase t \<noteq> days ! i) \<Longrightarrow> day_of_week_from_str t = 7"
proof -
  assume i: "i < 7" and t: "toLowerCase t = days ! i"
  have "i = 0 \<or> i = 1 \<or> i = 2 \<or> i = 3 \<or> i = 4 \<or> i = 5 \<or> i = 6" using i by arith
  then show "day_of_week_from_str t = of_nat i"
    by (elim disjE) (use t in \<open>simp_all add: day_of_week_from_str_def days_def\<close>)
next
  assume n: "\<forall>i < 7. toLowerCase t \<noteq> days ! i"
  have "toLowerCase t \<noteq> days ! 0" "toLowerCase t \<noteq> days ! 1" "toLowerCase t \<noteq> days ! 2"
    "toLowerCase t \<noteq> days ! 3" "toLowerCase t \<noteq> days ! 4" "toLowerCase t \<noteq> days ! 5"
    "toLowerCase t \<noteq> days ! 6" using n by simp_all
  then show "day_of_week_from_str t = 7"
    by (auto simp: day_of_week_from_str_def days_def)
qed

lemma days_distinct: "i < 7 \<Longrightarrow> j < 7 \<Longrightarrow> days ! i = days ! j \<longleftrightarrow> i = j"
proof -
  have "distinct days" and "length days = 8" by (simp_all add: days_def)
  then show "i < 7 \<Longrightarrow> j < 7 \<Longrightarrow> days ! i = days ! j \<longleftrightarrow> i = j"
    by (simp add: nth_eq_iff_index_eq)
qed

lemma daymask_cases:
  shows "i < 7 \<Longrightarrow> toLowerCase t = days ! i \<Longrightarrow>
      day_of_week_bitmask_from_str t = 2 ^ i \<and> \<not> day_of_week_bitmask_from_str t > 64"
    and "(\<forall>i < 7. toLowerCase t \<noteq> days ! i) \<Longrightarrow> day_of_week_bitmask_from_str t > 64"
proof -
  assume i: "i < 7" and t: "toLowerCase t = days ! i"
  have "i = 0 \<or> i = 1 \<or> i = 2 \<or> i = 3 \<or> i = 4 \<or> i = 5 \<or> i = 6" using i by arith
  then show "day_of_week_bitmask_from_str t = 2 ^ i \<and> \<not> day_of_week_bitmask_from_str t > 64"
    by (elim disjE) (use day_of_week_from_str_eq(1) [OF i t] in \<open>simp_all add: day_of_week_bitmask_from_str_def push_bit_eq_mult\<close>)
next
  assume "\<forall>i < 7. toLowerCase t \<noteq> days ! i"
  then show "day_of_week_bitmask_from_str t > 64"
    by (simp add: day_of_week_bitmask_from_str_def day_of_week_from_str_eq(2) push_bit_eq_mult)
qed

lemma bit_daymask: "i < 7 \<Longrightarrow> bit (2 ^ i :: u8) j \<longleftrightarrow> j = i"
  by (auto simp: bit_exp_iff)

lemma weekdays_loop_bits:
  "weekdays_bitmask_loop s acc ts = Inr m \<Longrightarrow>
   bit m j \<longleftrightarrow> bit acc j \<or> (j < 7 \<and> (\<exists>t \<in> set ts. toLowerCase t = days ! j))"
proof (induction ts arbitrary: acc)
  case (Cons t ts)
  show ?case
  proof (cases "\<exists>i < 7. toLowerCase t = days ! i")
    case True
    then obtain i where i: "i < 7" "toLowerCase t = days ! i" by blast
    with Cons.prems have "weekdays_bitmask_loop s (acc OR 2 ^ i) ts = Inr m"
      using daymask_cases(1) [OF i] by (simp add: Let_def split: if_splits)
    from Cons.IH [OF this] i show ?thesis
      by (auto simp: bit_or_iff bit_daymask days_distinct)
  next
    case False
    with Cons.prems daymask_cases(2) [of t] show ?thesis by (simp add: Let_def)
  qed
qed simp

lemma weekdays_loop_error:
  "(\<exists>e. weekdays_bitmask_loop s acc ts = Inl e) \<longleftrightarrow> (\<exists>t \<in> set ts. \<forall>i < 7. toLowerCase t \<noteq> days ! i)"
proof (induction ts arbitrary: acc)
  case (Cons t ts)
  then show ?case
    using daymask_cases(1) [of _ t] daymask_cases(2) [of t]
    by (cases "\<exists>i < 7. toLowerCase t = days ! i") (auto simp: Let_def)
qed simp

lemma weekdays_bitmask_bits:
  assumes "weekdays_bitmask s = Inr m"
  shows "m \<noteq> 0 \<and> (\<forall>j. bit m j \<longleftrightarrow> j < 7 \<and> (\<exists>t \<in> set (split_on '','' s). toLowerCase t = days ! j))"
  using assms weekdays_loop_bits [of s 0 "split_on '','' s"]
  by (auto simp: weekdays_bitmask_def rbind_eq_Inr split: if_splits)

subsection \<open>Dates as calendar days\<close>

definition iso_year :: "string \<Rightarrow> nat" where "iso_year s = digits_value (take 4 s)"
definition iso_month :: "string \<Rightarrow> nat" where "iso_month s = digits_value (take 2 (drop 5 s))"
definition iso_day :: "string \<Rightarrow> nat" where "iso_day s = digits_value (drop 8 s)"

definition iso_ymd :: "string \<Rightarrow> int \<times> int \<times> int" where
  "iso_ymd s = (int (iso_year s), int (iso_month s), int (iso_day s))"

lemma iso_parts:
  assumes "iso_date s"
  shows "iso_code s = 10000 * iso_year s + 100 * iso_month s + iso_day s"
    and "iso_year s < 10000" and "iso_month s < 100" and "iso_day s < 100"
proof -
  obtain a b c d e f g h where s: "s = [a, b, c, d, CHR ''-'', e, f, CHR ''-'', g, h]"
      and ds: "list_all is_digit [a, b, c, d, e, f, g, h]"
    using iso_dateE [OF assms] by metis
  show "iso_code s = 10000 * iso_year s + 100 * iso_month s + iso_day s"
    by (simp add: s iso_code_def iso_year_def iso_month_def iso_day_def digits_value_def)
  show "iso_year s < 10000" "iso_month s < 100" "iso_day s < 100"
    using digits_value_lt [of "[a, b, c, d]"] digits_value_lt [of "[e, f]"] digits_value_lt [of "[g, h]"] ds
    by (simp_all add: s iso_year_def iso_month_def iso_day_def)
qed

lemma Date_of_iso:
  assumes "iso_date s"
  shows "\<exists>d. Date_of_string s = Inr d \<and> isDefined d \<and> unat (date_code d) = iso_code s \<and>
    unat (date_year d) = iso_year s \<and> unat (date_month d) = iso_month s \<and> unat (date_day d) = iso_day s"
proof -
  note p = iso_parts [OF assms]
  let ?w = "word_of_nat (iso_code s) :: u32"
  have "iso_code s < 4294967296" using p by simp
  then have u: "unat ?w = iso_code s" by (simp add: unat_of_nat)
  have q: "iso_code s mod 100 = iso_day s" "iso_code s div 100 mod 100 = iso_month s"
      "iso_code s div 10000 = iso_year s"
  proof -
    have e: "iso_code s = iso_day s + 100 * (iso_month s + 100 * iso_year s)" using p(1) by simp
    show "iso_code s mod 100 = iso_day s" unfolding e by (rule mod_low [OF p(4)])
    have "iso_code s div 100 = iso_month s + 100 * iso_year s" unfolding e by (rule div_low [OF p(4)])
    then show "iso_code s div 100 mod 100 = iso_month s" by (simp only: mod_low [OF p(3)])
    show "iso_code s div 10000 = iso_year s" using p by simp
  qed
  have m: "unat (?w mod 100) = iso_day s" "unat (?w div 100 mod 100) = iso_month s"
    "unat (?w div 10000) = iso_year s"
    by (simp_all add: unat_div unat_mod_distrib u q)
  have "iso_date s \<Longrightarrow> length s \<noteq> 0" by (simp add: iso_date_def)
  with assms m p u show ?thesis
    by (simp add: Date_of_string_def date_to_int_iso isDefined_def unsigned_ucast_eq take_bit_nat_def)
qed

lemma code_order:
  fixes y1 m1 d1 y2 m2 d2 :: nat
  assumes "m1 < 100" "d1 < 100" "m2 < 100" "d2 < 100"
  shows "10000 * y1 + 100 * m1 + d1 < 10000 * y2 + 100 * m2 + d2 \<longleftrightarrow>
    y1 < y2 \<or> (y1 = y2 \<and> (m1 < m2 \<or> (m1 = m2 \<and> d1 < d2)))"
  using assms by arith

lemma uint_of_unat: "unat w = n \<Longrightarrow> uint w = int n"
  by auto

lemma days_after_iso:
  assumes "iso_date s1" "iso_date s2" "valid_date (iso_ymd s1)"
    and "(next_date ^^ n) (iso_ymd s1) = iso_ymd s2"
    and "Date_of_string s1 = Inr d1" "Date_of_string s2 = Inr d2"
  shows "days_after d2 d1 = of_nat n"
proof -
  have y1: "(uint (date_year d1), uint (date_month d1), uint (date_day d1)) = iso_ymd s1"
    using Date_of_iso [OF assms(1)] assms(5) by (auto simp: iso_ymd_def uint_of_unat)
  have y2: "(uint (date_year d2), uint (date_month d2), uint (date_day d2)) = iso_ymd s2"
    using Date_of_iso [OF assms(2)] assms(6) by (auto simp: iso_ymd_def uint_of_unat)
  show ?thesis
    unfolding days_after_def
    by (rule days_between_iterate) (use assms y1 y2 in auto)
qed

section \<open>Properties\<close>

text \<open>
  Place codes round-trip: unpacking the packed form of any three bytes gives them back,
  so no two IATA codes share a stored code.
\<close>

theorem origin_code_roundtrip:
  "length s = 3 \<Longrightarrow> code_to_origin (origin_to_code s) = s"
  by (rule origin_roundtrip)

theorem origin_code_roundtrip_witness:
  "code_to_origin (origin_to_code ''MOW'') = ''MOW''"
  by (rule origin_code_roundtrip) simp

text \<open>
  Country codes: a two-letter string has the code \<open>c\<close> exactly when \<open>c\<close> indexes the
  table of 252 countries and decoding \<open>c\<close> gives the string back (whatever lies behind
  the table).
\<close>

theorem country_code_roundtrip:
  assumes "length s = 2"
  shows "country_to_code s = Inr c \<longleftrightarrow> unat c < 252 \<and> code_to_country oob c = Inr s"
proof
  assume "country_to_code s = Inr c"
  with country_to_code_sound [OF this assms] show "unat c < 252 \<and> code_to_country oob c = Inr s"
    by (simp add: code_to_country_def COUNTRIES_length)
next
  assume "unat c < 252 \<and> code_to_country oob c = Inr s"
  then show "country_to_code s = Inr c"
    using country_to_code_nth [of "unat c"] by (auto simp: code_to_country_def COUNTRIES_length)
qed

theorem country_code_roundtrip_witness:
  "country_to_code ''RU'' = Inr 184 \<longleftrightarrow> unat (184 :: u8) < 252 \<and> code_to_country [] 184 = Inr ''RU''"
  by (rule country_code_roundtrip) simp

text \<open>
  C32. Dates round-trip: a string of the shape \<^verbatim>\<open>YYYY-MM-DD\<close> that names a day of the calendar and
  whose year has four significant digits is accepted, and printing its code gives the same string.
\<close>

theorem date_text_roundtrip:
  assumes "iso_date s" and "valid_date (iso_ymd s)" and "s ! 0 \<noteq> CHR ''0''"
  shows "\<exists>c. date_to_int s = Inr c \<and> int_to_date c = Inr s"
  using assms(1,3) by (rule date_roundtrip)

theorem date_text_roundtrip_witness:
  "\<exists>c. date_to_int ''2017-01-01'' = Inr c \<and> int_to_date c = Inr ''2017-01-01''"
proof (rule date_text_roundtrip)
  show "iso_date ''2017-01-01''" by (simp add: iso_date_def is_digit_def in_range_def)
  show "valid_date (iso_ymd ''2017-01-01'')"
    by (simp add: iso_ymd_def iso_year_def iso_month_def iso_day_def digits_value_def digit_val_def valid_date_def days_in_month_def)
qed simp

text \<open>The calendar is not consulted: a day that does not exist is accepted as well.\<close>

theorem impossible_date_accepted: "\<exists>c. date_to_int ''2016-02-31'' = Inr c"
  using date_roundtrip [of "''2016-02-31''"] by (auto simp: iso_date_def is_digit_def in_range_def)

text \<open>
  Dates compare as days: for two accepted \<^verbatim>\<open>YYYY-MM-DD\<close> strings the operator
  \<^verbatim>\<open><\<close> on the parsed dates is the lexicographic order of year, month and day.
\<close>

theorem date_order:
  assumes "iso_date s1" "iso_date s2" "Date_of_string s1 = Inr d1" "Date_of_string s2 = Inr d2"
  shows "Date_less d1 d2 \<longleftrightarrow>
    iso_year s1 < iso_year s2 \<or> (iso_year s1 = iso_year s2 \<and>
      (iso_month s1 < iso_month s2 \<or> (iso_month s1 = iso_month s2 \<and> iso_day s1 < iso_day s2)))"
proof -
  have d1: "unat (date_code d1) = iso_code s1" "isDefined d1"
    using Date_of_iso [OF assms(1)] assms(3) by auto
  have d2: "unat (date_code d2) = iso_code s2" "isDefined d2"
    using Date_of_iso [OF assms(2)] assms(4) by auto
  have "Date_less d1 d2 \<longleftrightarrow> iso_code s1 < iso_code s2"
    using d1 d2 by (simp add: Date_less_def date_rel_def isDefined_def isUndefined_def word_less_nat_alt)
  then show ?thesis
    using code_order [of "iso_month s1" "iso_day s1" "iso_month s2" "iso_day s2"]
      iso_parts [OF assms(1)] iso_parts [OF assms(2)] by simp
qed

definition sample_date :: "u32 \<Rightarrow> Date" where
  "sample_date c = \<lparr>paramter_undefined = False, date_code = c, date_day = ucast (c mod 100),
     date_month = ucast (c div 100 mod 100), date_year = ucast (c div 10000)\<rparr>"

lemma Date_of_string_sample:
  "iso_date s \<Longrightarrow> Date_of_string s = Inr (sample_date (word_of_nat (iso_code s)))"
  by (auto simp: Date_of_string_def date_to_int_iso sample_date_def iso_date_def)

theorem date_order_witness:
  "Date_less (sample_date 20161231) (sample_date 20170101) \<longleftrightarrow>
    iso_year ''2016-12-31'' < iso_year ''2017-01-01'' \<or>
    (iso_year ''2016-12-31'' = iso_year ''2017-01-01'' \<and>
      (iso_month ''2016-12-31'' < iso_month ''2017-01-01'' \<or>
       (iso_month ''2016-12-31'' = iso_month ''2017-01-01'' \<and> iso_day ''2016-12-31'' < iso_day ''2017-01-01'')))"
proof (rule date_order)
  show i: "iso_date ''2016-12-31''" "iso_date ''2017-01-01''"
    by (simp_all add: iso_date_def is_digit_def in_range_def)
  show "Date_of_string ''2016-12-31'' = Inr (sample_date 20161231)"
       "Date_of_string ''2017-01-01'' = Inr (sample_date 20170101)"
    using Date_of_string_sample [OF i(1)] Date_of_string_sample [OF i(2)]
    by (simp_all add: iso_code_def digits_value_def digit_val_def)
qed

text \<open>
  C33. \<^verbatim>\<open>Date::days_after\<close> counts calendar days: when the second date is the one
  \<open>n\<close> days after the first in the Gregorian calendar, the difference is \<open>n\<close>
  (modulo \<open>2 ^ 32\<close>, the width of the result).
\<close>

theorem days_after_counts_days:
  assumes "iso_date s1" "iso_date s2" "valid_date (iso_ymd s1)"
    and "(next_date ^^ n) (iso_ymd s1) = iso_ymd s2"
    and "Date_of_string s1 = Inr d1" "Date_of_string s2 = Inr d2"
  shows "days_after d2 d1 = of_nat n"
  using assms by (rule days_after_iso)

theorem days_after_counts_days_witness:
  "days_after (sample_date 20150301) (sample_date 20150228) = of_nat 1"
proof (rule days_after_counts_days)
  show i: "iso_date ''2015-02-28''" "iso_date ''2015-03-01''"
    by (simp_all add: iso_date_def is_digit_def in_range_def)
  show "valid_date (iso_ymd ''2015-02-28'')"
    "(next_date ^^ 1) (iso_ymd ''2015-02-28'') = iso_ymd ''2015-03-01''"
    by (simp_all add: iso_ymd_def iso_year_def iso_month_def iso_day_def digits_value_def digit_val_def
        valid_date_def next_date_def days_in_month_def leap_def)
  show "Date_of_string ''2015-02-28'' = Inr (sample_date 20150228)"
       "Date_of_string ''2015-03-01'' = Inr (sample_date 20150301)"
    using Date_of_string_sample [OF i(1)] Date_of_string_sample [OF i(2)]
    by (simp_all add: iso_code_def digits_value_def digit_val_def)
qed

text \<open>
  Weekday filters: a list of days that parses gives a non-empty mask in which bit
  \<open>j\<close> is set exactly when the \<open>j\<close>-th day of the week is one of the tokens (in any
  case); nothing outside Monday to Sunday is ever set.
\<close>

theorem weekdays_mask_exact:
  assumes "weekdays_bitmask s = Inr m"
  shows "m \<noteq> 0 \<and> (\<forall>j. bit m j \<longleftrightarrow> j < 7 \<and> (\<exists>t \<in> set (split_on '','' s). toLowerCase t = days ! j))"
  using assms by (rule weekdays_bitmask_bits)

theorem weekdays_mask_exact_witness:
  "(35 :: u8) \<noteq> 0 \<and> (\<forall>j. bit (35 :: u8) j \<longleftrightarrow> j < 7 \<and>
     (\<exists>t \<in> set (split_on '','' ''mon,Tue,SAT''). toLowerCase t = days ! j))"
  by (rule weekdays_mask_exact) code_simp

end
