(* ===== verification/Http.thy ===== *)
theory Http
  imports Types
begin

text \<open>
  Model of \<^verbatim>\<open>src/http.hpp\<close> and \<^verbatim>\<open>src/http.cpp\<close>: the incremental request parser and
  the response writer.  Sizes (\<^verbatim>\<open>size_t\<close>) are natural numbers; only the content length,
  which is converted from a signed number, can wrap, and the conversion is written out.
\<close>

section \<open>Parsing\<close>

datatype ParserResult = PARSE_OK | PARSE_AWAIT | PARSE_ERR

type_synonym HttpHeaders = ObjectMap

definition header_end :: string where "header_end = [CR, LF, CR, LF]"

text \<open>One line of the loop in \<^verbatim>\<open>HttpHeaders::parse\<close>.\<close>

definition parse_header_line :: "HttpHeaders \<Rightarrow> string \<Rightarrow> HttpHeaders" where
  "parse_header_line headers line =
     (case find_sub '':'' line of
        None \<Rightarrow> headers
      | Some hpos \<Rightarrow>
          let name = toLowerCase (take hpos line);
              hpos' = (if hpos + 1 < length line \<and> line ! (hpos + 1) = CHR '' '' then hpos + 1 else hpos)
          in add_object headers \<lparr>obj_name = name, obj_value = drop (hpos' + 1) line\<rparr>)"

definition HttpHeaders_parse :: "HttpHeaders \<Rightarrow> string \<Rightarrow> ParserResult \<times> HttpHeaders" where
  "HttpHeaders_parse headers http_message =
     (if length http_message = 0 then (PARSE_ERR, headers)
      else case find_sub header_end http_message of
        None \<Rightarrow> (PARSE_AWAIT, headers)
      | Some pos \<Rightarrow>
          let http_headers = take pos http_message;
              http_headers_lines = split_on crlf http_headers
          in if length http_headers_lines = 0 then (PARSE_ERR, headers)
             else (PARSE_OK, foldl parse_header_line headers (tl http_headers_lines)))"

record URIQueryParams =
  params :: ObjectMap
  path :: string

definition parse_param :: "ObjectMap \<Rightarrow> string \<Rightarrow> ObjectMap" where
  "parse_param ps param =
     (case find_sub ''='' param of
        None \<Rightarrow> add_object ps \<lparr>obj_name = param, obj_value = []\<rparr>
      | Some pos \<Rightarrow> add_object ps \<lparr>obj_name = take pos param, obj_value = drop (pos + 1) param\<rparr>)"

definition URIQueryParams_parse :: "URIQueryParams \<Rightarrow> string \<Rightarrow> ParserResult \<times> URIQueryParams" where
  "URIQueryParams_parse q query_text =
     (if length query_text = 0 then (PARSE_ERR, q)
      else case find_sub ''?'' query_text of
        None \<Rightarrow> (PARSE_OK, q\<lparr>path := query_text\<rparr>)
      | Some pos \<Rightarrow>
          let query_params = split_on ''&'' (drop (pos + 1) query_text)
          in (PARSE_OK, q\<lparr>path := take pos query_text, params := foldl parse_param (params q) query_params\<rparr>))"

record HttpRequest =
  req_method :: string
  uri :: string
  http_version :: string
  query :: URIQueryParams

definition HttpRequest_parse :: "HttpRequest \<Rightarrow> string \<Rightarrow> ParserResult \<times> HttpRequest" where
  "HttpRequest_parse r requestline =
     (if length requestline = 0 then (PARSE_ERR, r)
      else case find_sub crlf requestline of
        None \<Rightarrow> (PARSE_ERR, r)
      | Some pos \<Rightarrow>
          let res = split_on '' '' (take pos requestline)
          in if length res \<noteq> 3 then (PARSE_ERR, r)
             else let r1 = r\<lparr>req_method := res ! 0, uri := res ! 1, http_version := res ! 2\<rparr>;
                      (rc, q) = URIQueryParams_parse (query r1) (uri r1)
                  in (rc, r1\<lparr>query := q\<rparr>))"

section \<open>The incremental parser\<close>

record HttpParser =
  headers :: HttpHeaders
  request :: HttpRequest
  msgs :: "string list"
  headers_end :: nat
  bytes_written :: nat
  content_length :: nat
  headers_written :: bool
  parsing_complete :: bool
  bad_request :: bool

definition HttpRequest_init :: HttpRequest where
  "HttpRequest_init = \<lparr>req_method = [], uri = [], http_version = [], query = \<lparr>params = [], path = []\<rparr>\<rparr>"

definition HttpParser_init :: HttpParser where
  "HttpParser_init = \<lparr>headers = [], request = HttpRequest_init, msgs = [], headers_end = 0,
     bytes_written = 0, content_length = 0, headers_written = False, parsing_complete = False,
     bad_request = False\<rparr>"

definition is_request_complete :: "HttpParser \<Rightarrow> bool" where "is_request_complete p = parsing_complete p"
definition is_bad_request :: "HttpParser \<Rightarrow> bool" where "is_bad_request p = bad_request p"
definition is_headers_complete :: "HttpParser \<Rightarrow> bool" where "is_headers_complete p = headers_written p"

text \<open>
  \<^verbatim>\<open>content_length = std::stol(...)\<close>: a negative number converts to \<^verbatim>\<open>size_t\<close> modulo
  \<open>2 ^ 64\<close>; a conversion that throws leaves the field alone.
\<close>

definition read_content_length :: "HttpHeaders \<Rightarrow> nat \<Rightarrow> nat" where
  "read_content_length hs old =
     (let v = ObjectMap_at hs ''content-length''
      in if length v \<noteq> 0
         then (case stol v of Inl _ \<Rightarrow> old | Inr n \<Rightarrow> nat (n mod 2 ^ 64))
         else old)"

definition post_check :: "HttpParser \<Rightarrow> HttpParser" where
  "post_check p =
     (if req_method (request p) = ''POST''
      then if bytes_written p - headers_end p < content_length p then p
           else p\<lparr>parsing_complete := True\<rparr>
      else p)"

definition HttpParser_write :: "HttpParser \<Rightarrow> string \<Rightarrow> HttpParser" where
  "HttpParser_write p0 msg =
     (let p = p0\<lparr>msgs := msgs p0 @ [msg], bytes_written := bytes_written p0 + length msg\<rparr>
      in if \<not> headers_written p
         then let concated_msg = concat_string (msgs p)
              in case find_sub header_end concated_msg of
                   None \<Rightarrow> p
                 | Some pos \<Rightarrow>
                     (case HttpHeaders_parse (headers p) concated_msg of
                        (rc, hs) \<Rightarrow>
                          if rc \<noteq> PARSE_OK then p\<lparr>headers := hs\<rparr>
                          else let p1 = p\<lparr>headers := hs, headers_end := pos + 4, headers_written := True,
                                          content_length := read_content_length hs (content_length p)\<rparr>
                               in (case HttpRequest_parse (request p1) concated_msg of
                                     (rc', r) \<Rightarrow>
                                       if rc' \<noteq> PARSE_OK then p1\<lparr>request := r, bad_request := True\<rparr>
                                       else let p2 = p1\<lparr>request := r\<rparr>;
                                                p3 = (if req_method r = ''GET''
                                                      then p2\<lparr>parsing_complete := True\<rparr> else p2)
                                            in post_check p3))
         else post_check p)"

definition get_body :: "HttpParser \<Rightarrow> string" where
  "get_body p = drop (headers_end p) (concat_string (msgs p))"

definition get_headers :: "HttpParser \<Rightarrow> string" where
  "get_headers p = take (headers_end p) (concat_string (msgs p))"

definition get_request_line :: "HttpParser \<Rightarrow> string" where
  "get_request_line p =
     (let hs = get_headers p
      in case find_sub crlf hs of None \<Rightarrow> hs | Some pos \<Rightarrow> take pos hs)"

section \<open>Responses\<close>

record HttpResponse =
  status_code :: u16
  reason_phrase :: string
  resp_headers :: "string list"
  resp_body :: "string list"

definition HttpResponse_new :: "u16 \<Rightarrow> string \<Rightarrow> HttpResponse" where
  "HttpResponse_new code reason =
     \<lparr>status_code = code, reason_phrase = reason, resp_headers = [], resp_body = []\<rparr>"

definition HttpResponse_body :: "u16 \<Rightarrow> string \<Rightarrow> string \<Rightarrow> HttpResponse" where
  "HttpResponse_body code reason b =
     \<lparr>status_code = code, reason_phrase = reason, resp_headers = [], resp_body = [b]\<rparr>"

definition add_header :: "HttpResponse \<Rightarrow> string \<Rightarrow> string \<Rightarrow> HttpResponse" where
  "add_header r name value = r\<lparr>resp_headers := resp_headers r @ [name @ '': '' @ value @ crlf]\<rparr>"

definition HttpResponse_write :: "HttpResponse \<Rightarrow> string \<Rightarrow> HttpResponse" where
  "HttpResponse_write r msg = r\<lparr>resp_body := resp_body r @ [msg]\<rparr>"

definition HttpResponse_string :: "HttpResponse \<Rightarrow> string" where
  "HttpResponse_string r =
     (''HTTP/1.0 '' @ to_string (unat (status_code r)) @ '' '' @ reason_phrase r @ crlf)
     @ concat (resp_headers r) @ crlf @ concat_string (resp_body r)"

section \<open>The parser state as a function of the bytes received\<close>

text \<open>What a completed header section determines: its end, the headers, and the request line.\<close>

definition scan_head :: "string \<Rightarrow> (nat \<times> HttpHeaders \<times> ParserResult \<times> HttpRequest) option" where
  "scan_head m =
     (case find_sub header_end m of
        None \<Rightarrow> None
      | Some pos \<Rightarrow>
          (case HttpHeaders_parse [] m of
             (rc, hs) \<Rightarrow> if rc \<noteq> PARSE_OK then None
                        else (case HttpRequest_parse HttpRequest_init m of (rc', r) \<Rightarrow> Some (pos + 4, hs, rc', r))))"

lemma header_end_crlf: "find_sub header_end m = Some pos \<Longrightarrow> \<exists>q. find_sub crlf m = Some q"
proof -
  assume a: "find_sub header_end m = Some pos"
  have "sublist crlf header_end" by (simp add: crlf_def header_end_def sublist_code)
  moreover have "sublist header_end m" using a find_sub_None [of header_end m] by simp
  ultimately have "sublist crlf m" by (metis sublist_order.order_trans)
  then show ?thesis using find_sub_None [of crlf m] by (cases "find_sub crlf m") auto
qed

lemma find_sub_Some_le: "find_sub pat xs = Some p \<Longrightarrow> p \<le> length xs"
  using find_sub_Some [of pat xs p] by simp

lemma scan_head_append:
  assumes "scan_head m = Some x"
  shows "scan_head (m @ c) = Some x"
proof -
  from assms obtain pos where pos: "find_sub header_end m = Some pos"
    by (auto simp: scan_head_def split: option.splits)
  have nz: "m \<noteq> []" using pos by (auto simp: header_end_def)
  obtain q where q: "find_sub crlf m = Some q" using header_end_crlf [OF pos] ..
  have pos': "find_sub header_end (m @ c) = Some pos" and q': "find_sub crlf (m @ c) = Some q"
    using pos q by (simp_all add: find_sub_append)
  have "pos \<le> length m" "q \<le> length m"
    using find_sub_Some_le [OF pos] find_sub_Some_le [OF q] by simp_all
  then have "HttpHeaders_parse h (m @ c) = HttpHeaders_parse h m"
      "HttpRequest_parse r (m @ c) = HttpRequest_parse r m" for h r
    using nz pos q pos' q' by (simp_all add: HttpHeaders_parse_def HttpRequest_parse_def)
  with pos pos' assms show ?thesis by (simp add: scan_head_def split: prod.splits if_splits)
qed

lemma scan_head_bound: "scan_head m = Some (e, hs, rc, r) \<Longrightarrow> e \<le> length m"
  using find_sub_Some [of header_end m]
  by (auto simp: scan_head_def header_end_def split: option.splits prod.splits if_splits)

definition request_received :: "HttpRequest \<Rightarrow> nat \<Rightarrow> nat \<Rightarrow> bool" where
  "request_received r expected body_bytes \<longleftrightarrow>
     req_method r = ''GET'' \<or> req_method r = ''POST'' \<and> expected \<le> body_bytes"

text \<open>
  The state after the bytes \<open>m\<close>.  After a malformed request line the completion flag is left
  open: \<^verbatim>\<open>write\<close> goes on to the length check when further data arrives.
\<close>

definition parser_at :: "string \<Rightarrow> HttpParser \<Rightarrow> bool" where
  "parser_at m p \<longleftrightarrow>
     concat (msgs p) = m \<and> bytes_written p = length m \<and>
     (case scan_head m of
        None \<Rightarrow> headers p = [] \<and> request p = HttpRequest_init \<and> headers_end p = 0 \<and> content_length p = 0
                \<and> \<not> headers_written p \<and> \<not> parsing_complete p \<and> \<not> bad_request p
      | Some (e, hs, rc, r) \<Rightarrow>
          headers p = hs \<and> request p = r \<and> headers_end p = e \<and> content_length p = read_content_length hs 0
          \<and> headers_written p \<and> bad_request p = (rc \<noteq> PARSE_OK)
          \<and> (rc = PARSE_OK \<longrightarrow>
               parsing_complete p = request_received r (read_content_length hs 0) (length m - e)))"

lemma HttpHeaders_parse_rc: "HttpHeaders_parse h m = (rc, hs) \<Longrightarrow> rc \<noteq> PARSE_OK \<Longrightarrow> hs = h"
  by (auto simp: HttpHeaders_parse_def Let_def split: if_splits option.splits)

lemma parser_at_init: "parser_at [] HttpParser_init"
  by (simp add: parser_at_def scan_head_def header_end_def HttpParser_init_def)

lemma parser_at_write:
  assumes "parser_at m p"
  shows "parser_at (m @ c) (HttpParser_write p c)"
proof (cases "scan_head m")
  case (Some x)
  obtain e hs rc r where x: "x = (e, hs, rc, r)" by (cases x)
  have "scan_head (m @ c) = Some (e, hs, rc, r)" using Some x by (simp add: scan_head_append)
  moreover have "e \<le> length m" using Some x by (simp add: scan_head_bound)
  ultimately show ?thesis using assms Some x
    by (auto simp: parser_at_def HttpParser_write_def Let_def post_check_def request_received_def)
next
  case None
  have cc: "concat_string (msgs p @ [c]) = m @ c" using assms by (simp add: parser_at_def concat_string_eq)
  show ?thesis
  proof (cases "find_sub header_end (m @ c)")
    case None
    then have "scan_head (m @ c) = None" by (simp add: scan_head_def)
    with None assms \<open>scan_head m = None\<close> cc show ?thesis
      by (simp add: parser_at_def HttpParser_write_def Let_def)
  next
    case (Some pos)
    obtain rc hs where hp: "HttpHeaders_parse [] (m @ c) = (rc, hs)" by fastforce
    obtain rc' r where rp: "HttpRequest_parse HttpRequest_init (m @ c) = (rc', r)" by fastforce
    have sc: "scan_head (m @ c) = (if rc \<noteq> PARSE_OK then None else Some (pos + 4, hs, rc', r))"
      using Some hp rp by (simp add: scan_head_def)
    show ?thesis
      using assms None cc Some hp rp sc HttpHeaders_parse_rc [OF hp]
      by (auto simp: parser_at_def HttpParser_write_def Let_def post_check_def request_received_def)
  qed
qed

lemma parser_at_foldl: "parser_at (concat cs) (foldl HttpParser_write HttpParser_init cs)"
proof (induction cs rule: rev_induct)
  case Nil
  then show ?case by (simp add: parser_at_init)
next
  case (snoc c cs)
  then show ?case using parser_at_write [of "concat cs" _ c] by simp
qed

definition HttpParser_view :: "HttpParser \<Rightarrow> HttpParser" where
  "HttpParser_view p = p\<lparr>msgs := [concat (msgs p)], parsing_complete := parsing_complete p \<and> \<not> bad_request p\<rparr>"

lemma parser_at_unique:
  assumes "parser_at m p" "parser_at m q"
  shows "HttpParser_view p = HttpParser_view q"
proof (cases "scan_head m")
  case None
  with assms show ?thesis
    by (cases p; cases q) (simp add: parser_at_def HttpParser_view_def)
next
  case (Some x)
  obtain e hs rc r where "x = (e, hs, rc, r)" by (cases x)
  with Some assms show ?thesis
    by (cases p; cases q; cases "rc = PARSE_OK") (simp_all add: parser_at_def HttpParser_view_def)
qed

text \<open>
  C31. The parser state does not depend on how the network cuts a message into chunks:
  after any chunks it is what one write of all the bytes gives (the completion flag taken
  together with the bad-request flag, which the server tests first).
\<close>

theorem HttpParser_chunking:
  "HttpParser_view (foldl HttpParser_write HttpParser_init chunks)
   = HttpParser_view (HttpParser_write HttpParser_init (concat chunks))"
proof (rule parser_at_unique)
  show "parser_at (concat chunks) (foldl HttpParser_write HttpParser_init chunks)" by (rule parser_at_foldl)
  show "parser_at (concat chunks) (HttpParser_write HttpParser_init (concat chunks))"
    using parser_at_write [OF parser_at_init] by simp
qed

section \<open>Well-formed requests\<close>

lemma find_sub_skip:
  "c \<notin> set xs \<Longrightarrow> find_sub (c # ps) (xs @ ys) = map_option ((+) (length xs)) (find_sub (c # ps) ys)"
  by (cases "find_sub (c # ps) ys"; induction xs) auto

lemma find_crlf_line: "CR \<notin> set l \<Longrightarrow> find_sub crlf (l @ CR # LF # rest) = Some (length l)"
  by (simp add: crlf_def find_sub_skip)

lemma split_on_crlf_Cons: "CR \<notin> set l \<Longrightarrow> split_on crlf (l @ CR # LF # rest) = l # split_on crlf rest"
  using find_crlf_line [of l rest] by (subst split_on.simps) (simp add: crlf_def)

lemma split_on_crlf_token: "CR \<notin> set l \<Longrightarrow> l \<noteq> [] \<Longrightarrow> split_on crlf l = [l]"
  using find_sub_skip [of CR l "[LF]" "[]"] by (subst split_on.simps) (simp add: crlf_def)

lemma split_on_join_crlf:
  "\<forall>l \<in> set ls. CR \<notin> set l \<and> l \<noteq> [] \<Longrightarrow> split_on crlf (join crlf ls) = ls"
proof (induction crlf ls rule: join.induct)
  case (2 t)
  then show ?case by (simp add: split_on_crlf_token)
next
  case (3 t u ts)
  then have "split_on crlf (t @ CR # LF # join crlf (u # ts)) = t # u # ts"
    by (simp add: split_on_crlf_Cons)
  then show ?case by (simp add: crlf_def)
qed simp

lemma find_header_end_join:
  "\<forall>l \<in> set ls. CR \<notin> set l \<and> l \<noteq> [] \<Longrightarrow> ls \<noteq> [] \<Longrightarrow>
   find_sub header_end (join crlf ls @ header_end @ body) = Some (length (join crlf ls))"
proof (induction crlf ls rule: join.induct)
  case (2 t)
  then show ?case by (simp add: header_end_def find_sub_skip)
next
  case (3 t u ts)
  obtain c cs where c: "join crlf (u # ts) = c # cs" and "c \<noteq> CR"
  proof -
    have "u \<noteq> []" "CR \<notin> set u" using "3.prems" by simp_all
    then show ?thesis using that by (cases u; cases ts) auto
  qed
  have IH: "find_sub header_end (c # cs @ header_end @ body) = Some (length (c # cs))"
    using 3 c by simp
  have "find_sub header_end (CR # LF # c # cs @ header_end @ body) = Some (2 + length (c # cs))"
    using IH \<open>c \<noteq> CR\<close> by (simp add: header_end_def)
  then show ?case using "3.prems" c find_sub_skip [of CR t "[LF, CR, LF]" "CR # LF # c # cs @ header_end @ body"]
    by (simp add: header_end_def crlf_def)
qed simp

type_synonym header_field = "string \<times> string"

definition render_header :: "header_field \<Rightarrow> string" where
  "render_header h = fst h @ '': '' @ snd h"

definition request_line :: "string \<Rightarrow> string \<Rightarrow> string \<Rightarrow> string" where
  "request_line meth target version = meth @ '' '' @ target @ '' '' @ version"

definition render_request :: "string \<Rightarrow> string \<Rightarrow> string \<Rightarrow> header_field list \<Rightarrow> string \<Rightarrow> string" where
  "render_request meth target version hs body =
     join crlf (request_line meth target version # map render_header hs) @ header_end @ body"

definition word_ok :: "string \<Rightarrow> bool" where
  "word_ok w \<longleftrightarrow> w \<noteq> [] \<and> CR \<notin> set w \<and> CHR '' '' \<notin> set w"

definition field_ok :: "header_field \<Rightarrow> bool" where
  "field_ok h \<longleftrightarrow> CR \<notin> set (fst h) \<and> CHR '':'' \<notin> set (fst h) \<and> CR \<notin> set (snd h)"

definition field_object :: "header_field \<Rightarrow> Object" where
  "field_object h = \<lparr>obj_name = toLowerCase (fst h), obj_value = snd h\<rparr>"

lemma parse_header_line_render:
  "field_ok h \<Longrightarrow> parse_header_line hs (render_header h) = hs @ [field_object h]"
  by (simp add: parse_header_line_def render_header_def field_ok_def field_object_def find_sub_single_append
    add_object_def nth_append)

lemma parse_header_lines_render:
  "\<forall>h \<in> set fs. field_ok h \<Longrightarrow> foldl parse_header_line hs (map render_header fs) = hs @ map field_object fs"
  by (induction fs arbitrary: hs) (simp_all add: parse_header_line_render)

lemma split_on_request_line:
  "word_ok meth \<Longrightarrow> word_ok target \<Longrightarrow> word_ok version \<Longrightarrow>
   split_on '' '' (request_line meth target version) = [meth, target, version]"
  by (simp add: request_line_def word_ok_def split_on_single_Cons split_on_single_token)

definition request_of :: "string \<Rightarrow> string \<Rightarrow> string \<Rightarrow> HttpRequest" where
  "request_of meth target version =
     \<lparr>req_method = meth, uri = target, http_version = version,
      query = snd (URIQueryParams_parse \<lparr>params = [], path = []\<rparr> target)\<rparr>"

lemma URIQueryParams_parse_ok: "target \<noteq> [] \<Longrightarrow> fst (URIQueryParams_parse q target) = PARSE_OK"
  by (simp add: URIQueryParams_parse_def Let_def split: option.split)

lemma scan_head_render:
  assumes w: "word_ok meth" "word_ok target" "word_ok version" and f: "\<forall>h \<in> set fs. field_ok h"
  shows "scan_head (render_request meth target version fs body)
     = Some (length (render_request meth target version fs []), map field_object fs, PARSE_OK,
             request_of meth target version)"
proof -
  let ?l = "request_line meth target version"
  let ?ls = "?l # map render_header fs"
  have nb: "\<forall>l \<in> set ?ls. CR \<notin> set l \<and> l \<noteq> []"
    using w f by (auto simp: request_line_def word_ok_def render_header_def field_ok_def)
  have fe: "find_sub header_end (join crlf ?ls @ header_end @ body) = Some (length (join crlf ?ls))"
    by (rule find_header_end_join) (use nb in auto)
  have fl: "find_sub crlf (join crlf ?ls @ header_end @ body) = Some (length ?l)"
    "take (length ?l) (join crlf ?ls @ header_end @ body) = ?l"
    using nb find_crlf_line [of ?l] by (cases fs; simp add: crlf_def header_end_def)+
  have "HttpHeaders_parse [] (join crlf ?ls @ header_end @ body) = (PARSE_OK, map field_object fs)"
    using fe split_on_join_crlf [OF nb] f
    by (simp add: HttpHeaders_parse_def parse_header_lines_render header_end_def)
  moreover have "HttpRequest_parse HttpRequest_init (join crlf ?ls @ header_end @ body)
      = (PARSE_OK, request_of meth target version)"
    using fl split_on_request_line [OF w] w(2) URIQueryParams_parse_ok [of target "\<lparr>params = [], path = []\<rparr>"]
    by (cases "URIQueryParams_parse \<lparr>params = [], path = []\<rparr> target")
       (simp add: HttpRequest_parse_def header_end_def word_ok_def HttpRequest_init_def request_of_def)
  ultimately show ?thesis using fe
    by (simp add: scan_head_def render_request_def header_end_def)
qed

definition render_param :: "string \<times> string \<Rightarrow> string" where
  "render_param p = fst p @ ''='' @ snd p"

definition render_target :: "string \<Rightarrow> (string \<times> string) list \<Rightarrow> string" where
  "render_target pth ps = (if ps = [] then pth else pth @ ''?'' @ join ''&'' (map render_param ps))"

definition uri_chars :: "string \<Rightarrow> bool" where
  "uri_chars s \<longleftrightarrow> CR \<notin> set s \<and> CHR '' '' \<notin> set s \<and> CHR ''&'' \<notin> set s"

definition target_ok :: "string \<Rightarrow> (string \<times> string) list \<Rightarrow> bool" where
  "target_ok pth ps \<longleftrightarrow> word_ok pth \<and> CHR ''?'' \<notin> set pth
     \<and> (\<forall>p \<in> set ps. uri_chars (fst p) \<and> uri_chars (snd p) \<and> CHR ''='' \<notin> set (fst p))"

definition param_object :: "string \<times> string \<Rightarrow> Object" where
  "param_object p = \<lparr>obj_name = fst p, obj_value = snd p\<rparr>"

lemma parse_params_render:
  "\<forall>p \<in> set ps. CHR ''='' \<notin> set (fst p) \<Longrightarrow>
   foldl parse_param acc (map render_param ps) = acc @ map param_object ps"
  by (induction ps arbitrary: acc)
     (simp_all add: parse_param_def render_param_def param_object_def find_sub_single_append add_object_def)

lemma set_join: "c \<in> set (join d ts) \<Longrightarrow> c \<in> set d \<or> (\<exists>t \<in> set ts. c \<in> set t)"
  by (induction d ts rule: join.induct) auto

lemma target_word_ok:
  assumes "target_ok pth ps"
  shows "word_ok (render_target pth ps)"
proof -
  have "CR \<notin> set (join ''&'' (map render_param ps))" "CHR '' '' \<notin> set (join ''&'' (map render_param ps))"
    using assms by (fastforce simp: target_ok_def uri_chars_def render_param_def dest!: set_join)+
  then show ?thesis using assms by (auto simp: target_ok_def word_ok_def render_target_def)
qed

lemma parse_target_render:
  assumes "target_ok pth ps"
  shows "URIQueryParams_parse \<lparr>params = [], path = []\<rparr> (render_target pth ps)
     = (PARSE_OK, \<lparr>params = map param_object ps, path = pth\<rparr>)"
proof (cases "ps = []")
  case True
  with assms show ?thesis
    by (auto simp: URIQueryParams_parse_def render_target_def target_ok_def word_ok_def find_sub_single)
next
  case False
  have "split_on ''&'' (join ''&'' (map render_param ps)) = map render_param ps"
    using assms False by (intro split_on_join_single) (auto simp: target_ok_def uri_chars_def render_param_def last_map)
  with assms False show ?thesis
    by (simp add: URIQueryParams_parse_def render_target_def target_ok_def find_sub_single_append parse_params_render)
qed

text \<open>
  C30. A well-formed request, cut into chunks in any way, is parsed into what was sent: the
  method, the target with its path and parameters, the version, the header fields (names in
  lower case), the body and the request line; a GET is complete, a POST exactly when the
  announced number of body bytes has arrived.
\<close>

theorem request_roundtrip:
  assumes "word_ok meth" and "target_ok pth ps" and "word_ok version" and "\<forall>h \<in> set fs. field_ok h"
    and "concat chunks = render_request meth (render_target pth ps) version fs body"
    and "p = foldl HttpParser_write HttpParser_init chunks"
  shows "is_headers_complete p \<and> \<not> is_bad_request p
    \<and> request p = \<lparr>req_method = meth, uri = render_target pth ps, http_version = version,
                   query = \<lparr>params = map param_object ps, path = pth\<rparr>\<rparr>
    \<and> headers p = map field_object fs
    \<and> get_body p = body
    \<and> get_request_line p = request_line meth (render_target pth ps) version
    \<and> (is_request_complete p \<longleftrightarrow>
         meth = ''GET'' \<or> meth = ''POST'' \<and> read_content_length (map field_object fs) 0 \<le> length body)"
proof -
  let ?t = "render_target pth ps"
  let ?m = "render_request meth ?t version fs body"
  have t: "word_ok ?t" by (rule target_word_ok) fact
  have at: "parser_at ?m p" using parser_at_foldl [of chunks] assms by simp
  have sc: "scan_head ?m = Some (length (render_request meth ?t version fs []), map field_object fs, PARSE_OK,
      request_of meth ?t version)"
    by (rule scan_head_render) (use assms t in auto)
  have m: "?m = render_request meth ?t version fs [] @ body" by (simp add: render_request_def)
  have rq: "request_of meth ?t version = \<lparr>req_method = meth, uri = ?t, http_version = version,
      query = \<lparr>params = map param_object ps, path = pth\<rparr>\<rparr>"
    using parse_target_render [OF assms(2)] by (simp add: request_of_def)
  have hd: "get_headers p = render_request meth ?t version fs []" and bd: "get_body p = body"
    using at sc m by (simp_all add: parser_at_def get_headers_def get_body_def concat_string_eq)
  have "CR \<notin> set (request_line meth ?t version)"
    using assms t by (simp add: request_line_def word_ok_def)
  then have "get_request_line p = request_line meth ?t version"
    unfolding get_request_line_def hd using find_crlf_line [of "request_line meth ?t version"]
    by (cases fs) (simp_all add: render_request_def crlf_def header_end_def)
  then show ?thesis using at sc rq bd
    by (simp add: parser_at_def is_headers_complete_def is_bad_request_def is_request_complete_def
      request_received_def render_request_def)
qed

definition sample_chunks :: "string list" where
  "sample_chunks =
    [''POST /deals/add?or'', ''igin=MOW&price=10 HTTP/1.1'' @ crlf @ ''Content-Le'', ''ngth: 4'' @ [CR],
     [LF, CR, LF] @ ''da'', ''ta'']"

theorem request_roundtrip_witness:
  "get_body (foldl HttpParser_write HttpParser_init sample_chunks) = ''data''
   \<and> is_request_complete (foldl HttpParser_write HttpParser_init sample_chunks)"
proof -
  have cc: "concat sample_chunks = render_request ''POST'' (render_target ''/deals/add'' [(''origin'', ''MOW''), (''price'', ''10'')])
      ''HTTP/1.1'' [(''Content-Length'', ''4'')] ''data''"
    by (simp add: sample_chunks_def crlf_def render_request_def render_target_def render_param_def request_line_def
      render_header_def header_end_def)
  have n: "read_content_length (map field_object [(''Content-Length'', ''4'')]) 0 = 4" by code_simp
  show ?thesis
    using request_roundtrip [OF _ _ _ _ cc refl] n
    by (simp add: word_ok_def target_ok_def uri_chars_def field_ok_def)
qed

section \<open>Responses\<close>

definition status_line :: "u16 \<Rightarrow> string \<Rightarrow> string" where
  "status_line code reason = ''HTTP/1.0 '' @ to_string (unat code) @ '' '' @ reason"

lemma resp_headers_fold:
  "resp_headers (foldl (\<lambda>r h. add_header r (fst h) (snd h)) r hs)
     = resp_headers r @ map (\<lambda>h. render_header h @ crlf) hs
   \<and> status_code (foldl (\<lambda>r h. add_header r (fst h) (snd h)) r hs) = status_code r
   \<and> reason_phrase (foldl (\<lambda>r h. add_header r (fst h) (snd h)) r hs) = reason_phrase r
   \<and> resp_body (foldl (\<lambda>r h. add_header r (fst h) (snd h)) r hs) = resp_body r"
  by (induction hs arbitrary: r) (simp_all add: add_header_def render_header_def)

lemma resp_body_fold: "foldl HttpResponse_write r bs = r\<lparr>resp_body := resp_body r @ bs\<rparr>"
  by (induction bs arbitrary: r) (simp_all add: HttpResponse_write_def)

lemma join_Cons_lines: "join crlf (l # ls) = l @ concat (map (\<lambda>l. crlf @ l) ls)"
  by (induction ls arbitrary: l) auto

lemma lines_shift: "crlf @ concat (map (\<lambda>l. l @ crlf) ls) = concat (map (\<lambda>l. crlf @ l) ls) @ crlf"
  by (induction ls) auto

lemma response_string:
  "HttpResponse_string (foldl HttpResponse_write
      (foldl (\<lambda>r h. add_header r (fst h) (snd h)) (HttpResponse_new code reason) hs) bs)
   = join crlf (status_line code reason # map render_header hs) @ header_end @ concat bs"
  using lines_shift [of "map render_header hs"]
  by (simp add: HttpResponse_string_def resp_body_fold resp_headers_fold HttpResponse_new_def concat_string_eq
      status_line_def join_Cons_lines o_def header_end_def) (simp add: crlf_def)

lemma to_string_no_CR: "CR \<notin> set (to_string n)"
  using to_string_digits [of n] by (auto simp: is_digit_def in_range_def)

text \<open>
  C36. A client that cuts a response at its first blank line finds the status line and one
  line per added header before it, and exactly the written body after it.
\<close>

theorem response_framing:
  assumes "CR \<notin> set reason" and "\<forall>h \<in> set hs. CR \<notin> set (fst h) \<and> CR \<notin> set (snd h)"
    and "s = HttpResponse_string (foldl HttpResponse_write
           (foldl (\<lambda>r h. add_header r (fst h) (snd h)) (HttpResponse_new code reason) hs) bs)"
  shows "\<exists>pos. find_sub header_end s = Some pos
     \<and> split_on crlf (take pos s) = status_line code reason # map render_header hs
     \<and> drop (pos + 4) s = concat bs"
proof -
  let ?ls = "status_line code reason # map render_header hs"
  have nb: "\<forall>l \<in> set ?ls. CR \<notin> set l \<and> l \<noteq> []"
    using assms to_string_no_CR by (auto simp: status_line_def render_header_def)
  have "find_sub header_end s = Some (length (join crlf ?ls))"
    unfolding assms(3) response_string by (rule find_header_end_join [OF nb]) simp
  moreover have "take (length (join crlf ?ls)) s = join crlf ?ls" "drop (length (join crlf ?ls) + 4) s = concat bs"
    unfolding assms(3) response_string by (simp_all add: header_end_def)
  ultimately show ?thesis using split_on_join_crlf [OF nb] by simp
qed

theorem response_framing_witness:
  "\<exists>pos. find_sub header_end (HttpResponse_string
        (HttpResponse_write (add_header (HttpResponse_new 200 ''OK'') ''Content-Type'' ''text/csv'') ''a;b'')) = Some pos
     \<and> drop (pos + 4) (HttpResponse_string
        (HttpResponse_write (add_header (HttpResponse_new 200 ''OK'') ''Content-Type'' ''text/csv'') ''a;b'')) = ''a;b''"
  using response_framing [of "''OK''" "[(''Content-Type'', ''text/csv'')]" _ 200 "[''a;b'']", OF _ _ refl]
  by auto

end
