(* ===== verification/TcpServer.thy ===== *)
theory TcpServer
  imports Prelude
begin

text \<open>
  Model of \<^verbatim>\<open>src/tcp_server.hpp\<close> and \<^verbatim>\<open>src/tcp_server.cpp\<close>: the connections of the server and the
  turn of its event loop.  The compiled variant of \<^verbatim>\<open>network_write\<close> is modelled, the one without
  \<^verbatim>\<open>NET_MAX_PACKET_SIZE\<close>.

  The answers of the system calls are parameters: what \<^verbatim>\<open>ioctl\<close>, \<^verbatim>\<open>recv\<close>, \<^verbatim>\<open>send\<close>, \<^verbatim>\<open>poll\<close> and
  \<^verbatim>\<open>accept\<close> return, and the readings of the clock.  Two things are kept of the kernel's state: the
  descriptors that are open, and per connection the bytes that \<^verbatim>\<open>send\<close> has taken.  The virtual
  functions \<^verbatim>\<open>on_data\<close> and \<^verbatim>\<open>on_connect\<close> are arguments; \<^verbatim>\<open>on_data\<close> works on the connection and the
  state of the derived class, and \<^term>\<open>None\<close> means that the process died in it.
\<close>

section \<open>Connections\<close>

definition MAX_CONNECTION_LIFETIME_SEC :: u32 where "MAX_CONNECTION_LIFETIME_SEC = 10"
definition MAX_CONNECTION_IDLE_TIME_SEC :: u32 where "MAX_CONNECTION_IDLE_TIME_SEC = 2"

record 'c Connection =
  created_time :: u32
  last_beat_time :: u32
  data_in :: string
  data_out :: string
  sockfd :: int
  connection_alive :: bool
  conn_context :: 'c
  sent :: string

text \<open>The constructor; \<open>accepted\<close> is the descriptor that \<^verbatim>\<open>accept\<close> returns, -1 when it fails.\<close>

definition TCPConnection_new :: "u32 \<Rightarrow> int \<Rightarrow> 'c \<Rightarrow> 'c Connection" where
  "TCPConnection_new now accepted ctx =
     \<lparr>created_time = now, last_beat_time = now, data_in = [], data_out = [], sockfd = accepted,
      connection_alive = (accepted \<noteq> -1), conn_context = ctx, sent = []\<rparr>"

definition TCPConnection_destroy :: "'c Connection \<Rightarrow> int set \<Rightarrow> int set" where
  "TCPConnection_destroy conn fds = (if sockfd conn \<noteq> -1 then fds - {sockfd conn} else fds)"

definition conn_close :: "'c Connection \<Rightarrow> 'c Connection" where
  "conn_close conn = conn\<lparr>connection_alive := False\<rparr>"

definition conn_write :: "string \<Rightarrow> 'c Connection \<Rightarrow> 'c Connection" where
  "conn_write out conn = conn\<lparr>data_out := data_out conn @ out\<rparr>"

definition conn_close_with :: "string \<Rightarrow> 'c Connection \<Rightarrow> 'c Connection" where
  "conn_close_with msg conn = conn_close (conn_write msg conn)"

definition conn_reset :: "'c Connection \<Rightarrow> 'c Connection" where
  "conn_reset conn = (conn_close conn)\<lparr>data_out := []\<rparr>"

definition get_data :: "'c Connection \<Rightarrow> string" where "get_data conn = data_in conn"

definition has_something_to_send :: "'c Connection \<Rightarrow> bool" where
  "has_something_to_send conn = (length (data_out conn) > 0)"

definition is_alive :: "'c Connection \<Rightarrow> bool" where
  "is_alive conn = (if has_something_to_send conn then True else connection_alive conn)"

definition get_socket :: "'c Connection \<Rightarrow> u16" where
  "get_socket conn = word_of_int (sockfd conn)"

text \<open>
  \<open>fionread\<close> is the number of readable bytes, \<^term>\<open>None\<close> when \<^verbatim>\<open>ioctl\<close> fails; \<open>received\<close> is what the
  socket delivers, \<^term>\<open>None\<close> when \<^verbatim>\<open>recv\<close> fails.  The buffer \<^verbatim>\<open>buf\<close> has \<open>fionread\<close> bytes and is on the
  stack: where these are more than the \<open>stack_left\<close> bytes it has room for, the process dies.
\<close>

definition network_read :: "nat \<Rightarrow> nat option \<Rightarrow> string option \<Rightarrow> u32 \<Rightarrow> 'c Connection \<Rightarrow> 'c Connection option" where
  "network_read stack_left fionread received now conn =
     (case fionread of
        None \<Rightarrow> Some (conn_close conn)
      | Some n \<Rightarrow>
          if n = 0 then Some (conn_close conn)
          else if stack_left < n then None
          else case received of
            None \<Rightarrow> Some (conn_close conn)
          | Some buf \<Rightarrow>
              let res = length (take n buf)
              in if res = 0 then Some (conn_close conn)
                 else Some (conn\<lparr>last_beat_time := now, data_in := take res buf\<rparr>))"

text \<open>
  \<open>res\<close> is what \<^verbatim>\<open>send\<close> returns; the socket has taken that many bytes.  A call that fails because the
  peer has gone raises \<^verbatim>\<open>SIGPIPE\<close> first: neither is \<^verbatim>\<open>MSG_NOSIGNAL\<close> given nor has \<^verbatim>\<open>main\<close> a
  handler for it, and the process dies.
\<close>

definition network_write :: "bool \<Rightarrow> int \<Rightarrow> u32 \<Rightarrow> 'c Connection \<Rightarrow> 'c Connection option" where
  "network_write sigpipe res now conn =
     (if length (data_out conn) = 0 then Some conn
      else let conn = conn\<lparr>last_beat_time := now\<rparr>
           in if res = -1 \<and> sigpipe then None
              else if res = -1 \<or> res = 0 then Some (conn_close (conn\<lparr>data_out := []\<rparr>))
              else Some (conn\<lparr>data_out := [], sent := sent conn @ take (nat res) (data_out conn)\<rparr>))"

section \<open>The event loop\<close>

text \<open>What happens on one socket during a turn; \<open>ev_env\<close> is passed to \<^verbatim>\<open>on_data\<close>.\<close>

record 'e io_event =
  ev_hup :: bool
  ev_in :: bool
  ev_out :: bool
  ev_stack :: nat
  ev_fionread :: "nat option"
  ev_received :: "string option"
  ev_read_time :: u32
  ev_sigpipe :: bool
  ev_send :: int
  ev_write_time :: u32
  ev_env :: 'e

text \<open>
  The result of \<^verbatim>\<open>poll\<close>: an error, no event, or the events of every descriptor, by its place in the
  array; the first is the listening socket.
\<close>

datatype 'e poll_result = PollError | PollTimeout | PollReady "nat \<Rightarrow> 'e io_event"

record 'e net =
  net_time :: u32
  net_poll :: "(int \<times> bool) list \<Rightarrow> 'e poll_result"
  net_accept :: int
  net_accept_time :: u32

record ('c, 's) TCPServer =
  connections :: "'c Connection list"
  srv_sockfd :: int
  open_fds :: "int set"
  app :: 's

definition check_lifetime :: "u32 \<Rightarrow> 'c Connection \<Rightarrow> 'c Connection" where
  "check_lifetime current_time conn =
     (if current_time - created_time conn > MAX_CONNECTION_LIFETIME_SEC then conn_close conn
      else if current_time - last_beat_time conn > MAX_CONNECTION_IDLE_TIME_SEC then conn_close conn
      else conn)"

text \<open>The descriptors handed to \<^verbatim>\<open>poll\<close>, each with whether it waits for writing.\<close>

definition poll_set :: "('c, 's) TCPServer \<Rightarrow> (int \<times> bool) list" where
  "poll_set srv = (srv_sockfd srv, False) #
     map (\<lambda>conn. (uint (get_socket conn), has_something_to_send conn)) (connections srv)"

definition get_alive_connections :: "('c, 's) TCPServer \<Rightarrow> ('c, 's) TCPServer" where
  "get_alive_connections srv =
     (let (alive_connections, fds) = foldl (\<lambda>(alive_connections, fds) conn.
            if \<not> is_alive conn then (alive_connections, TCPConnection_destroy conn fds)
            else (alive_connections @ [conn], fds)) ([], open_fds srv) (connections srv)
      in srv\<lparr>connections := alive_connections, open_fds := fds\<rparr>)"

definition accept_new_connection ::
  "'e net \<Rightarrow> 'c \<Rightarrow> ('c Connection \<Rightarrow> 'c Connection) \<Rightarrow> ('c, 's) TCPServer \<Rightarrow> ('c, 's) TCPServer" where
  "accept_new_connection net ctx on_connect srv =
     (let conn = TCPConnection_new (net_accept_time net) (net_accept net) ctx;
          srv = srv\<lparr>open_fds := (if net_accept net = -1 then open_fds srv else insert (net_accept net) (open_fds srv))\<rparr>
      in if \<not> is_alive conn then srv\<lparr>open_fds := TCPConnection_destroy conn (open_fds srv)\<rparr>
         else srv\<lparr>connections := connections srv @ [on_connect conn]\<rparr>)"

text \<open>The body of the loop over the connections; \<open>wants_out\<close> tells that writing was polled for.\<close>

definition serve_one ::
  "('e \<Rightarrow> 'c Connection \<Rightarrow> 's \<Rightarrow> ('c Connection \<times> 's) option) \<Rightarrow> 'e io_event \<Rightarrow> bool \<Rightarrow> 'c Connection \<Rightarrow> 's \<Rightarrow>
   ('c Connection \<times> 's) option" where
  "serve_one on_data ev wants_out conn s =
     (if ev_hup ev then Some (conn_reset conn, s)
      else case (if ev_in ev
                 then (case network_read (ev_stack ev) (ev_fionread ev) (ev_received ev) (ev_read_time ev) conn of
                         None \<Rightarrow> None
                       | Some conn \<Rightarrow> on_data (ev_env ev) conn s)
                 else Some (conn, s)) of
        None \<Rightarrow> None
      | Some (conn, s) \<Rightarrow>
          if ev_out ev \<and> wants_out
          then map_option (\<lambda>conn. (conn, s)) (network_write (ev_sigpipe ev) (ev_send ev) (ev_write_time ev) conn)
          else Some (conn, s))"

fun serve_all ::
  "('e \<Rightarrow> 'c Connection \<Rightarrow> 's \<Rightarrow> ('c Connection \<times> 's) option) \<Rightarrow> ('e io_event \<times> bool \<times> 'c Connection) list \<Rightarrow> 's \<Rightarrow>
   ('c Connection list \<times> 's) option" where
  "serve_all on_data [] s = Some ([], s)"
| "serve_all on_data ((ev, wants_out, conn) # es) s =
     (case serve_one on_data ev wants_out conn s of
        None \<Rightarrow> None
      | Some (conn, s) \<Rightarrow>
          (case serve_all on_data es s of
             None \<Rightarrow> None
           | Some (conns, s) \<Rightarrow> Some (conn # conns, s)))"

definition TCPServer_process ::
  "'e net \<Rightarrow> 'c \<Rightarrow> ('c Connection \<Rightarrow> 'c Connection) \<Rightarrow> ('e \<Rightarrow> 'c Connection \<Rightarrow> 's \<Rightarrow> ('c Connection \<times> 's) option) \<Rightarrow>
   ('c, 's) TCPServer \<Rightarrow> (u16 \<times> ('c, 's) TCPServer) option" where
  "TCPServer_process net ctx on_connect on_data srv =
     (let wants_out = map has_something_to_send (connections srv);
          conns = map (check_lifetime (net_time net)) (connections srv);
          finish = (\<lambda>srv. let srv = get_alive_connections srv in (word_of_nat (length (connections srv)), srv))
      in case net_poll net (poll_set srv) of
           PollError \<Rightarrow> Some (finish (srv\<lparr>connections := conns\<rparr>))
         | PollTimeout \<Rightarrow> Some (finish (srv\<lparr>connections := conns\<rparr>))
         | PollReady revents \<Rightarrow>
             (case serve_all on_data (zip (map revents [1..<length conns + 1]) (zip wants_out conns)) (app srv) of
                None \<Rightarrow> None
              | Some (conns, s) \<Rightarrow>
                  let srv = srv\<lparr>connections := conns, app := s\<rparr>;
                      srv = (if ev_in (revents 0) then accept_new_connection net ctx on_connect srv else srv)
                  in Some (finish srv)))"

section \<open>Connections over a turn\<close>

lemma conn_fields [simp]:
  "sockfd (conn_close c) = sockfd c" "created_time (conn_close c) = created_time c" "last_beat_time (conn_close c) = last_beat_time c"
  "data_out (conn_close c) = data_out c" "sent (conn_close c) = sent c" "\<not> connection_alive (conn_close c)"
  "sockfd (conn_write m c) = sockfd c" "created_time (conn_write m c) = created_time c" "last_beat_time (conn_write m c) = last_beat_time c"
  "data_out (conn_write m c) = data_out c @ m" "connection_alive (conn_write m c) = connection_alive c"
  "sockfd (conn_reset c) = sockfd c" "created_time (conn_reset c) = created_time c" "data_out (conn_reset c) = []"
  "\<not> connection_alive (conn_reset c)"
  by (simp_all add: conn_close_def conn_write_def conn_reset_def)

lemma check_lifetime_fields [simp]:
  "sockfd (check_lifetime now c) = sockfd c" "created_time (check_lifetime now c) = created_time c"
  "connection_alive (check_lifetime now c) \<longleftrightarrow> connection_alive c \<and> now - created_time c \<le> MAX_CONNECTION_LIFETIME_SEC \<and>
     now - last_beat_time c \<le> MAX_CONNECTION_IDLE_TIME_SEC"
  by (auto simp: check_lifetime_def not_less)

lemma network_read_fields:
  assumes "network_read k f r now c = Some c'"
  shows "sockfd c' = sockfd c" "created_time c' = created_time c" "data_out c' = data_out c" "connection_alive c' \<Longrightarrow> connection_alive c"
  using assms by (auto simp: network_read_def Let_def split: option.splits if_splits)

lemma network_write_fields:
  assumes "network_write p res now c = Some c'"
  shows "sockfd c' = sockfd c" "created_time c' = created_time c" "connection_alive c' \<Longrightarrow> connection_alive c"
  using assms by (auto simp: network_write_def Let_def split: if_splits)

text \<open>The two ways in which the network ends the process: more bytes than the stack has room for, and a peer that has gone.\<close>

theorem network_kills:
  "network_read k (Some n) r now c = None \<longleftrightarrow> k < n"
  "network_write p res now c = None \<longleftrightarrow> data_out c \<noteq> [] \<and> res = -1 \<and> p"
  by (auto simp: network_read_def network_write_def Let_def split: option.splits)

text \<open>
  A short \<^verbatim>\<open>send\<close> loses data: the bytes the socket has not taken are dropped with the buffer, and a
  connection that waited for them only is removed.
\<close>

theorem partial_send_truncates:
  assumes "0 < res" "nat res < length (data_out c)" "network_write p res now c = Some c'"
  shows "sent c' = sent c @ take (nat res) (data_out c)" "data_out c' = []" "\<not> connection_alive c \<Longrightarrow> \<not> is_alive c'"
  using assms by (auto simp: network_write_def Let_def is_alive_def has_something_to_send_def split: if_splits)

subsection \<open>Descriptors\<close>

text \<open>Exactly the listening socket and the sockets of the connections are open, each for one connection.\<close>

definition tcp_ok :: "('c, 's) TCPServer \<Rightarrow> bool" where
  "tcp_ok srv \<longleftrightarrow> distinct (srv_sockfd srv # map sockfd (connections srv)) \<and> -1 \<notin> set (map sockfd (connections srv)) \<and>
     open_fds srv = insert (srv_sockfd srv) (set (map sockfd (connections srv)))"

text \<open>\<^verbatim>\<open>accept\<close> fails or returns a descriptor that was not open.\<close>

definition accept_ok :: "'e net \<Rightarrow> ('c, 's) TCPServer \<Rightarrow> bool" where
  "accept_ok net srv \<longleftrightarrow> net_accept net = -1 \<or> net_accept net \<notin> open_fds srv"

lemma alive_fold:
  "foldl (\<lambda>(alive, fds) conn. if \<not> is_alive conn then (alive, TCPConnection_destroy conn fds) else (alive @ [conn], fds)) (al, fds) cs =
     (al @ filter is_alive cs, fds - (sockfd ` {c \<in> set cs. \<not> is_alive c} - {-1}))"
proof (induction cs arbitrary: al fds)
  case (Cons c cs)
  have "{x \<in> set (c # cs). \<not> is_alive x} = (if is_alive c then {} else {c}) \<union> {x \<in> set cs. \<not> is_alive x}" by auto
  with Cons show ?case by (auto simp: TCPConnection_destroy_def)
qed simp

lemma get_alive_connections_eq:
  "get_alive_connections srv = srv\<lparr>connections := filter is_alive (connections srv),
     open_fds := open_fds srv - (sockfd ` {c \<in> set (connections srv). \<not> is_alive c} - {-1})\<rparr>"
  by (simp add: get_alive_connections_def alive_fold)

lemma get_alive_connections_ok:
  assumes "tcp_ok srv"
  shows "tcp_ok (get_alive_connections srv)"
proof -
  let ?cs = "connections srv"
  have d: "distinct (map sockfd ?cs)" "srv_sockfd srv \<notin> sockfd ` set ?cs" "-1 \<notin> sockfd ` set ?cs"
    "open_fds srv = insert (srv_sockfd srv) (sockfd ` set ?cs)"
    using assms by (simp_all add: tcp_ok_def)
  have i: "sockfd ` {c \<in> set ?cs. is_alive c} = sockfd ` set ?cs - sockfd ` {c \<in> set ?cs. \<not> is_alive c}"
    using d(1) by (auto simp: distinct_map inj_on_def)
  have "insert (srv_sockfd srv) (sockfd ` set ?cs) - (sockfd ` {c \<in> set ?cs. \<not> is_alive c} - {-1}) =
      insert (srv_sockfd srv) (sockfd ` {c \<in> set ?cs. is_alive c})" unfolding i using d(2,3) by auto
  moreover have "distinct (map sockfd (filter is_alive ?cs))" using d(1) by (simp add: distinct_map_filter)
  ultimately show ?thesis using d(2-4) by (auto simp: tcp_ok_def get_alive_connections_eq)
qed

section \<open>Handlers\<close>

text \<open>
  What the loop relies on: a handler does not exchange the socket of a connection, does not revive
  a connection and keeps the bytes that wait to be sent.
\<close>

locale connection_handler =
  fixes on_data :: "'e \<Rightarrow> 'c Connection \<Rightarrow> 's \<Rightarrow> ('c Connection \<times> 's) option"
    and on_connect :: "'c Connection \<Rightarrow> 'c Connection"
  assumes on_data_socket: "on_data e c s = Some (c', s') \<Longrightarrow> sockfd c' = sockfd c \<and> created_time c' = created_time c"
    and on_data_alive: "on_data e c s = Some (c', s') \<Longrightarrow> connection_alive c' \<Longrightarrow> connection_alive c"
    and on_connect_socket: "sockfd (on_connect c) = sockfd c \<and> created_time (on_connect c) = created_time c"
begin

lemma serve_one_socket:
  assumes "serve_one on_data ev w c s = Some (c', s')"
  shows "sockfd c' = sockfd c" "created_time c' = created_time c" "connection_alive c' \<Longrightarrow> connection_alive c"
proof -
  let ?r = "network_read (ev_stack ev) (ev_fionread ev) (ev_received ev) (ev_read_time ev) c"
  have "sockfd c' = sockfd c \<and> created_time c' = created_time c \<and> (connection_alive c' \<longrightarrow> connection_alive c)"
  proof (cases "ev_hup ev")
    case True
    with assms show ?thesis by (auto simp: serve_one_def)
  next
    case False
    define x where "x = (if ev_in ev then (case ?r of None \<Rightarrow> None | Some conn \<Rightarrow> on_data (ev_env ev) conn s) else Some (c, s))"
    have eq: "serve_one on_data ev w c s = (case x of None \<Rightarrow> None | Some (conn, s) \<Rightarrow>
        if ev_out ev \<and> w then map_option (\<lambda>conn. (conn, s)) (network_write (ev_sigpipe ev) (ev_send ev) (ev_write_time ev) conn)
        else Some (conn, s))"
      using False by (simp only: serve_one_def x_def if_False)
    obtain c1 s1 where x: "x = Some (c1, s1)" using assms unfolding eq by (cases x) auto
    have c': "c' = c1 \<or> network_write (ev_sigpipe ev) (ev_send ev) (ev_write_time ev) c1 = Some c'"
      using assms unfolding eq x by (auto split: if_splits)
    have "sockfd c1 = sockfd c \<and> created_time c1 = created_time c \<and> (connection_alive c1 \<longrightarrow> connection_alive c)"
    proof (cases "ev_in ev")
      case True
      then obtain c0 where r: "?r = Some c0" and h: "on_data (ev_env ev) c0 s = Some (c1, s1)"
        using x by (auto simp: x_def split: option.splits)
      show ?thesis using on_data_socket [OF h] on_data_alive [OF h] network_read_fields [OF r] by auto
    qed (use x in \<open>simp add: x_def\<close>)
    with c' show ?thesis by (auto dest: network_write_fields)
  qed
  then show "sockfd c' = sockfd c" "created_time c' = created_time c" "connection_alive c' \<Longrightarrow> connection_alive c" by auto
qed

abbreviation continues :: "'c Connection \<Rightarrow> 'c Connection \<Rightarrow> bool" where
  "continues c c' \<equiv> sockfd c' = sockfd c \<and> created_time c' = created_time c \<and> (connection_alive c' \<longrightarrow> connection_alive c)"

lemma serve_all_sockets:
  "serve_all on_data es s = Some (cs, s') \<Longrightarrow> list_all2 continues (map (\<lambda>e. snd (snd e)) es) cs"
proof (induction es arbitrary: s cs)
  case (Cons e es)
  obtain ev w c where e: "e = (ev, w, c)" by (cases e)
  from Cons.prems obtain c1 s1 cs1 where 1: "serve_one on_data ev w c s = Some (c1, s1)"
    and 2: "serve_all on_data es s1 = Some (cs1, s')" and cs: "cs = c1 # cs1"
    by (auto simp: e split: option.splits)
  from serve_one_socket [OF 1] Cons.IH [OF 2] show ?case by (simp add: e cs)
qed simp

lemma polled_connections:
  "length ws = length cs \<Longrightarrow> map (\<lambda>e. snd (snd e)) (zip (map revents [1..<length cs + 1]) (zip ws cs)) = cs"
  by (rule nth_equalityI) (simp_all del: upt_Suc)

text \<open>Every way through a turn continues the connections and then accepts and removes some.\<close>

lemma process_result:
  assumes "TCPServer_process net ctx on_connect on_data srv = Some (n, srv')"
  obtains cs s1 b where "list_all2 continues (map (check_lifetime (net_time net)) (connections srv)) cs"
    "srv' = get_alive_connections (if b then accept_new_connection net ctx on_connect (srv\<lparr>connections := cs, app := s1\<rparr>)
                                   else srv\<lparr>connections := cs, app := s1\<rparr>)"
    "n = word_of_nat (length (connections srv'))"
proof (cases "net_poll net (poll_set srv)")
  case (PollReady revents)
  let ?ws = "map has_something_to_send (connections srv)"
  let ?cs = "map (check_lifetime (net_time net)) (connections srv)"
  let ?es = "zip (map revents [1..<length ?cs + 1]) (zip ?ws ?cs)"
  obtain cs s1 where r: "serve_all on_data ?es (app srv) = Some (cs, s1)"
    using assms by (cases "serve_all on_data ?es (app srv)") (auto simp: TCPServer_process_def PollReady Let_def simp del: upt_Suc)
  have "list_all2 continues ?cs cs" using serve_all_sockets [OF r] by (subst (asm) polled_connections) simp_all
  then show thesis using assms r
    by (intro that [of cs "ev_in (revents 0)" s1]) (auto simp: TCPServer_process_def PollReady Let_def simp del: upt_Suc)
qed (use assms that [of "map (check_lifetime (net_time net)) (connections srv)" False "app srv"] in
      \<open>auto simp: TCPServer_process_def Let_def list.rel_refl\<close>)

lemma continues_ok:
  assumes "tcp_ok srv" "list_all2 continues (map (check_lifetime now) (connections srv)) cs"
  shows "tcp_ok (srv\<lparr>connections := cs, app := s1\<rparr>)"
proof -
  have "map sockfd cs = map sockfd (connections srv)" using assms(2)
    by (auto simp: list_all2_conv_all_nth intro: nth_equalityI)
  then have "set (map sockfd cs) = set (map sockfd (connections srv))" by simp
  with \<open>map sockfd cs = _\<close> assms(1) show ?thesis by (simp add: tcp_ok_def)
qed

lemma accept_new_connection_ok:
  assumes "tcp_ok srv" "accept_ok net srv"
  shows "tcp_ok (accept_new_connection net ctx on_connect srv)"
  using assms on_connect_socket
  by (auto simp: tcp_ok_def accept_ok_def accept_new_connection_def TCPConnection_new_def is_alive_def has_something_to_send_def
      TCPConnection_destroy_def Let_def)

theorem process_ok:
  assumes "tcp_ok srv" "accept_ok net srv" "TCPServer_process net ctx on_connect on_data srv = Some (n, srv')"
  shows "tcp_ok srv'" "n = word_of_nat (length (connections srv'))" "\<forall>c \<in> set (connections srv'). is_alive c"
proof -
  obtain cs s1 b where r: "list_all2 continues (map (check_lifetime (net_time net)) (connections srv)) cs"
    "srv' = get_alive_connections (if b then accept_new_connection net ctx on_connect (srv\<lparr>connections := cs, app := s1\<rparr>)
                                   else srv\<lparr>connections := cs, app := s1\<rparr>)"
    "n = word_of_nat (length (connections srv'))"
    by (rule process_result [OF assms(3)]) (rule that)
  have ok: "tcp_ok (srv\<lparr>connections := cs, app := s1\<rparr>)" by (rule continues_ok [OF assms(1) r(1)])
  have "accept_ok net (srv\<lparr>connections := cs, app := s1\<rparr>)" using assms(2) by (simp add: accept_ok_def)
  from accept_new_connection_ok [OF ok this] ok show "tcp_ok srv'" unfolding r(2) by (simp add: get_alive_connections_ok)
  show "n = word_of_nat (length (connections srv'))" by (rule r(3))
  show "\<forall>c \<in> set (connections srv'). is_alive c" unfolding r(2) by (simp add: get_alive_connections_eq)
qed

text \<open>A connection that is kept without anything to send is new, or was within both time limits.\<close>

theorem process_timeouts:
  assumes "TCPServer_process net ctx on_connect on_data srv = Some (n, srv')" "c' \<in> set (connections srv')" "data_out c' = []"
  shows "c' = on_connect (TCPConnection_new (net_accept_time net) (net_accept net) ctx) \<or>
    (\<exists>c \<in> set (connections srv). sockfd c' = sockfd c \<and> created_time c' = created_time c \<and>
       net_time net - created_time c \<le> MAX_CONNECTION_LIFETIME_SEC \<and> net_time net - last_beat_time c \<le> MAX_CONNECTION_IDLE_TIME_SEC)"
proof -
  obtain cs s1 b where r: "list_all2 continues (map (check_lifetime (net_time net)) (connections srv)) cs"
    "srv' = get_alive_connections (if b then accept_new_connection net ctx on_connect (srv\<lparr>connections := cs, app := s1\<rparr>)
                                   else srv\<lparr>connections := cs, app := s1\<rparr>)"
    by (rule process_result [OF assms(1)]) (rule that)
  have a: "connection_alive c'" using assms(2,3) unfolding r(2)
    by (auto simp: get_alive_connections_eq is_alive_def has_something_to_send_def)
  have "c' \<in> set cs \<or> c' = on_connect (TCPConnection_new (net_accept_time net) (net_accept net) ctx)"
    using assms(2) unfolding r(2)
    by (auto simp: get_alive_connections_eq accept_new_connection_def Let_def split: if_splits)
  moreover have "\<exists>c \<in> set (connections srv). continues (check_lifetime (net_time net) c) c'" if "c' \<in> set cs"
  proof -
    from that obtain i where i: "i < length cs" "c' = cs ! i" by (auto simp: in_set_conv_nth)
    show ?thesis by (rule bexI [of _ "connections srv ! i"]) (use i r(1) in \<open>simp_all add: list_all2_conv_all_nth\<close>)
  qed
  ultimately show ?thesis using a by auto
qed

end

subsection \<open>Handlers that survive\<close>

text \<open>
  A handler that always returns and keeps an invariant of the server, as long as what it finds
  outside the program is acceptable; the event loop then always returns, too, when the bytes that wait
  on a socket fit into the stack and no peer closes its side before it has read its answer.
\<close>

definition event_ok :: "('e \<Rightarrow> bool) \<Rightarrow> 'e io_event \<Rightarrow> bool" where
  "event_ok env_ok ev \<longleftrightarrow> env_ok (ev_env ev) \<and> (\<forall>n. ev_fionread ev = Some n \<longrightarrow> n \<le> ev_stack ev) \<and> \<not> ev_sigpipe ev"

definition net_ok :: "('e \<Rightarrow> bool) \<Rightarrow> 'e net \<Rightarrow> bool" where
  "net_ok env_ok net \<longleftrightarrow> (\<forall>fds revents i. net_poll net fds = PollReady revents \<longrightarrow> event_ok env_ok (revents i))"

locale surviving_handler =
  fixes on_data :: "'e \<Rightarrow> 'c Connection \<Rightarrow> 's \<Rightarrow> ('c Connection \<times> 's) option"
    and env_ok :: "'e \<Rightarrow> bool"
    and inv :: "'s \<Rightarrow> bool"
  assumes on_data_returns: "env_ok e \<Longrightarrow> inv s \<Longrightarrow> \<exists>c' s'. on_data e c s = Some (c', s') \<and> inv s'"
begin

lemma serve_one_returns:
  assumes "event_ok env_ok ev" "inv s"
  shows "\<exists>c' s'. serve_one on_data ev w c s = Some (c', s') \<and> inv s'"
proof -
  have e: "env_ok (ev_env ev)" using assms(1) by (simp add: event_ok_def)
  have "network_read (ev_stack ev) (ev_fionread ev) (ev_received ev) (ev_read_time ev) c \<noteq> None"
    using assms(1) by (auto simp: event_ok_def network_read_def Let_def split: option.splits)
  then obtain c0 where r: "network_read (ev_stack ev) (ev_fionread ev) (ev_received ev) (ev_read_time ev) c = Some c0" by blast
  have w: "\<exists>c'. network_write (ev_sigpipe ev) (ev_send ev) (ev_write_time ev) d = Some c'" for d :: "'c Connection"
    using assms(1) by (simp add: event_ok_def network_write_def Let_def)
  have o: "\<exists>c' s'. on_data (ev_env ev) c0 s = Some (c', s') \<and> inv s'" by (rule on_data_returns [OF e assms(2)])
  show ?thesis using o w assms(2) by (fastforce simp: serve_one_def r)
qed

lemma serve_all_returns:
  "\<forall>e \<in> set es. event_ok env_ok (fst e) \<Longrightarrow> inv s \<Longrightarrow> \<exists>cs s'. serve_all on_data es s = Some (cs, s') \<and> inv s'"
proof (induction es arbitrary: s)
  case (Cons e es)
  obtain ev w c where e: "e = (ev, w, c)" by (cases e)
  obtain c' s1 where o: "serve_one on_data ev w c s = Some (c', s1)" "inv s1"
    using serve_one_returns Cons.prems e by (metis fst_conv list.set_intros(1))
  obtain cs s' where "serve_all on_data es s1 = Some (cs, s')" "inv s'" using Cons.IH [OF _ o(2)] Cons.prems(1) by auto
  with o show ?case unfolding e by simp
qed simp

lemma process_returns:
  assumes "net_ok env_ok net" "inv (app srv)"
  shows "\<exists>n srv'. TCPServer_process net ctx on_connect on_data srv = Some (n, srv') \<and> inv (app srv')"
proof (cases "net_poll net (poll_set srv)")
  case (PollReady revents)
  let ?conns = "map (check_lifetime (net_time net)) (connections srv)"
  let ?es = "zip (map revents [1..<length ?conns + 1]) (zip (map has_something_to_send (connections srv)) ?conns)"
  have "\<forall>e \<in> set ?es. event_ok env_ok (fst e)"
    using assms(1) PollReady unfolding net_ok_def by (auto dest!: set_zip_leftD)
  from serve_all_returns [OF this assms(2)] obtain cs s where r: "serve_all on_data ?es (app srv) = Some (cs, s)" "inv s" by blast
  show ?thesis unfolding TCPServer_process_def Let_def PollReady poll_result.case r(1) option.case prod.case
    using r(2) by (simp add: get_alive_connections_eq accept_new_connection_def Let_def)
qed (use assms(2) in \<open>simp_all add: TCPServer_process_def Let_def get_alive_connections_eq\<close>)

end

end
