(* ===== verification/SearchQuery.thy ===== *)
theory SearchQuery
  imports Types
begin

text \<open>
  Model of \<^verbatim>\<open>src/search_query.hpp\<close> and \<^verbatim>\<open>src/search_query.cpp\<close>: the filters of a search,
  one flag and one value per request parameter, and the setters that fill them.  The query
  classes derive from \<open>SearchQuery\<close>, so the setters are polymorphic in the record's extension.
  A member that the class leaves uninitialised keeps what the memory \<open>raw\<close> of the new object
  holds.  A setter that throws leaves a half-built query; every caller drops it.
\<close>

section \<open>State\<close>

record DateInterval =
  di_from :: u32
  di_to :: u32
  di_duration :: u32

record StayInterval =
  si_from :: u8
  si_to :: u8

record SearchQuery =
  departure_return_max_duration :: u32
  min_timestamp :: u32
  filter_origin :: bool
  origin_value :: u32
  filter_destination :: bool
  destination_values_set :: "u32 set"
  filter_destination_country :: bool
  destination_country_set :: "u8 set"
  filter_departure_date :: bool
  departure_date_values :: DateInterval
  filter_return_date :: bool
  return_date_values :: DateInterval
  filter_exact_date :: bool
  exact_date_value :: u32
  filter_timestamp :: bool
  timestamp_value :: u32
  filter_flight_by_stops :: bool
  direct_flights_flag :: bool
  filter_flight_by_roundtrip :: bool
  roundtrip_flight_flag :: bool
  filter_departure_weekdays :: bool
  departure_weekdays_bitmask :: u8
  filter_return_weekdays :: bool
  return_weekdays_bitmask :: u8
  filter_stay_days :: bool
  stay_days_values :: StayInterval
  filter_result_limit :: u16
  filter_locale :: bool
  locale_value :: u8
  filter_all_combinations :: bool

type_synonym 'x query = "'x SearchQuery_scheme"

definition SearchQuery_init :: "'x query \<Rightarrow> 'x query" where
  "SearchQuery_init raw = raw\<lparr>
     departure_return_max_duration := 0, min_timestamp := 0, filter_origin := False,
     filter_destination := False, destination_values_set := {},
     filter_destination_country := False, destination_country_set := {},
     filter_departure_date := False, filter_return_date := False, filter_exact_date := False,
     filter_timestamp := False, filter_flight_by_stops := False, filter_flight_by_roundtrip := False,
     filter_departure_weekdays := False, filter_return_weekdays := False, filter_stay_days := False,
     filter_result_limit := 20, filter_locale := False, filter_all_combinations := False\<rparr>"

definition UINT8_MAX :: nat where "UINT8_MAX = 255"

section \<open>Setters\<close>

definition origin :: "IATACode \<Rightarrow> 'x query \<Rightarrow> 'x query result" where
  "origin code q =
     (if isUndefined code then Inr q
      else let q = q\<lparr>filter_origin := True\<rparr>
           in rbind (IATACode_get_code code) (\<lambda>c. Inr (q\<lparr>origin_value := c\<rparr>)))"

fun insert_all :: "('c \<Rightarrow> 'v result) \<Rightarrow> 'v set \<Rightarrow> 'c list \<Rightarrow> 'v set result" where
  "insert_all get_code s [] = Inr s"
| "insert_all get_code s (c # cs) = rbind (get_code c) (\<lambda>v. insert_all get_code (insert v s) cs)"

definition destinations :: "IATACodes \<Rightarrow> 'x query \<Rightarrow> 'x query result" where
  "destinations codes q =
     (if isUndefined codes then Inr q
      else rbind (insert_all IATACode_get_code {} (iata_codes codes))
        (\<lambda>s. let q = q\<lparr>destination_values_set := s\<rparr>
             in Inr (if card (destination_values_set q) \<noteq> 0 then q\<lparr>filter_destination := True\<rparr> else q)))"

definition destination_countries :: "CountryCodes \<Rightarrow> 'x query \<Rightarrow> 'x query result" where
  "destination_countries countries q =
     (if isUndefined countries then Inr q
      else rbind (insert_all CountryCode_get_code {} (country_codes countries))
        (\<lambda>s. let q = q\<lparr>destination_country_set := s\<rparr>
             in Inr (if card (destination_country_set q) \<noteq> 0 then q\<lparr>filter_destination_country := True\<rparr> else q)))"

definition max_lifetime_sec :: "u32 \<Rightarrow> Number \<Rightarrow> 'x query \<Rightarrow> 'x query result" where
  "max_lifetime_sec now max_lifetime q =
     (if isUndefined max_lifetime then Inr q
      else let q = q\<lparr>filter_timestamp := True\<rparr>
           in rbind (get_value max_lifetime) (\<lambda>v. Inr (q\<lparr>timestamp_value := now - v\<rparr>)))"

definition date_or :: "u32 \<Rightarrow> Date \<Rightarrow> u32 result" where
  "date_or dflt d = (if isDefined d then Date_get_code d else Inr dflt)"

definition interval_days :: "Date \<Rightarrow> Date \<Rightarrow> u32" where
  "interval_days date_from date_to =
     (if isDefined date_from \<and> isDefined date_to then days_after date_to date_from + 1 else 0)"

definition departure_dates :: "Date \<Rightarrow> Date \<Rightarrow> 'x query \<Rightarrow> 'x query result" where
  "departure_dates departure_date_from departure_date_to q =
     (if isUndefined departure_date_from \<and> isUndefined departure_date_to then Inr q
      else let q = q\<lparr>filter_departure_date := True\<rparr>;
               duration = interval_days departure_date_from departure_date_to
           in rbind (date_or 0 departure_date_from) (\<lambda>f.
              rbind (date_or (- 1) departure_date_to) (\<lambda>t.
                if f > t
                then Inl (Error (''departure_dates departure_date_from > departure_date_to'' @ [LF]) BadParameter)
                else Inr (q\<lparr>departure_date_values := \<lparr>di_from = f, di_to = t, di_duration = duration\<rparr>\<rparr>))))"

definition return_dates :: "Date \<Rightarrow> Date \<Rightarrow> 'x query \<Rightarrow> 'x query result" where
  "return_dates return_date_from return_date_to q =
     (if isUndefined return_date_from \<and> isUndefined return_date_to then Inr q
      else let q = q\<lparr>filter_return_date := True\<rparr>;
               duration = interval_days return_date_from return_date_to
           in rbind (date_or 0 return_date_from) (\<lambda>f.
              rbind (date_or (- 1) return_date_to) (\<lambda>t.
                if f > t
                then Inl (Error (''departure_dates return_date_from > return_date_to'' @ [LF]) BadParameter)
                else Inr (q\<lparr>return_date_values := \<lparr>di_from = f, di_to = t, di_duration = duration\<rparr>\<rparr>))))"

definition exact_departure_or_return_date :: "Date \<Rightarrow> 'x query \<Rightarrow> 'x query result" where
  "exact_departure_or_return_date exact_date q =
     (if isUndefined exact_date then Inr q
      else let q = q\<lparr>filter_exact_date := True\<rparr>
           in rbind (Date_get_code exact_date) (\<lambda>c. Inr (q\<lparr>exact_date_value := c\<rparr>)))"

definition calc_departue_return_max_duration ::
  "Date \<Rightarrow> Date \<Rightarrow> Date \<Rightarrow> Date \<Rightarrow> 'x query \<Rightarrow> 'x query result" where
  "calc_departue_return_max_duration departure_date_from departure_date_to return_date_from return_date_to q =
     (if isDefined departure_date_from \<and> isDefined return_date_to
      then Inr (q\<lparr>departure_return_max_duration := days_after return_date_to departure_date_from + 1\<rparr>)
      else let dep_range = interval_days departure_date_from departure_date_to;
               ret_range = interval_days return_date_from return_date_to
           in Inr (q\<lparr>departure_return_max_duration := (if dep_range > ret_range then dep_range else ret_range)\<rparr>))"

definition number_or :: "u32 \<Rightarrow> Number \<Rightarrow> u32 result" where
  "number_or dflt n = (if isDefined n then get_value n else Inr dflt)"

definition check_stay :: "string \<Rightarrow> Number \<Rightarrow> unit result" where
  "check_stay msg n =
     (if isDefined n
      then rbind (get_value n) (\<lambda>v. if unat v > UINT8_MAX then Inl (Error msg BadParameter) else Inr ())
      else Inr ())"

definition stay_days :: "Number \<Rightarrow> Number \<Rightarrow> 'x query \<Rightarrow> 'x query result" where
  "stay_days stay_from stay_to q =
     (if isUndefined stay_from \<and> isUndefined stay_to then Inr q
      else let q = q\<lparr>filter_stay_days := True\<rparr>
           in rbind (check_stay ''stay_from > 255'' stay_from) (\<lambda>_.
              rbind (check_stay ''stay_to > 255'' stay_to) (\<lambda>_.
              rbind (number_or 0 stay_from) (\<lambda>f.
              rbind (number_or (of_nat UINT8_MAX) stay_to) (\<lambda>t.
                let v = \<lparr>si_from = ucast f, si_to = ucast t\<rparr>
                in if si_from v > si_to v then Inl (Error ''stay_from > stay_to'' BadParameter)
                   else Inr (q\<lparr>stay_days_values := v\<rparr>))))))"

definition departure_weekdays :: "Weekdays \<Rightarrow> 'x query \<Rightarrow> 'x query result" where
  "departure_weekdays days_of_week q =
     (if isUndefined days_of_week then Inr q
      else let q = q\<lparr>filter_departure_weekdays := True\<rparr>
           in rbind (get_bitmask days_of_week) (\<lambda>m. Inr (q\<lparr>departure_weekdays_bitmask := m\<rparr>)))"

definition return_weekdays :: "Weekdays \<Rightarrow> 'x query \<Rightarrow> 'x query result" where
  "return_weekdays days_of_week q =
     (if isUndefined days_of_week then Inr q
      else let q = q\<lparr>filter_return_weekdays := True\<rparr>
           in rbind (get_bitmask days_of_week) (\<lambda>m. Inr (q\<lparr>return_weekdays_bitmask := m\<rparr>)))"

definition direct_flights :: "Boolean \<Rightarrow> 'x query \<Rightarrow> 'x query result" where
  "direct_flights direct q =
     (if isUndefined direct then Inr q
      else let q = q\<lparr>filter_flight_by_stops := True\<rparr>
           in rbind (isTrue direct) (\<lambda>b. Inr (q\<lparr>direct_flights_flag := b\<rparr>)))"

definition roundtrip_flights :: "Boolean \<Rightarrow> 'x query \<Rightarrow> 'x query result" where
  "roundtrip_flights roundtrip q =
     (if isUndefined roundtrip then Inr q
      else let q = q\<lparr>filter_flight_by_roundtrip := True\<rparr>
           in rbind (isTrue roundtrip) (\<lambda>b. Inr (q\<lparr>roundtrip_flight_flag := b\<rparr>)))"

definition result_limit :: "Number \<Rightarrow> 'x query \<Rightarrow> 'x query result" where
  "result_limit limit q =
     (if isUndefined limit then Inr q
      else rbind (get_value limit) (\<lambda>v.
        if v > 0 \<and> v \<le> 367 then Inr (q\<lparr>filter_result_limit := ucast v\<rparr>)
        else Inl (Error (''deals_limit to big'' @ [LF]) BadParameter)))"

definition locale_filter :: "CountryCode \<Rightarrow> 'x query \<Rightarrow> 'x query result" where
  "locale_filter loc q =
     (if isUndefined loc then Inr q
      else let q = q\<lparr>filter_locale := True\<rparr>
           in rbind (CountryCode_get_code loc) (\<lambda>c. Inr (q\<lparr>locale_value := c\<rparr>)))"

definition all_combinations :: "Boolean \<Rightarrow> 'x query \<Rightarrow> 'x query result" where
  "all_combinations flag q =
     (if isUndefined flag then Inr q
      else rbind (isTrue flag) (\<lambda>b. Inr (q\<lparr>filter_all_combinations := b\<rparr>)))"

end
