(* ===== verification/Locks.thy ===== *)
theory Locks
  imports Types
begin

text \<open>
  Model of \<^verbatim>\<open>src/locks.hpp\<close> and \<^verbatim>\<open>src/locks.cpp\<close>: named POSIX semaphores, the
  \<^verbatim>\<open>CriticalSection\<close> that uses one as a lock between processes, and its guard
  \<^verbatim>\<open>AutoCloser\<close>.  A semaphore is its value.  A process that waits on a semaphore of
  value zero and is not signalled in time gets the timeout error; waiting that is ended by
  another process is an interleaving in which that process moves first.
\<close>

section \<open>Semaphores\<close>

type_synonym sem_table = "string \<Rightarrow> nat option"

definition SEM_VALUE_MAX :: nat where "SEM_VALUE_MAX = 2147483647"

text \<open>\<^verbatim>\<open>sem_open\<close> with \<^verbatim>\<open>O_CREAT\<close> and initial value 1.\<close>

definition sem_open :: "string \<Rightarrow> sem_table \<Rightarrow> sem_table" where
  "sem_open name sems = (case sems name of None \<Rightarrow> sems(name \<mapsto> 1) | Some _ \<Rightarrow> sems)"

definition sem_value :: "sem_table \<Rightarrow> string \<Rightarrow> nat" where
  "sem_value sems name = (case sems name of None \<Rightarrow> 0 | Some v \<Rightarrow> v)"

definition sem_trywait :: "string \<Rightarrow> sem_table \<Rightarrow> bool \<times> sem_table" where
  "sem_trywait name sems =
     (if sem_value sems name = 0 then (False, sems)
      else (True, sems(name \<mapsto> sem_value sems name - 1)))"

definition sem_post :: "string \<Rightarrow> sem_table \<Rightarrow> bool \<times> sem_table" where
  "sem_post name sems =
     (if SEM_VALUE_MAX \<le> sem_value sems name then (False, sems)
      else (True, sems(name \<mapsto> sem_value sems name + 1)))"

section \<open>Critical sections\<close>

record CriticalSection =
  cs_name :: string
  unlock_needed :: bool

type_synonym lock_state = "sem_table \<times> CriticalSection"

text \<open>The constructor; \<open>ok\<close> tells whether \<^verbatim>\<open>sem_open\<close> succeeds.\<close>

definition CriticalSection_new :: "bool \<Rightarrow> string \<Rightarrow> (sem_table, CriticalSection) op" where
  "CriticalSection_new ok name sems =
     (if ok then (Inr \<lparr>cs_name = name, unlock_needed = False\<rparr>, sem_open name sems)
      else (Inl (Error (''LOCK_SEM_FAILED'' @ [LF]) InternalError), sems))"

definition semaphore_accuire :: "(lock_state, unit) op" where
  "semaphore_accuire = (\<lambda>(sems, cs).
     case sem_trywait (cs_name cs) sems of
       (False, sems') \<Rightarrow> (Inl (Error (''CANT_LOCK'' @ [LF]) InternalError), (sems', cs))
     | (True, sems') \<Rightarrow> (Inr (), (sems', cs)))"

definition semaphore_release :: "(lock_state, unit) op" where
  "semaphore_release = (\<lambda>(sems, cs).
     case sem_post (cs_name cs) sems of
       (False, sems') \<Rightarrow> (Inl (Error (''CANT_SEM_POST'' @ [LF]) InternalError), (sems', cs))
     | (True, sems') \<Rightarrow> (Inr (), (sems', cs)))"

definition set_unlock_needed :: "bool \<Rightarrow> lock_state \<Rightarrow> lock_state" where
  "set_unlock_needed b = (\<lambda>(sems, cs). (sems, cs\<lparr>unlock_needed := b\<rparr>))"

definition cs_enter :: "(lock_state, unit) op" where
  "cs_enter = sbind semaphore_accuire (\<lambda>_. modify (set_unlock_needed True))"

definition cs_exit :: "(lock_state, unit) op" where
  "cs_exit st =
     (if unlock_needed (snd st) then sbind semaphore_release (\<lambda>_. modify (set_unlock_needed False)) st
      else (Inr (), set_unlock_needed False st))"

definition is_locked :: "CriticalSection \<Rightarrow> bool" where
  "is_locked cs = unlock_needed cs"

text \<open>The destructors of the section and of the guard.\<close>

definition CriticalSection_destroy :: "(lock_state, unit) op" where
  "CriticalSection_destroy st = (if unlock_needed (snd st) then semaphore_release st else (Inr (), st))"

definition AutoCloser_destroy :: "(lock_state, unit) op" where
  "AutoCloser_destroy = cs_exit"

text \<open>The retry loop of \<^verbatim>\<open>reset_not_for_production\<close>, and the function.\<close>

partial_function (option) reset_loop :: "string \<Rightarrow> sem_table \<Rightarrow> sem_table option" where
  "reset_loop name sems =
     (let (taken, sems') = sem_trywait name sems
      in if taken then Some sems' else reset_loop name (snd (sem_post name sems')))"

definition reset_not_for_production :: "string \<Rightarrow> sem_table \<Rightarrow> sem_table option" where
  "reset_not_for_production name sems = map_option (\<lambda>s. snd (sem_post name s)) (reset_loop name sems)"

lemmas lock_defs = cs_enter_def cs_exit_def semaphore_accuire_def semaphore_release_def
  sem_trywait_def sem_post_def set_unlock_needed_def CriticalSection_destroy_def AutoCloser_destroy_def

section \<open>Behaviour of the operations\<close>

lemma sem_value_upd [simp]: "sem_value (sems(n \<mapsto> v)) m = (if m = n then v else sem_value sems m)"
  by (simp add: sem_value_def)

lemma sem_upd_same: "sems n = Some v \<Longrightarrow> sems(n \<mapsto> v) = sems"
  by (auto simp: fun_eq_iff)

lemma cs_enter_eq:
  "cs_enter (sems, cs) =
     (if sem_value sems (cs_name cs) = 0 then (Inl (Error (''CANT_LOCK'' @ [LF]) InternalError), (sems, cs))
      else (Inr (), (sems(cs_name cs \<mapsto> sem_value sems (cs_name cs) - 1), cs\<lparr>unlock_needed := True\<rparr>)))"
  by (simp add: lock_defs sbind_def)

lemma cs_exit_eq:
  "cs_exit (sems, cs) =
     (if \<not> unlock_needed cs then (Inr (), (sems, cs\<lparr>unlock_needed := False\<rparr>))
      else if SEM_VALUE_MAX \<le> sem_value sems (cs_name cs)
      then (Inl (Error (''CANT_SEM_POST'' @ [LF]) InternalError), (sems, cs))
      else (Inr (), (sems(cs_name cs \<mapsto> sem_value sems (cs_name cs) + 1), cs\<lparr>unlock_needed := False\<rparr>)))"
  by (simp add: lock_defs sbind_def)

text \<open>A section that is entered and left leaves the semaphore as it was.\<close>

lemma enter_exit:
  assumes "cs_enter (sems, cs) = (Inr (), st)" and "sem_value sems (cs_name cs) \<le> SEM_VALUE_MAX"
    and "\<not> unlock_needed cs"
  shows "cs_exit st = (Inr (), (sems, cs))"
proof -
  have v: "sem_value sems (cs_name cs) \<noteq> 0"
    and st: "st = (sems(cs_name cs \<mapsto> sem_value sems (cs_name cs) - 1), cs\<lparr>unlock_needed := True\<rparr>)"
    using assms(1) by (simp_all add: cs_enter_eq split: if_splits)
  have s: "sems(cs_name cs \<mapsto> sem_value sems (cs_name cs)) = sems"
    using v by (auto simp: sem_value_def fun_eq_iff split: option.splits)
  have "cs\<lparr>unlock_needed := False\<rparr> = cs" using assms(3) by (cases cs) simp
  with s v assms(2) show ?thesis unfolding st cs_exit_eq by simp
qed

section \<open>Processes that share the semaphores\<close>

text \<open>
  A configuration is the semaphores and one section object per process.  A process may enter,
  leave through \<^verbatim>\<open>exit\<close> or a guard, open a further section, or destroy its own; each of
  these is one access to the semaphore and hence atomic.  A destroyed section is represented
  by its slot reset to the constructor's value.
\<close>

type_synonym lock_config = "sem_table \<times> CriticalSection list"

inductive lock_step :: "lock_config \<Rightarrow> lock_config \<Rightarrow> bool" where
  open_section: "CriticalSection_new ok name sems = (Inr cs, sems') \<Longrightarrow>
     lock_step (sems, css) (sems', css @ [cs])"
| enter: "i < length css \<Longrightarrow> cs_enter (sems, css ! i) = (r, (sems', cs')) \<Longrightarrow>
     lock_step (sems, css) (sems', css[i := cs'])"
| exit: "i < length css \<Longrightarrow> cs_exit (sems, css ! i) = (r, (sems', cs')) \<Longrightarrow>
     lock_step (sems, css) (sems', css[i := cs'])"
| destroy: "i < length css \<Longrightarrow> CriticalSection_destroy (sems, css ! i) = (Inr (), (sems', cs')) \<Longrightarrow>
     lock_step (sems, css) (sems', css[i := \<lparr>cs_name = cs_name (css ! i), unlock_needed = False\<rparr>])"

definition holders :: "string \<Rightarrow> CriticalSection list \<Rightarrow> nat" where
  "holders name css = length (filter (\<lambda>cs. cs_name cs = name \<and> unlock_needed cs) css)"

text \<open>Every opened section has a semaphore, and the value and the holders add up to one.\<close>

definition lock_inv :: "lock_config \<Rightarrow> bool" where
  "lock_inv c \<longleftrightarrow>
     (\<forall>cs \<in> set (snd c). fst c (cs_name cs) \<noteq> None) \<and>
     (\<forall>name v. fst c name = Some v \<longrightarrow> v + holders name (snd c) = 1)"

lemma holders_simps [simp]:
  "holders name [] = 0"
  "holders name (cs # css) = (if cs_name cs = name \<and> unlock_needed cs then 1 else 0) + holders name css"
  by (simp_all add: holders_def)

lemma holders_update:
  assumes "i < length css"
  shows "holders name (css[i := cs]) + (if cs_name (css ! i) = name \<and> unlock_needed (css ! i) then 1 else 0)
       = holders name css + (if cs_name cs = name \<and> unlock_needed cs then 1 else 0)"
  using assms
proof (induction css arbitrary: i)
  case (Cons c css)
  show ?case
  proof (cases i)
    case (Suc j)
    then show ?thesis using Cons.IH [of j] Cons.prems by simp
  qed simp
qed simp

lemma holders_absent: "\<forall>cs \<in> set css. cs_name cs \<noteq> name \<Longrightarrow> holders name css = 0"
  by (auto simp: holders_def filter_empty_conv)

lemma lock_inv_update:
  assumes "lock_inv (sems, css)" and i: "i < length css" and "cs_name cs' = cs_name (css ! i)"
    and "sems' = sems(cs_name cs' \<mapsto> v')"
    and "v' + (if unlock_needed cs' then 1 else 0)
       = sem_value sems (cs_name cs') + (if unlock_needed (css ! i) then 1 else 0)"
  shows "lock_inv (sems', css[i := cs'])"
proof -
  let ?n = "cs_name cs'"
  obtain v where v: "sems ?n = Some v"
    using assms(1,3) i by (fastforce simp: lock_inv_def)
  have one: "v + holders ?n css = 1" using assms(1) v by (simp add: lock_inv_def)
  have hn: "holders ?n (css[i := cs']) + (if unlock_needed (css ! i) then 1 else 0)
      = holders ?n css + (if unlock_needed cs' then 1 else 0)"
    using holders_update [OF i, of ?n cs'] assms(3) by simp
  have ho: "holders m (css[i := cs']) = holders m css" if "m \<noteq> ?n" for m
    using holders_update [OF i, of m cs'] assms(3) that by simp
  have "v' + holders ?n (css[i := cs']) = 1"
    using one hn assms(5) v by (auto simp: sem_value_def split: if_splits)
  moreover have "\<forall>c \<in> set (css[i := cs']). sems' (cs_name c) \<noteq> None"
    using assms(1,4) by (auto simp: lock_inv_def dest!: subsetD [OF set_update_subset_insert])
  ultimately show ?thesis
    using assms(1,4) ho by (auto simp: lock_inv_def)
qed

lemma unlock_idle: "\<not> unlock_needed cs \<Longrightarrow> cs\<lparr>unlock_needed := False\<rparr> = cs"
  by (cases cs) simp

lemma lock_inv_unlock:
  "lock_inv (sems, css) \<Longrightarrow> \<not> unlock_needed (css ! i) \<Longrightarrow> lock_inv (sems, css[i := (css ! i)\<lparr>unlock_needed := False\<rparr>])"
  by (simp add: unlock_idle)

lemma lock_step_inv: "lock_step c c' \<Longrightarrow> lock_inv c \<Longrightarrow> lock_inv c'"
proof (induction rule: lock_step.induct)
  case (open_section ok name sems cs sems' css)
  then have cs: "cs = \<lparr>cs_name = name, unlock_needed = False\<rparr>" and s: "sems' = sem_open name sems"
    by (simp_all add: CriticalSection_new_def split: if_splits)
  have h: "holders m (css @ [cs]) = holders m css" for m unfolding cs by (simp add: holders_def)
  have "holders name css = 0" if "sems name = None"
    using open_section.prems that by (intro holders_absent) (auto simp: lock_inv_def)
  then show ?case using open_section.prems
    by (cases "sems name") (auto simp: lock_inv_def h s sem_open_def, auto simp: cs)
next
  case (enter i css sems r sems' cs')
  show ?case
  proof (cases "sem_value sems (cs_name (css ! i)) = 0")
    case True
    with enter show ?thesis by (auto simp: cs_enter_eq)
  next
    case False
    then obtain v where v: "sems (cs_name (css ! i)) = Some v" "v > 0"
      by (auto simp: sem_value_def split: option.splits)
    then have "v + holders (cs_name (css ! i)) css = 1"
      using enter.prems by (simp add: lock_inv_def)
    then have "holders (cs_name (css ! i)) css = 0" using v by simp
    then have "\<not> unlock_needed (css ! i)"
      using enter.hyps(1) by (auto simp: holders_def filter_empty_conv)
    with False enter show ?thesis
      by (intro lock_inv_update [of sems css i _ _ "sem_value sems (cs_name (css ! i)) - 1"])
         (auto simp: cs_enter_eq)
  qed
next
  case (exit i css sems r sems' cs')
  consider "\<not> unlock_needed (css ! i)" | "SEM_VALUE_MAX \<le> sem_value sems (cs_name (css ! i))"
    | "unlock_needed (css ! i)" "\<not> SEM_VALUE_MAX \<le> sem_value sems (cs_name (css ! i))" by blast
  then show ?case
  proof cases
    case 1
    with exit show ?thesis by (auto simp: cs_exit_eq unlock_idle)
  next
    case 2
    with exit show ?thesis
      by (cases "unlock_needed (css ! i)") (auto simp: cs_exit_eq lock_inv_unlock)
  next
    case 3
    with exit show ?thesis
      by (intro lock_inv_update [of sems css i _ _ "sem_value sems (cs_name (css ! i)) + 1"])
         (auto simp: cs_exit_eq)
  qed
next
  case (destroy i css sems sems' cs')
  show ?case
  proof (cases "unlock_needed (css ! i)")
    case True
    with destroy show ?thesis
      by (intro lock_inv_update [of sems css i _ _ "sem_value sems (cs_name (css ! i)) + 1"])
         (auto simp: lock_defs split: if_splits)
  next
    case False
    then have e: "\<lparr>cs_name = cs_name (css ! i), unlock_needed = False\<rparr> = css ! i" by (cases "css ! i") simp
    show ?thesis unfolding e using False destroy by (auto simp: CriticalSection_destroy_def)
  qed
qed

lemma lock_steps_inv: "lock_step\<^sup>*\<^sup>* c c' \<Longrightarrow> lock_inv c \<Longrightarrow> lock_inv c'"
  by (induction rule: rtranclp_induct) (auto intro: lock_step_inv)

lemma lock_inv_init: "lock_inv (\<lambda>_. None, [])"
  by (simp add: lock_inv_def)

text \<open>
  C28. Mutual exclusion: however the processes interleave, starting from no semaphores, at
  most one section object of a given name is inside its critical section, and a process can
  enter exactly when there is none.
\<close>

theorem mutual_exclusion:
  assumes "lock_step\<^sup>*\<^sup>* (\<lambda>_. None, []) (sems, css)"
  shows "holders name css \<le> 1 \<and>
    (\<forall>i < length css. (\<exists>st. cs_enter (sems, css ! i) = (Inr (), st)) \<longleftrightarrow> holders (cs_name (css ! i)) css = 0)"
proof -
  have inv: "lock_inv (sems, css)" using assms lock_inv_init by (rule lock_steps_inv)
  have "holders name css \<le> 1"
  proof (cases "sems name")
    case None
    then have "holders name css = 0" using inv by (intro holders_absent) (auto simp: lock_inv_def)
    then show ?thesis by simp
  next
    case (Some v)
    with inv have "v + holders name css = 1" by (simp add: lock_inv_def)
    then show ?thesis by simp
  qed
  moreover have "(\<exists>st. cs_enter (sems, css ! i) = (Inr (), st)) \<longleftrightarrow> holders (cs_name (css ! i)) css = 0"
    if i: "i < length css" for i
  proof -
    have "css ! i \<in> set css" using i by simp
    then obtain v where v: "sems (cs_name (css ! i)) = Some v" using inv by (auto simp: lock_inv_def)
    with inv have "sem_value sems (cs_name (css ! i)) + holders (cs_name (css ! i)) css = 1"
      by (simp add: lock_inv_def sem_value_def)
    then show ?thesis by (auto simp: cs_enter_eq)
  qed
  ultimately show ?thesis by blast
qed

definition two_sections :: "CriticalSection list" where
  "two_sections = [\<lparr>cs_name = ''DealsInfo'', unlock_needed = True\<rparr>, \<lparr>cs_name = ''DealsInfo'', unlock_needed = False\<rparr>]"

lemma two_sections_reachable:
  "lock_step\<^sup>*\<^sup>* (\<lambda>_. None, []) ([''DealsInfo'' \<mapsto> 0], two_sections)"
proof -
  let ?c = "\<lparr>cs_name = ''DealsInfo'', unlock_needed = False\<rparr>"
  have a: "lock_step (\<lambda>_. None, []) ([''DealsInfo'' \<mapsto> 1], [] @ [?c])"
    by (rule lock_step.open_section [of True "''DealsInfo''"]) (simp add: CriticalSection_new_def sem_open_def)
  have b: "lock_step ([''DealsInfo'' \<mapsto> 1], [?c]) ([''DealsInfo'' \<mapsto> 1], [?c] @ [?c])"
    by (rule lock_step.open_section [of True "''DealsInfo''"]) (simp add: CriticalSection_new_def sem_open_def)
  have c: "lock_step ([''DealsInfo'' \<mapsto> 1], [?c, ?c]) ([''DealsInfo'' \<mapsto> 0], [?c, ?c][0 := ?c\<lparr>unlock_needed := True\<rparr>])"
    by (rule lock_step.enter [where r = "Inr ()"]) (simp_all add: cs_enter_eq)
  from a b c show ?thesis by (simp add: two_sections_def)
qed

theorem mutual_exclusion_witness:
  "holders ''DealsInfo'' two_sections \<le> 1 \<and>
   \<not> (\<exists>st. cs_enter ([''DealsInfo'' \<mapsto> 0], two_sections ! 1) = (Inr (), st))"
  using mutual_exclusion [OF two_sections_reachable, of "''DealsInfo''"]
  by (simp add: two_sections_def holders_def cs_enter_eq)

text \<open>
  \<^verbatim>\<open>reset_not_for_production\<close> ends and makes the semaphore available: its value is the
  old one, or one if that was zero, and no other semaphore changes.
\<close>

theorem reset_makes_available:
  assumes "sem_value sems name \<le> SEM_VALUE_MAX"
  shows "\<exists>sems'. reset_not_for_production name sems = Some sems'
     \<and> sem_value sems' name = max 1 (sem_value sems name)
     \<and> (\<forall>m. m \<noteq> name \<longrightarrow> sems' m = sems m)"
proof (cases "sem_value sems name = 0")
  case True
  then have "reset_loop name sems = Some (sems(name \<mapsto> 0))"
    by (subst reset_loop.simps, subst reset_loop.simps)
       (simp add: sem_trywait_def sem_post_def SEM_VALUE_MAX_def)
  then show ?thesis using True
    by (simp add: reset_not_for_production_def sem_post_def SEM_VALUE_MAX_def)
next
  case False
  then have "reset_loop name sems = Some (sems(name \<mapsto> sem_value sems name - 1))"
    by (subst reset_loop.simps) (simp add: sem_trywait_def)
  then show ?thesis using False assms
    by (simp add: reset_not_for_production_def sem_post_def)
qed

theorem reset_makes_available_witness:
  "\<exists>sems'. reset_not_for_production ''TT'' [''TT'' \<mapsto> 0] = Some sems' \<and> sem_value sems' ''TT'' = 1"
  using reset_makes_available [of "[''TT'' \<mapsto> 0]" "''TT''"] by (auto simp: sem_value_def SEM_VALUE_MAX_def)

end
