(* ===== verification/SharedMemory.thy ===== *)
theory SharedMemory
  imports Locks
begin

text \<open>
  Model of \<^verbatim>\<open>src/shared_memory.hpp\<close>, \<^verbatim>\<open>src/shared_memory.cpp\<close> and
  \<^verbatim>\<open>src/shared_memory.tpp\<close>: pages of POSIX shared memory, the table that stores records
  in pages through an index shared by all processes, and the reuse and release of expired
  pages.

  A shared memory object outlives its name while a process has it mapped, so names refer to
  objects and a mapping is the number of an object.  Reads and writes outside an object are
  the error \<open>segv\<close>.  The clock is an argument of the operations and the outcome of the
  system calls is the parameter \<open>os\<close>.
\<close>

section \<open>The operating system\<close>

text \<open>
  What the system calls answer during one operation: the memory page size, the
  \<^verbatim>\<open>statvfs\<close> counters of \<^verbatim>\<open>/dev/shm\<close>, and which named calls succeed.
\<close>

record os =
  sc_page_size :: nat
  f_bavail :: nat
  f_blocks :: nat
  sem_ok :: "string \<Rightarrow> bool"
  open_ok :: "string \<Rightarrow> bool"
  trunc_ok :: "string \<Rightarrow> bool"
  map_ok :: "string \<Rightarrow> bool"

definition MEMPAGE_NAME_MAX_LEN :: nat where "MEMPAGE_NAME_MAX_LEN = 20"
definition MEMPAGE_REMOVE_EXPIRED_PAGES_AT_ONCE :: nat where "MEMPAGE_REMOVE_EXPIRED_PAGES_AT_ONCE = 5"
definition MEMPAGE_REMOVE_EXPIRED_PAGES_DELAY_SEC :: u32 where "MEMPAGE_REMOVE_EXPIRED_PAGES_DELAY_SEC = 60"
definition MEMPAGE_CHECK_EXPIRED_PAGES_INTERVAL_SEC :: u32 where "MEMPAGE_CHECK_EXPIRED_PAGES_INTERVAL_SEC = 5"
definition LOWMEM_PERCENT_FOR_PAGE_REUSING :: u32 where "LOWMEM_PERCENT_FOR_PAGE_REUSING = 15"
definition LOWMEM_ERROR_PERCENT :: u32 where "LOWMEM_ERROR_PERCENT = 10"

text \<open>
  What ends the process: an access outside its memory, and a division by zero.  No handler
  catches these.
\<close>

definition segv :: exn where "segv = StdException ''segmentation fault''"

definition sigfpe :: exn where "sigfpe = StdException ''floating point exception''"

definition kills :: "exn \<Rightarrow> bool" where "kills e \<longleftrightarrow> e = segv \<or> e = sigfpe"

lemma sigfpe_distinct [simp]:
  "sigfpe \<noteq> segv" "segv \<noteq> sigfpe" "sigfpe \<noteq> Error m c" "Error m c \<noteq> sigfpe" "sigfpe \<noteq> StdException ''segmentation fault''"
  by (simp_all add: segv_def sigfpe_def)

text \<open>
  The percentage of free memory.  The answer of \<^verbatim>\<open>statvfs\<close> is not checked; a file system that reports no
  blocks, as one without a size limit does, makes the division trap.
\<close>

definition freemem :: "os \<Rightarrow> u32 result" where
  "freemem os = (if f_blocks os = 0 then Inl sigfpe
     else Inr (word_of_nat (100 * f_bavail os mod 2 ^ 64 div f_blocks os)))"

text \<open>The answers of the two checks; where \<^verbatim>\<open>freemem\<close> traps, the process has died before it has one.\<close>

definition isMemAvailable :: "os \<Rightarrow> bool" where
  "isMemAvailable os = (case freemem os of Inl _ \<Rightarrow> False | Inr percent \<Rightarrow> \<not> percent \<le> LOWMEM_ERROR_PERCENT)"

definition isMemLow :: "os \<Rightarrow> bool" where
  "isMemLow os = (case freemem os of Inl _ \<Rightarrow> True | Inr percent \<Rightarrow> percent \<le> LOWMEM_PERCENT_FOR_PAGE_REUSING)"

lemma mem_blocks: "isMemAvailable os \<Longrightarrow> 0 < f_blocks os" "\<not> isMemLow os \<Longrightarrow> 0 < f_blocks os"
  by (auto simp: isMemAvailable_def isMemLow_def freemem_def split: if_splits)

section \<open>Pages\<close>

text \<open>
  A shared memory object: its size in bytes, the two fields of \<^verbatim>\<open>Page_information\<close>
  (8 bytes with padding), and the elements that fit behind them.
\<close>

record 'e shm_object =
  st_size :: nat
  unlinked :: bool
  expiration_check :: u32
  elements :: "'e list"

record 'e shm =
  names :: "string \<Rightarrow> nat option"
  objects :: "'e shm_object list"

record SharedMemoryPage =
  page_name :: string
  page_memory_size :: u32
  mapping :: nat

definition PAGE_INFORMATION_SIZE :: nat where "PAGE_INFORMATION_SIZE = 8"

text \<open>The byte size of a page, computed in 32 bits and rounded up to memory pages.\<close>

definition page_bytes :: "nat \<Rightarrow> nat \<Rightarrow> u32 \<Rightarrow> u32" where
  "page_bytes psz esz n =
     (let pms = word_of_nat (PAGE_INFORMATION_SIZE + esz * unat n) :: u32;
          aligned_pages = word_of_nat (unat pms div psz) :: u32
      in word_of_nat (unat (aligned_pages + 1) * psz))"

definition elem_capacity :: "nat \<Rightarrow> nat \<Rightarrow> nat" where
  "elem_capacity esz bytes = (bytes - PAGE_INFORMATION_SIZE) div esz"

definition zero_object :: "nat \<Rightarrow> 'e \<Rightarrow> nat \<Rightarrow> 'e shm_object" where
  "zero_object esz zero bytes =
     \<lparr>st_size = bytes, unlinked = False, expiration_check = 0, elements = replicate (elem_capacity esz bytes) zero\<rparr>"

definition shm_unlink :: "string \<Rightarrow> 'e shm \<Rightarrow> 'e shm" where
  "shm_unlink name s = s\<lparr>names := (names s)(name := None)\<rparr>"

text \<open>
  \<^verbatim>\<open>shm_open\<close> with \<^verbatim>\<open>O_CREAT | O_EXCL\<close>, then, when the name exists, without
  \<^verbatim>\<open>O_EXCL\<close>; a new object is sized and cleared.  The result is the object and whether it
  is new.
\<close>

definition page_create_or_open ::
    "os \<Rightarrow> nat \<Rightarrow> 'e \<Rightarrow> string \<Rightarrow> u32 \<Rightarrow> ('e shm, nat) op" where
  "page_create_or_open os esz zero name bytes s =
     (if \<not> open_ok os name then (Inl (Error (''CANNOT_OPEN_SHMEM_PAGE'' @ [LF]) InternalError), s)
      else case names s name of
        Some i \<Rightarrow> (Inr i, s)
      | None \<Rightarrow>
          let i = length (objects s);
              s1 = s\<lparr>names := (names s)(name \<mapsto> i), objects := objects s @ [zero_object esz zero 0]\<rparr>
          in if f_blocks os = 0 then (Inl sigfpe, s1)
             else if \<not> isMemAvailable os then (Inl (Error (''ERR_LOW_SHMEM'' @ [LF]) InternalError), s1)
             else if \<not> trunc_ok os name
                  then (Inl (Error (''ERR_CREATE_SHMEM_PAGE'' @ [LF]) InternalError), shm_unlink name s1)
             else (Inr i, s1\<lparr>objects := (objects s1)[i := zero_object esz zero (unat bytes)]\<rparr>))"

definition page_map :: "os \<Rightarrow> string \<Rightarrow> u32 \<Rightarrow> nat \<Rightarrow> ('e shm, SharedMemoryPage) op" where
  "page_map os name bytes i s =
     (if word_of_nat (st_size (objects s ! i)) \<noteq> bytes
      then (Inl (Error (''ERR_WRONG_SHMEM_PAGE_SIZE'' @ [LF]) InternalError), shm_unlink name s)
      else if \<not> map_ok os name then (Inl (Error (''ERR_SHMEM_MAP_FAILED'' @ [LF]) InternalError), s)
      else (Inr \<lparr>page_name = name, page_memory_size = bytes, mapping = i\<rparr>, s))"

text \<open>The local \<^verbatim>\<open>CriticalSection cslock\<close>, whose destructor runs on every way out.\<close>

definition with_cslock :: "os \<Rightarrow> string \<Rightarrow> ('s, 'a) op \<Rightarrow> ('s \<times> sem_table, 'a) op" where
  "with_cslock os name body = (\<lambda>(s, sems).
     case CriticalSection_new (sem_ok os name) name sems of
       (Inl e, sems1) \<Rightarrow> (Inl e, (s, sems1))
     | (Inr cs, sems1) \<Rightarrow>
         (case cs_enter (sems1, cs) of
            (Inl e, st) \<Rightarrow> (Inl e, (s, fst (snd (CriticalSection_destroy st))))
          | (Inr _, st) \<Rightarrow>
              (case body s of (r, s') \<Rightarrow> (r, (s', fst (snd (CriticalSection_destroy st)))))))"

definition SharedMemoryPage_new ::
    "os \<Rightarrow> nat \<Rightarrow> 'e \<Rightarrow> string \<Rightarrow> u32 \<Rightarrow> ('e shm \<times> sem_table, SharedMemoryPage) op" where
  "SharedMemoryPage_new os esz zero name n =
     (if length name = 0 then throw (Error (''EMPTY_PAGE_NAME'' @ [LF]) InternalError)
      else if length name > MEMPAGE_NAME_MAX_LEN - 6 then throw (Error (''LONG_PAGE_NAME'' @ [LF]) InternalError)
      else let bytes = page_bytes (sc_page_size os) esz n
           in with_cslock os name
                (sbind (page_create_or_open os esz zero name bytes) (page_map os name bytes)))"

subsection \<open>The shared context\<close>

text \<open>The page of one element that all processes share; the reference \<^verbatim>\<open>shm\<close> reads its element.\<close>

record DBContext =
  ctx_global_expire_at :: u32
  reserved :: "u8 list"

definition DBCONTEXT_SIZE :: nat where "DBCONTEXT_SIZE = 1004"

definition context_zero :: DBContext where
  "context_zero = \<lparr>ctx_global_expire_at = 0, reserved = replicate 1000 0\<rparr>"

definition SharedContext_new :: "os \<Rightarrow> string \<Rightarrow> (DBContext shm \<times> sem_table, DBContext) op" where
  "SharedContext_new os name =
     sbind (SharedMemoryPage_new os DBCONTEXT_SIZE context_zero (name @ ''Context'') 1)
       (\<lambda>page (s, sems). (Inr (elements (objects s ! mapping page) ! 0), (s, sems)))"

section \<open>Tables\<close>

record TablePageIndexElement =
  expire_at :: u32
  page_elements_available :: u32
  ix_page_name :: "char list"

text \<open>A name buffer read as a C string.\<close>

definition cstr :: "char list \<Rightarrow> string" where "cstr buf = takeWhile (\<lambda>c. c \<noteq> NUL) buf"

definition memcpy_name :: "char list \<Rightarrow> string \<Rightarrow> char list" where
  "memcpy_name buf s = s @ drop (length s) buf"

definition index_zero :: TablePageIndexElement where
  "index_zero = \<lparr>expire_at = 0, page_elements_available = 0, ix_page_name = replicate MEMPAGE_NAME_MAX_LEN NUL\<rparr>"

text \<open>\<^verbatim>\<open>sizeof(TablePageIndexElement)\<close>: two 32-bit fields and 20 characters.\<close>

definition INDEX_ELEMENT_SIZE :: nat where "INDEX_ELEMENT_SIZE = 28"

datatype PageType = EXPIRED | OLDEST | NEW | CURRENT | UNKNOWN

text \<open>
  A table as one process sees it: the shared state (the mapped index, the data objects, the
  context shared by all tables, the semaphores), the state of the process, and the constants
  the table was constructed with.  The size and the all-zero value of an element belong to
  the template parameter.
\<close>

record 'e Table =
  table_index :: "TablePageIndexElement shm_object"
  data_shm :: "'e shm"
  global_expire_at :: u32
  sems :: sem_table
  opened_pages_list :: "SharedMemoryPage list"
  time_to_check_page_expire :: u32
  lock :: CriticalSection
  table_name :: string
  table_max_pages :: u16
  max_elements_in_page :: u32
  record_expire_seconds :: u32
  elem_size :: nat
  elem_zero :: 'e

definition max_pages :: "('e, 'x) Table_scheme \<Rightarrow> nat" where "max_pages t = unat (table_max_pages t)"

definition index_at :: "('e, 'x) Table_scheme \<Rightarrow> nat \<Rightarrow> TablePageIndexElement" where
  "index_at t i = elements (table_index t) ! i"

definition set_index :: "nat \<Rightarrow> TablePageIndexElement \<Rightarrow> ('e, 'x) Table_scheme \<Rightarrow> ('e, 'x) Table_scheme" where
  "set_index i r t = t\<lparr>table_index := (table_index t)\<lparr>elements := (elements (table_index t))[i := r]\<rparr>\<rparr>"

text \<open>The constructor; the index page is opened in the store \<open>ix\<close> of index objects.\<close>

definition Table_new ::
    "os \<Rightarrow> nat \<Rightarrow> 'e \<Rightarrow> string \<Rightarrow> u16 \<Rightarrow> u32 \<Rightarrow> u32 \<Rightarrow> u32 \<Rightarrow> 'e shm \<Rightarrow>
     (TablePageIndexElement shm \<times> sem_table, 'e Table) op" where
  "Table_new os esz zero name pages n expire gexp data = (\<lambda>(ix, sems0).
     case CriticalSection_new (sem_ok os name) name sems0 of
       (Inl e, sems1) \<Rightarrow> (Inl e, (ix, sems1))
     | (Inr cs, sems1) \<Rightarrow>
         (case SharedMemoryPage_new os INDEX_ELEMENT_SIZE index_zero name (ucast pages) (ix, sems1) of
            (Inl e, st) \<Rightarrow> (Inl e, st)
          | (Inr page, (ix', sems2)) \<Rightarrow>
              (Inr \<lparr>table_index = objects ix' ! mapping page, data_shm = data, global_expire_at = gexp,
                    sems = sems2, opened_pages_list = [], time_to_check_page_expire = 0, lock = cs,
                    table_name = name, table_max_pages = pages, max_elements_in_page = n,
                    record_expire_seconds = expire, elem_size = esz, elem_zero = zero\<rparr>, (ix', sems2))))"

text \<open>
  The memory that the constructors of the databases work on: the contexts, the index objects and
  the semaphores.
\<close>

type_synonym shared_store = "DBContext shm \<times> TablePageIndexElement shm \<times> sem_table"

definition on_contexts :: "(DBContext shm \<times> sem_table, 'a) op \<Rightarrow> (shared_store, 'a) op" where
  "on_contexts m = (\<lambda>(ctx, ix, sems). case m (ctx, sems) of (r, (ctx, sems)) \<Rightarrow> (r, (ctx, ix, sems)))"

definition on_indexes :: "(TablePageIndexElement shm \<times> sem_table, 'a) op \<Rightarrow> (shared_store, 'a) op" where
  "on_indexes m = (\<lambda>(ctx, st). case m st of (r, st) \<Rightarrow> (r, (ctx, st)))"

subsection \<open>The lock of a table\<close>

definition lock_enter :: "('e Table, unit) op" where
  "lock_enter t = (case cs_enter (sems t, lock t) of (r, (s, cs)) \<Rightarrow> (r, t\<lparr>sems := s, lock := cs\<rparr>))"

definition lock_exit :: "('e Table, unit) op" where
  "lock_exit t = (case cs_exit (sems t, lock t) of (r, (s, cs)) \<Rightarrow> (r, t\<lparr>sems := s, lock := cs\<rparr>))"

text \<open>\<^verbatim>\<open>AutoCloser guard(lock)\<close>: its destructor runs on every way out of the scope.\<close>

definition with_guard :: "('e Table, 'a) op \<Rightarrow> ('e Table, 'a) op" where
  "with_guard body t = (case body t of (r, t') \<Rightarrow> (r, snd (lock_exit t')))"

subsection \<open>Small operations\<close>

definition clear_index_record :: "nat \<Rightarrow> 'e Table \<Rightarrow> 'e Table" where
  "clear_index_record i t =
     set_index i ((index_at t i)\<lparr>expire_at := 0, page_elements_available := max_elements_in_page t\<rparr>) t"

definition clear_index_record_full :: "nat \<Rightarrow> 'e Table \<Rightarrow> 'e Table" where
  "clear_index_record_full i t =
     set_index i \<lparr>expire_at = 0, page_elements_available = max_elements_in_page t,
                  ix_page_name = replicate MEMPAGE_NAME_MAX_LEN NUL\<rparr> t"

definition update_record_expire :: "nat \<Rightarrow> u32 \<Rightarrow> u32 \<Rightarrow> 'e Table \<Rightarrow> 'e Table" where
  "update_record_expire i current_time lifetime_seconds t =
     (let expire_time = (if lifetime_seconds \<noteq> 0 then current_time + lifetime_seconds
                         else current_time + record_expire_seconds t)
      in if expire_time > expire_at (index_at t i)
         then set_index i ((index_at t i)\<lparr>expire_at := expire_time\<rparr>) t else t)"

definition update_global_expire :: "u32 \<Rightarrow> 'e Table \<Rightarrow> 'e Table" where
  "update_global_expire v t = (if global_expire_at t < v then t\<lparr>global_expire_at := v\<rparr> else t)"

definition checkRecord :: "u32 \<Rightarrow> ('e Table, unit) op" where
  "checkRecord records_count t =
     (if records_count > max_elements_in_page t
      then (Inl (Error (''checkRecord::RECORD_SIZE_TO_BIG size:'' @ to_string (unat records_count) @ [LF])
                  InternalError), t)
      else (Inr (), t))"

definition release_open_pages :: "'e Table \<Rightarrow> 'e Table" where
  "release_open_pages t = t\<lparr>opened_pages_list := []\<rparr>"

fun localGetPageByName :: "SharedMemoryPage list \<Rightarrow> string \<Rightarrow> SharedMemoryPage option" where
  "localGetPageByName [] page_to_look = None"
| "localGetPageByName (page # pages) page_to_look =
     (if page_name page = page_to_look then Some page else localGetPageByName pages page_to_look)"

definition getPageByName :: "os \<Rightarrow> string \<Rightarrow> ('e Table, SharedMemoryPage) op" where
  "getPageByName os page_to_look t =
     (case localGetPageByName (opened_pages_list t) page_to_look of
        Some page \<Rightarrow> (Inr page, t)
      | None \<Rightarrow>
          (case SharedMemoryPage_new os (elem_size t) (elem_zero t) page_to_look (max_elements_in_page t)
                  (data_shm t, sems t) of
             (Inl e, (d, s)) \<Rightarrow> (Inl e, t\<lparr>data_shm := d, sems := s\<rparr>)
           | (Inr page, (d, s)) \<Rightarrow>
               (Inr page, t\<lparr>data_shm := d, sems := s, opened_pages_list := opened_pages_list t @ [page]\<rparr>)))"

definition page_object :: "'e Table \<Rightarrow> SharedMemoryPage \<Rightarrow> 'e shm_object" where
  "page_object t page = objects (data_shm t) ! mapping page"

definition set_page_object :: "SharedMemoryPage \<Rightarrow> 'e shm_object \<Rightarrow> 'e Table \<Rightarrow> 'e Table" where
  "set_page_object page ob t =
     t\<lparr>data_shm := (data_shm t)\<lparr>objects := (objects (data_shm t))[mapping page := ob]\<rparr>\<rparr>"

text \<open>Marks the object of a mapped page as unlinked and removes a name.\<close>

definition unlink_page :: "SharedMemoryPage \<Rightarrow> string \<Rightarrow> 'e Table \<Rightarrow> 'e Table" where
  "unlink_page page name t =
     (let t1 = set_page_object page ((page_object t page)\<lparr>unlinked := True\<rparr>) t
      in t1\<lparr>data_shm := shm_unlink name (data_shm t1)\<rparr>)"

subsection \<open>Releasing expired pages\<close>

text \<open>
  The search loop: the number of the first unused entry, and the last entry that may be in
  use.  All comparisons are on 32 bits.
\<close>

fun find_last_data :: "u32 \<Rightarrow> u32 \<Rightarrow> TablePageIndexElement list \<Rightarrow> nat \<Rightarrow> nat \<Rightarrow> nat \<times> nat" where
  "find_last_data current_time gexp [] idx last_data_idx = (idx, last_data_idx)"
| "find_last_data current_time gexp (r # rs) idx last_data_idx =
     (let last' = (if expire_at r > 0
                      \<and> expire_at r + MEMPAGE_REMOVE_EXPIRED_PAGES_DELAY_SEC > current_time
                      \<and> expire_at r + MEMPAGE_REMOVE_EXPIRED_PAGES_DELAY_SEC > gexp
                   then idx else last_data_idx)
      in if expire_at r = 0 then (idx, last')
         else find_last_data current_time gexp rs (Suc idx) last')"

fun release_loop :: "os \<Rightarrow> nat \<Rightarrow> nat \<Rightarrow> nat \<Rightarrow> ('e Table, unit) op" where
  "release_loop os last_data_idx 0 cleared_counter t = (Inr (), t)"
| "release_loop os last_data_idx (Suc i) cleared_counter t =
     (if last_data_idx < Suc i then
        sbind (getPageByName os (cstr (ix_page_name (index_at t (Suc i)))))
          (\<lambda>page t1.
             let t2 = clear_index_record_full (Suc i) (unlink_page page (page_name page) t1)
             in if MEMPAGE_REMOVE_EXPIRED_PAGES_AT_ONCE \<le> cleared_counter + 1 then (Inr (), t2)
                else release_loop os last_data_idx i (cleared_counter + 1) t2) t
      else (Inr (), t))"

definition drop_unlinked_pages :: "'e Table \<Rightarrow> 'e Table" where
  "drop_unlinked_pages t =
     t\<lparr>opened_pages_list := filter (\<lambda>page. \<not> unlinked (page_object t page)) (opened_pages_list t)\<rparr>"

definition table_entries :: "('e, 'x) Table_scheme \<Rightarrow> TablePageIndexElement list" where
  "table_entries t = take (max_pages t) (elements (table_index t))"

text \<open>The part of \<^verbatim>\<open>release_expired_memory_pages\<close> that runs under the lock.\<close>

definition release_maintenance :: "os \<Rightarrow> u32 \<Rightarrow> ('e Table, unit) op" where
  "release_maintenance os current_time t =
     (if expiration_check (table_index t) \<le> current_time then
        let t1 = t\<lparr>table_index := (table_index t)\<lparr>expiration_check := time_to_check_page_expire t\<rparr>\<rparr>;
            (idx, last_data_idx) = find_last_data current_time (global_expire_at t) (table_entries t) 0 0
        in if idx > 0 \<and> last_data_idx < idx - 1 then release_loop os last_data_idx (idx - 1) 0 t1
           else (Inr (), t1)
      else (Inr (), t))"

definition release_expired_memory_pages :: "os \<Rightarrow> u32 \<Rightarrow> ('e Table, unit) op" where
  "release_expired_memory_pages os current_time t =
     (if time_to_check_page_expire t > current_time then (Inr (), t)
      else sbind lock_enter (\<lambda>_. with_guard
             (sbind (release_maintenance os current_time)
                (\<lambda>_. sbind lock_exit (\<lambda>_. modify drop_unlinked_pages))))
           (t\<lparr>time_to_check_page_expire := current_time + MEMPAGE_CHECK_EXPIRED_PAGES_INTERVAL_SEC\<rparr>))"

subsection \<open>Scanning\<close>

fun records_to_scan :: "u32 \<Rightarrow> u32 \<Rightarrow> TablePageIndexElement list \<Rightarrow> nat \<Rightarrow> nat list" where
  "records_to_scan timestamp_now gexp [] idx = []"
| "records_to_scan timestamp_now gexp (r # rs) idx =
     (if expire_at r = 0 then []
      else if expire_at r > timestamp_now \<and> expire_at r > gexp
           then idx # records_to_scan timestamp_now gexp rs (Suc idx)
      else records_to_scan timestamp_now gexp rs (Suc idx))"

text \<open>All elements of one page, handed to the processor one after the other.\<close>

definition scan_page :: "os \<Rightarrow> ('p \<Rightarrow> 'e \<Rightarrow> 'p) \<Rightarrow> nat \<Rightarrow> 'p \<Rightarrow> ('e Table, 'p) op" where
  "scan_page os process_element i p t =
     sbind (getPageByName os (cstr (ix_page_name (index_at t i))))
       (\<lambda>page t1.
          let size = unat (max_elements_in_page t1 - page_elements_available (index_at t1 i));
              els = elements (page_object t1 page)
          in if size \<le> length els then (Inr (foldl process_element p (take size els)), t1)
             else (Inl segv, t1)) t"

fun scan_pages :: "os \<Rightarrow> ('p \<Rightarrow> 'e \<Rightarrow> 'p) \<Rightarrow> nat list \<Rightarrow> 'p \<Rightarrow> ('e Table, 'p) op" where
  "scan_pages os process_element [] p t = (Inr p, t)"
| "scan_pages os process_element (i # is) p t =
     sbind (scan_page os process_element i p) (\<lambda>p'. scan_pages os process_element is p') t"

definition processRecords :: "os \<Rightarrow> u32 \<Rightarrow> u32 \<Rightarrow> ('p \<Rightarrow> 'e \<Rightarrow> 'p) \<Rightarrow> 'p \<Rightarrow> ('e Table, 'p) op" where
  "processRecords os time0 timestamp_now process_element p =
     sbind (release_expired_memory_pages os time0) (\<lambda>_. sbind lock_enter (\<lambda>_. with_guard
       (\<lambda>t. let todo = records_to_scan timestamp_now (global_expire_at t) (table_entries t) 0
            in sbind lock_exit (\<lambda>_. scan_pages os process_element todo p) t)))"

subsection \<open>Clearing a table\<close>

fun cleanup_loop :: "os \<Rightarrow> nat \<Rightarrow> nat \<Rightarrow> ('e Table, unit) op" where
  "cleanup_loop os 0 idx t = (Inr (), t)"
| "cleanup_loop os (Suc left) idx t =
     (if expire_at (index_at t idx) > 0 then
        sbind (getPageByName os (cstr (ix_page_name (index_at t idx))))
          (\<lambda>page t1. cleanup_loop os left (Suc idx)
             (clear_index_record_full idx
                (unlink_page page (cstr (ix_page_name (index_at t1 idx))) t1))) t
      else (Inr (), t))"

definition cleanup :: "os \<Rightarrow> ('e Table, unit) op" where
  "cleanup os = sbind lock_enter (\<lambda>_. with_guard
     (\<lambda>t. sbind (cleanup_loop os (max_pages t) 0)
            (\<lambda>_. sbind lock_exit (\<lambda>_. modify release_open_pages)) t))"

subsection \<open>Adding records\<close>

text \<open>The search for a page: its kind, its number, and the page that expires first.\<close>

fun find_page :: "u32 \<Rightarrow> u32 \<Rightarrow> TablePageIndexElement list \<Rightarrow> nat \<Rightarrow> u32 \<Rightarrow> nat \<Rightarrow> PageType \<times> nat \<times> nat" where
  "find_page current_time records_count [] idx expire_min expire_min_idx = (UNKNOWN, idx, expire_min_idx)"
| "find_page current_time records_count (r # rs) idx expire_min expire_min_idx =
     (let better = (expire_at r > 0 \<and> expire_min > expire_at r);
          expire_min' = (if better then expire_at r else expire_min);
          expire_min_idx' = (if better then idx else expire_min_idx)
      in if expire_at r > 0 \<and> expire_at r < current_time then (EXPIRED, idx, expire_min_idx')
         else if expire_at r > 0 \<and> page_elements_available r \<ge> records_count then (CURRENT, idx, expire_min_idx')
         else if expire_at r = 0 then (NEW, idx, expire_min_idx')
         else find_page current_time records_count rs (Suc idx) expire_min' expire_min_idx')"

definition data_page_name :: "string \<Rightarrow> nat \<Rightarrow> string" where
  "data_page_name name idx = name @ '':'' @ to_string idx"

record insert_position =
  ip_type :: PageType
  ip_page :: nat
  ip_page_name :: string
  ip_index :: u32

text \<open>The part of \<^verbatim>\<open>addRecord\<close> between entering and leaving the lock: choosing a page
  and reserving the elements in the index.\<close>

definition choose_page :: "os \<Rightarrow> u32 \<Rightarrow> u32 \<Rightarrow> 'e Table \<Rightarrow> (PageType \<times> nat) \<times> 'e Table" where
  "choose_page os current_time records_count t =
     (case find_page current_time records_count (table_entries t) 0 (- 1) 0 of
        (ty, idx, expire_min_idx) \<Rightarrow>
          if ty = NEW \<and> isMemLow os
          then ((OLDEST, expire_min_idx), update_global_expire (expire_at (index_at t expire_min_idx)) t)
          else ((ty, idx), t))"

definition prepare_page :: "PageType \<Rightarrow> nat \<Rightarrow> string \<Rightarrow> 'e Table \<Rightarrow> 'e Table" where
  "prepare_page ty idx insert_page_name t =
     (case ty of
        NEW \<Rightarrow> clear_index_record idx
                 (set_index idx ((index_at t idx)\<lparr>ix_page_name :=
                    memcpy_name (ix_page_name (index_at t idx)) insert_page_name\<rparr>) t)
      | OLDEST \<Rightarrow> clear_index_record idx t
      | EXPIRED \<Rightarrow> clear_index_record idx t
      | _ \<Rightarrow> t)"

text \<open>The test for low memory, which is made when an unused page was found, divides by zero.\<close>

definition low_test_traps :: "os \<Rightarrow> u32 \<Rightarrow> u32 \<Rightarrow> 'e Table \<Rightarrow> bool" where
  "low_test_traps os current_time records_count t \<longleftrightarrow>
     f_blocks os = 0 \<and> fst (find_page current_time records_count (table_entries t) 0 (- 1) 0) = NEW"

definition reserve :: "os \<Rightarrow> u32 \<Rightarrow> u32 \<Rightarrow> u32 \<Rightarrow> ('e Table, insert_position) op" where
  "reserve os current_time records_count lifetime_seconds t =
     (if low_test_traps os current_time records_count t then (Inl sigfpe, t)
      else case choose_page os current_time records_count t of
        ((ty, idx), t1) \<Rightarrow>
          if ty = UNKNOWN then (Inl (Error (''addRecord::NO_SPACE_TO_INSERT'' @ [LF]) InternalError), t1)
          else
            let insert_page_name = data_page_name (table_name t1) idx;
                t2 = prepare_page ty idx insert_page_name t1;
                insert_element_idx = max_elements_in_page t2 - page_elements_available (index_at t2 idx);
                t3 = set_index idx ((index_at t2 idx)\<lparr>page_elements_available :=
                       page_elements_available (index_at t2 idx) - records_count\<rparr>) t2
            in (Inr \<lparr>ip_type = ty, ip_page = idx, ip_page_name = insert_page_name, ip_index = insert_element_idx\<rparr>,
                update_record_expire idx current_time lifetime_seconds t3))"

definition memcpy_at :: "nat \<Rightarrow> 'e list \<Rightarrow> 'e list \<Rightarrow> 'e list" where
  "memcpy_at i recs xs = take i xs @ recs @ drop (i + length recs) xs"

record ElementExtractor =
  ee_page_name :: string
  ee_index :: u32
  ee_size :: u32

text \<open>
  The part after the lock: the use of another page is reported, which reads the free memory once more,
  the page is mapped and the records are copied.
\<close>

definition store_records :: "os \<Rightarrow> 'e list \<Rightarrow> u32 \<Rightarrow> insert_position \<Rightarrow> ('e Table, ElementExtractor) op" where
  "store_records os records records_count ip =
     sbind (if ip_type ip \<noteq> CURRENT \<and> f_blocks os = 0 then throw sigfpe else getPageByName os (ip_page_name ip))
       (\<lambda>page t.
          let ob = page_object t page
          in if unat (ip_index ip) + unat records_count \<le> length (elements ob) \<and> unat records_count \<le> length records
             then (Inr \<lparr>ee_page_name = ip_page_name ip, ee_index = ip_index ip, ee_size = records_count\<rparr>,
                   set_page_object page
                     (ob\<lparr>elements := memcpy_at (unat (ip_index ip)) (take (unat records_count) records) (elements ob)\<rparr>) t)
             else (Inl segv, t))"

definition addRecord ::
    "os \<Rightarrow> u32 \<Rightarrow> u32 \<Rightarrow> 'e list \<Rightarrow> u32 \<Rightarrow> u32 \<Rightarrow> ('e Table, ElementExtractor) op" where
  "addRecord os time0 current_time records records_count lifetime_seconds =
     sbind (release_expired_memory_pages os time0) (\<lambda>_. sbind (checkRecord records_count) (\<lambda>_.
     sbind lock_enter (\<lambda>_. with_guard
       (sbind (reserve os current_time records_count lifetime_seconds)
          (\<lambda>ip. sbind lock_exit (\<lambda>_. store_records os records records_count ip))))))"

definition get_element_data :: "os \<Rightarrow> ElementExtractor \<Rightarrow> ('e Table, 'e list) op" where
  "get_element_data os ee =
     sbind (getPageByName os (ee_page_name ee))
       (\<lambda>page t. (Inr (drop (unat (ee_index ee)) (elements (page_object t page))), t))"

section \<open>Pages: geometry and opening\<close>

lemma unat_u32_of_nat: "k < 2 ^ 32 \<Longrightarrow> unat (word_of_nat k :: u32) = k"
  by (simp add: unat_of_nat)

text \<open>The 32-bit size computation leaves room for the requested elements unless it overflows.\<close>

lemma page_capacity:
  assumes "0 < esz" "0 < psz" and "PAGE_INFORMATION_SIZE + esz * unat n + psz < 2 ^ 32"
  shows "unat n \<le> elem_capacity esz (unat (page_bytes psz esz n))" and "page_bytes psz esz n \<noteq> 0"
proof -
  let ?b = "PAGE_INFORMATION_SIZE + esz * unat n"
  have b: "unat (word_of_nat ?b :: u32) = ?b"
    by (rule unat_u32_of_nat) (use assms in linarith)
  have dl: "?b div psz \<le> ?b" by (rule div_le_dividend)
  have d: "unat (word_of_nat (?b div psz) :: u32) = ?b div psz"
    by (rule unat_u32_of_nat) (use dl assms in linarith)
  have "unat (1 + word_of_nat (?b div psz) :: u32) = (1 + ?b div psz) mod 2 ^ 32"
    using d by (simp add: unat_word_ariths)
  moreover have "1 + ?b div psz < 2 ^ 32" using dl assms by linarith
  ultimately have a: "unat (word_of_nat (?b div psz) + 1 :: u32) = ?b div psz + 1"
    by (simp add: add.commute)
  have "psz * (?b div psz) \<le> ?b" by (rule times_div_less_eq_dividend)
  moreover have "(?b div psz + 1) * psz = psz * (?b div psz) + psz" by (simp add: algebra_simps)
  ultimately have "(?b div psz + 1) * psz < 2 ^ 32" using assms(3) by linarith
  then have r: "unat (page_bytes psz esz n) = (?b div psz + 1) * psz"
    unfolding page_bytes_def Let_def b a by (rule unat_u32_of_nat)
  have "?b < (?b div psz + 1) * psz"
    using assms(2) by (metis add.commute dividend_less_div_times mult.commute mult_Suc plus_1_eq_Suc)
  then have lt: "?b < unat (page_bytes psz esz n)" using r by simp
  then have "esz * unat n \<le> unat (page_bytes psz esz n) - PAGE_INFORMATION_SIZE" by linarith
  then show "unat n \<le> elem_capacity esz (unat (page_bytes psz esz n))"
    using assms(1) by (metis elem_capacity_def div_le_mono nonzero_mult_div_cancel_left not_gr_zero)
  show "page_bytes psz esz n \<noteq> 0" using lt by auto
qed

text \<open>
  The objects of one table: names refer to objects, different names to different ones, and an
  object of the right size \<open>b\<close> holds at least \<open>n\<close> elements.
\<close>

definition shm_inv :: "u32 \<Rightarrow> nat \<Rightarrow> 'e shm \<Rightarrow> bool" where
  "shm_inv b n s \<longleftrightarrow>
     (\<forall>m i. names s m = Some i \<longrightarrow> i < length (objects s)) \<and>
     (\<forall>m m' i. names s m = Some i \<longrightarrow> names s m' = Some i \<longrightarrow> m = m') \<and>
     (\<forall>i < length (objects s). word_of_nat (st_size (objects s ! i)) = b \<longrightarrow> n \<le> length (elements (objects s ! i)))"

text \<open>What opening the page \<open>name\<close> may change: it adds an object, or drops that name.\<close>

definition shm_ext :: "string \<Rightarrow> 'e shm \<Rightarrow> 'e shm \<Rightarrow> bool" where
  "shm_ext name s s' \<longleftrightarrow>
     prefix (objects s) (objects s') \<and>
     (\<forall>m. m \<noteq> name \<longrightarrow> names s' m = names s m) \<and>
     (\<forall>i. names s name = Some i \<longrightarrow> names s' name = Some i \<or> names s' name = None)"

lemma shm_ext_refl [simp]: "shm_ext name s s"
  by (simp add: shm_ext_def)

lemma shm_ext_nth: "shm_ext name s s' \<Longrightarrow> i < length (objects s) \<Longrightarrow> objects s' ! i = objects s ! i"
  by (auto simp: shm_ext_def prefix_def nth_append)

lemma shm_unlink_ext: "shm_ext name s s' \<Longrightarrow> shm_ext name s (shm_unlink name s')"
  by (auto simp: shm_ext_def shm_unlink_def)

lemma shm_unlink_inv: "shm_inv b n s \<Longrightarrow> shm_inv b n (shm_unlink name s)"
  by (auto simp: shm_inv_def shm_unlink_def split: if_splits)

lemma shm_inv_add:
  assumes "shm_inv b n s" "names s name = None" "word_of_nat (st_size ob) = b \<longrightarrow> n \<le> length (elements ob)"
  shows "shm_inv b n (s\<lparr>names := (names s)(name \<mapsto> length (objects s)), objects := objects s @ [ob]\<rparr>)"
proof -
  have lt: "names s m = Some i \<Longrightarrow> i < length (objects s)" for m i using assms(1) by (auto simp: shm_inv_def)
  then have "names s m \<noteq> Some (length (objects s))" for m by (metis less_irrefl)
  then show ?thesis using assms lt
    by (auto simp: shm_inv_def nth_append less_Suc_eq split: if_splits)
qed

lemma shm_ext_add:
  "names s name = None \<Longrightarrow> shm_ext name s (s\<lparr>names := (names s)(name \<mapsto> i), objects := objects s @ [ob]\<rparr>)"
  by (simp add: shm_ext_def)

lemma page_create_or_open_spec:
  assumes inv: "shm_inv b n s" and g: "n \<le> elem_capacity esz (unat b)" "b \<noteq> 0"
    and run: "page_create_or_open os esz zero name b s = (r, s')"
  shows "shm_inv b n s' \<and> shm_ext name s s' \<and> (\<forall>i. r = Inr i \<longrightarrow> names s' name = Some i) \<and> r \<noteq> Inl segv"
proof (cases "names s name")
  case None
  let ?s1 = "\<lambda>ob. s\<lparr>names := (names s)(name \<mapsto> length (objects s)), objects := objects s @ [ob]\<rparr>"
  have z: "shm_inv b n (?s1 (zero_object esz zero 0))"
    using g by (intro shm_inv_add inv None) (simp add: zero_object_def)
  have f: "shm_inv b n (?s1 (zero_object esz zero (unat b)))"
    using g by (intro shm_inv_add inv None) (simp add: zero_object_def)
  show ?thesis
    using run None inv z f shm_ext_add [OF None]
    by (auto simp: page_create_or_open_def Let_def segv_def shm_unlink_inv shm_unlink_ext split: if_splits)
next
  case (Some i)
  then show ?thesis using run inv by (auto simp: page_create_or_open_def segv_def split: if_splits)
qed

lemma page_map_spec:
  assumes inv: "shm_inv b n s" and nm: "names s name = Some i"
    and run: "page_map os name b i s = (r, s')"
  shows "shm_inv b n s' \<and> shm_ext name s s' \<and> r \<noteq> Inl segv \<and>
    (\<forall>page. r = Inr page \<longrightarrow> page_name page = name \<and> mapping page = i \<and> s' = s
        \<and> n \<le> length (elements (objects s ! i)))"
  using run inv nm
  by (auto simp: page_map_def segv_def shm_unlink_inv shm_unlink_ext split: if_splits) (auto simp: shm_inv_def)

lemma shm_ext_trans:
  "shm_ext name s s' \<Longrightarrow> shm_ext name s' s'' \<Longrightarrow> names s' name \<noteq> None \<Longrightarrow> shm_ext name s s''"
  by (fastforce simp: shm_ext_def)

lemma page_open_spec:
  assumes inv: "shm_inv b n s" and g: "n \<le> elem_capacity esz (unat b)" "b \<noteq> 0"
    and run: "sbind (page_create_or_open os esz zero name b) (page_map os name b) s = (r, s')"
  shows "shm_inv b n s' \<and> shm_ext name s s' \<and> r \<noteq> Inl segv \<and>
    (\<forall>page. r = Inr page \<longrightarrow> page_name page = name \<and> names s' name = Some (mapping page)
        \<and> n \<le> length (elements (objects s' ! mapping page)))"
proof -
  obtain r1 s1 where c: "page_create_or_open os esz zero name b s = (r1, s1)" by fastforce
  note spec1 = page_create_or_open_spec [OF inv g c]
  show ?thesis
  proof (cases r1)
    case (Inl e)
    with c run spec1 show ?thesis by (auto simp: sbind_def)
  next
    case (Inr i)
    with c run have m: "page_map os name b i s1 = (r, s')" by (simp add: sbind_def)
    have "names s1 name = Some i" using spec1 Inr by simp
    with page_map_spec [OF _ this m] spec1 show ?thesis
      by (auto intro: shm_ext_trans)
  qed
qed

section \<open>Locks are always given back\<close>

definition sem_ext :: "sem_table \<Rightarrow> sem_table \<Rightarrow> bool" where
  "sem_ext s s' \<longleftrightarrow> (\<forall>n. s' n = s n \<or> s n = None \<and> s' n = Some 1)"

definition sem_bounded :: "sem_table \<Rightarrow> bool" where
  "sem_bounded s \<longleftrightarrow> (\<forall>n v. s n = Some v \<longrightarrow> v \<le> SEM_VALUE_MAX)"

lemma sem_ext_refl [simp]: "sem_ext s s"
  by (simp add: sem_ext_def)

lemma sem_ext_trans: "sem_ext s s' \<Longrightarrow> sem_ext s' s'' \<Longrightarrow> sem_ext s s''"
  unfolding sem_ext_def by (metis option.distinct(1))

lemma sem_ext_bounded: "sem_ext s s' \<Longrightarrow> sem_bounded s \<Longrightarrow> sem_bounded s'"
  unfolding sem_ext_def sem_bounded_def SEM_VALUE_MAX_def
  by (metis one_le_numeral option.inject)

lemma sem_ext_open: "sem_ext s (sem_open name s)"
  by (auto simp: sem_ext_def sem_open_def split: option.split)

text \<open>The scoped section of a page constructor gives its semaphore back on every path.\<close>

lemma with_cslock_sems:
  assumes "sem_bounded s" and "with_cslock os name body (x, s) = (r, (x', s'))"
  shows "sem_ext s s'"
proof (cases "sem_ok os name")
  case False
  with assms(2) show ?thesis by (simp add: with_cslock_def CriticalSection_new_def)
next
  case True
  let ?s1 = "sem_open name s"
  let ?cs = "\<lparr>cs_name = name, unlock_needed = False\<rparr>"
  have bd: "sem_bounded ?s1" by (rule sem_ext_bounded [OF sem_ext_open assms(1)])
  obtain v where v: "?s1 name = Some v" by (cases "s name") (auto simp: sem_open_def)
  then have vm: "sem_value ?s1 name = v" "v \<le> SEM_VALUE_MAX" using bd by (auto simp: sem_value_def sem_bounded_def)
  show ?thesis
  proof (cases "v = 0")
    case True
    then show ?thesis using assms(2) \<open>sem_ok os name\<close> vm sem_ext_open [of s name]
      by (auto simp: with_cslock_def CriticalSection_new_def cs_enter_eq CriticalSection_destroy_def)
  next
    case False
    have "?s1(name \<mapsto> v) = ?s1" using v by (rule sem_upd_same)
    moreover have "\<not> SEM_VALUE_MAX \<le> v - 1" using False vm by linarith
    ultimately have "s' = ?s1" using assms(2) \<open>sem_ok os name\<close> vm False
      by (auto simp: with_cslock_def CriticalSection_new_def cs_enter_eq CriticalSection_destroy_def
          semaphore_release_def sem_post_def split: prod.splits)
    then show ?thesis by (simp add: sem_ext_open)
  qed
qed

lemma with_cslock_body:
  "with_cslock os name body (x, s) = (r, (x', s')) \<Longrightarrow>
   body x = (r, x') \<or> x' = x \<and> (\<exists>m c. r = Inl (Error m c))"
  by (auto simp: with_cslock_def CriticalSection_new_def cs_enter_eq split: if_splits prod.splits)

lemma SharedMemoryPage_new_sems:
  "sem_bounded s \<Longrightarrow> SharedMemoryPage_new os esz zero name n (d, s) = (r, (d', s')) \<Longrightarrow> sem_ext s s'"
  by (auto simp: SharedMemoryPage_new_def Let_def dest: with_cslock_sems split: if_splits)

text \<open>Operations that leave the lock of the table alone and give back every other one.\<close>

definition lock_neutral :: "('e Table, 'a) op \<Rightarrow> bool" where
  "lock_neutral m \<longleftrightarrow> (\<forall>t. sem_bounded (sems t) \<longrightarrow>
     sem_ext (sems t) (sems (snd (m t))) \<and> lock (snd (m t)) = lock t)"

named_theorems lock_neutral_intros

lemma lock_neutral_sbind [lock_neutral_intros]:
  assumes "lock_neutral m" "\<And>x. lock_neutral (f x)"
  shows "lock_neutral (sbind m f)"
  unfolding lock_neutral_def
proof (intro allI impI)
  fix t :: "'a Table" assume b: "sem_bounded (sems t)"
  obtain r t1 where m: "m t = (r, t1)" by fastforce
  have e: "sem_ext (sems t) (sems t1)" and l: "lock t1 = lock t"
    using assms(1) b m unfolding lock_neutral_def by (metis snd_conv)+
  have b1: "sem_bounded (sems t1)" using e b by (rule sem_ext_bounded)
  show "sem_ext (sems t) (sems (snd (sbind m f t))) \<and> lock (snd (sbind m f t)) = lock t"
  proof (cases r)
    case (Inl x)
    then show ?thesis using m e l by (simp add: sbind_def)
  next
    case (Inr x)
    have "sem_ext (sems t1) (sems (snd (f x t1))) \<and> lock (snd (f x t1)) = lock t1"
      using assms(2) b1 by (simp add: lock_neutral_def)
    then show ?thesis using m Inr e l by (auto simp: sbind_def intro: sem_ext_trans)
  qed
qed

lemma lock_neutral_modify [lock_neutral_intros]:
  "(\<And>t. sems (f t) = sems t \<and> lock (f t) = lock t) \<Longrightarrow> lock_neutral (\<lambda>t. (r t, f t))"
  by (simp add: lock_neutral_def)

lemma lock_neutral_if [lock_neutral_intros]:
  "(\<And>t. b t \<Longrightarrow> lock_neutral m) \<Longrightarrow> (\<And>t. \<not> b t \<Longrightarrow> lock_neutral m') \<Longrightarrow> lock_neutral (\<lambda>t. if b t then m t else m' t)"
  by (auto simp: lock_neutral_def)

lemma getPageByName_neutral [lock_neutral_intros]: "lock_neutral (getPageByName os name)"
  unfolding lock_neutral_def getPageByName_def
  by (auto split: option.split sum.split prod.split dest: SharedMemoryPage_new_sems)

text \<open>The common shape of all table operations.\<close>

definition critical :: "('e Table, 'a) op \<Rightarrow> ('a \<Rightarrow> ('e Table, 'b) op) \<Rightarrow> ('e Table, 'b) op" where
  "critical inside after = sbind lock_enter (\<lambda>_. with_guard (sbind inside (\<lambda>x. sbind lock_exit (\<lambda>_. after x))))"

text \<open>Nobody holds the lock of the table.\<close>

definition lock_idle :: "'e Table \<Rightarrow> bool" where
  "lock_idle t \<longleftrightarrow> sem_bounded (sems t) \<and> sems t (cs_name (lock t)) = Some 1 \<and> \<not> unlock_needed (lock t)"

definition lock_balanced :: "('e Table, 'a) op \<Rightarrow> bool" where
  "lock_balanced m \<longleftrightarrow> (\<forall>t. lock_idle t \<longrightarrow>
     sem_ext (sems t) (sems (snd (m t))) \<and> lock (snd (m t)) = lock t)"

lemma lock_balancedD:
  "lock_balanced m \<Longrightarrow> lock_idle t \<Longrightarrow> sem_ext (sems t) (sems (snd (m t))) \<and> lock (snd (m t)) = lock t"
  by (simp add: lock_balanced_def)

lemma lock_balanced_idle: "lock_balanced m \<Longrightarrow> lock_idle t \<Longrightarrow> lock_idle (snd (m t))"
  unfolding lock_balanced_def lock_idle_def
  by (metis (no_types, lifting) option.distinct(1) sem_ext_bounded sem_ext_def)

lemma lock_balanced_sbind:
  assumes "lock_balanced m" "\<And>x. lock_balanced (f x)"
  shows "lock_balanced (sbind m f)"
  unfolding lock_balanced_def
proof (intro allI impI)
  fix t :: "'a Table" assume idle: "lock_idle t"
  have "lock_idle (snd (m t))" using assms(1) idle by (rule lock_balanced_idle)
  then show "sem_ext (sems t) (sems (snd (sbind m f t))) \<and> lock (snd (sbind m f t)) = lock t"
    using assms idle unfolding lock_balanced_def sbind_cases
    by (auto split: sum.split intro: sem_ext_trans)
qed

lemma lock_neutral_balanced: "lock_neutral m \<Longrightarrow> lock_balanced m"
  by (simp add: lock_neutral_def lock_balanced_def lock_idle_def)

lemma lock_enter_idle:
  "lock_idle t \<Longrightarrow> lock_enter t =
     (Inr (), t\<lparr>sems := (sems t)(cs_name (lock t) \<mapsto> 0), lock := (lock t)\<lparr>unlock_needed := True\<rparr>\<rparr>)"
  by (simp add: lock_enter_def lock_idle_def cs_enter_eq sem_value_def)

lemma lock_exit_idle: "\<not> unlock_needed (lock t) \<Longrightarrow> lock_exit t = (Inr (), t)"
  by (cases "lock t") (simp add: lock_exit_def cs_exit_eq)

lemma lock_exit_held:
  "unlock_needed (lock t) \<Longrightarrow> sems t (cs_name (lock t)) = Some 0 \<Longrightarrow>
   lock_exit t = (Inr (), t\<lparr>sems := (sems t)(cs_name (lock t) \<mapsto> 1), lock := (lock t)\<lparr>unlock_needed := False\<rparr>\<rparr>)"
  by (simp add: lock_exit_def cs_exit_eq sem_value_def SEM_VALUE_MAX_def)

lemma critical_balanced:
  assumes "lock_neutral inside" "\<And>x. lock_neutral (after x)"
  shows "lock_balanced (critical inside after)"
  unfolding lock_balanced_def
proof (intro allI impI)
  fix t :: "'a Table" assume idle: "lock_idle t"
  let ?n = "cs_name (lock t)"
  let ?t0 = "t\<lparr>sems := (sems t)(?n \<mapsto> 0), lock := (lock t)\<lparr>unlock_needed := True\<rparr>\<rparr>"
  have n: "sems t ?n = Some 1" and nl: "\<not> unlock_needed (lock t)" and bd: "sem_bounded (sems t)"
    using idle by (auto simp: lock_idle_def)
  have lk: "(lock t)\<lparr>unlock_needed := False\<rparr> = lock t" using nl by (rule unlock_idle)
  have bd0: "sem_bounded (sems ?t0)" using bd by (simp add: sem_bounded_def)
  obtain r t1 where i: "inside ?t0 = (r, t1)" by fastforce
  have e1: "sem_ext (sems ?t0) (sems t1)" and l1: "lock t1 = lock ?t0"
    using assms(1) bd0 i unfolding lock_neutral_def by (metis snd_conv)+
  let ?t2 = "t1\<lparr>sems := (sems t1)(?n \<mapsto> 1), lock := lock t\<rparr>"
  have "sems t1 ?n = Some 0" using spec [OF e1 [unfolded sem_ext_def], of ?n] by simp
  then have ex: "lock_exit t1 = (Inr (), ?t2)" using l1 lk by (simp add: lock_exit_held)
  have e2: "sem_ext (sems t) (sems ?t2)"
    using e1 n by (fastforce simp: sem_ext_def split: if_splits)
  show "sem_ext (sems t) (sems (snd (critical inside after t))) \<and> lock (snd (critical inside after t)) = lock t"
  proof (cases r)
    case (Inl e)
    then show ?thesis using i ex e2 by (simp add: critical_def lock_enter_idle [OF idle] with_guard_def sbind_def)
  next
    case (Inr x)
    obtain r3 t3 where a: "after x ?t2 = (r3, t3)" by fastforce
    have "sem_bounded (sems ?t2)" using e2 bd by (rule sem_ext_bounded)
    then have "sem_ext (sems ?t2) (sems t3)" "lock t3 = lock t"
      using assms(2) [of x] a unfolding lock_neutral_def
      by (metis snd_conv, metis (no_types, lifting) Table.select_convs(7) Table.surjective Table.update_convs(7) snd_conv)
    then show ?thesis using i ex a Inr e2 nl
      by (auto simp: critical_def lock_enter_idle [OF idle] with_guard_def sbind_def lock_exit_idle intro: sem_ext_trans)
  qed
qed

lemma lock_neutral_after:
  assumes "lock_neutral m" and "\<And>t. sems (f t) = sems t \<and> lock (f t) = lock t"
  shows "lock_neutral (\<lambda>t. m (f t))"
  unfolding lock_neutral_def
proof (intro allI impI)
  fix t :: "'a Table" assume "sem_bounded (sems t)"
  then show "sem_ext (sems t) (sems (snd (m (f t)))) \<and> lock (snd (m (f t))) = lock t"
    using assms(1) assms(2) [of t] unfolding lock_neutral_def by metis
qed

lemma unlink_clear_sems:
  "sems (clear_index_record_full i (unlink_page page name t)) = sems t
   \<and> lock (clear_index_record_full i (unlink_page page name t)) = lock t"
  by (simp add: clear_index_record_full_def unlink_page_def set_index_def set_page_object_def Let_def)

lemma lock_neutralD:
  "lock_neutral m \<Longrightarrow> sem_bounded (sems t) \<Longrightarrow> sem_ext (sems t) (sems (snd (m t))) \<and> lock (snd (m t)) = lock t"
  by (simp add: lock_neutral_def)

lemma release_loop_neutral [lock_neutral_intros]: "lock_neutral (release_loop os k i c :: ('e Table, unit) op)"
proof (induction i arbitrary: c)
  case 0
  then show ?case by (simp add: lock_neutral_def)
next
  case (Suc i)
  have "lock_neutral (\<lambda>t2 :: 'e Table. if MEMPAGE_REMOVE_EXPIRED_PAGES_AT_ONCE \<le> c + 1 then (Inr (), t2)
      else release_loop os k i (c + 1) t2)"
    using Suc [of "c + 1"] by (cases "MEMPAGE_REMOVE_EXPIRED_PAGES_AT_ONCE \<le> c + 1") (simp_all add: lock_neutral_def)
  then have "lock_neutral (\<lambda>t1 :: 'e Table. let t2 = clear_index_record_full (Suc i) (unlink_page page (page_name page) t1)
      in if MEMPAGE_REMOVE_EXPIRED_PAGES_AT_ONCE \<le> c + 1 then (Inr (), t2) else release_loop os k i (c + 1) t2)" for page
    unfolding Let_def by (rule lock_neutral_after) (rule unlink_clear_sems)
  from lock_neutral_sbind [OF getPageByName_neutral this] show ?case
    by (auto simp: lock_neutral_def)
qed

lemma release_maintenance_neutral [lock_neutral_intros]: "lock_neutral (release_maintenance os now)"
  unfolding lock_neutral_def
proof (intro allI impI)
  fix t :: "'a Table" assume b: "sem_bounded (sems t)"
  let ?t1 = "t\<lparr>table_index := (table_index t)\<lparr>expiration_check := time_to_check_page_expire t\<rparr>\<rparr>"
  obtain idx k where "find_last_data now (global_expire_at t) (table_entries t) 0 0 = (idx, k)" by fastforce
  then show "sem_ext (sems t) (sems (snd (release_maintenance os now t))) \<and> lock (snd (release_maintenance os now t)) = lock t"
    using lock_neutralD [OF release_loop_neutral, of ?t1 os k "idx - 1" 0] b
    by (simp add: release_maintenance_def Let_def)
qed

lemma lock_neutral_pure [lock_neutral_intros]:
  "(\<And>t. sems (f t) = sems t \<and> lock (f t) = lock t) \<Longrightarrow> lock_neutral (modify f)"
  by (simp add: lock_neutral_def)

lemma release_expired_balanced: "lock_balanced (release_expired_memory_pages os now)"
proof -
  have c: "lock_balanced (critical (release_maintenance os now) (\<lambda>_. modify drop_unlinked_pages) :: ('e Table, unit) op)"
    by (intro critical_balanced lock_neutral_intros) (simp add: drop_unlinked_pages_def)
  show ?thesis unfolding lock_balanced_def
  proof (intro allI impI)
    fix t :: "'e Table" assume idle: "lock_idle t"
    let ?t = "t\<lparr>time_to_check_page_expire := now + MEMPAGE_CHECK_EXPIRED_PAGES_INTERVAL_SEC\<rparr>"
    have "lock_idle ?t" using idle by (simp add: lock_idle_def)
    then show "sem_ext (sems t) (sems (snd (release_expired_memory_pages os now t)))
        \<and> lock (snd (release_expired_memory_pages os now t)) = lock t"
      using lock_balancedD [OF c, of ?t] by (simp add: release_expired_memory_pages_def critical_def)
  qed
qed

lemma scan_page_neutral [lock_neutral_intros]: "lock_neutral (scan_page os f i p)"
proof -
  have "lock_neutral (\<lambda>t1.
      let size = unat (max_elements_in_page t1 - page_elements_available (index_at t1 i));
          els = elements (page_object t1 page)
      in if size \<le> length els then (Inr (foldl f p (take size els)), t1) else (Inl segv, t1))" for page
    by (simp add: lock_neutral_def Let_def)
  from lock_neutral_sbind [OF getPageByName_neutral this] show ?thesis
    by (auto simp: lock_neutral_def scan_page_def)
qed

lemma scan_pages_neutral [lock_neutral_intros]: "lock_neutral (scan_pages os f is p)"
proof (induction "is" arbitrary: p)
  case Nil
  then show ?case by (simp add: lock_neutral_def)
next
  case (Cons i "is")
  from lock_neutral_sbind [OF scan_page_neutral this] show ?case by (simp add: lock_neutral_def)
qed

lemma processRecords_critical:
  "processRecords os time0 now f p = sbind (release_expired_memory_pages os time0)
     (\<lambda>_. critical (\<lambda>t. (Inr (records_to_scan now (global_expire_at t) (table_entries t) 0), t))
                   (\<lambda>todo. scan_pages os f todo p))"
proof -
  have "(\<lambda>t. let todo = records_to_scan now (global_expire_at t) (table_entries t) 0
             in sbind lock_exit (\<lambda>_. scan_pages os f todo p) t)
      = sbind (\<lambda>t. (Inr (records_to_scan now (global_expire_at t) (table_entries t) 0), t))
          (\<lambda>todo. sbind lock_exit (\<lambda>_. scan_pages os f todo p))"
    by (simp add: fun_eq_iff sbind_def)
  then show ?thesis by (simp only: processRecords_def critical_def)
qed

lemma processRecords_balanced: "lock_balanced (processRecords os time0 now f p)"
  unfolding processRecords_critical
  by (intro lock_balanced_sbind release_expired_balanced critical_balanced lock_neutral_intros)
     (simp_all add: lock_neutral_def)

lemma cleanup_loop_neutral [lock_neutral_intros]: "lock_neutral (cleanup_loop os k i :: ('e Table, unit) op)"
proof (induction k arbitrary: i)
  case 0
  then show ?case by (simp add: lock_neutral_def)
next
  case (Suc k)
  have "lock_neutral (\<lambda>t1 :: 'e Table. cleanup_loop os k (Suc i)
      (clear_index_record_full i (unlink_page page (cstr (ix_page_name (index_at t1 i))) t1)))" for page
    unfolding lock_neutral_def
  proof (intro allI impI)
    fix t :: "'e Table" assume "sem_bounded (sems t)"
    then show "sem_ext (sems t) (sems (snd (cleanup_loop os k (Suc i) (clear_index_record_full i
        (unlink_page page (cstr (ix_page_name (index_at t i))) t)))))
      \<and> lock (snd (cleanup_loop os k (Suc i) (clear_index_record_full i
        (unlink_page page (cstr (ix_page_name (index_at t i))) t)))) = lock t"
      using lock_neutralD [OF Suc] unlink_clear_sems by metis
  qed
  from lock_neutral_sbind [OF getPageByName_neutral this] show ?case
    by (auto simp: lock_neutral_def)
qed

lemma cleanup_critical:
  "(cleanup os :: ('e Table, unit) op)
   = critical (\<lambda>t. cleanup_loop os (max_pages t) 0 t) (\<lambda>_. modify release_open_pages)"
proof -
  have "(\<lambda>t :: 'e Table. sbind (cleanup_loop os (max_pages t) 0) (\<lambda>_. sbind lock_exit (\<lambda>_. modify release_open_pages)) t)
      = sbind (\<lambda>t. cleanup_loop os (max_pages t) 0 t) (\<lambda>_. sbind lock_exit (\<lambda>_. modify release_open_pages))"
    by (simp add: fun_eq_iff sbind_def)
  then show ?thesis by (simp only: cleanup_def critical_def)
qed

lemma cleanup_inside_neutral: "lock_neutral (\<lambda>t. cleanup_loop os (max_pages t) 0 t)"
  using cleanup_loop_neutral by (auto simp: lock_neutral_def)

lemma release_open_pages_neutral: "lock_neutral (modify release_open_pages)"
  by (rule lock_neutral_pure) (simp add: release_open_pages_def)

lemma cleanup_balanced: "lock_balanced (cleanup os)"
  unfolding cleanup_critical by (intro critical_balanced cleanup_inside_neutral release_open_pages_neutral)

lemma update_record_expire_sems: "sems (update_record_expire i n l t) = sems t \<and> lock (update_record_expire i n l t) = lock t"
  by (simp add: update_record_expire_def Let_def set_index_def)

lemma reserve_neutral [lock_neutral_intros]: "lock_neutral (reserve os now c l)"
  unfolding lock_neutral_def reserve_def choose_page_def prepare_page_def
  by (auto simp: Let_def update_record_expire_sems update_global_expire_def set_index_def clear_index_record_def
      split: prod.split PageType.split)

lemma store_records_neutral [lock_neutral_intros]: "lock_neutral (store_records os recs c ip)"
  unfolding store_records_def
  by (intro lock_neutral_sbind) (simp_all add: getPageByName_neutral, simp_all add: lock_neutral_def throw_def Let_def set_page_object_def)

lemma addRecord_critical:
  "addRecord os time0 now recs c l = sbind (release_expired_memory_pages os time0) (\<lambda>_. sbind (checkRecord c)
     (\<lambda>_. critical (reserve os now c l) (store_records os recs c)))"
  by (simp add: addRecord_def critical_def)

lemma addRecord_balanced: "lock_balanced (addRecord os time0 now recs c l)"
  unfolding addRecord_critical
  by (intro lock_balanced_sbind release_expired_balanced critical_balanced lock_neutral_intros)
     (simp add: lock_balanced_def checkRecord_def)

definition locks_kept :: "'e Table \<Rightarrow> 'e Table \<Rightarrow> bool" where
  "locks_kept t t' \<longleftrightarrow> sem_ext (sems t) (sems t') \<and> lock t' = lock t"

lemma lock_balanced_kept: "lock_balanced m \<Longrightarrow> lock_idle t \<Longrightarrow> locks_kept t (snd (m t))"
  by (simp add: lock_balanced_def locks_kept_def)

text \<open>
  C27. Every operation of a table, whether it returns or throws, gives back every lock it
  took: no semaphore value changes (a semaphore may only be created, with value one) and the
  section object of the table is as before.
\<close>

theorem table_locks_released:
  assumes "lock_idle t"
  shows "locks_kept t (snd (addRecord os t0 t1 recs cnt life t)) \<and> locks_kept t (snd (processRecords os t0 t1 f p t))
    \<and> locks_kept t (snd (cleanup os t)) \<and> locks_kept t (snd (release_expired_memory_pages os t0 t))"
  by (intro conjI lock_balanced_kept [OF addRecord_balanced assms] lock_balanced_kept [OF processRecords_balanced assms]
      lock_balanced_kept [OF cleanup_balanced assms] lock_balanced_kept [OF release_expired_balanced assms])

end
