(* ===== verification/DealsTypes.thy ===== *)
theory DealsTypes
  imports SharedMemory
begin

text \<open>
  Model of \<^verbatim>\<open>src/deals_types.hpp\<close> and \<^verbatim>\<open>src/deals_types.cpp\<close>: the record that the deals
  index stores, the equality of deals and the choice of a deal from a price history.
\<close>

section \<open>Constants and data\<close>

definition DEALS_EXPIRES :: u32 where "DEALS_EXPIRES = 60 * 60 * 24"
definition DEALS_DB_NAME :: string where "DEALS_DB_NAME = ''Deals''"
definition DEALINFO_TABLENAME :: string where "DEALINFO_TABLENAME = ''DealsInfo''"
definition DEALINFO_PAGES :: u16 where "DEALINFO_PAGES = 5000"
definition DEALINFO_ELEMENTS :: u32 where "DEALINFO_ELEMENTS = 10000"
definition DEALDATA_TABLENAME :: string where "DEALDATA_TABLENAME = ''DealsData''"
definition DEALDATA_PAGES :: u16 where "DEALDATA_PAGES = 10000"
definition DEALDATA_ELEMENTS :: u32 where "DEALDATA_ELEMENTS = 50000000"

text \<open>
  \<open>DealInfo\<close> is \<^verbatim>\<open>deals::i::DealInfo\<close>.  It takes 60 bytes: six 32-bit numbers, four bytes,
  two booleans, the page name and, after padding, two more numbers.
\<close>

record DealInfo =
  d_timestamp :: u32
  d_origin :: u32
  d_destination :: u32
  d_departure_date :: u32
  d_return_date :: u32
  d_price :: u32
  d_stay_days :: u8
  d_destination_country :: u8
  d_departure_day_of_week :: u8
  d_return_day_of_week :: u8
  d_direct :: bool
  d_overriden :: bool
  d_page_name :: "char list"
  d_index :: u32
  d_size :: u32

definition DEALINFO_SIZE :: nat where "DEALINFO_SIZE = 60"

definition deal_zero :: DealInfo where
  "deal_zero = \<lparr>d_timestamp = 0, d_origin = 0, d_destination = 0, d_departure_date = 0,
     d_return_date = 0, d_price = 0, d_stay_days = 0, d_destination_country = 0,
     d_departure_day_of_week = 0, d_return_day_of_week = 0, d_direct = False, d_overriden = False,
     d_page_name = replicate MEMPAGE_NAME_MAX_LEN NUL, d_index = 0, d_size = 0\<rparr>"

section \<open>Equality and history\<close>

definition deal_equal :: "DealInfo \<Rightarrow> DealInfo \<Rightarrow> bool" where
  "deal_equal d1 d2 \<longleftrightarrow>
     d_departure_date d1 = d_departure_date d2 \<and> d_return_date d1 = d_return_date d2 \<and>
     d_direct d1 = d_direct d2 \<and> d_destination d1 = d_destination d2 \<and> d_origin d1 = d_origin d2"

text \<open>
  The loop of \<^verbatim>\<open>findCheapestAndLast\<close>.  The counter is set to 0 inside the body and then
  incremented by the loop header, so a restart continues at 1.
\<close>

function findCheapestAndLast_loop :: "DealInfo list \<Rightarrow> nat \<Rightarrow> nat \<Rightarrow> DealInfo \<Rightarrow> DealInfo" where
  "findCheapestAndLast_loop history i len last_deal =
     (if i < len
      then let d = history ! i
           in if deal_equal d last_deal \<and> d_timestamp d > d_timestamp last_deal
              then let last_deal = history ! len
                   in if len = 0 then last_deal
                      else findCheapestAndLast_loop history (Suc 0) (len - 1) last_deal
              else findCheapestAndLast_loop history (Suc i) len last_deal
      else last_deal)"
  by pat_completeness auto
termination by (relation "measures [\<lambda>(h, i, len, d). len, \<lambda>(h, i, len, d). len - i]") auto

declare findCheapestAndLast_loop.simps [simp del]

definition findCheapestAndLast :: "DealInfo list \<Rightarrow> DealInfo" where
  "findCheapestAndLast history =
     (let len = length history
      in if len = 0 then deal_zero
         else findCheapestAndLast_loop history 0 (len - 1) (history ! (len - 1)))"

section \<open>The deal chosen from a history\<close>

lemma deal_equal_refl [simp]: "deal_equal d d" and deal_equal_sym: "deal_equal d e \<Longrightarrow> deal_equal e d"
  and deal_equal_trans: "deal_equal d e \<Longrightarrow> deal_equal e f \<Longrightarrow> deal_equal d f"
  by (auto simp: deal_equal_def)

lemma findCheapestAndLast_loop_mem:
  "len < length history \<Longrightarrow> last_deal \<in> set history \<Longrightarrow>
   findCheapestAndLast_loop history i len last_deal \<in> set history"
proof (induction history i len last_deal rule: findCheapestAndLast_loop.induct)
  case (1 history i len last_deal)
  then show ?case by (subst findCheapestAndLast_loop.simps) (auto simp: Let_def)
qed

lemma findCheapestAndLast_mem: "history \<noteq> [] \<Longrightarrow> findCheapestAndLast history \<in> set history"
  by (simp add: findCheapestAndLast_def Let_def findCheapestAndLast_loop_mem)

text \<open>A deal is up to date in a list when no equal deal of the list is newer.\<close>

definition up_to_date :: "DealInfo list \<Rightarrow> DealInfo \<Rightarrow> bool" where
  "up_to_date ds r \<longleftrightarrow> (\<forall>d \<in> set ds. deal_equal d r \<longrightarrow> d_timestamp d \<le> d_timestamp r)"

lemma findCheapestAndLast_loop_up_to_date:
  "up_to_date history last_deal \<Longrightarrow> len < length history \<Longrightarrow>
   findCheapestAndLast_loop history i len last_deal = last_deal"
proof (induction history i len last_deal rule: findCheapestAndLast_loop.induct)
  case (1 history i len last_deal)
  have "\<not> (deal_equal (history ! i) last_deal \<and> d_timestamp (history ! i) > d_timestamp last_deal)"
    if "i < len" using 1(3,4) that by (auto simp: up_to_date_def not_less)
  with 1 show ?case by (subst findCheapestAndLast_loop.simps) (auto simp: Let_def)
qed

lemma findCheapestAndLast_up_to_date:
  "up_to_date (history @ [r]) r \<Longrightarrow> findCheapestAndLast (history @ [r]) = r"
  by (simp add: findCheapestAndLast_def Let_def nth_append findCheapestAndLast_loop_up_to_date)

end
