(* ===== verification/TableContents.thy ===== *)
theory TableContents
  imports SharedMemory
begin

text \<open>
  What a table of \<^verbatim>\<open>src/shared_memory.tpp\<close> holds and what its operations do to it: the
  invariant of the index and of the data pages, the absence of accesses outside a page, the
  records a scan visits, the effect of an insertion, and the conditions under which pages are
  reused or removed.
\<close>

section \<open>Invariants\<close>

definition same_consts :: "'e Table \<Rightarrow> 'e Table \<Rightarrow> bool" where
  "same_consts t t' \<longleftrightarrow> table_name t' = table_name t \<and> table_max_pages t' = table_max_pages t
     \<and> max_elements_in_page t' = max_elements_in_page t \<and> record_expire_seconds t' = record_expire_seconds t
     \<and> elem_size t' = elem_size t \<and> elem_zero t' = elem_zero t"

text \<open>Entry \<open>i\<close>: its name is empty or that of its page; when in use it has that name and a sane counter.\<close>

definition own_name :: "'e Table \<Rightarrow> nat \<Rightarrow> char list" where
  "own_name t i = data_page_name (table_name t) i
     @ replicate (MEMPAGE_NAME_MAX_LEN - length (data_page_name (table_name t) i)) NUL"

definition entry_ok :: "'e Table \<Rightarrow> nat \<Rightarrow> TablePageIndexElement \<Rightarrow> bool" where
  "entry_ok t i r \<longleftrightarrow>
     (ix_page_name r = replicate MEMPAGE_NAME_MAX_LEN NUL \<or> ix_page_name r = own_name t i) \<and>
     (expire_at r > 0 \<longrightarrow> ix_page_name r = own_name t i \<and> page_elements_available r \<le> max_elements_in_page t)"

definition names_fit :: "'e Table \<Rightarrow> bool" where
  "names_fit t \<longleftrightarrow> NUL \<notin> set (table_name t) \<and>
     (\<forall>i < max_pages t. length (data_page_name (table_name t) i) \<le> MEMPAGE_NAME_MAX_LEN - 6)"

definition index_inv :: "'e Table \<Rightarrow> bool" where
  "index_inv t \<longleftrightarrow> names_fit t \<and> max_pages t \<le> length (elements (table_index t)) \<and>
     (\<forall>i < max_pages t. entry_ok t i (index_at t i)) \<and>
     (\<forall>i j. i < j \<longrightarrow> j < max_pages t \<longrightarrow> expire_at (index_at t i) = 0 \<longrightarrow> expire_at (index_at t j) = 0)"

abbreviation page_size_of :: "nat \<Rightarrow> 'e Table \<Rightarrow> u32" where
  "page_size_of psz t \<equiv> page_bytes psz (elem_size t) (max_elements_in_page t)"

definition data_inv :: "nat \<Rightarrow> 'e Table \<Rightarrow> bool" where
  "data_inv psz t \<longleftrightarrow>
     unat (max_elements_in_page t) \<le> elem_capacity (elem_size t) (unat (page_size_of psz t)) \<and> page_size_of psz t \<noteq> 0 \<and>
     shm_inv (page_size_of psz t) (unat (max_elements_in_page t)) (data_shm t) \<and>
     (\<forall>page \<in> set (opened_pages_list t). mapping page < length (objects (data_shm t))
        \<and> unat (max_elements_in_page t) \<le> length (elements (page_object t page)))"

text \<open>The local mappings are those the names refer to.\<close>

definition synced :: "'e Table \<Rightarrow> bool" where
  "synced t \<longleftrightarrow> (\<forall>page \<in> set (opened_pages_list t). names (data_shm t) (page_name page) = Some (mapping page))"

lemma localGetPageByName_Some:
  "localGetPageByName ps name = Some page \<Longrightarrow> page \<in> set ps \<and> page_name page = name"
  by (induction ps) (auto split: if_splits)

lemma localGetPageByName_None:
  "localGetPageByName ps name = None \<longleftrightarrow> (\<forall>page \<in> set ps. page_name page \<noteq> name)"
  by (induction ps) auto

lemma localGetPageByName_append:
  "localGetPageByName ps name = None \<Longrightarrow> page_name page = name \<Longrightarrow> localGetPageByName (ps @ [page]) name = Some page"
  by (induction ps) (auto split: if_splits)

lemma SharedMemoryPage_new_spec:
  assumes "shm_inv b n d" and "n \<le> elem_capacity esz (unat b)" "b \<noteq> 0"
    and "b = page_bytes (sc_page_size os) esz k"
    and "SharedMemoryPage_new os esz zero name k (d, s) = (r, (d', s'))"
  shows "shm_inv b n d' \<and> shm_ext name d d' \<and> r \<noteq> Inl segv \<and>
    (\<forall>page. r = Inr page \<longrightarrow> page_name page = name \<and> names d' name = Some (mapping page)
        \<and> n \<le> length (elements (objects d' ! mapping page)))"
proof -
  have "d' = d \<and> (\<exists>m c. r = Inl (Error m c))
     \<or> sbind (page_create_or_open os esz zero name b) (page_map os name b) d = (r, d')"
    using assms(5) with_cslock_body [of os name _ d s r d' s'] unfolding assms(4)
    by (fastforce simp: SharedMemoryPage_new_def Let_def split: if_splits)
  then show ?thesis
  proof
    assume "d' = d \<and> (\<exists>m c. r = Inl (Error m c))"
    then show ?thesis using assms(1) by (auto simp: segv_def)
  next
    assume "sbind (page_create_or_open os esz zero name b) (page_map os name b) d = (r, d')"
    from page_open_spec [OF assms(1,2,3) this] show ?thesis .
  qed
qed

text \<open>Everything but the data objects, the semaphores and the local mappings.\<close>

definition same_rest :: "'e Table \<Rightarrow> 'e Table \<Rightarrow> bool" where
  "same_rest t t' \<longleftrightarrow> same_consts t t' \<and> table_index t' = table_index t
     \<and> global_expire_at t' = global_expire_at t \<and> time_to_check_page_expire t' = time_to_check_page_expire t"

lemma same_rest_refl [simp]: "same_rest t t"
  by (simp add: same_rest_def same_consts_def)

lemma same_rest_trans: "same_rest t t' \<Longrightarrow> same_rest t' t'' \<Longrightarrow> same_rest t t''"
  by (simp add: same_rest_def same_consts_def)

lemma same_rest_index: "same_rest t t' \<Longrightarrow> index_at t' i = index_at t i \<and> max_pages t' = max_pages t
    \<and> table_entries t' = table_entries t"
  by (simp add: same_rest_def same_consts_def index_at_def max_pages_def table_entries_def)

lemma same_rest_inv: "same_rest t t' \<Longrightarrow> index_inv t \<Longrightarrow> index_inv t'"
  by (simp add: same_rest_def same_consts_def index_inv_def index_at_def max_pages_def entry_ok_def own_name_def names_fit_def)

definition page_usable :: "'e Table \<Rightarrow> SharedMemoryPage \<Rightarrow> bool" where
  "page_usable t page \<longleftrightarrow> page \<in> set (opened_pages_list t) \<and> mapping page < length (objects (data_shm t))
     \<and> unat (max_elements_in_page t) \<le> length (elements (page_object t page))"

lemma getPageByName_spec:
  assumes inv: "data_inv (sc_page_size os) t" and run: "getPageByName os name t = (r, t')"
  shows "data_inv (sc_page_size os) t' \<and> same_rest t t' \<and> shm_ext name (data_shm t) (data_shm t') \<and> r \<noteq> Inl segv
    \<and> (synced t \<longrightarrow> synced t')
    \<and> (\<forall>page. r = Inr page \<longrightarrow> page_name page = name \<and> page_usable t' page
         \<and> localGetPageByName (opened_pages_list t') name = Some page
         \<and> (synced t \<longrightarrow> names (data_shm t') name = Some (mapping page)))"
proof (cases "localGetPageByName (opened_pages_list t) name")
  case (Some page)
  then have r: "r = Inr page" "t' = t" using run by (simp_all add: getPageByName_def)
  with Some inv localGetPageByName_Some [OF Some] show ?thesis
    by (auto simp: segv_def data_inv_def synced_def page_usable_def)
next
  case None
  let ?b = "page_size_of (sc_page_size os) t"
  let ?n = "unat (max_elements_in_page t)"
  obtain d s where new: "SharedMemoryPage_new os (elem_size t) (elem_zero t) name (max_elements_in_page t)
      (data_shm t, sems t) = (r, (d, s))"
    using run None by (auto simp: getPageByName_def split: sum.splits prod.splits)
  have spec: "shm_inv ?b ?n d \<and> shm_ext name (data_shm t) d \<and> r \<noteq> Inl segv \<and>
    (\<forall>page. r = Inr page \<longrightarrow> page_name page = name \<and> names d name = Some (mapping page)
        \<and> ?n \<le> length (elements (objects d ! mapping page)))"
    by (rule SharedMemoryPage_new_spec [OF _ _ _ refl new]) (use inv in \<open>auto simp: data_inv_def\<close>)
  have old: "mapping page < length (objects d) \<and> objects d ! mapping page = objects (data_shm t) ! mapping page"
    if "page \<in> set (opened_pages_list t)" for page
  proof -
    have "mapping page < length (objects (data_shm t))" using inv that by (auto simp: data_inv_def)
    then show ?thesis using spec shm_ext_nth [of name "data_shm t" d "mapping page"]
      by (auto simp: shm_ext_def dest: prefix_length_le)
  qed
  have nm: "names d (page_name page) = names (data_shm t) (page_name page)" if "page \<in> set (opened_pages_list t)" for page
    using None that spec by (auto simp: localGetPageByName_None shm_ext_def)
  show ?thesis
  proof (cases r)
    case (Inl e)
    then have "t' = t\<lparr>data_shm := d, sems := s\<rparr>" using run None new by (simp add: getPageByName_def)
    then show ?thesis using inv spec old nm Inl
      by (auto simp: data_inv_def same_rest_def same_consts_def synced_def page_object_def)
  next
    case (Inr page)
    then have t': "t' = t\<lparr>data_shm := d, sems := s, opened_pages_list := opened_pages_list t @ [page]\<rparr>"
      using run None new by (simp add: getPageByName_def)
    have lt: "mapping page < length (objects d)" using spec Inr by (auto simp: shm_inv_def)
    show ?thesis using inv spec old nm Inr lt localGetPageByName_append [OF None]
      by (auto simp: t' data_inv_def same_rest_def same_consts_def synced_def page_object_def page_usable_def)
  qed
qed

section \<open>Choosing a page and reserving space\<close>

lemma index_at_set_index:
  "index_at (set_index i r t) j = (if j = i \<and> i < length (elements (table_index t)) then r else index_at t j)"
  by (auto simp: index_at_def set_index_def nth_list_update list_update_beyond)

lemma set_index_rest [simp]:
  "length (elements (table_index (set_index i r t))) = length (elements (table_index t))"
  "data_shm (set_index i r t) = data_shm t" "opened_pages_list (set_index i r t) = opened_pages_list t"
  "global_expire_at (set_index i r t) = global_expire_at t" "table_name (set_index i r t) = table_name t"
  "table_max_pages (set_index i r t) = table_max_pages t"
  "max_elements_in_page (set_index i r t) = max_elements_in_page t"
  "record_expire_seconds (set_index i r t) = record_expire_seconds t"
  "elem_size (set_index i r t) = elem_size t" "elem_zero (set_index i r t) = elem_zero t"
  "max_pages (set_index i r t) = max_pages t"
  "sems (set_index i r t) = sems t" "lock (set_index i r t) = lock t"
  "expiration_check (table_index (set_index i r t)) = expiration_check (table_index t)"
  "time_to_check_page_expire (set_index i r t) = time_to_check_page_expire t"
  by (simp_all add: set_index_def max_pages_def)

text \<open>The entry the search stops at, and what it says about the entries before it.\<close>

lemma find_page_spec:
  assumes "find_page now c rs idx emin eidx = (ty, j, k)"
  shows "ty \<noteq> OLDEST \<and> idx \<le> j \<and> j \<le> idx + length rs \<and>
    (ty = UNKNOWN \<longleftrightarrow> j = idx + length rs) \<and>
    (ty = EXPIRED \<longrightarrow> 0 < expire_at (rs ! (j - idx)) \<and> expire_at (rs ! (j - idx)) < now) \<and>
    (ty = CURRENT \<longrightarrow> 0 < expire_at (rs ! (j - idx)) \<and> \<not> expire_at (rs ! (j - idx)) < now
        \<and> c \<le> page_elements_available (rs ! (j - idx))) \<and>
    (ty = NEW \<longrightarrow> expire_at (rs ! (j - idx)) = 0) \<and>
    (\<forall>m < j - idx. now \<le> expire_at (rs ! m) \<and> 0 < expire_at (rs ! m) \<and> page_elements_available (rs ! m) < c)"
  using assms
proof (induction rs arbitrary: idx emin eidx)
  case Nil
  then show ?case by simp
next
  case (Cons r rs)
  let ?b = "expire_at r > 0 \<and> emin > expire_at r"
  show ?case
  proof (cases "expire_at r > 0 \<and> \<not> expire_at r < now \<and> \<not> c \<le> page_elements_available r")
    case True
    then have nz: "expire_at r \<noteq> 0" by (simp add: word_neq_0_conv)
    with True have run: "find_page now c rs (Suc idx) (if ?b then expire_at r else emin) (if ?b then idx else eidx) = (ty, j, k)"
      using Cons.prems by (auto simp: Let_def)
    note ih = Cons.IH [OF run]
    then have j: "j - idx = Suc (j - Suc idx)" by auto
    have "\<forall>m < Suc (j - Suc idx). now \<le> expire_at ((r # rs) ! m) \<and> 0 < expire_at ((r # rs) ! m)
        \<and> page_elements_available ((r # rs) ! m) < c"
      using ih True by (auto simp: less_Suc_eq_0_disj not_less not_le)
    with ih show ?thesis unfolding j by auto
  next
    case False
    then show ?thesis using Cons.prems
      by (auto simp: Let_def not_less word_neq_0_conv split: if_splits)
  qed
qed

text \<open>The page proposed for recycling is in use and no page before the stop expires earlier.\<close>

lemma find_page_oldest:
  assumes "find_page now c rs idx emin eidx = (ty, j, k)"
  shows "(k = eidx \<and> (\<forall>m < j - idx. emin \<le> expire_at (rs ! m)) \<or>
     idx \<le> k \<and> k < idx + length rs \<and> k \<le> j \<and> 0 < expire_at (rs ! (k - idx)) \<and> expire_at (rs ! (k - idx)) < emin
       \<and> (\<forall>m < j - idx. expire_at (rs ! (k - idx)) \<le> expire_at (rs ! m)))"
  using assms
proof (induction rs arbitrary: idx emin eidx)
  case Nil
  then show ?case by simp
next
  case (Cons r rs)
  let ?b = "expire_at r > 0 \<and> emin > expire_at r"
  show ?case
  proof (cases "expire_at r > 0 \<and> \<not> expire_at r < now \<and> \<not> c \<le> page_elements_available r")
    case True
    then have nz: "expire_at r \<noteq> 0" by (simp add: word_neq_0_conv)
    with True have run: "find_page now c rs (Suc idx) (if ?b then expire_at r else emin) (if ?b then idx else eidx) = (ty, j, k)"
      using Cons.prems by (auto simp: Let_def)
    have le: "Suc idx \<le> j" using find_page_spec [OF run] by simp
    then have j: "j - idx = Suc (j - Suc idx)" by simp
    have k: "k - idx = Suc (k - Suc idx)" if "Suc idx \<le> k" using that by simp
    show ?thesis
    proof (cases ?b)
      case b: True
      note run' = run [unfolded if_P [OF b]]
      from b Cons.IH [OF run'] le True show ?thesis unfolding j All_less_Suc2
        by (auto simp: k not_less intro: less_imp_le less_trans)
    next
      case b: False
      note run' = run [unfolded if_not_P [OF b]]
      from b Cons.IH [OF run'] le True show ?thesis unfolding j All_less_Suc2
        by (auto simp: k not_less intro: less_imp_le less_le_trans)
    qed
  next
    case False
    then show ?thesis using Cons.prems
      by (auto simp: Let_def word_neq_0_conv split: if_splits)
  qed
qed

lemma table_entries_nth: "i < max_pages t \<Longrightarrow> table_entries t ! i = index_at t i"
  by (simp add: table_entries_def index_at_def)

lemma length_table_entries: "index_inv t \<Longrightarrow> length (table_entries t) = max_pages t"
  by (simp add: table_entries_def index_inv_def)

definition expiry :: "'e Table \<Rightarrow> u32 \<Rightarrow> u32 \<Rightarrow> u32" where
  "expiry t now life = now + (if life \<noteq> 0 then life else record_expire_seconds t)"

text \<open>Low memory with an empty table is left out of what follows: see \<open>oldest_on_empty_table\<close>.\<close>

definition recyclable :: "os \<Rightarrow> 'e Table \<Rightarrow> bool" where
  "recyclable os t \<longleftrightarrow> 0 < max_pages t \<and> (isMemLow os \<longrightarrow> expire_at (index_at t 0) \<noteq> 0)"

lemma choose_page_spec:
  assumes inv: "index_inv t" and ok: "recyclable os t" and run: "choose_page os now c t = ((ty, i), t1)"
    and ty: "ty \<noteq> UNKNOWN"
  shows "i < max_pages t \<and>
    (ty = NEW \<longrightarrow> expire_at (index_at t i) = 0 \<and> (\<forall>j < i. 0 < expire_at (index_at t j)) \<and> t1 = t) \<and>
    (ty = EXPIRED \<longrightarrow> 0 < expire_at (index_at t i) \<and> expire_at (index_at t i) < now \<and> t1 = t) \<and>
    (ty = CURRENT \<longrightarrow> 0 < expire_at (index_at t i) \<and> now \<le> expire_at (index_at t i)
        \<and> c \<le> page_elements_available (index_at t i) \<and> t1 = t) \<and>
    (ty = OLDEST \<longrightarrow> isMemLow os \<and> 0 < expire_at (index_at t i)
        \<and> (\<forall>j < max_pages t. 0 < expire_at (index_at t j) \<longrightarrow> expire_at (index_at t i) \<le> expire_at (index_at t j))
        \<and> t1 = update_global_expire (expire_at (index_at t i)) t)"
proof -
  obtain ty' j k where f: "find_page now c (table_entries t) 0 (- 1) 0 = (ty', j, k)" by (cases "find_page now c (table_entries t) 0 (- 1) 0")
  note spec = find_page_spec [OF f] and old = find_page_oldest [OF f]
  have len: "length (table_entries t) = max_pages t" by (rule length_table_entries [OF inv])
  show ?thesis
  proof (cases "ty' = NEW \<and> isMemLow os")
    case False
    then have e: "ty = ty'" "i = j" "t1 = t" using run f by (auto simp: choose_page_def split: if_splits)
    then have "j < max_pages t" using spec ty len by auto
    with spec e show ?thesis by (auto simp: table_entries_nth not_less)
  next
    case True
    then have e: "ty = OLDEST" "i = k" "t1 = update_global_expire (expire_at (index_at t k)) t"
      using run f by (auto simp: choose_page_def)
    have j: "j < max_pages t" "expire_at (index_at t j) = 0" using spec True len by (auto simp: table_entries_nth)
    have z: "0 < expire_at (index_at t 0)" using ok True by (simp add: recyclable_def word_neq_0_conv)
    with j have j0: "0 < j" by (cases j) auto
    have k: "k < max_pages t" "0 < expire_at (index_at t k)"
        "\<forall>m < j. expire_at (index_at t k) \<le> expire_at (index_at t m)"
    proof -
      have m: "\<forall>m < j. table_entries t ! m = index_at t m" using j by (simp add: table_entries_nth)
      from old have "k < max_pages t \<and> 0 < expire_at (index_at t k)
          \<and> (\<forall>m < j. expire_at (index_at t k) \<le> expire_at (index_at t m))"
      proof
        assume a: "k = 0 \<and> (\<forall>m < j - 0. - 1 \<le> expire_at (table_entries t ! m))"
        then have "\<forall>m < j. expire_at (index_at t m) = - 1" using m by (auto simp: word_order.extremum_unique)
        with a j j0 z show ?thesis by auto
      next
        assume "0 \<le> k \<and> k < 0 + length (table_entries t) \<and> k \<le> j \<and> 0 < expire_at (table_entries t ! (k - 0))
          \<and> expire_at (table_entries t ! (k - 0)) < - 1
          \<and> (\<forall>m < j - 0. expire_at (table_entries t ! (k - 0)) \<le> expire_at (table_entries t ! m))"
        then show ?thesis using m len by (auto simp: table_entries_nth)
      qed
      then show "k < max_pages t" "0 < expire_at (index_at t k)"
        "\<forall>m < j. expire_at (index_at t k) \<le> expire_at (index_at t m)" by auto
    qed
    have "m < j" if "m < max_pages t" "0 < expire_at (index_at t m)" for m
    proof (rule ccontr)
      assume "\<not> m < j"
      then have "m = j \<or> j < m" by auto
      with that j inv show False by (auto simp: index_inv_def)
    qed
    with k e True show ?thesis by auto
  qed
qed

lemma unat_diff_le: "(a :: u32) \<le> b \<Longrightarrow> unat (b - a) = unat b - unat a"
  by (simp add: unat_sub)

lemma cstr_own_name:
  assumes "names_fit t"
  shows "cstr (own_name t i) = data_page_name (table_name t) i"
proof -
  have "\<forall>c \<in> set (data_page_name (table_name t) i). c \<noteq> NUL"
    using assms to_string_digits [of i]
    by (auto simp: names_fit_def data_page_name_def is_digit_def in_range_def)
  then show ?thesis by (simp add: cstr_def own_name_def takeWhile_append2)
qed

definition reserved_entry :: "'e Table \<Rightarrow> u32 \<Rightarrow> u32 \<Rightarrow> u32 \<Rightarrow> PageType \<Rightarrow> nat \<Rightarrow> TablePageIndexElement" where
  "reserved_entry t now c life ty i =
     (let r = index_at t i
      in if ty = CURRENT
         then r\<lparr>page_elements_available := page_elements_available r - c, expire_at := max (expire_at r) (expiry t now life)\<rparr>
         else \<lparr>expire_at = expiry t now life, page_elements_available = max_elements_in_page t - c,
               ix_page_name = own_name t i\<rparr>)"

definition first_free :: "'e Table \<Rightarrow> PageType \<Rightarrow> nat \<Rightarrow> u32" where
  "first_free t ty i = (if ty = CURRENT then max_elements_in_page t - page_elements_available (index_at t i) else 0)"

lemma memcpy_own_name:
  assumes "names_fit t" "i < max_pages t" "entry_ok t i r"
  shows "memcpy_name (ix_page_name r) (data_page_name (table_name t) i) = own_name t i"
proof -
  let ?n = "data_page_name (table_name t) i"
  have "length ?n \<le> MEMPAGE_NAME_MAX_LEN" using assms by (auto simp: names_fit_def)
  then have "drop (length ?n) (ix_page_name r) = replicate (MEMPAGE_NAME_MAX_LEN - length ?n) NUL"
    using assms(3) by (auto simp: entry_ok_def own_name_def)
  then show ?thesis by (simp add: memcpy_name_def own_name_def)
qed

text \<open>The reservation in one formula: only the chosen entry and the global expiry change.\<close>

lemma set_index_twice: "set_index i r (set_index i r' t) = set_index i r t"
  by (simp add: set_index_def)

lemma set_index_self: "i < length (elements (table_index t)) \<Longrightarrow> set_index i (index_at t i) t = t"
  by (simp add: set_index_def index_at_def)

lemma update_record_expire_eq:
  assumes "i < length (elements (table_index t))"
  shows "update_record_expire i now life t
    = set_index i ((index_at t i)\<lparr>expire_at := max (expire_at (index_at t i)) (expiry t now life)\<rparr>) t"
proof (cases "expiry t now life > expire_at (index_at t i)")
  case True
  then have "max (expire_at (index_at t i)) (expiry t now life) = expiry t now life" by simp
  with True show ?thesis
    by (cases "life = 0") (simp_all add: update_record_expire_def Let_def expiry_def)
next
  case False
  then have "max (expire_at (index_at t i)) (expiry t now life) = expire_at (index_at t i)" by simp
  with False show ?thesis using set_index_self [OF assms]
    by (cases "life = 0") (simp_all add: update_record_expire_def Let_def expiry_def)
qed

lemma low_test_blocks: "0 < f_blocks os \<Longrightarrow> \<not> low_test_traps os now c t"
  by (simp add: low_test_traps_def)

lemma low_test_choice: "choose_page os now c t = ((ty, i), t1) \<Longrightarrow> low_test_traps os now c t \<Longrightarrow> ty = OLDEST"
  using mem_blocks(2) [of os] by (auto simp: choose_page_def low_test_traps_def split: prod.splits if_splits)

lemma reserve_eq:
  assumes inv: "index_inv t" and ok: "recyclable os t" and tr: "\<not> low_test_traps os now c t"
    and ch: "choose_page os now c t = ((ty, i), t1)" and ty: "ty \<noteq> UNKNOWN"
  shows "reserve os now c life t =
    (Inr \<lparr>ip_type = ty, ip_page = i, ip_page_name = data_page_name (table_name t) i, ip_index = first_free t ty i\<rparr>,
     set_index i (reserved_entry t now c life ty i) t1)"
proof -
  note spec = choose_page_spec [OF inv ok ch ty]
  have i: "i < length (elements (table_index t))" and nf: "names_fit t" and eo: "entry_ok t i (index_at t i)"
    using spec inv by (auto simp: index_inv_def)
  have t1: "t1 = t \<or> t1 = update_global_expire (expire_at (index_at t i)) t" using spec ty by (cases ty) auto
  then have same: "table_index t1 = table_index t" "table_name t1 = table_name t"
      "max_elements_in_page t1 = max_elements_in_page t" "record_expire_seconds t1 = record_expire_seconds t"
    by (auto simp: update_global_expire_def)
  then have ix: "index_at t1 k = index_at t k" for k by (simp add: index_at_def)
  have own: "ix_page_name (index_at t i) = own_name t i" if "ty \<noteq> NEW" 
    using eo spec that ty by (cases ty) (auto simp: entry_ok_def)
  have mc: "memcpy_name (ix_page_name (index_at t i)) (data_page_name (table_name t) i) = own_name t i"
    using nf eo spec by (intro memcpy_own_name) auto
  have i1: "i < length (elements (table_index t1))" using i same by simp
  have ex: "expiry (set_index i r t1) now life = expiry t now life" for r by (simp add: expiry_def same)
  show ?thesis
  proof (cases "ty = CURRENT")
    case True
    then show ?thesis using ty i1 tr
      by (simp add: reserve_def ch Let_def prepare_page_def update_record_expire_eq index_at_set_index ex
          set_index_twice ix same first_free_def reserved_entry_def)
  next
    case False
    let ?n = "data_page_name (table_name t1) i"
    have "prepare_page ty i ?n t1 = set_index i \<lparr>expire_at = 0, page_elements_available = max_elements_in_page t,
        ix_page_name = own_name t i\<rparr> t1"
      using False ty i1 mc own
      by (cases ty) (cases "index_at t i"; simp add: prepare_page_def clear_index_record_def index_at_set_index
         set_index_twice ix same)+
    then show ?thesis using False ty i1 tr
      by (simp add: reserve_def ch Let_def update_record_expire_eq index_at_set_index ex
          set_index_twice same first_free_def reserved_entry_def)
  qed
qed

lemma used_before: "index_inv t \<Longrightarrow> i < max_pages t \<Longrightarrow> 0 < expire_at (index_at t i) \<Longrightarrow> j < i \<Longrightarrow> 0 < expire_at (index_at t j)"
  unfolding index_inv_def by (metis word_neq_0_conv)

lemma entry_ok_set_index [simp]: "entry_ok (set_index k r t) = entry_ok t"
  by (simp add: fun_eq_iff entry_ok_def own_name_def)

lemma names_fit_set_index [simp]: "names_fit (set_index k r t) = names_fit t"
  by (simp add: names_fit_def)

lemma index_inv_set_index:
  assumes "index_inv t" "i < max_pages t" "entry_ok t i r" "0 < expire_at r" "\<forall>j < i. 0 < expire_at (index_at t j)"
  shows "index_inv (set_index i r t)"
proof -
  have nz: "expire_at r \<noteq> 0" "\<forall>j < i. expire_at (index_at t j) \<noteq> 0"
    using assms(4,5) by (auto simp: word_neq_0_conv)
  then show ?thesis using assms(1-3) by (auto simp: index_inv_def index_at_set_index)
qed

lemma update_global_expire_rest [simp]:
  "table_index (update_global_expire v t) = table_index t" "index_at (update_global_expire v t) i = index_at t i"
  "max_pages (update_global_expire v t) = max_pages t" "data_shm (update_global_expire v t) = data_shm t"
  "opened_pages_list (update_global_expire v t) = opened_pages_list t"
  "max_elements_in_page (update_global_expire v t) = max_elements_in_page t"
  "elem_size (update_global_expire v t) = elem_size t" "table_name (update_global_expire v t) = table_name t"
  "elem_zero (update_global_expire v t) = elem_zero t" "table_max_pages (update_global_expire v t) = table_max_pages t"
  "record_expire_seconds (update_global_expire v t) = record_expire_seconds t"
  "sems (update_global_expire v t) = sems t" "lock (update_global_expire v t) = lock t"
  by (simp_all add: update_global_expire_def index_at_def max_pages_def)

lemma index_inv_update_global [simp]: "index_inv (update_global_expire v t) = index_inv t"
  by (simp add: index_inv_def names_fit_def entry_ok_def own_name_def)

lemma reserved_entry_ok:
  assumes inv: "index_inv t" and ok: "recyclable os t" and ch: "choose_page os now c t = ((ty, i), t1)"
    and ty: "ty \<noteq> UNKNOWN" and ex: "0 < expiry t now life" and c: "c \<le> max_elements_in_page t"
  shows "entry_ok t i (reserved_entry t now c life ty i) \<and> 0 < expire_at (reserved_entry t now c life ty i)
    \<and> unat (first_free t ty i) + unat c \<le> unat (max_elements_in_page t)
    \<and> page_elements_available (reserved_entry t now c life ty i) = max_elements_in_page t - (first_free t ty i + c)"
proof (cases "ty = CURRENT")
  case False
  have "unat c \<le> unat (max_elements_in_page t)" using c by (simp add: word_le_nat_alt)
  with False show ?thesis using word_sub_le [OF c] ex
    by (simp add: entry_ok_def reserved_entry_def first_free_def)
next
  case True
  note spec = choose_page_spec [OF inv ok ch ty]
  let ?a = "page_elements_available (index_at t i)"
  have u: "0 < expire_at (index_at t i)" and ca: "c \<le> ?a" using spec True by auto
  then have am: "?a \<le> max_elements_in_page t" and nm: "ix_page_name (index_at t i) = own_name t i"
    using inv spec by (auto simp: index_inv_def entry_ok_def)
  have "unat c \<le> unat ?a" "unat ?a \<le> unat (max_elements_in_page t)" using ca am by (simp_all add: word_le_nat_alt)
  moreover have "?a - c \<le> max_elements_in_page t" using ca am by (meson order_trans word_sub_le)
  ultimately show ?thesis using True u nm am ca
    by (auto simp: entry_ok_def reserved_entry_def first_free_def unat_diff_le less_max_iff_disj Let_def)
qed

lemma reserve_inv:
  assumes inv: "index_inv t" and ok: "recyclable os t" and ex: "0 < expiry t now life" and c: "c \<le> max_elements_in_page t"
    and run: "reserve os now c life t = (r, t')"
  shows "index_inv t' \<and> same_consts t t' \<and> data_shm t' = data_shm t \<and> opened_pages_list t' = opened_pages_list t
    \<and> r \<noteq> Inl segv"
proof -
  obtain ty i t1 where ch: "choose_page os now c t = ((ty, i), t1)" by (metis prod.exhaust)
  show ?thesis
  proof (cases "low_test_traps os now c t \<or> ty = UNKNOWN")
    case True
    then have "low_test_traps os now c t \<or> t1 = t" using ch by (auto simp: choose_page_def split: prod.splits if_splits)
    then show ?thesis using run ch True inv by (auto simp: reserve_def same_consts_def segv_def split: if_splits)
  next
    case either: False
    then have False: "ty \<noteq> UNKNOWN" and tr: "\<not> low_test_traps os now c t" by simp_all
    note spec = choose_page_spec [OF inv ok ch False] and eok = reserved_entry_ok [OF inv ok ch False ex c]
    have t1: "t1 = t \<or> t1 = update_global_expire (expire_at (index_at t i)) t" using spec False by (cases ty) auto
    have "\<forall>j < i. 0 < expire_at (index_at t j)"
      using spec False used_before [OF inv] by (cases ty) auto
    moreover have "index_inv t1" "max_pages t1 = max_pages t" "index_at t1 = index_at t" "entry_ok t1 = entry_ok t"
      using t1 inv by (auto simp: fun_eq_iff entry_ok_def own_name_def)
    ultimately have "index_inv (set_index i (reserved_entry t now c life ty i) t1)"
      using conjunct1 [OF spec] eok by (intro index_inv_set_index) simp_all
    then show ?thesis using run t1 reserve_eq [OF inv ok tr ch False]
      by (auto simp: same_consts_def segv_def)
  qed
qed

section \<open>Critical sections as plain composition\<close>

definition relock :: "sem_table \<Rightarrow> CriticalSection \<Rightarrow> 'e Table \<Rightarrow> 'e Table" where
  "relock s l t = t\<lparr>sems := s, lock := l\<rparr>"

lemma relock_rest [simp]:
  "table_index (relock s l t) = table_index t" "data_shm (relock s l t) = data_shm t"
  "global_expire_at (relock s l t) = global_expire_at t" "opened_pages_list (relock s l t) = opened_pages_list t"
  "time_to_check_page_expire (relock s l t) = time_to_check_page_expire t" "table_name (relock s l t) = table_name t"
  "table_max_pages (relock s l t) = table_max_pages t" "max_elements_in_page (relock s l t) = max_elements_in_page t"
  "record_expire_seconds (relock s l t) = record_expire_seconds t" "elem_size (relock s l t) = elem_size t"
  "elem_zero (relock s l t) = elem_zero t" "sems (relock s l t) = s" "lock (relock s l t) = l"
  "max_pages (relock s l t) = max_pages t" "index_at (relock s l t) = index_at t" "table_entries (relock s l t) = table_entries t"
  "page_object (relock s l t) = page_object t" "relock s l (relock s' l' t) = relock s l t"
  by (simp_all add: relock_def max_pages_def index_at_def table_entries_def page_object_def fun_eq_iff)

lemma relock_inv [simp]:
  "index_inv (relock s l t) = index_inv t" "data_inv psz (relock s l t) = data_inv psz t"
  "synced (relock s l t) = synced t" "recyclable os (relock s l t) = recyclable os t"
  "expiry (relock s l t) = expiry t"
  by (simp_all add: index_inv_def data_inv_def synced_def names_fit_def entry_ok_def own_name_def recyclable_def
      expiry_def fun_eq_iff)

abbreviation held :: "'e Table \<Rightarrow> 'e Table" where
  "held t \<equiv> relock ((sems t)(cs_name (lock t) \<mapsto> 0)) ((lock t)\<lparr>unlock_needed := True\<rparr>) t"

lemma critical_exact:
  assumes "lock_neutral inside" "\<And>x. lock_neutral (after x)" and idle: "lock_idle t"
  shows "critical inside after t =
    (case inside (held t) of
       (Inl e, t1) \<Rightarrow> (Inl e, relock ((sems t1)(cs_name (lock t) \<mapsto> 1)) (lock t) t1)
     | (Inr x, t1) \<Rightarrow> after x (relock ((sems t1)(cs_name (lock t) \<mapsto> 1)) (lock t) t1))"
proof -
  let ?n = "cs_name (lock t)"
  have n: "sems t ?n = Some 1" and nl: "\<not> unlock_needed (lock t)" and bd: "sem_bounded (sems t)"
    using idle by (auto simp: lock_idle_def)
  have lk: "(lock t)\<lparr>unlock_needed := False\<rparr> = lock t" using nl by (rule unlock_idle)
  have bd0: "sem_bounded (sems (held t))" using bd by (simp add: sem_bounded_def)
  obtain r t1 where i: "inside (held t) = (r, t1)" by fastforce
  have e1: "sem_ext ((sems t)(?n \<mapsto> 0)) (sems t1)" and l1: "lock t1 = (lock t)\<lparr>unlock_needed := True\<rparr>"
    using lock_neutralD [OF assms(1) bd0] i by simp_all
  let ?s1 = "(sems t1)(?n \<mapsto> 1)"
  have "sems t1 ?n = Some 0" using spec [OF e1 [unfolded sem_ext_def], of ?n] by simp
  then have ex: "lock_exit t1 = (Inr (), relock ?s1 (lock t) t1)" using l1 lk by (simp add: lock_exit_held relock_def)
  have e2: "sem_ext (sems t) ?s1"
    using e1 n by (fastforce simp: sem_ext_def split: if_splits)
  have "lock (snd (after x (relock ?s1 (lock t) t1))) = lock t" for x
    using lock_neutralD [OF assms(2), of "relock ?s1 (lock t) t1" x] sem_ext_bounded [OF e2 bd] by simp
  then have idem: "lock_exit t2 = (Inr (), t2)" if "after x (relock ?s1 (lock t) t1) = (r2, t2)" for x r2 t2
    using nl that by (intro lock_exit_idle) (metis snd_conv)
  have en: "lock_enter t = (Inr (), held t)" using lock_enter_idle [OF idle] by (simp add: relock_def)
  show ?thesis
    using i ex idem nl lock_exit_idle [of "relock ?s1 (lock t) t1"]
    by (cases r) (auto simp: critical_def en with_guard_def sbind_def split: prod.splits)
qed

lemma critical_held:
  assumes "lock_neutral inside" "\<And>x. lock_neutral (after x)" and idle: "lock_idle t"
  shows "\<exists>s1. sem_ext (sems t) s1 \<and> critical inside after t =
    (case inside (held t) of
       (Inl e, t1) \<Rightarrow> (Inl e, relock s1 (lock t) t1)
     | (Inr x, t1) \<Rightarrow> after x (relock s1 (lock t) t1))"
proof -
  let ?n = "cs_name (lock t)"
  have "sem_bounded (sems (held t))" using idle by (simp add: lock_idle_def sem_bounded_def)
  then have "sem_ext ((sems t)(?n \<mapsto> 0)) (sems (snd (inside (held t))))" using lock_neutralD [OF assms(1)] by fastforce
  then have "sem_ext (sems t) ((sems (snd (inside (held t))))(?n \<mapsto> 1))"
    using idle by (fastforce simp: sem_ext_def lock_idle_def split: if_splits)
  then show ?thesis
    unfolding critical_exact [of inside after, OF assms]
    by (intro exI [of _ "(sems (snd (inside (held t))))(?n \<mapsto> 1)"]) (auto split: prod.split sum.split)
qed

lemma critical_eq:
  assumes "lock_neutral inside" "\<And>x. lock_neutral (after x)" and idle: "lock_idle t"
  shows "\<exists>s0 l0 s1. critical inside after t =
    (case inside (relock s0 l0 t) of
       (Inl e, t1) \<Rightarrow> (Inl e, relock s1 (lock t) t1)
     | (Inr x, t1) \<Rightarrow> after x (relock s1 (lock t) t1))"
  using critical_held [of inside after t, OF assms] by blast

section \<open>The stored records\<close>

definition page_elems :: "'e Table \<Rightarrow> nat \<Rightarrow> 'e list" where
  "page_elems t i = (case names (data_shm t) (data_page_name (table_name t) i) of
     None \<Rightarrow> [] | Some k \<Rightarrow> elements (objects (data_shm t) ! k))"

definition used :: "'e Table \<Rightarrow> nat \<Rightarrow> nat" where
  "used t i = unat (max_elements_in_page t - page_elements_available (index_at t i))"

definition stored :: "'e Table \<Rightarrow> nat \<Rightarrow> 'e list" where
  "stored t i = take (used t i) (page_elems t i)"

text \<open>Every page in use exists and is large enough.\<close>

definition page_backed :: "'e Table \<Rightarrow> nat \<Rightarrow> bool" where
  "page_backed t i \<longleftrightarrow> names (data_shm t) (data_page_name (table_name t) i) \<noteq> None
     \<and> unat (max_elements_in_page t) \<le> length (page_elems t i)"

definition backed :: "'e Table \<Rightarrow> bool" where
  "backed t \<longleftrightarrow> (\<forall>i < max_pages t. 0 < expire_at (index_at t i) \<longrightarrow> page_backed t i)"

lemma relock_stored [simp]:
  "page_elems (relock s l t) = page_elems t" "used (relock s l t) = used t" "stored (relock s l t) = stored t"
  "page_backed (relock s l t) = page_backed t" "backed (relock s l t) = backed t"
  by (simp_all add: page_elems_def used_def stored_def page_backed_def backed_def fun_eq_iff cong: option.case_cong)

lemma data_page_name_inject [simp]: "data_page_name n i = data_page_name n j \<longleftrightarrow> i = j"
  by (simp add: data_page_name_def)

lemma page_elems_ext:
  assumes "shm_ext (data_page_name (table_name t) i) (data_shm t) (data_shm t')" "same_rest t t'"
    and "data_inv psz t" "j \<noteq> i"
  shows "page_elems t' j = page_elems t j" and "page_backed t' j = page_backed t j"
proof -
  have n: "names (data_shm t') (data_page_name (table_name t) j) = names (data_shm t) (data_page_name (table_name t) j)"
    using assms(1,4) by (auto simp: shm_ext_def)
  have tn: "table_name t' = table_name t" "max_elements_in_page t' = max_elements_in_page t"
    using assms(2) by (simp_all add: same_rest_def same_consts_def)
  show pe: "page_elems t' j = page_elems t j"
  proof (cases "names (data_shm t) (data_page_name (table_name t) j)")
    case None
    with n tn show ?thesis by (simp add: page_elems_def)
  next
    case (Some k)
    then have "k < length (objects (data_shm t))" using assms(3) by (auto simp: data_inv_def shm_inv_def)
    then show ?thesis using Some n tn shm_ext_nth [OF assms(1)] by (simp add: page_elems_def)
  qed
  then show "page_backed t' j = page_backed t j" using n tn by (simp add: page_backed_def)
qed

text \<open>Copying records into a mapped page.\<close>

lemma set_page_object_inv:
  assumes "data_inv psz t" "length (elements ob) = length (elements (page_object t page))"
    "st_size ob = st_size (page_object t page)"
  shows "data_inv psz (set_page_object page ob t)"
proof -
  have el: "length (elements ((objects (data_shm t))[mapping page := ob] ! k)) = length (elements (objects (data_shm t) ! k))"
    "st_size ((objects (data_shm t))[mapping page := ob] ! k) = st_size (objects (data_shm t) ! k)"
    if "k < length (objects (data_shm t))" for k
    using assms(2,3) that by (cases "k = mapping page"; simp add: page_object_def)+
  show ?thesis using assms(1)
    by (auto simp: data_inv_def shm_inv_def set_page_object_def page_object_def el)
qed

lemma set_page_object_elems:
  assumes "data_inv psz t" "page_usable t page" "names (data_shm t) (data_page_name (table_name t) i) = Some (mapping page)"
  shows "page_elems (set_page_object page ob t) j = (if j = i then elements ob else page_elems t j)"
proof (cases "names (data_shm t) (data_page_name (table_name t) j)")
  case None
  then show ?thesis using assms(3) by (auto simp: page_elems_def set_page_object_def)
next
  case (Some k)
  have "k = mapping page \<longleftrightarrow> j = i"
  proof
    assume "k = mapping page"
    then have "data_page_name (table_name t) j = data_page_name (table_name t) i"
      using Some assms(1,3) unfolding data_inv_def shm_inv_def by blast
    then show "j = i" by simp
  next
    assume "j = i"
    then show "k = mapping page" using Some assms(3) by simp
  qed
  then show ?thesis using Some assms(2) by (auto simp: page_elems_def set_page_object_def page_usable_def)
qed

lemma length_memcpy_at: "i + length recs \<le> length xs \<Longrightarrow> length (memcpy_at i recs xs) = length xs"
  by (simp add: memcpy_at_def)

lemma take_memcpy_at: "i + length recs \<le> length xs \<Longrightarrow> take (i + length recs) (memcpy_at i recs xs) = take i xs @ recs"
  by (simp add: memcpy_at_def)

section \<open>Inserting records\<close>

lemma set_page_object_rest:
  "same_rest t (set_page_object page ob t)" "synced (set_page_object page ob t) = synced t"
  "table_name (set_page_object page ob t) = table_name t"
  "max_elements_in_page (set_page_object page ob t) = max_elements_in_page t"
  "names (data_shm (set_page_object page ob t)) = names (data_shm t)"
  "opened_pages_list (set_page_object page ob t) = opened_pages_list t"
  by (simp_all add: set_page_object_def same_rest_def same_consts_def synced_def)

lemma low_test_relock [simp]: "low_test_traps os now c (relock s l t) = low_test_traps os now c t"
  by (simp add: low_test_traps_def)

lemma store_records_run:
  assumes "store_records os recs c ip t = (Inr ee, t')"
  obtains page t1 where "getPageByName os (ip_page_name ip) t = (Inr page, t1)"
    "(let ob = page_object t1 page in
        if unat (ip_index ip) + unat c \<le> length (elements ob) \<and> unat c \<le> length recs
        then (Inr \<lparr>ee_page_name = ip_page_name ip, ee_index = ip_index ip, ee_size = c\<rparr>,
              set_page_object page (ob\<lparr>elements := memcpy_at (unat (ip_index ip)) (take (unat c) recs) (elements ob)\<rparr>) t1)
        else (Inl segv, t1)) = (Inr ee, t')"
  using assms that by (auto simp: store_records_def sbind_def throw_def split: if_splits prod.splits sum.splits)

lemma store_records_spec:
  assumes inv: "data_inv (sc_page_size os) t" and nm: "ip_page_name ip = data_page_name (table_name t) i"
    and fit: "unat (ip_index ip) + unat c \<le> unat (max_elements_in_page t)" and len: "unat c \<le> length recs"
    and run: "store_records os recs c ip t = (r, t')"
  shows "data_inv (sc_page_size os) t' \<and> same_rest t t' \<and> r \<noteq> Inl segv \<and> (synced t \<longrightarrow> synced t') \<and>
    (synced t \<longrightarrow> (\<forall>ee. r = Inr ee \<longrightarrow>
       ee = \<lparr>ee_page_name = ip_page_name ip, ee_index = ip_index ip, ee_size = c\<rparr>
       \<and> page_backed t' i
       \<and> (\<exists>els. page_elems t' i = memcpy_at (unat (ip_index ip)) (take (unat c) recs) els
            \<and> unat (max_elements_in_page t) \<le> length els \<and> (page_backed t i \<longrightarrow> els = page_elems t i))
       \<and> (\<forall>j. j \<noteq> i \<longrightarrow> page_elems t' j = page_elems t j \<and> page_backed t' j = page_backed t j)))"
proof (cases "ip_type ip \<noteq> CURRENT \<and> f_blocks os = 0")
  case True
  then have "r = Inl sigfpe" "t' = t" using run by (simp_all add: store_records_def sbind_def throw_def)
  then show ?thesis using inv by simp
next
  case reported: False
  obtain r1 t1 where g: "getPageByName os (ip_page_name ip) t = (r1, t1)" by fastforce
  note spec = getPageByName_spec [OF inv g]
  have run: "sbind (getPageByName os (ip_page_name ip))
       (\<lambda>page t. let ob = page_object t page
          in if unat (ip_index ip) + unat c \<le> length (elements ob) \<and> unat c \<le> length recs
             then (Inr \<lparr>ee_page_name = ip_page_name ip, ee_index = ip_index ip, ee_size = c\<rparr>,
                   set_page_object page (ob\<lparr>elements := memcpy_at (unat (ip_index ip)) (take (unat c) recs) (elements ob)\<rparr>) t)
             else (Inl segv, t)) t = (r, t')"
    using run reported unfolding store_records_def by (simp only: if_False)
  show ?thesis
  proof (cases r1)
    case (Inl e)
    then have "r = Inl e" "t' = t1" using run g by (simp_all add: sbind_def)
    with spec Inl show ?thesis by auto
  next
    case (Inr page)
    let ?els = "elements (page_object t1 page)"
    let ?recs = "take (unat c) recs"
    let ?ob = "(page_object t1 page)\<lparr>elements := memcpy_at (unat (ip_index ip)) ?recs ?els\<rparr>"
    have rest: "same_rest t t1" and pu: "page_usable t1 page" and inv1: "data_inv (sc_page_size os) t1"
      and ext: "shm_ext (data_page_name (table_name t) i) (data_shm t) (data_shm t1)"
      using spec Inr nm by auto
    have mx: "max_elements_in_page t1 = max_elements_in_page t" "table_name t1 = table_name t"
      using rest by (simp_all add: same_rest_def same_consts_def)
    have le: "unat (max_elements_in_page t) \<le> length ?els" using pu mx by (simp add: page_usable_def)
    have cl: "length ?recs = unat c" using len by simp
    have e: "r = Inr \<lparr>ee_page_name = ip_page_name ip, ee_index = ip_index ip, ee_size = c\<rparr>"
      "t' = set_page_object page ?ob t1"
      using run g Inr fit le len by (simp_all add: sbind_def Let_def split: if_splits)
    have lm: "length (memcpy_at (unat (ip_index ip)) ?recs ?els) = length ?els"
      using fit le cl by (intro length_memcpy_at) simp
    have d: "data_inv (sc_page_size os) t'" unfolding e by (rule set_page_object_inv [OF inv1]) (simp_all add: lm)
    have sr: "same_rest t t'" unfolding e using same_rest_trans [OF rest set_page_object_rest(1)] .
    {
      assume sy: "synced t"
      have nm1: "names (data_shm t1) (data_page_name (table_name t1) i) = Some (mapping page)"
        using spec Inr sy nm mx by auto
      have pe: "page_elems t' j = (if j = i then memcpy_at (unat (ip_index ip)) ?recs ?els else page_elems t1 j)" for j
        unfolding e using set_page_object_elems [OF inv1 pu nm1, of ?ob j] by simp
      have pb: "page_backed t' j = (if j = i then True else page_backed t1 j)" for j
        using pe [of j] nm1 lm le mx unfolding page_backed_def
        by (auto simp: e set_page_object_rest)
      have old: "?els = page_elems t i" if bk: "page_backed t i"
      proof -
        obtain k where k: "names (data_shm t) (data_page_name (table_name t) i) = Some k"
          using bk by (auto simp: page_backed_def)
        then have "k = mapping page" using ext nm1 mx by (auto simp: shm_ext_def)
        moreover have "k < length (objects (data_shm t))" using k inv by (auto simp: data_inv_def shm_inv_def)
        ultimately show ?thesis using shm_ext_nth [OF ext] k by (simp add: page_elems_def page_object_def)
      qed
      have "\<forall>j. j \<noteq> i \<longrightarrow> page_elems t' j = page_elems t j \<and> page_backed t' j = page_backed t j"
        using pe pb page_elems_ext [OF ext rest inv] by simp
      then have "page_backed t' i
       \<and> (\<exists>els. page_elems t' i = memcpy_at (unat (ip_index ip)) ?recs els
            \<and> unat (max_elements_in_page t) \<le> length els \<and> (page_backed t i \<longrightarrow> els = page_elems t i))
       \<and> (\<forall>j. j \<noteq> i \<longrightarrow> page_elems t' j = page_elems t j \<and> page_backed t' j = page_backed t j)"
        using pe pb le old by auto
    }
    moreover have "synced t \<longrightarrow> synced t'" using spec unfolding e(2) set_page_object_rest by simp
    ultimately show ?thesis using d sr e(1) by (simp add: segv_def)
  qed
qed

text \<open>The invariant of a table that a process sees and whose pages all exist.\<close>

definition table_ok :: "nat \<Rightarrow> 'e Table \<Rightarrow> bool" where
  "table_ok psz t \<longleftrightarrow> index_inv t \<and> data_inv psz t \<and> synced t \<and> backed t \<and> lock_idle t"

definition insert_records :: "os \<Rightarrow> u32 \<Rightarrow> 'e list \<Rightarrow> u32 \<Rightarrow> u32 \<Rightarrow> ('e Table, ElementExtractor) op" where
  "insert_records os now recs c life = critical (reserve os now c life) (store_records os recs c)"

lemma choose_page_relock:
  "choose_page os now c (relock s l t) = (case choose_page os now c t of (x, t1) \<Rightarrow> (x, relock s l t1))"
  by (auto simp: choose_page_def update_global_expire_def relock_def index_at_def table_entries_def max_pages_def
      split: prod.split)

lemma insert_records_run:
  assumes idle: "lock_idle t" and inv: "index_inv t" "recyclable os t"
    and run: "insert_records os now recs c life t = (r, t')"
    and ch: "choose_page os now c t = ((ty, i), t1)"
  shows "ty = UNKNOWN \<and> (\<exists>s. t' = relock s (lock t) t1) \<and> r = Inl (Error (''addRecord::NO_SPACE_TO_INSERT'' @ [LF]) InternalError)
    \<or> ty \<noteq> UNKNOWN \<and> (\<exists>s. store_records os recs c
        \<lparr>ip_type = ty, ip_page = i, ip_page_name = data_page_name (table_name t) i, ip_index = first_free t ty i\<rparr>
        (relock s (lock t) (set_index i (reserved_entry t now c life ty i) t1)) = (r, t'))
    \<or> ty \<noteq> UNKNOWN \<and> low_test_traps os now c t \<and> (\<exists>s. t' = relock s (lock t) t) \<and> r = Inl sigfpe"
proof -
  obtain s0 l0 s1 where eq: "insert_records os now recs c life t =
    (case reserve os now c life (relock s0 l0 t) of
       (Inl e, t1) \<Rightarrow> (Inl e, relock s1 (lock t) t1)
     | (Inr x, t1) \<Rightarrow> store_records os recs c x (relock s1 (lock t) t1))"
    using critical_eq [of "reserve os now c life" "store_records os recs c" t, OF reserve_neutral store_records_neutral idle] unfolding insert_records_def by blast
  have ch0: "choose_page os now c (relock s0 l0 t) = ((ty, i), relock s0 l0 t1)"
    using ch by (simp add: choose_page_relock)
  have si: "relock s1 (lock t) (set_index i e (relock s0 l0 t1)) = relock s1 (lock t) (set_index i e t1)" for e
    by (simp add: relock_def set_index_def)
  have fr: "first_free (relock s0 l0 t) ty i = first_free t ty i"
     "reserved_entry (relock s0 l0 t) now c life ty i = reserved_entry t now c life ty i"
    by (simp_all add: first_free_def reserved_entry_def own_name_def Let_def)
  consider "ty = UNKNOWN" | "ty \<noteq> UNKNOWN" "low_test_traps os now c t" | "ty \<noteq> UNKNOWN" "\<not> low_test_traps os now c t" by blast
  then show ?thesis
  proof cases
    case 1
    moreover have "\<not> low_test_traps os now c t" using low_test_choice [OF ch] 1 by auto
    ultimately show ?thesis using run ch0 unfolding eq by (auto simp: reserve_def)
  next
    case 2
    then show ?thesis using run unfolding eq by (auto simp: reserve_def)
  next
    case 3
    note False = 3(1)
    have "reserve os now c life (relock s0 l0 t) =
      (Inr \<lparr>ip_type = ty, ip_page = i, ip_page_name = data_page_name (table_name t) i, ip_index = first_free t ty i\<rparr>,
       set_index i (reserved_entry t now c life ty i) (relock s0 l0 t1))"
      using reserve_eq [of "relock s0 l0 t" os now c ty i "relock s0 l0 t1" life] inv ch0 False 3(2)
      by (simp add: fr)
    then show ?thesis using run False unfolding eq by (auto simp: si)
  qed
qed

lemma stored_append:
  assumes "page_elems t' i = memcpy_at (unat k) (take (unat c) recs) els" and "unat c \<le> length recs"
    and "unat (k :: u32) + unat c \<le> unat (max_elements_in_page t')" "unat (max_elements_in_page t') \<le> length els"
    and "page_elements_available (index_at t' i) = max_elements_in_page t' - (k + c)"
  shows "stored t' i = take (unat k) els @ take (unat c) recs"
proof -
  have "unat (k + c) = unat k + unat c"
    using assms(3) unsigned_less [of "max_elements_in_page t'", where ?'a = nat]
    by (simp add: unat_word_ariths)
  then have "used t' i = unat k + unat c" using assms(5) by (simp add: used_def)
  moreover have "length (take (unat c) recs) = unat c" using assms(2) by simp
  ultimately show ?thesis using assms(1,3,4) take_memcpy_at [of "unat k" "take (unat c) recs" els]
    by (simp add: stored_def)
qed

lemma table_ok_parts:
  "table_ok psz t \<Longrightarrow> index_inv t" "table_ok psz t \<Longrightarrow> data_inv psz t" "table_ok psz t \<Longrightarrow> synced t"
  "table_ok psz t \<Longrightarrow> backed t" "table_ok psz t \<Longrightarrow> lock_idle t"
  by (simp_all add: table_ok_def)

lemma insert_records_balanced: "lock_balanced (insert_records os now recs c life)"
  unfolding insert_records_def by (intro critical_balanced lock_neutral_intros)

lemma data_inv_index [simp]: "data_inv psz (set_index i r t) = data_inv psz t" "synced (set_index i r t) = synced t"
  "data_inv psz (update_global_expire v t) = data_inv psz t" "synced (update_global_expire v t) = synced t"
  by (simp_all add: data_inv_def synced_def page_object_def)

lemma page_elems_index [simp]:
  "page_elems (set_index i r t) = page_elems t" "page_backed (set_index i r t) = page_backed t"
  "page_elems (update_global_expire v t) = page_elems t" "page_backed (update_global_expire v t) = page_backed t"
  by (simp_all add: page_elems_def page_backed_def fun_eq_iff cong: option.case_cong)

text \<open>The effect of a successful insertion, and what remains true after a failed one.\<close>

definition inserted :: "u32 \<Rightarrow> 'e list \<Rightarrow> u32 \<Rightarrow> u32 \<Rightarrow> PageType \<Rightarrow> nat \<Rightarrow> 'e Table \<Rightarrow> 'e Table \<Rightarrow> bool" where
  "inserted now recs c life ty i t t' \<longleftrightarrow>
     stored t' i = (if ty = CURRENT then stored t i else []) @ take (unat c) recs
     \<and> index_at t' i = reserved_entry t now c life ty i
     \<and> take (unat c) (drop (unat (first_free t ty i)) (page_elems t' i)) = take (unat c) recs
     \<and> (\<forall>j < max_pages t. j \<noteq> i \<longrightarrow> index_at t' j = index_at t j \<and> stored t' j = stored t j)"

lemma take_drop_memcpy_at: "i + length recs \<le> length xs \<Longrightarrow> take (length recs) (drop i (memcpy_at i recs xs)) = recs"
  by (simp add: memcpy_at_def)

lemma insert_records_spec:
  assumes ok: "table_ok (sc_page_size os) t" and rc: "recyclable os t" and ex: "0 < expiry t now life"
    and c: "c \<le> max_elements_in_page t" and len: "unat c \<le> length recs"
    and run: "insert_records os now recs c life t = (r, t')"
    and ch: "choose_page os now c t = ((ty, i), t1)"
  shows "r \<noteq> Inl segv \<and> index_inv t' \<and> data_inv (sc_page_size os) t' \<and> synced t' \<and> lock_idle t' \<and> same_consts t t' \<and>
    (ty = UNKNOWN \<longrightarrow> r = Inl (Error (''addRecord::NO_SPACE_TO_INSERT'' @ [LF]) InternalError) \<and> backed t') \<and>
    (\<forall>ee. r = Inr ee \<longrightarrow> ty \<noteq> UNKNOWN \<and> i < max_pages t \<and> backed t' \<and> inserted now recs c life ty i t t' \<and>
       global_expire_at t' = global_expire_at t1 \<and>
       ee = \<lparr>ee_page_name = data_page_name (table_name t) i, ee_index = first_free t ty i, ee_size = c\<rparr>)"
proof -
  note inv = table_ok_parts(1) [OF ok] and dinv = table_ok_parts(2) [OF ok] and sy = table_ok_parts(3) [OF ok]
    and bk = table_ok_parts(4) [OF ok] and idle = table_ok_parts(5) [OF ok]
  have idle': "lock_idle t'" using lock_balanced_idle [OF insert_records_balanced idle] run by (metis snd_conv)
  note steps = insert_records_run [OF idle inv rc run ch]
  show ?thesis
  proof (cases "ty = UNKNOWN \<or> r = Inl sigfpe \<and> (\<exists>s. t' = relock s (lock t) t)")
    case True
    then have "ty = UNKNOWN \<Longrightarrow> t1 = t" using ch by (auto simp: choose_page_def split: prod.splits if_splits)
    with steps True inv dinv sy bk idle' show ?thesis by (auto simp: segv_def same_consts_def)
  next
    case either: False
    then have False: "ty \<noteq> UNKNOWN" by simp
    note spec = choose_page_spec [OF inv rc ch False] and eok = reserved_entry_ok [OF inv rc ch False ex c]
    let ?e = "reserved_entry t now c life ty i"
    let ?ip = "\<lparr>ip_type = ty, ip_page = i, ip_page_name = data_page_name (table_name t) i, ip_index = first_free t ty i\<rparr>"
    obtain s where st: "store_records os recs c ?ip (relock s (lock t) (set_index i ?e t1)) = (r, t')"
      using steps either by blast
    let ?t2 = "relock s (lock t) (set_index i ?e t1)"
    have im: "i < max_pages t" and il: "i < length (elements (table_index t))" using spec inv by (auto simp: index_inv_def)
    have t1: "t1 = t \<or> t1 = update_global_expire (expire_at (index_at t i)) t" using spec False by (cases ty) auto
    have "\<forall>j < i. 0 < expire_at (index_at t j)" using spec False used_before [OF inv] by (cases ty) auto
    moreover have one: "index_inv t1" "max_pages t1 = max_pages t" "index_at t1 = index_at t" "entry_ok t1 = entry_ok t"
        "table_index t1 = table_index t" "data_inv (sc_page_size os) t1" "synced t1" "table_name t1 = table_name t"
        "max_elements_in_page t1 = max_elements_in_page t" "page_elems t1 = page_elems t" "page_backed t1 = page_backed t"
        "same_consts t t1"
      using t1 inv dinv sy by (auto simp: fun_eq_iff entry_ok_def own_name_def same_consts_def)
    ultimately have inv2: "index_inv ?t2" using im eok by (simp add: index_inv_set_index)
    have d2: "data_inv (sc_page_size os) ?t2" and s2: "synced ?t2" using one by simp_all
    have c2: "same_consts t ?t2" using one(12) by (simp add: same_consts_def)
    have ix2: "index_at ?t2 j = (if j = i then ?e else index_at t j)" for j
      using one il by (simp add: index_at_set_index)
    note ss = store_records_spec [OF d2 _ _ len st, of i]
    have sr: "same_rest ?t2 t'" and d': "data_inv (sc_page_size os) t'" and y': "synced t'" and ns: "r \<noteq> Inl segv"
      using ss one eok s2 by auto
    have inv': "index_inv t'" using sr inv2 by (rule same_rest_inv)
    have ix': "index_at t' j = (if j = i then ?e else index_at t j)" for j
      using same_rest_index [OF sr] ix2 by simp
    have mx: "max_elements_in_page t' = max_elements_in_page t" "max_pages t' = max_pages t" and c': "same_consts t t'"
      using sr c2 one by (auto simp: same_rest_def same_consts_def max_pages_def)
    have g': "global_expire_at t' = global_expire_at t1" using sr by (simp add: same_rest_def)
    have fin: "backed t' \<and> inserted now recs c life ty i t t' \<and>
        ee = \<lparr>ee_page_name = data_page_name (table_name t) i, ee_index = first_free t ty i, ee_size = c\<rparr>"
      if r: "r = Inr ee" for ee
    proof -
      have m2: "max_elements_in_page ?t2 = max_elements_in_page t" "table_name ?t2 = table_name t" using one by simp_all
      from ss s2 r m2 eok have ee: "ee = \<lparr>ee_page_name = data_page_name (table_name t) i, ee_index = first_free t ty i, ee_size = c\<rparr>"
        and bi: "page_backed t' i"
        and els: "\<exists>els. page_elems t' i = memcpy_at (unat (first_free t ty i)) (take (unat c) recs) els
            \<and> unat (max_elements_in_page t) \<le> length els \<and> (page_backed t i \<longrightarrow> els = page_elems t i)"
        and oth: "\<forall>j. j \<noteq> i \<longrightarrow> page_elems t' j = page_elems t j \<and> page_backed t' j = page_backed t j"
        using one by (auto simp: page_backed_def)
      obtain els where els: "page_elems t' i = memcpy_at (unat (first_free t ty i)) (take (unat c) recs) els"
          "unat (max_elements_in_page t) \<le> length els" "page_backed t i \<longrightarrow> els = page_elems t i" using els by blast
      have "stored t' i = take (unat (first_free t ty i)) els @ take (unat c) recs"
        by (rule stored_append [OF els(1) len]) (use eok mx els ix' in auto)
      moreover have "take (unat (first_free t ty i)) els = (if ty = CURRENT then stored t i else [])"
      proof (cases "ty = CURRENT")
        case True
        then have "page_backed t i" using bk spec im by (auto simp: backed_def)
        then show ?thesis using True els by (simp add: first_free_def stored_def used_def)
      qed (simp add: first_free_def)
      moreover have "take (unat c) (drop (unat (first_free t ty i)) (page_elems t' i)) = take (unat c) recs"
        using take_drop_memcpy_at [of "unat (first_free t ty i)" "take (unat c) recs" els] els eok len by simp
      moreover have "\<forall>j < max_pages t. j \<noteq> i \<longrightarrow> index_at t' j = index_at t j \<and> stored t' j = stored t j"
        using oth ix' mx by (auto simp: stored_def used_def)
      moreover have "backed t'" using bi oth bk ix' mx unfolding backed_def by (metis (full_types))
      ultimately show ?thesis using ee ix' by (simp add: inserted_def)
    qed
    show ?thesis using ns inv' d' y' idle' c' False im g' fin by auto
  qed
qed

section \<open>Releasing expired pages\<close>

definition maybe_in_use :: "u32 \<Rightarrow> u32 \<Rightarrow> TablePageIndexElement \<Rightarrow> bool" where
  "maybe_in_use now gexp r \<longleftrightarrow> expire_at r > 0 \<and> expire_at r + MEMPAGE_REMOVE_EXPIRED_PAGES_DELAY_SEC > now
     \<and> expire_at r + MEMPAGE_REMOVE_EXPIRED_PAGES_DELAY_SEC > gexp"

lemma find_last_data_spec:
  assumes "find_last_data now gexp rs idx lst = (n, k)"
  shows "idx \<le> n \<and> n \<le> idx + length rs \<and> (\<forall>j < n - idx. 0 < expire_at (rs ! j))
    \<and> (n < idx + length rs \<longrightarrow> expire_at (rs ! (n - idx)) = 0)
    \<and> (k = lst \<or> idx \<le> k \<and> k < n) \<and> (\<forall>j < n - idx. idx + j > k \<or> k < idx \<longrightarrow> \<not> maybe_in_use now gexp (rs ! j))"
  using assms
proof (induction rs arbitrary: idx lst)
  case Nil
  then show ?case by simp
next
  case (Cons r rs)
  let ?lst = "if maybe_in_use now gexp r then idx else lst"
  show ?case
  proof (cases "expire_at r = 0")
    case True
    then show ?thesis using Cons.prems by (auto simp: Let_def)
  next
    case False
    then have run: "find_last_data now gexp rs (Suc idx) ?lst = (n, k)"
      using Cons.prems by (simp add: Let_def maybe_in_use_def)
    note ih = Cons.IH [OF run]
    then have n: "n - idx = Suc (n - Suc idx)" by auto
    have pos: "0 < expire_at r" using False by (simp add: word_neq_0_conv)
    show ?thesis unfolding n All_less_Suc2
      using ih pos by (auto split: if_splits)
  qed
qed

text \<open>Mappings are current except those of the pages removed above entry \<open>m\<close>.\<close>

definition wsynced :: "nat \<Rightarrow> 'e Table \<Rightarrow> bool" where
  "wsynced m t \<longleftrightarrow> (\<forall>page \<in> set (opened_pages_list t).
     names (data_shm t) (page_name page) = Some (mapping page)
     \<or> unlinked (page_object t page) \<and> (\<exists>j > m. page_name page = data_page_name (table_name t) j))"

lemma synced_wsynced: "synced t \<Longrightarrow> wsynced m t"
  by (auto simp: synced_def wsynced_def)

lemma getPageByName_wsynced:
  assumes inv: "data_inv (sc_page_size os) t" and ws: "wsynced m t" and m: "i \<le> m"
    and run: "getPageByName os (data_page_name (table_name t) i) t = (Inr page, t')"
  shows "wsynced m t' \<and> names (data_shm t') (data_page_name (table_name t) i) = Some (mapping page)"
proof (cases "localGetPageByName (opened_pages_list t) (data_page_name (table_name t) i)")
  case (Some p)
  then have "page = p" "t' = t" using run by (simp_all add: getPageByName_def)
  then show ?thesis using localGetPageByName_Some [OF Some] ws m by (fastforce simp: wsynced_def)
next
  case None
  note spec = getPageByName_spec [OF inv run]
  have tn: "table_name t' = table_name t" using spec by (simp add: same_rest_def same_consts_def)
  have ext: "shm_ext (data_page_name (table_name t) i) (data_shm t) (data_shm t')" using spec by simp
  obtain d s where new: "SharedMemoryPage_new os (elem_size t) (elem_zero t) (data_page_name (table_name t) i)
      (max_elements_in_page t) (data_shm t, sems t) = (Inr page, (d, s))"
    and t': "t' = t\<lparr>data_shm := d, sems := s, opened_pages_list := opened_pages_list t @ [page]\<rparr>"
    using run None by (auto simp: getPageByName_def split: sum.splits prod.splits)
  have nm: "names d (data_page_name (table_name t) i) = Some (mapping page)"
    using SharedMemoryPage_new_spec [OF _ _ _ refl new] inv by (auto simp: data_inv_def)
  have "names (data_shm t') (page_name q) = Some (mapping q)
     \<or> unlinked (page_object t' q) \<and> (\<exists>j > m. page_name q = data_page_name (table_name t') j)"
    if q: "q \<in> set (opened_pages_list t)" for q
  proof -
    have "page_name q \<noteq> data_page_name (table_name t) i" using None q by (auto simp: localGetPageByName_None)
    then have "names (data_shm t') (page_name q) = names (data_shm t) (page_name q)" using ext by (auto simp: shm_ext_def)
    moreover have "page_object t' q = page_object t q"
      using shm_ext_nth [OF ext] inv q by (auto simp: page_object_def data_inv_def)
    ultimately show ?thesis using ws q tn by (auto simp: wsynced_def)
  qed
  moreover have "names (data_shm t') (page_name page) = Some (mapping page)" using nm spec t' by simp
  ultimately have "wsynced m t'" unfolding wsynced_def using t' by auto
  then show ?thesis using nm t' by simp
qed

text \<open>One removal: entry \<open>i\<close> is cleared, its page loses its name, nothing else changes.\<close>

definition removed :: "nat \<Rightarrow> SharedMemoryPage \<Rightarrow> 'e Table \<Rightarrow> 'e Table" where
  "removed i page t = clear_index_record_full i (unlink_page page (data_page_name (table_name t) i) t)"

lemma unlink_page_rest [simp]:
  "table_index (unlink_page page n t) = table_index t" "opened_pages_list (unlink_page page n t) = opened_pages_list t"
  "global_expire_at (unlink_page page n t) = global_expire_at t" "table_name (unlink_page page n t) = table_name t"
  "table_max_pages (unlink_page page n t) = table_max_pages t" "max_elements_in_page (unlink_page page n t) = max_elements_in_page t"
  "record_expire_seconds (unlink_page page n t) = record_expire_seconds t" "elem_size (unlink_page page n t) = elem_size t"
  "elem_zero (unlink_page page n t) = elem_zero t" "max_pages (unlink_page page n t) = max_pages t"
  "index_at (unlink_page page n t) = index_at t"
  "names (data_shm (unlink_page page n t)) = (names (data_shm t))(n := None)"
  "objects (data_shm (unlink_page page n t))
     = (objects (data_shm t))[mapping page := (page_object t page)\<lparr>unlinked := True\<rparr>]"
  by (simp_all add: unlink_page_def set_page_object_def shm_unlink_def Let_def max_pages_def index_at_def fun_eq_iff)

lemma removed_rest [simp]:
  "opened_pages_list (removed i page t) = opened_pages_list t"
  "global_expire_at (removed i page t) = global_expire_at t" "table_name (removed i page t) = table_name t"
  "table_max_pages (removed i page t) = table_max_pages t" "max_elements_in_page (removed i page t) = max_elements_in_page t"
  "max_pages (removed i page t) = max_pages t" "same_consts t (removed i page t)"
  "data_shm (removed i page t) = data_shm (unlink_page page (data_page_name (table_name t) i) t)"
  by (simp_all add: removed_def clear_index_record_full_def same_consts_def)

lemma index_at_removed:
  "index_at (removed i page t) j = (if j = i \<and> i < length (elements (table_index t))
     then \<lparr>expire_at = 0, page_elements_available = max_elements_in_page t, ix_page_name = replicate MEMPAGE_NAME_MAX_LEN NUL\<rparr>
     else index_at t j)"
  by (simp add: removed_def clear_index_record_full_def index_at_set_index)

lemma removed_index_inv:
  assumes "index_inv t" "i < max_pages t" "\<forall>j. i < j \<longrightarrow> j < max_pages t \<longrightarrow> expire_at (index_at t j) = 0"
  shows "index_inv (removed i page t)"
proof -
  have il: "i < length (elements (table_index t))" and eo: "\<forall>j < max_pages t. entry_ok t j (index_at t j)"
    and nf: "names_fit t" using assms by (auto simp: index_inv_def)
  have le: "length (elements (table_index (removed i page t))) = length (elements (table_index t))"
    by (simp add: removed_def clear_index_record_full_def)
  have "entry_ok (removed i page t) j (index_at (removed i page t) j)" if "j < max_pages t" for j
    using eo that by (auto simp: entry_ok_def index_at_removed own_name_def)
  moreover have "names_fit (removed i page t)" using nf by (simp add: names_fit_def)
  ultimately show ?thesis using assms le by (auto simp: index_inv_def index_at_removed)
qed

lemma list_update_field: "f y = f (xs ! k) \<Longrightarrow> f (xs[k := y] ! j) = f (xs ! j)"
  by (cases "k < length xs"; cases "j = k") (simp_all add: list_update_beyond)

lemma unlinked_length: "length (elements (objs[k := (objs ! k)\<lparr>unlinked := True\<rparr>] ! j)) = length (elements (objs ! j))"
  "elements (objs[k := (objs ! k)\<lparr>unlinked := True\<rparr>] ! j) = elements (objs ! j)"
  "st_size (objs[k := (objs ! k)\<lparr>unlinked := True\<rparr>] ! j) = st_size (objs ! j)"
proof -
  show e: "elements (objs[k := (objs ! k)\<lparr>unlinked := True\<rparr>] ! j) = elements (objs ! j)"
    by (rule list_update_field [of elements]) simp
  then show "length (elements (objs[k := (objs ! k)\<lparr>unlinked := True\<rparr>] ! j)) = length (elements (objs ! j))" by simp
  show "st_size (objs[k := (objs ! k)\<lparr>unlinked := True\<rparr>] ! j) = st_size (objs ! j)"
    by (rule list_update_field [of st_size]) simp
qed

lemma removed_data_inv:
  assumes "data_inv psz t" 
  shows "data_inv psz (removed i page t)"
proof -
  have e: "elem_size (removed i page t) = elem_size t" by (simp add: removed_def clear_index_record_full_def)
  show ?thesis using assms
    by (auto simp: data_inv_def shm_inv_def page_object_def unlinked_length e split: if_splits)
qed

lemma removed_page_elems:
  "j \<noteq> i \<Longrightarrow> page_elems (removed i page t) j = page_elems t j"
  "j \<noteq> i \<Longrightarrow> page_backed (removed i page t) j = page_backed t j"
  by (simp_all add: page_elems_def page_backed_def page_object_def [of t] unlinked_length cong: option.case_cong)

lemma removed_wsynced:
  assumes ws: "wsynced (Suc i) t" and nm: "names (data_shm t) (data_page_name (table_name t) (Suc i)) = Some (mapping page)"
    and lt: "mapping page < length (objects (data_shm t))"
  shows "wsynced i (removed (Suc i) page t)"
proof -
  let ?t' = "removed (Suc i) page t"
  have ul: "unlinked (page_object ?t' q)" if "unlinked (page_object t q) \<or> mapping q = mapping page" for q
    using that lt by (cases "mapping q = mapping page") (auto simp: page_object_def)
  have "names (data_shm ?t') (page_name q) = Some (mapping q)
     \<or> unlinked (page_object ?t' q) \<and> (\<exists>j > i. page_name q = data_page_name (table_name t) j)"
    if q: "q \<in> set (opened_pages_list t)" for q
  proof (cases "names (data_shm t) (page_name q) = Some (mapping q)")
    case True
    show ?thesis
    proof (cases "page_name q = data_page_name (table_name t) (Suc i)")
      case eq: True
      then have "mapping q = mapping page" using True nm by simp
      then show ?thesis using ul eq by blast
    next
      case False
      with True show ?thesis by simp
    qed
  next
    case False
    then have u: "unlinked (page_object t q)" and ex: "\<exists>j > Suc i. page_name q = data_page_name (table_name t) j"
      using ws q by (auto simp: wsynced_def)
    have "unlinked (page_object ?t' q)" by (rule ul) (use u in simp)
    moreover have "\<exists>j > i. page_name q = data_page_name (table_name t) j" using ex Suc_lessD by blast
    ultimately show ?thesis by blast
  qed
  then show ?thesis unfolding wsynced_def removed_rest(1,3) by blast
qed

lemma release_loop_spec:
  assumes "index_inv t" "data_inv (sc_page_size os) t" "wsynced i t" "backed t" "i < max_pages t"
    and "\<forall>j. i < j \<longrightarrow> j < max_pages t \<longrightarrow> expire_at (index_at t j) = 0" "\<forall>j \<le> i. 0 < expire_at (index_at t j)"
    and "release_loop os k i c t = (r, t')"
  shows "index_inv t' \<and> data_inv (sc_page_size os) t' \<and> same_consts t t' \<and> global_expire_at t' = global_expire_at t
    \<and> r \<noteq> Inl segv
    \<and> (r = Inr () \<longrightarrow> (\<exists>m. min k i \<le> m \<and> m \<le> i \<and> (c < 5 \<longrightarrow> i \<le> m + (5 - c)) \<and> wsynced m t' \<and> backed t'
         \<and> (\<forall>j \<le> m. index_at t' j = index_at t j \<and> stored t' j = stored t j)
         \<and> (\<forall>j. m < j \<longrightarrow> j < max_pages t \<longrightarrow> expire_at (index_at t' j) = 0)))"
  using assms
proof (induction i arbitrary: c t)
  case 0
  then have "r = Inr ()" "t' = t" by simp_all
  with 0 show ?case by (auto simp: same_consts_def segv_def)
next
  case (Suc i)
  show ?case
  proof (cases "k < Suc i")
    case False
    then have "r = Inr ()" "t' = t" using Suc.prems(8) by simp_all
    with Suc.prems False show ?thesis by (auto simp: same_consts_def segv_def intro!: exI [of _ "Suc i"])
  next
    case True
    let ?n = "data_page_name (table_name t) (Suc i)"
    have "entry_ok t (Suc i) (index_at t (Suc i))" "0 < expire_at (index_at t (Suc i))" "names_fit t"
      using Suc.prems(1,5,7) by (auto simp: index_inv_def)
    then have cs: "cstr (ix_page_name (index_at t (Suc i))) = ?n" by (simp add: entry_ok_def cstr_own_name)
    obtain r1 t1 where g: "getPageByName os ?n t = (r1, t1)" by fastforce
    note spec = getPageByName_spec [OF Suc.prems(2) g]
    have rest: "same_rest t t1" and d1: "data_inv (sc_page_size os) t1" using spec by auto
    have i1: "index_inv t1" using rest Suc.prems(1) by (rule same_rest_inv)
    show ?thesis
    proof (cases r1)
      case (Inl e)
      then have "r = Inl e" "t' = t1" using Suc.prems(8) True g cs by (simp_all add: sbind_def)
      with spec Inl i1 show ?thesis by (auto simp: same_rest_def)
    next
      case (Inr page)
      let ?t2 = "removed (Suc i) page t1"
      have tn: "table_name t1 = table_name t" "max_pages t1 = max_pages t" "global_expire_at t1 = global_expire_at t"
          "index_at t1 j = index_at t j" "same_consts t t1" "max_elements_in_page t1 = max_elements_in_page t" for j
        using rest same_rest_index [OF rest] by (auto simp: same_rest_def same_consts_def)
      have pn: "page_name page = ?n" and pu: "page_usable t1 page" using spec Inr by auto
      have ws: "wsynced (Suc i) t1" "names (data_shm t1) ?n = Some (mapping page)"
        using getPageByName_wsynced [OF Suc.prems(2,3) _ g [unfolded Inr]] by auto
      have il: "Suc i < length (elements (table_index t1))" using i1 Suc.prems(5) tn by (auto simp: index_inv_def)
      have t2: "clear_index_record_full (Suc i) (unlink_page page (page_name page) t1) = ?t2"
        by (simp add: removed_def pn tn)
      have inv2: "index_inv ?t2" using i1 Suc.prems(5,6) tn by (intro removed_index_inv) auto
      have d2: "data_inv (sc_page_size os) ?t2" by (rule removed_data_inv [OF d1])
      have w2: "wsynced i ?t2" using ws pu tn by (intro removed_wsynced) (auto simp: page_usable_def)
      have ix2: "index_at ?t2 j = (if j = Suc i then \<lparr>expire_at = 0, page_elements_available = max_elements_in_page t,
          ix_page_name = replicate MEMPAGE_NAME_MAX_LEN NUL\<rparr> else index_at t j)" for j
        using il tn by (simp add: index_at_removed)
      have pe: "page_elems ?t2 j = page_elems t j" "page_backed ?t2 j = page_backed t j" if "j \<noteq> Suc i" for j
      proof -
        have ext: "shm_ext ?n (data_shm t) (data_shm t1)" using spec by simp
        show "page_elems ?t2 j = page_elems t j" "page_backed ?t2 j = page_backed t j"
          using page_elems_ext [OF ext rest Suc.prems(2) that] by (simp_all only: removed_page_elems [OF that])
      qed
      have st2: "stored ?t2 j = stored t j" if "j \<noteq> Suc i" for j
        using pe [OF that] ix2 that tn by (simp add: stored_def used_def)
      have b2: "backed ?t2"
        using Suc.prems(4) pe ix2 tn unfolding backed_def removed_rest by (metis TablePageIndexElement.select_convs(1) less_irrefl)
      have z2: "\<forall>j. i < j \<longrightarrow> j < max_pages ?t2 \<longrightarrow> expire_at (index_at ?t2 j) = 0"
        using Suc.prems(6) ix2 tn by auto
      have u2: "\<forall>j \<le> i. 0 < expire_at (index_at ?t2 j)" using Suc.prems(7) ix2 by auto
      have c2: "same_consts t ?t2" using tn(5) removed_rest(7) [of t1] by (simp add: same_consts_def)
      have g2: "global_expire_at ?t2 = global_expire_at t" "max_pages ?t2 = max_pages t" using tn by simp_all
      show ?thesis
      proof (cases "MEMPAGE_REMOVE_EXPIRED_PAGES_AT_ONCE \<le> c + 1")
        case stop: True
        then have e: "r = Inr ()" "t' = ?t2" using Suc.prems(8) True g cs Inr t2 by (simp_all add: sbind_def Let_def)
        have "c < 5 \<longrightarrow> Suc i \<le> i + (5 - c)" by arith
        then show ?thesis unfolding e using inv2 d2 w2 ix2 st2 b2 z2 c2 g2 True by (auto simp: segv_def intro!: exI [of _ i])
      next
        case go: False
        then have run: "release_loop os k i (c + 1) ?t2 = (r, t')"
          using Suc.prems(8) True g cs Inr t2 by (simp add: sbind_def Let_def)
        have im: "i < max_pages ?t2" using Suc.prems(5) g2 by simp
        have ih: "index_inv t' \<and> data_inv (sc_page_size os) t' \<and> same_consts ?t2 t' \<and> global_expire_at t' = global_expire_at ?t2
          \<and> r \<noteq> Inl segv \<and> (r = Inr () \<longrightarrow> (\<exists>m. min k i \<le> m \<and> m \<le> i \<and> (c + 1 < 5 \<longrightarrow> i \<le> m + (5 - (c + 1))) \<and> wsynced m t' \<and> backed t'
            \<and> (\<forall>j \<le> m. index_at t' j = index_at ?t2 j \<and> stored t' j = stored ?t2 j)
            \<and> (\<forall>j. m < j \<longrightarrow> j < max_pages ?t2 \<longrightarrow> expire_at (index_at t' j) = 0)))"
          by (rule Suc.IH [OF inv2 d2 w2 b2 im z2 u2 run])
        have "c < 4" using go by (simp add: MEMPAGE_REMOVE_EXPIRED_PAGES_AT_ONCE_def)
        have c': "same_consts t t'" using ih c2 by (simp add: same_consts_def)
        have "\<exists>m. min k (Suc i) \<le> m \<and> m \<le> Suc i \<and> (c < 5 \<longrightarrow> Suc i \<le> m + (5 - c)) \<and> wsynced m t' \<and> backed t'
            \<and> (\<forall>j \<le> m. index_at t' j = index_at t j \<and> stored t' j = stored t j)
            \<and> (\<forall>j. m < j \<longrightarrow> j < max_pages t \<longrightarrow> expire_at (index_at t' j) = 0)" if rr: "r = Inr ()"
        proof -
          obtain m where m: "min k i \<le> m" "m \<le> i" "i \<le> m + (5 - (c + 1))" "wsynced m t'" "backed t'"
            "\<forall>j \<le> m. index_at t' j = index_at ?t2 j \<and> stored t' j = stored ?t2 j"
            "\<forall>j. m < j \<longrightarrow> j < max_pages ?t2 \<longrightarrow> expire_at (index_at t' j) = 0"
            using ih rr \<open>c < 4\<close> by auto
          show ?thesis
            by (rule exI [of _ m]) (use m \<open>c < 4\<close> True ix2 st2 g2 in auto)
        qed
        then show ?thesis using ih c' g2 by auto
      qed
    qed
  qed
qed

text \<open>The pages kept by a release: a prefix of the old ones, with their records.\<close>

definition keeps_prefix :: "nat \<Rightarrow> 'e Table \<Rightarrow> 'e Table \<Rightarrow> bool" where
  "keeps_prefix m t t' \<longleftrightarrow>
     (\<forall>j < m. index_at t' j = index_at t j \<and> stored t' j = stored t j) \<and>
     (\<forall>j < max_pages t. m \<le> j \<longrightarrow> expire_at (index_at t' j) = 0)"

lemma zero_after:
  assumes "index_inv t" "expire_at (index_at t i) = 0" "i \<le> j" "j < max_pages t"
  shows "expire_at (index_at t j) = 0"
proof (cases "i = j")
  case False
  then have "i < j" using assms(3) by simp
  then show ?thesis using assms unfolding index_inv_def by blast
qed (use assms in simp)

lemma keeps_prefix_refl:
  assumes inv: "index_inv t"
  shows "\<exists>m \<le> max_pages t. keeps_prefix m t t"
proof -
  define P where "P j \<longleftrightarrow> (j < max_pages t \<longrightarrow> expire_at (index_at t j) = 0)" for j
  have "P (max_pages t)" by (simp add: P_def)
  then obtain m where m: "P m" "m \<le> max_pages t" using order_refl by blast
  have "expire_at (index_at t j) = 0" if j: "j < max_pages t" "m \<le> j" for j
  proof -
    have "expire_at (index_at t m) = 0" using m(1) j by (simp add: P_def)
    then show ?thesis using j by (rule_tac zero_after [OF inv])
  qed
  then show ?thesis using m(2) by (auto simp: keeps_prefix_def)
qed

lemma same_consts_refl [simp]: "same_consts t t"
  by (simp add: same_consts_def)

lemma same_consts_trans: "same_consts t t' \<Longrightarrow> same_consts t' t'' \<Longrightarrow> same_consts t t''"
  by (simp add: same_consts_def)

lemma drop_unlinked_synced: "wsynced m t \<Longrightarrow> synced (drop_unlinked_pages t)"
  by (auto simp: wsynced_def synced_def drop_unlinked_pages_def)

lemma drop_unlinked_rest [simp]:
  "index_at (drop_unlinked_pages t) = index_at t" "stored (drop_unlinked_pages t) = stored t"
  "max_pages (drop_unlinked_pages t) = max_pages t" "backed (drop_unlinked_pages t) = backed t"
  "index_inv (drop_unlinked_pages t) = index_inv t" "same_consts t (drop_unlinked_pages t)"
  "global_expire_at (drop_unlinked_pages t) = global_expire_at t"
  by (simp_all add: drop_unlinked_pages_def fun_eq_iff index_at_def stored_def used_def page_elems_def max_pages_def
      backed_def page_backed_def index_inv_def names_fit_def entry_ok_def own_name_def same_consts_def cong: option.case_cong)

lemma drop_unlinked_data_inv: "data_inv psz t \<Longrightarrow> data_inv psz (drop_unlinked_pages t)"
  by (auto simp: data_inv_def drop_unlinked_pages_def page_object_def)

definition set_check :: "'e Table \<Rightarrow> 'e Table" where
  "set_check t = t\<lparr>table_index := (table_index t)\<lparr>expiration_check := time_to_check_page_expire t\<rparr>\<rparr>"

lemma set_check_rest [simp]:
  "index_at (set_check t) = index_at t" "stored (set_check t) = stored t" "max_pages (set_check t) = max_pages t"
  "backed (set_check t) = backed t" "index_inv (set_check t) = index_inv t" "data_inv psz (set_check t) = data_inv psz t"
  "wsynced m (set_check t) = wsynced m t" "same_consts t (set_check t)" "global_expire_at (set_check t) = global_expire_at t"
  "table_entries (set_check t) = table_entries t"
  by (simp_all add: set_check_def fun_eq_iff index_at_def stored_def used_def page_elems_def max_pages_def
      backed_def page_backed_def index_inv_def names_fit_def entry_ok_def own_name_def same_consts_def data_inv_def
      wsynced_def page_object_def table_entries_def cong: option.case_cong)

lemma release_maintenance_spec:
  assumes inv: "index_inv t" and d: "data_inv (sc_page_size os) t" and sy: "synced t" and bk: "backed t"
    and run: "release_maintenance os now t = (r, t')"
  shows "index_inv t' \<and> data_inv (sc_page_size os) t' \<and> same_consts t t' \<and> global_expire_at t' = global_expire_at t
    \<and> r \<noteq> Inl segv
    \<and> (r = Inr () \<longrightarrow> backed t' \<and> (\<exists>w. wsynced w t') \<and> (\<exists>m n. m \<le> n \<and> n \<le> max_pages t \<and> n \<le> m + 5 \<and> (0 < n \<longrightarrow> 0 < m)
         \<and> keeps_prefix m t t' \<and> keeps_prefix n t t
         \<and> (\<forall>j < n. m \<le> j \<longrightarrow> \<not> maybe_in_use now (global_expire_at t) (index_at t j))))"
proof -
  obtain n k where f: "find_last_data now (global_expire_at t) (table_entries t) 0 0 = (n, k)" by fastforce
  note spec = find_last_data_spec [OF f]
  have len: "length (table_entries t) = max_pages t" by (rule length_table_entries [OF inv])
  have n: "n \<le> max_pages t" and u: "\<forall>j < n. 0 < expire_at (index_at t j)" using spec len by (auto simp: table_entries_nth)
  have z: "\<forall>j. n \<le> j \<longrightarrow> j < max_pages t \<longrightarrow> expire_at (index_at t j) = 0"
  proof (intro allI impI)
    fix j assume j: "n \<le> j" "j < max_pages t"
    then have "expire_at (index_at t n) = 0" using spec len by (auto simp: table_entries_nth)
    then show "expire_at (index_at t j) = 0" using zero_after [OF inv] j by blast
  qed
  have kp: "keeps_prefix n t t" using z by (auto simp: keeps_prefix_def)
  have dead: "\<forall>j < n. k < j \<longrightarrow> \<not> maybe_in_use now (global_expire_at t) (index_at t j)"
    using spec n by (auto simp: table_entries_nth)
  show ?thesis
  proof (cases "expiration_check (table_index t) \<le> now \<and> n > 0 \<and> k < n - 1")
    case False
    then have t': "r = Inr ()" "t' = t \<or> t' = set_check t"
      using run f by (auto simp: release_maintenance_def set_check_def Let_def split: if_splits)
    have "index_inv t'" "data_inv (sc_page_size os) t'" "same_consts t t'" "global_expire_at t' = global_expire_at t"
      "wsynced n t'" "backed t'" "keeps_prefix n t t'"
      using t'(2) inv d sy bk kp by (auto simp: synced_wsynced keeps_prefix_def)
    then show ?thesis using t'(1) n kp by (auto simp: segv_def intro!: exI [of _ n])
  next
    case True
    then have loop: "release_loop os k (n - 1) 0 (set_check t) = (r, t')"
      using run f by (simp add: release_maintenance_def set_check_def Let_def)
    have "index_inv t' \<and> data_inv (sc_page_size os) t' \<and> same_consts (set_check t) t'
      \<and> global_expire_at t' = global_expire_at (set_check t) \<and> r \<noteq> Inl segv
      \<and> (r = Inr () \<longrightarrow> (\<exists>m. min k (n - 1) \<le> m \<and> m \<le> n - 1 \<and> (0 < (5::nat) \<longrightarrow> n - 1 \<le> m + (5 - 0)) \<and> wsynced m t' \<and> backed t'
         \<and> (\<forall>j \<le> m. index_at t' j = index_at (set_check t) j \<and> stored t' j = stored (set_check t) j)
         \<and> (\<forall>j. m < j \<longrightarrow> j < max_pages (set_check t) \<longrightarrow> expire_at (index_at t' j) = 0)))"
      by (rule release_loop_spec [OF _ _ _ _ _ _ _ loop])
         (use inv d sy bk True n u z in \<open>auto simp: synced_wsynced Suc_le_eq\<close>)
    then have res: "index_inv t'" "data_inv (sc_page_size os) t'" "same_consts t t'" "global_expire_at t' = global_expire_at t"
        "r \<noteq> Inl segv" and
      m: "r = Inr () \<Longrightarrow> (\<exists>m. k \<le> m \<and> m \<le> n - 1 \<and> n - 1 \<le> m + 5 \<and> wsynced m t' \<and> backed t'
         \<and> (\<forall>j \<le> m. index_at t' j = index_at t j \<and> stored t' j = stored t j)
         \<and> (\<forall>j. m < j \<longrightarrow> j < max_pages t \<longrightarrow> expire_at (index_at t' j) = 0))"
      using True same_consts_trans [OF set_check_rest(8)] by (auto simp: min_def)
    have "backed t' \<and> (\<exists>w. wsynced w t') \<and> (\<exists>m n. m \<le> n \<and> n \<le> max_pages t \<and> n \<le> m + 5 \<and> (0 < n \<longrightarrow> 0 < m)
         \<and> keeps_prefix m t t' \<and> keeps_prefix n t t
         \<and> (\<forall>j < n. m \<le> j \<longrightarrow> \<not> maybe_in_use now (global_expire_at t) (index_at t j)))" if "r = Inr ()"
    proof -
      note rr = that
      obtain m where m: "k \<le> m" "m \<le> n - 1" "n - 1 \<le> m + 5" "wsynced m t'" "backed t'"
        "\<forall>j \<le> m. index_at t' j = index_at t j \<and> stored t' j = stored t j"
        "\<forall>j. m < j \<longrightarrow> j < max_pages t \<longrightarrow> expire_at (index_at t' j) = 0"
        using m [OF rr] by blast
      have "keeps_prefix (m + 1) t t'" using m by (auto simp: keeps_prefix_def)
      moreover have "m + 1 \<le> n" "n \<le> m + 1 + 5" using m True by auto
      moreover have "\<forall>j < n. m + 1 \<le> j \<longrightarrow> \<not> maybe_in_use now (global_expire_at t) (index_at t j)"
        using dead m(1) by auto
      ultimately show ?thesis using m n kp by (metis add_gr_0 zero_less_one)
    qed
    then show ?thesis using res by blast
  qed
qed

lemma release_expired_spec:
  assumes ok: "table_ok (sc_page_size os) t" and run: "release_expired_memory_pages os now t = (r, t')"
  shows "index_inv t' \<and> data_inv (sc_page_size os) t' \<and> lock_idle t' \<and> same_consts t t' \<and> global_expire_at t' = global_expire_at t
    \<and> r \<noteq> Inl segv
    \<and> (r = Inr () \<longrightarrow> table_ok (sc_page_size os) t' \<and> (\<exists>m n. m \<le> n \<and> n \<le> max_pages t \<and> n \<le> m + 5 \<and> (0 < n \<longrightarrow> 0 < m)
         \<and> keeps_prefix m t t' \<and> keeps_prefix n t t
         \<and> (\<forall>j < n. m \<le> j \<longrightarrow> \<not> maybe_in_use now (global_expire_at t) (index_at t j))))"
proof (cases "time_to_check_page_expire t > now")
  case True
  then have e: "r = Inr ()" "t' = t" using run by (simp_all add: release_expired_memory_pages_def)
  obtain m where "m \<le> max_pages t" "keeps_prefix m t t" using keeps_prefix_refl [OF table_ok_parts(1) [OF ok]] by blast
  then show ?thesis using ok unfolding e
    by (auto simp: segv_def table_ok_parts intro!: exI [of _ m])
next
  case False
  note inv = table_ok_parts(1) [OF ok] and d = table_ok_parts(2) [OF ok] and sy = table_ok_parts(3) [OF ok]
    and bk = table_ok_parts(4) [OF ok] and idle = table_ok_parts(5) [OF ok]
  define u where "u = t\<lparr>time_to_check_page_expire := now + MEMPAGE_CHECK_EXPIRED_PAGES_INTERVAL_SEC\<rparr>"
  have u: "index_inv u" "data_inv (sc_page_size os) u" "synced u" "backed u" "lock_idle u" "same_consts t u"
      "global_expire_at u = global_expire_at t" "max_pages u = max_pages t" "index_at u = index_at t" "stored u = stored t"
      "lock u = lock t"
    using inv d sy bk idle
    by (simp_all add: u_def index_inv_def data_inv_def synced_def backed_def page_backed_def page_elems_def lock_idle_def
      same_consts_def max_pages_def index_at_def fun_eq_iff stored_def used_def names_fit_def entry_ok_def own_name_def
      page_object_def cong: option.case_cong)
  have dn: "lock_neutral (modify drop_unlinked_pages)" by (rule lock_neutral_pure) (simp add: drop_unlinked_pages_def)
  have cr: "critical (release_maintenance os now) (\<lambda>_. modify drop_unlinked_pages) u = (r, t')"
    using run False by (simp add: release_expired_memory_pages_def critical_def u_def)
  obtain s0 l0 s1 where eq: "critical (release_maintenance os now) (\<lambda>_. modify drop_unlinked_pages) u =
    (case release_maintenance os now (relock s0 l0 u) of
       (Inl e, t1) \<Rightarrow> (Inl e, relock s1 (lock u) t1)
     | (Inr x, t1) \<Rightarrow> modify drop_unlinked_pages (relock s1 (lock u) t1))"
    using critical_eq [of "release_maintenance os now" "\<lambda>_. modify drop_unlinked_pages" u, OF release_maintenance_neutral dn u(5)]
    by blast
  obtain r1 t1 where rm: "release_maintenance os now (relock s0 l0 u) = (r1, t1)" by fastforce
  have spec: "index_inv t1 \<and> data_inv (sc_page_size os) t1 \<and> same_consts (relock s0 l0 u) t1
    \<and> global_expire_at t1 = global_expire_at (relock s0 l0 u) \<and> r1 \<noteq> Inl segv
    \<and> (r1 = Inr () \<longrightarrow> backed t1 \<and> (\<exists>w. wsynced w t1) \<and> (\<exists>m n. m \<le> n \<and> n \<le> max_pages (relock s0 l0 u) \<and> n \<le> m + 5 \<and> (0 < n \<longrightarrow> 0 < m)
         \<and> keeps_prefix m (relock s0 l0 u) t1 \<and> keeps_prefix n (relock s0 l0 u) (relock s0 l0 u)
         \<and> (\<forall>j < n. m \<le> j \<longrightarrow> \<not> maybe_in_use now (global_expire_at (relock s0 l0 u)) (index_at (relock s0 l0 u) j))))"
    by (rule release_maintenance_spec [OF _ _ _ _ rm]) (simp_all add: u)
  have idle': "lock_idle t'" using lock_balanced_idle [OF release_expired_balanced idle] run by (metis snd_conv)
  have cs: "same_consts t t1" using spec u(6) by (simp add: same_consts_def)
  show ?thesis
  proof (cases r1)
    case (Inl e)
    then have e: "r = Inl e" "t' = relock s1 (lock u) t1" using cr rm unfolding eq by simp_all
    have "same_consts t t'" using cs by (simp add: e same_consts_def)
    then show ?thesis using spec idle' u Inl unfolding e by auto
  next
    case (Inr x)
    then have e: "r = Inr ()" "t' = drop_unlinked_pages (relock s1 (lock u) t1)" using cr rm unfolding eq by simp_all
    have ws: "\<exists>w. wsynced w (relock s1 (lock u) t1)" using spec Inr by (simp add: wsynced_def)
    have c': "same_consts t t'" using cs by (simp add: e same_consts_def drop_unlinked_pages_def)
    have "table_ok (sc_page_size os) t'" unfolding table_ok_def
      using idle' spec Inr ws by (auto simp: e drop_unlinked_data_inv drop_unlinked_synced)
    moreover have "keeps_prefix m t t'" if "keeps_prefix m (relock s0 l0 u) t1" for m
      using that by (simp add: keeps_prefix_def e u)
    ultimately show ?thesis using spec Inr u c' e(1) by (auto simp: segv_def table_ok_parts e(2) keeps_prefix_def)
  qed
qed

section \<open>Scanning\<close>

text \<open>Stopping at the first unused entry loses nothing: the scan visits every live page.\<close>

definition live :: "u32 \<Rightarrow> 'e Table \<Rightarrow> nat \<Rightarrow> bool" where
  "live now t i \<longleftrightarrow> now < expire_at (index_at t i) \<and> global_expire_at t < expire_at (index_at t i)"

lemma records_to_scan_filter:
  "(\<forall>i j. i < j \<longrightarrow> j < length rs \<longrightarrow> expire_at (rs ! i) = 0 \<longrightarrow> expire_at (rs ! j) = 0) \<Longrightarrow>
   records_to_scan now g rs idx
     = map ((+) idx) (filter (\<lambda>j. now < expire_at (rs ! j) \<and> g < expire_at (rs ! j)) [0..<length rs])"
proof (induction rs arbitrary: idx)
  case Nil
  then show ?case by simp
next
  case (Cons r rs)
  let ?P = "\<lambda>rs j. now < expire_at (rs ! j) \<and> g < expire_at (rs ! j)"
  have up: "[0..<length (r # rs)] = 0 # map Suc [0..<length rs]"
    by (simp add: map_Suc_upt upt_conv_Cons del: upt_Suc)
  have f: "filter (?P (r # rs)) (map Suc [0..<length rs]) = map Suc (filter (?P rs) [0..<length rs])"
    by (simp add: filter_map o_def)
  show ?case
  proof (cases "expire_at r = 0")
    case True
    have "expire_at (rs ! j) = 0" if "j < length rs" for j
      using Cons.prems [rule_format, of 0 "Suc j"] True that by simp
    then have "filter (?P rs) [0..<length rs] = []" by (auto simp: filter_empty_conv)
    then show ?thesis unfolding up using True f by simp
  next
    case False
    have "records_to_scan now g rs (Suc idx) = map ((+) (Suc idx)) (filter (?P rs) [0..<length rs])"
    proof (rule Cons.IH, intro allI impI)
      fix i j assume "i < j" "j < length rs" "expire_at (rs ! i) = 0"
      then show "expire_at (rs ! j) = 0" using Cons.prems [rule_format, of "Suc i" "Suc j"] by simp
    qed
    then show ?thesis unfolding up using False f by (simp add: o_def)
  qed
qed

lemma records_to_scan_live:
  assumes inv: "index_inv t"
  shows "records_to_scan now (global_expire_at t) (table_entries t) 0 = filter (live now t) [0..<max_pages t]"
proof -
  have len: "length (table_entries t) = max_pages t" by (rule length_table_entries [OF inv])
  have "\<forall>i j. i < j \<longrightarrow> j < length (table_entries t) \<longrightarrow> expire_at (table_entries t ! i) = 0 \<longrightarrow> expire_at (table_entries t ! j) = 0"
    using inv len by (auto simp: table_entries_nth index_inv_def)
  from records_to_scan_filter [OF this, of now "global_expire_at t" 0]
  have "records_to_scan now (global_expire_at t) (table_entries t) 0
      = filter (\<lambda>j. now < expire_at (table_entries t ! j) \<and> global_expire_at t < expire_at (table_entries t ! j)) [0..<max_pages t]"
    by (simp add: len map_idI)
  also have "\<dots> = filter (live now t) [0..<max_pages t]"
    by (rule filter_cong) (auto simp: live_def table_entries_nth)
  finally show ?thesis .
qed

definition contents :: "u32 \<Rightarrow> 'e Table \<Rightarrow> 'e list" where
  "contents now t = concat (map (stored t) (filter (live now t) [0..<max_pages t]))"

text \<open>A state that agrees with \<open>t\<close> on everything but mappings and semaphores.\<close>

definition view_inv :: "nat \<Rightarrow> 'e Table \<Rightarrow> 'e Table \<Rightarrow> bool" where
  "view_inv psz t t' \<longleftrightarrow> same_rest t t' \<and> index_inv t' \<and> data_inv psz t' \<and> synced t' \<and> backed t'
     \<and> (\<forall>j < max_pages t. 0 < expire_at (index_at t j) \<longrightarrow> stored t' j = stored t j)"

lemma view_inv_refl: "index_inv t \<Longrightarrow> data_inv psz t \<Longrightarrow> synced t \<Longrightarrow> backed t \<Longrightarrow> view_inv psz t t"
  by (simp add: view_inv_def)

lemma view_inv_trans: "view_inv psz t t' \<Longrightarrow> view_inv psz t' t'' \<Longrightarrow> view_inv psz t t''"
  using same_rest_index [of t t'] by (auto simp: view_inv_def intro: same_rest_trans)

lemma view_inv_relock: "view_inv psz t t' \<Longrightarrow> view_inv psz t (relock s l t')"
  by (simp add: view_inv_def same_rest_def same_consts_def)

lemma used_le: "index_inv t \<Longrightarrow> i < max_pages t \<Longrightarrow> 0 < expire_at (index_at t i) \<Longrightarrow> used t i \<le> unat (max_elements_in_page t)"
  by (auto simp: index_inv_def entry_ok_def used_def unat_diff_le)

lemma getPage_view:
  assumes v: "view_inv (sc_page_size os) t t" and i: "i < max_pages t" "0 < expire_at (index_at t i)"
    and run: "getPageByName os (data_page_name (table_name t) i) t = (Inr page, t')"
  shows "view_inv (sc_page_size os) t t' \<and> elements (page_object t' page) = page_elems t i
    \<and> unat (max_elements_in_page t) \<le> length (page_elems t i)"
proof -
  have d: "data_inv (sc_page_size os) t" and sy: "synced t" and bk: "backed t" and inv: "index_inv t"
    using v by (auto simp: view_inv_def)
  note spec = getPageByName_spec [OF d run]
  let ?n = "data_page_name (table_name t) i"
  have rest: "same_rest t t'" and ext: "shm_ext ?n (data_shm t) (data_shm t')" using spec by auto
  note ix = same_rest_index [OF rest]
  have c: "table_name t' = table_name t" "max_elements_in_page t' = max_elements_in_page t"
    using rest by (auto simp: same_rest_def same_consts_def)
  have b: "page_backed t i" using bk i by (simp add: backed_def)
  then obtain k where k: "names (data_shm t) ?n = Some k" by (auto simp: page_backed_def)
  have nm: "names (data_shm t') ?n = Some (mapping page)" using spec sy by simp
  then have kp: "k = mapping page" using ext k by (auto simp: shm_ext_def)
  have lt: "k < length (objects (data_shm t))" using k d by (auto simp: data_inv_def shm_inv_def)
  have el: "elements (page_object t' page) = page_elems t i"
    using shm_ext_nth [OF ext lt] k kp by (simp add: page_object_def page_elems_def)
  have pei: "page_elems t' i = page_elems t i" "page_backed t' i = page_backed t i"
    using el nm k c by (auto simp: page_elems_def page_object_def page_backed_def)
  have pe: "page_elems t' j = page_elems t j \<and> page_backed t' j = page_backed t j" for j
    using page_elems_ext [OF ext rest d, of j] pei by (cases "j = i") auto
  have "backed t'" using bk pe ix by (simp add: backed_def)
  moreover have "stored t' j = stored t j" for j using pe ix c by (simp add: stored_def used_def)
  ultimately show ?thesis using spec rest sy el b same_rest_inv [OF rest inv]
    by (auto simp: view_inv_def page_backed_def)
qed

lemma scan_page_spec:
  assumes v: "view_inv (sc_page_size os) t t" and i: "i < max_pages t" "0 < expire_at (index_at t i)"
    and run: "scan_page os f i p t = (r, t')"
  shows "r \<noteq> Inl segv \<and> (\<forall>p'. r = Inr p' \<longrightarrow> p' = foldl f p (stored t i) \<and> view_inv (sc_page_size os) t t')"
proof -
  have inv: "index_inv t" and d: "data_inv (sc_page_size os) t" using v by (auto simp: view_inv_def)
  have cs: "cstr (ix_page_name (index_at t i)) = data_page_name (table_name t) i"
    using inv i by (auto simp: index_inv_def entry_ok_def cstr_own_name)
  obtain r1 t1 where g: "getPageByName os (data_page_name (table_name t) i) t = (r1, t1)" by fastforce
  note spec = getPageByName_spec [OF d g]
  show ?thesis
  proof (cases r1)
    case (Inl e)
    then show ?thesis using run g cs spec by (auto simp: scan_page_def sbind_def)
  next
    case (Inr page)
    note gv = getPage_view [OF v i g [unfolded Inr]]
    have "same_rest t t1" using spec by simp
    then have c: "max_elements_in_page t1 = max_elements_in_page t" "index_at t1 i = index_at t i"
      using same_rest_index by (auto simp: same_rest_def same_consts_def)
    have "used t i \<le> length (elements (page_object t1 page))"
      using gv used_le [OF inv i] by simp
    then have "r = Inr (foldl f p (take (used t i) (elements (page_object t1 page))))" "t' = t1"
      using run g cs Inr c by (auto simp: scan_page_def sbind_def Let_def used_def)
    then show ?thesis using gv by (simp add: stored_def segv_def)
  qed
qed

lemma scan_pages_spec:
  assumes "view_inv (sc_page_size os) t t" and "\<forall>i \<in> set is. i < max_pages t \<and> 0 < expire_at (index_at t i)"
    and "scan_pages os f is p t = (r, t')"
  shows "r \<noteq> Inl segv \<and> (\<forall>p'. r = Inr p' \<longrightarrow> p' = foldl f p (concat (map (stored t) is)) \<and> view_inv (sc_page_size os) t t')"
  using assms
proof (induction "is" arbitrary: p t)
  case Nil
  then show ?case by (auto simp: segv_def)
next
  case (Cons i "is")
  obtain r1 t1 where g: "scan_page os f i p t = (r1, t1)" by fastforce
  have i: "i < max_pages t" "0 < expire_at (index_at t i)" using Cons.prems(2) by auto
  note spec = scan_page_spec [OF Cons.prems(1) i g]
  show ?case
  proof (cases r1)
    case (Inl e)
    then show ?thesis using Cons.prems(3) g spec by (auto simp: sbind_def)
  next
    case (Inr p1)
    have v1: "view_inv (sc_page_size os) t t1" and p1: "p1 = foldl f p (stored t i)" using spec Inr by auto
    have run: "scan_pages os f is p1 t1 = (r, t')" using Cons.prems(3) g Inr by (simp add: sbind_def)
    have rest: "same_rest t t1" using v1 by (simp add: view_inv_def)
    have v11: "view_inv (sc_page_size os) t1 t1" using v1 by (auto simp: view_inv_def)
    have st: "map (stored t1) is = map (stored t) is"
      using v1 Cons.prems(2) by (auto simp: view_inv_def)
    have "r \<noteq> Inl segv \<and> (\<forall>p'. r = Inr p' \<longrightarrow> p' = foldl f p1 (concat (map (stored t1) is)) \<and> view_inv (sc_page_size os) t1 t')"
      using Cons.prems(2) same_rest_index [OF rest] by (intro Cons.IH [OF v11 _ run]) auto
    then show ?thesis using p1 st view_inv_trans [OF v1] by simp
  qed
qed

text \<open>Expiry times from which the 60 seconds of grace can be counted without wrap-around.\<close>

definition no_wrap :: "'e Table \<Rightarrow> bool" where
  "no_wrap t \<longleftrightarrow> (\<forall>j < max_pages t. unat (expire_at (index_at t j)) + 60 < 2 ^ 32)"

lemma not_in_use_not_live:
  assumes "no_wrap t" "j < max_pages t" "\<not> maybe_in_use time0 (global_expire_at t) (index_at t j)" "time0 \<le> now"
  shows "\<not> live now t j"
proof (cases "expire_at (index_at t j) = 0")
  case True
  then show ?thesis by (simp add: live_def)
next
  case False
  let ?e = "expire_at (index_at t j)"
  have "unat (?e + 60) = unat ?e + 60"
    using assms(1,2) by (simp add: no_wrap_def unat_word_ariths)
  then have "?e \<le> ?e + 60" by (simp add: word_le_nat_alt)
  moreover have "?e + 60 \<le> time0 \<or> ?e + 60 \<le> global_expire_at t"
    using assms(3) False by (auto simp: maybe_in_use_def MEMPAGE_REMOVE_EXPIRED_PAGES_DELAY_SEC_def not_less word_neq_0_conv)
  ultimately show ?thesis using assms(4) by (auto simp: live_def)
qed

lemma release_contents:
  assumes ok: "table_ok (sc_page_size os) t" and nw: "no_wrap t" and le: "time0 \<le> now"
    and run: "release_expired_memory_pages os time0 t = (Inr (), t')"
  shows "contents now t' = contents now t"
proof -
  note spec = release_expired_spec [OF ok run]
  obtain m n where m: "m \<le> n" "n \<le> max_pages t" "keeps_prefix m t t'" "keeps_prefix n t t"
      "\<forall>j < n. m \<le> j \<longrightarrow> \<not> maybe_in_use time0 (global_expire_at t) (index_at t j)" using spec by blast
  have c: "max_pages t' = max_pages t" "global_expire_at t' = global_expire_at t"
    using spec by (auto simp: same_consts_def max_pages_def)
  have dead: "\<not> live now t j \<and> \<not> live now t' j" if j: "j < max_pages t" "m \<le> j" for j
  proof -
    have "\<not> live now t' j" using m(3) j by (auto simp: keeps_prefix_def live_def)
    moreover have "\<not> live now t j"
    proof (cases "j < n")
      case True
      then show ?thesis using not_in_use_not_live [OF nw j(1) _ le] m(5) j by blast
    next
      case False
      then show ?thesis using m(4) j by (auto simp: keeps_prefix_def live_def)
    qed
    ultimately show ?thesis by simp
  qed
  have keep: "live now t' j = live now t j \<and> stored t' j = stored t j" if "j < m" for j
    using m(3) c that by (simp add: keeps_prefix_def live_def)
  have "filter (live now t') [0..<max_pages t] = filter (live now t) [0..<max_pages t]"
    using keep dead by (intro filter_cong) (auto, (metis not_le)+)
  moreover have "map (stored t') (filter (live now t) [0..<max_pages t]) = map (stored t) (filter (live now t) [0..<max_pages t])"
    using keep dead by (auto, metis not_le)
  ultimately show ?thesis by (simp only: contents_def c)
qed

lemma processRecords_parts:
  assumes ok: "table_ok (sc_page_size os) t" and run: "processRecords os time0 now f p t = (r, t')"
  shows "r \<noteq> Inl segv \<and> (\<forall>p'. r = Inr p' \<longrightarrow> (\<exists>t1 s. release_expired_memory_pages os time0 t = (Inr (), t1) \<and> table_ok (sc_page_size os) t1 \<and>
    p' = foldl f p (contents now t1) \<and> table_ok (sc_page_size os) t' \<and> view_inv (sc_page_size os) (relock s (lock t1) t1) t'))"
proof -
  obtain r1 t1 where rel: "release_expired_memory_pages os time0 t = (r1, t1)" by fastforce
  note spec = release_expired_spec [OF ok rel]
  show ?thesis
  proof (cases r1)
    case (Inl e)
    then show ?thesis using run rel spec by (auto simp: processRecords_critical sbind_def)
  next
    case (Inr x)
    have ok1: "table_ok (sc_page_size os) t1" using spec Inr by simp
    let ?in = "\<lambda>t. (Inr (records_to_scan now (global_expire_at t) (table_entries t) 0), t)"
    let ?todo = "filter (live now t1) [0..<max_pages t1]"
    have cr: "critical ?in (\<lambda>todo. scan_pages os f todo p) t1 = (r, t')"
      using run rel Inr by (simp add: processRecords_critical sbind_def)
    have nt: "lock_neutral ?in" by (simp add: lock_neutral_def)
    obtain s0 l0 s1 where "critical ?in (\<lambda>todo. scan_pages os f todo p) t1 =
      (case ?in (relock s0 l0 t1) of
         (Inl e, t2) \<Rightarrow> (Inl e, relock s1 (lock t1) t2)
       | (Inr todo, t2) \<Rightarrow> scan_pages os f todo p (relock s1 (lock t1) t2))"
      using critical_eq [of ?in "\<lambda>todo. scan_pages os f todo p" t1, OF nt scan_pages_neutral table_ok_parts(5) [OF ok1]] by blast
    then have sp: "scan_pages os f ?todo p (relock s1 (lock t1) t1) = (r, t')"
      using cr records_to_scan_live [OF table_ok_parts(1) [OF ok1], of now] by simp
    let ?u = "relock s1 (lock t1) t1"
    have vu: "view_inv (sc_page_size os) ?u ?u" using ok1 by (intro view_inv_refl) (simp_all add: table_ok_def)
    have "\<forall>i \<in> set ?todo. i < max_pages ?u \<and> 0 < expire_at (index_at ?u i)"
      by (auto simp: live_def intro: le_less_trans [OF word_zero_le])
    note sps = scan_pages_spec [OF vu this sp]
    have "lock_idle t'"
      using lock_balanced_idle [OF processRecords_balanced table_ok_parts(5) [OF ok], of os time0 now f p] run by simp
    then have "table_ok (sc_page_size os) t'" if "view_inv (sc_page_size os) ?u t'"
      using that by (simp add: table_ok_def view_inv_def)
    then show ?thesis using sps Inr rel ok1 by (auto simp: contents_def)
  qed
qed

lemma processRecords_spec:
  assumes ok: "table_ok (sc_page_size os) t" and nw: "no_wrap t" and le: "time0 \<le> now"
    and run: "processRecords os time0 now f p t = (r, t')"
  shows "r \<noteq> Inl segv \<and> (\<forall>p'. r = Inr p' \<longrightarrow> p' = foldl f p (contents now t) \<and> table_ok (sc_page_size os) t'
    \<and> contents now t' = contents now t)"
proof -
  have "p' = foldl f p (contents now t) \<and> table_ok (sc_page_size os) t' \<and> contents now t' = contents now t" if r: "r = Inr p'" for p'
  proof -
    obtain t1 s where rel: "release_expired_memory_pages os time0 t = (Inr (), t1)" and p': "p' = foldl f p (contents now t1)"
      and ok': "table_ok (sc_page_size os) t'" and v: "view_inv (sc_page_size os) (relock s (lock t1) t1) t'"
      using processRecords_parts [OF ok run] r by blast
    have rest: "same_rest (relock s (lock t1) t1) t'" using v by (simp add: view_inv_def)
    note ix = same_rest_index [OF rest]
    have lv: "live now t' = live now t1" using ix rest by (simp add: live_def fun_eq_iff same_rest_def)
    have "map (stored t') (filter (live now t1) [0..<max_pages t1]) = map (stored t1) (filter (live now t1) [0..<max_pages t1])"
      using v by (auto simp: view_inv_def live_def intro: le_less_trans [OF word_zero_le])
    moreover have "max_pages t' = max_pages t1" using ix by simp
    ultimately have "contents now t' = contents now t1" by (simp only: contents_def lv)
    then show ?thesis using release_contents [OF ok nw le rel] p' ok' by simp
  qed
  then show ?thesis using processRecords_parts [OF ok run] by blast
qed

section \<open>Adding records\<close>

lemma store_records_local:
  assumes "data_inv (sc_page_size os) t" and "store_records os recs c ip t = (Inr ee, t')"
  shows "\<exists>page. localGetPageByName (opened_pages_list t') (ip_page_name ip) = Some page"
proof -
  obtain r1 t1 where g: "getPageByName os (ip_page_name ip) t = (r1, t1)" by fastforce
  note spec = getPageByName_spec [OF assms(1) g]
  show ?thesis using assms(2) g spec
    by (cases r1) (auto simp: store_records_def sbind_def Let_def set_page_object_rest split: if_splits)
qed

lemma insert_records_local:
  assumes ok: "table_ok (sc_page_size os) t" and rc: "recyclable os t"
    and run: "insert_records os now recs c life t = (Inr ee, t')" and ch: "choose_page os now c t = ((ty, i), t1)"
  shows "\<exists>page. localGetPageByName (opened_pages_list t') (data_page_name (table_name t) i) = Some page"
proof -
  have ty: "ty \<noteq> UNKNOWN"
    using insert_records_run [OF table_ok_parts(5) [OF ok] table_ok_parts(1) [OF ok] rc run ch] by auto
  obtain s where st: "store_records os recs c
      \<lparr>ip_type = ty, ip_page = i, ip_page_name = data_page_name (table_name t) i, ip_index = first_free t ty i\<rparr>
      (relock s (lock t) (set_index i (reserved_entry t now c life ty i) t1)) = (Inr ee, t')"
    using insert_records_run [OF table_ok_parts(5) [OF ok] table_ok_parts(1) [OF ok] rc run ch] ty by auto
  have "t1 = t \<or> t1 = update_global_expire (expire_at (index_at t i)) t"
    using choose_page_spec [OF table_ok_parts(1) [OF ok] rc ch ty] ty by (cases ty) auto
  then have "data_inv (sc_page_size os) (relock s (lock t) (set_index i (reserved_entry t now c life ty i) t1))"
    using table_ok_parts(2) [OF ok] by auto
  from store_records_local [OF this st] show ?thesis by simp
qed

text \<open>What a successful \<^verbatim>\<open>addRecord\<close> did: release, choice of a page, insertion.\<close>

definition add_effect :: "os \<Rightarrow> u32 \<Rightarrow> u32 \<Rightarrow> 'e list \<Rightarrow> u32 \<Rightarrow> u32 \<Rightarrow> PageType \<Rightarrow> nat \<Rightarrow> 'e Table \<Rightarrow> 'e Table \<Rightarrow> 'e Table \<Rightarrow> 'e Table \<Rightarrow> bool" where
  "add_effect os time0 now recs c life ty i t t1 t2 t' \<longleftrightarrow>
     release_expired_memory_pages os time0 t = (Inr (), t1) \<and> table_ok (sc_page_size os) t1 \<and> recyclable os t1
     \<and> choose_page os now c t1 = ((ty, i), t2) \<and> ty \<noteq> UNKNOWN \<and> i < max_pages t \<and> inserted now recs c life ty i t1 t'
     \<and> global_expire_at t' = global_expire_at t2"

lemma release_recyclable:
  assumes ok: "table_ok (sc_page_size os') t" and rc: "recyclable os t"
    and run: "release_expired_memory_pages os' time0 t = (Inr (), t1)"
  shows "recyclable os t1"
proof -
  note spec = release_expired_spec [OF ok run]
  obtain m n where m: "m \<le> n" "n \<le> max_pages t" "keeps_prefix m t t1" "keeps_prefix n t t" "0 < n \<longrightarrow> 0 < m"
    using spec by blast
  have mp: "max_pages t1 = max_pages t" using spec by (auto simp: same_consts_def max_pages_def)
  show ?thesis
  proof (cases "n = 0")
    case True
    then have "expire_at (index_at t 0) = 0" using m(4) rc by (simp add: keeps_prefix_def recyclable_def)
    then show ?thesis using rc mp by (simp add: recyclable_def)
  next
    case False
    then have "index_at t1 0 = index_at t 0" using m(3,5) by (simp add: keeps_prefix_def)
    then show ?thesis using rc mp by (simp add: recyclable_def)
  qed
qed

lemma addRecord_spec:
  assumes ok: "table_ok (sc_page_size os) t" and rc: "recyclable os t" and ex: "0 < expiry t now life"
    and len: "unat c \<le> length recs" and run: "addRecord os time0 now recs c life t = (r, t')"
  shows "r \<noteq> Inl segv \<and> index_inv t' \<and> data_inv (sc_page_size os) t' \<and> lock_idle t' \<and> same_consts t t' \<and>
    (\<forall>ee. r = Inr ee \<longrightarrow> c \<le> max_elements_in_page t \<and> table_ok (sc_page_size os) t' \<and>
      (\<exists>ty i t1 t2. add_effect os time0 now recs c life ty i t t1 t2 t' \<and>
         ee = \<lparr>ee_page_name = data_page_name (table_name t) i, ee_index = first_free t1 ty i, ee_size = c\<rparr> \<and>
         (\<exists>page. localGetPageByName (opened_pages_list t') (data_page_name (table_name t) i) = Some page)))"
proof -
  obtain r1 t1 where rel: "release_expired_memory_pages os time0 t = (r1, t1)" by fastforce
  note spec = release_expired_spec [OF ok rel]
  have cs: "same_consts t t1" using spec by simp
  show ?thesis
  proof (cases r1)
    case (Inl e)
    then show ?thesis using run rel spec by (auto simp: addRecord_critical sbind_def)
  next
    case (Inr x)
    have ok1: "table_ok (sc_page_size os) t1" using spec Inr by simp
    have c1: "max_elements_in_page t1 = max_elements_in_page t" "table_name t1 = table_name t"
        "record_expire_seconds t1 = record_expire_seconds t" "max_pages t1 = max_pages t"
      using cs by (auto simp: same_consts_def max_pages_def)
    have rc1: "recyclable os t1" using release_recyclable [OF ok rc] rel Inr by simp
    show ?thesis
    proof (cases "c > max_elements_in_page t")
      case True
      then have e: "\<exists>m k. r = Inl (Error m k)" "t' = t1" using run rel Inr c1
        by (auto simp: addRecord_critical sbind_def checkRecord_def)
      show ?thesis using e cs table_ok_parts [OF ok1] by (auto simp: segv_def)
    next
      case False
      then have c: "c \<le> max_elements_in_page t1" using c1 by simp
      have ins: "insert_records os now recs c life t1 = (r, t')"
        using run rel Inr False c1 by (simp add: addRecord_critical sbind_def checkRecord_def insert_records_def)
      have ex1: "0 < expiry t1 now life" using ex c1 by (simp add: expiry_def split: if_splits)
      obtain ty i t2 where ch: "choose_page os now c t1 = ((ty, i), t2)" by (metis prod.exhaust)
      note isp = insert_records_spec [OF ok1 rc1 ex1 c len ins ch]
      have "same_consts t t'" using cs isp same_consts_trans by blast
      moreover have "c \<le> max_elements_in_page t \<and> table_ok (sc_page_size os) t' \<and>
         add_effect os time0 now recs c life ty i t t1 t2 t' \<and>
         ee = \<lparr>ee_page_name = data_page_name (table_name t) i, ee_index = first_free t1 ty i, ee_size = c\<rparr> \<and>
         (\<exists>page. localGetPageByName (opened_pages_list t') (data_page_name (table_name t) i) = Some page)" if ee: "r = Inr ee" for ee
        using isp ee c c1 rel Inr ok1 rc1 ch insert_records_local [OF ok1 rc1 ins [unfolded ee] ch]
        by (auto simp: add_effect_def table_ok_def)
      ultimately show ?thesis using isp by blast
    qed
  qed
qed

lemma get_element_data_local:
  assumes ok: "table_ok psz t" and i: "i < max_pages t" and "ee_page_name ee = data_page_name (table_name t) i"
    and "localGetPageByName (opened_pages_list t) (data_page_name (table_name t) i) = Some page"
  shows "get_element_data os ee t = (Inr (drop (unat (ee_index ee)) (page_elems t i)), t)"
proof -
  have "page \<in> set (opened_pages_list t)" "page_name page = data_page_name (table_name t) i"
    using localGetPageByName_Some [OF assms(4)] by auto
  then have "names (data_shm t) (data_page_name (table_name t) i) = Some (mapping page)"
    using table_ok_parts(3) [OF ok] by (auto simp: synced_def)
  then show ?thesis using assms(3,4)
    by (simp add: get_element_data_def getPageByName_def sbind_def page_elems_def page_object_def)
qed

text \<open>The multiset of visible records, page by page.\<close>

lemma mset_contents: "mset (contents now t) = (\<Sum>j \<in> {j. j < max_pages t \<and> live now t j}. mset (stored t j))"
proof -
  have "mset (contents now t) = sum_list (map (\<lambda>j. mset (stored t j)) (filter (live now t) [0..<max_pages t]))"
    by (simp add: contents_def mset_concat o_def)
  also have "\<dots> = (\<Sum>j \<in> set (filter (live now t) [0..<max_pages t]). mset (stored t j))"
    by (rule sum_list_distinct_conv_sum_set) simp
  also have "set (filter (live now t) [0..<max_pages t]) = {j. j < max_pages t \<and> live now t j}" by auto
  finally show ?thesis .
qed

lemma inserted_contents:
  assumes ins: "inserted now recs c life ty i t t'" and i: "i < max_pages t" and mp: "max_pages t' = max_pages t"
    and g: "global_expire_at t' = global_expire_at t" and ty: "ty \<in> {NEW, EXPIRED, CURRENT}"
    and dead: "ty \<noteq> CURRENT \<longrightarrow> \<not> live now t i"
    and new: "now < expiry t now life" "global_expire_at t < expiry t now life"
  shows "mset (contents now t) + mset (take (unat c) recs) \<subseteq># mset (contents now t')"
proof -
  let ?L = "{j. j < max_pages t \<and> live now t j}" and ?L' = "{j. j < max_pages t' \<and> live now t' j}"
  let ?f = "\<lambda>j. mset (stored t j)" and ?f' = "\<lambda>j. mset (stored t' j)"
  have e: "expire_at (index_at t' i) \<ge> expiry t now life"
    using ins ty by (auto simp: inserted_def reserved_entry_def Let_def)
  have li: "live now t' i" using e new g by (auto simp: live_def)
  have lo: "live now t' j = live now t j" "stored t' j = stored t j" if "j \<noteq> i" "j < max_pages t" for j
    using ins that g by (auto simp: inserted_def live_def)
  have L': "?L' = insert i (?L - {i})"
  proof (rule set_eqI)
    show "j \<in> ?L' \<longleftrightarrow> j \<in> insert i (?L - {i})" for j using li lo [of j] i mp by (cases "j = i") auto
  qed
  have fin: "finite ?L" "finite ?L'" by simp_all
  have "(\<Sum>j \<in> ?L'. ?f' j) = ?f' i + (\<Sum>j \<in> ?L - {i}. ?f' j)" unfolding L' using fin by (subst sum.insert) auto
  also have "(\<Sum>j \<in> ?L - {i}. ?f' j) = (\<Sum>j \<in> ?L - {i}. ?f j)" by (rule sum.cong) (auto simp: lo)
  also have "?f' i = (if ty = CURRENT then ?f i else {#}) + mset (take (unat c) recs)" using ins by (simp add: inserted_def)
  finally have s': "mset (contents now t') = (if ty = CURRENT then ?f i else {#}) + mset (take (unat c) recs) + (\<Sum>j \<in> ?L - {i}. ?f j)"
    unfolding mset_contents .
  show ?thesis
  proof (cases "i \<in> ?L")
    case True
    then have "ty = CURRENT" using dead by auto
    moreover have "(\<Sum>j \<in> ?L. ?f j) = ?f i + (\<Sum>j \<in> ?L - {i}. ?f j)" using True fin by (intro sum.remove) auto
    ultimately show ?thesis unfolding s' unfolding mset_contents [of now t] by (simp add: ac_simps)
  next
    case False
    then have "?L - {i} = ?L" by auto
    then show ?thesis unfolding s' unfolding mset_contents [of now t] by simp
  qed
qed

section \<open>A new table\<close>

lemma page_bytes_fresh:
  assumes "sem_ok os name" "open_ok os name" "trunc_ok os name" "map_ok os name" "isMemAvailable os"
    and "name \<noteq> []" "length name \<le> 14" "sm name = Some 1"
  shows "SharedMemoryPage_new os esz zero name n (\<lparr>names = Map.empty, objects = []\<rparr>, sm)
    = (Inr \<lparr>page_name = name, page_memory_size = page_bytes (sc_page_size os) esz n, mapping = 0\<rparr>,
       (\<lparr>names = [name \<mapsto> 0], objects = [zero_object esz zero (unat (page_bytes (sc_page_size os) esz n))]\<rparr>, sm))"
proof -
  have v: "sem_value sm name = 1" "sem_open name sm = sm" using assms(8) by (simp_all add: sem_value_def sem_open_def)
  have s: "sm(name \<mapsto> Suc 0) = sm" by (rule sem_upd_same) (simp add: assms(8))
  show ?thesis using assms v s mem_blocks(1) [of os]
    by (simp add: SharedMemoryPage_new_def MEMPAGE_NAME_MAX_LEN_def Let_def with_cslock_def CriticalSection_new_def cs_enter_eq
       sbind_def page_create_or_open_def page_map_def zero_object_def CriticalSection_destroy_def semaphore_release_def
       sem_post_def SEM_VALUE_MAX_def)
qed

lemma new_table_ok:
  assumes "0 < esz" "0 < sc_page_size os" "PAGE_INFORMATION_SIZE + esz * unat n + sc_page_size os < 2 ^ 32"
    and "PAGE_INFORMATION_SIZE + INDEX_ELEMENT_SIZE * unat pages + sc_page_size os < 2 ^ 32"
    and "NUL \<notin> set name" "\<forall>i < unat pages. length (data_page_name name i) \<le> 14" "name \<noteq> []" "length name \<le> 14"
    and "sem_ok os name" "open_ok os name" "trunc_ok os name" "map_ok os name" "isMemAvailable os"
  shows "\<exists>t st. Table_new os esz zero name pages n expire g \<lparr>names = Map.empty, objects = []\<rparr>
      (\<lparr>names = Map.empty, objects = []\<rparr>, Map.empty) = (Inr t, st)
    \<and> table_ok (sc_page_size os) t \<and> contents now t = [] \<and> max_pages t = unat pages"
proof -
  let ?sems = "[name \<mapsto> 1]" and ?cs = "\<lparr>cs_name = name, unlock_needed = False\<rparr>"
  let ?b = "page_bytes (sc_page_size os) INDEX_ELEMENT_SIZE (ucast pages)"
  let ?ob = "zero_object INDEX_ELEMENT_SIZE index_zero (unat ?b)"
  let ?t = "\<lparr>table_index = ?ob, data_shm = \<lparr>names = Map.empty, objects = []\<rparr>, global_expire_at = g,
     sems = ?sems, opened_pages_list = [], time_to_check_page_expire = 0, lock = ?cs,
     table_name = name, table_max_pages = pages, max_elements_in_page = n, record_expire_seconds = expire,
     elem_size = esz, elem_zero = zero\<rparr>"
  have up: "unat (ucast pages :: u32) = unat pages" by (rule unat_ucast_u32)
  have cap: "unat pages \<le> elem_capacity INDEX_ELEMENT_SIZE (unat ?b)"
    using page_capacity(1) [of INDEX_ELEMENT_SIZE "sc_page_size os" "ucast pages"] assms(2,4) up
    by (simp add: INDEX_ELEMENT_SIZE_def)
  have run: "Table_new os esz zero name pages n expire g \<lparr>names = Map.empty, objects = []\<rparr>
      (\<lparr>names = Map.empty, objects = []\<rparr>, Map.empty) = (Inr ?t, (\<lparr>names = [name \<mapsto> 0], objects = [?ob]\<rparr>, ?sems))"
    using page_bytes_fresh [of os name ?sems INDEX_ELEMENT_SIZE index_zero "ucast pages"] assms
    by (simp add: Table_new_def CriticalSection_new_def sem_open_def)
  have ix: "i < unat pages \<Longrightarrow> index_at ?t i = index_zero" for i
    using cap by (simp add: index_at_def zero_object_def)
  have "index_inv ?t" unfolding index_inv_def
    using assms cap ix by (auto simp: names_fit_def max_pages_def zero_object_def MEMPAGE_NAME_MAX_LEN_def entry_ok_def index_zero_def)
  moreover have "data_inv (sc_page_size os) ?t"
    using page_capacity [OF assms(1-3)] by (simp add: data_inv_def shm_inv_def)
  moreover have "synced ?t" "lock_idle ?t" by (auto simp: synced_def lock_idle_def sem_bounded_def SEM_VALUE_MAX_def)
  moreover have "backed ?t" using ix by (auto simp: backed_def max_pages_def index_zero_def)
  moreover have "contents now ?t = []" using ix by (auto simp: contents_def live_def max_pages_def index_zero_def)
  ultimately show ?thesis using run unfolding table_ok_def by (auto simp: max_pages_def)
qed

section \<open>Clearing a table\<close>

lemma removed_entries:
  assumes "names_fit t" "max_pages t \<le> length (elements (table_index t))" "\<forall>i < max_pages t. entry_ok t i (index_at t i)"
  shows "names_fit (removed k page t) \<and> max_pages t \<le> length (elements (table_index (removed k page t)))
    \<and> (\<forall>i < max_pages t. entry_ok (removed k page t) i (index_at (removed k page t) i))"
proof -
  have "length (elements (table_index (removed k page t))) = length (elements (table_index t))"
    by (simp add: removed_def clear_index_record_full_def)
  then show ?thesis using assms by (auto simp: names_fit_def entry_ok_def index_at_removed own_name_def)
qed

lemma cleanup_loop_spec:
  assumes "names_fit t" "max_pages t \<le> length (elements (table_index t))" "\<forall>i < max_pages t. entry_ok t i (index_at t i)"
    and "data_inv (sc_page_size os) t" and "\<forall>j < idx. expire_at (index_at t j) = 0" and "idx + k = max_pages t"
    and "\<forall>i j. idx \<le> i \<longrightarrow> i < j \<longrightarrow> j < max_pages t \<longrightarrow> expire_at (index_at t i) = 0 \<longrightarrow> expire_at (index_at t j) = 0"
    and "cleanup_loop os k idx t = (r, t')"
  shows "r \<noteq> Inl segv \<and> (r = Inr () \<longrightarrow> names_fit t' \<and> max_pages t' \<le> length (elements (table_index t'))
     \<and> (\<forall>i < max_pages t'. entry_ok t' i (index_at t' i)) \<and> data_inv (sc_page_size os) t'
     \<and> (\<forall>j < max_pages t'. expire_at (index_at t' j) = 0) \<and> max_pages t' = max_pages t \<and> table_name t' = table_name t)"
  using assms
proof (induction k arbitrary: idx t)
  case 0
  then show ?case by (auto simp: segv_def)
next
  case (Suc k)
  show ?case
  proof (cases "expire_at (index_at t idx) > 0")
    case False
    then have e: "r = Inr ()" "t' = t" using Suc.prems(8) by simp_all
    have "expire_at (index_at t idx) = 0" using False by (simp add: word_neq_0_conv [symmetric])
    then have "expire_at (index_at t j) = 0" if "j < max_pages t" for j
      using Suc.prems(5,7) that by (metis le_refl linorder_neqE_nat)
    then show ?thesis using Suc.prems unfolding e by (simp add: segv_def)
  next
    case True
    let ?n = "data_page_name (table_name t) idx"
    have im: "idx < max_pages t" using Suc.prems(6) by simp
    have cs: "cstr (ix_page_name (index_at t idx)) = ?n"
      using Suc.prems(1,3) True im by (auto simp: entry_ok_def cstr_own_name)
    obtain r1 t1 where g: "getPageByName os ?n t = (r1, t1)" by fastforce
    note spec = getPageByName_spec [OF Suc.prems(4) g]
    show ?thesis
    proof (cases r1)
      case (Inl e)
      then show ?thesis using Suc.prems(8) True g cs spec by (auto simp: sbind_def)
    next
      case (Inr page)
      let ?t2 = "removed idx page t1"
      have rest: "same_rest t t1" using spec by simp
      note ix = same_rest_index [OF rest]
      have c: "table_name t1 = table_name t" "max_elements_in_page t1 = max_elements_in_page t" "table_index t1 = table_index t"
        using rest by (auto simp: same_rest_def same_consts_def)
      have "names_fit t1" "max_pages t1 \<le> length (elements (table_index t1))" "\<forall>i < max_pages t1. entry_ok t1 i (index_at t1 i)"
        using Suc.prems(1-3) ix c by (auto simp: names_fit_def entry_ok_def own_name_def)
      note re = removed_entries [OF this, of idx page]
      have il: "idx < length (elements (table_index t1))" using im Suc.prems(2) c by simp
      have x2: "index_at ?t2 j = (if j = idx then \<lparr>expire_at = 0, page_elements_available = max_elements_in_page t1,
          ix_page_name = replicate MEMPAGE_NAME_MAX_LEN NUL\<rparr> else index_at t j)" for j
        using il ix by (simp add: index_at_removed)
      have t2: "clear_index_record_full idx (unlink_page page (cstr (ix_page_name (index_at t1 idx))) t1) = ?t2"
        using cs ix c by (simp add: removed_def)
      have run: "cleanup_loop os k (Suc idx) ?t2 = (r, t')"
        using Suc.prems(8) True g cs Inr t2 by (simp add: sbind_def)
      have mp: "max_pages ?t2 = max_pages t" "table_name ?t2 = table_name t" using ix c by simp_all
      have "r \<noteq> Inl segv \<and> (r = Inr () \<longrightarrow> names_fit t' \<and> max_pages t' \<le> length (elements (table_index t'))
         \<and> (\<forall>i < max_pages t'. entry_ok t' i (index_at t' i)) \<and> data_inv (sc_page_size os) t'
         \<and> (\<forall>j < max_pages t'. expire_at (index_at t' j) = 0) \<and> max_pages t' = max_pages ?t2 \<and> table_name t' = table_name ?t2)"
      proof (rule Suc.IH [OF _ _ _ _ _ _ _ run])
        show "names_fit ?t2" "max_pages ?t2 \<le> length (elements (table_index ?t2))"
          "\<forall>i < max_pages ?t2. entry_ok ?t2 i (index_at ?t2 i)" using re ix by simp_all
        show "data_inv (sc_page_size os) ?t2" using spec by (intro removed_data_inv) simp
        show "\<forall>j < Suc idx. expire_at (index_at ?t2 j) = 0" using Suc.prems(5) x2 by (auto simp: less_Suc_eq)
        show "Suc idx + k = max_pages ?t2" using Suc.prems(6) mp by simp
        show "\<forall>i j. Suc idx \<le> i \<longrightarrow> i < j \<longrightarrow> j < max_pages ?t2 \<longrightarrow> expire_at (index_at ?t2 i) = 0 \<longrightarrow> expire_at (index_at ?t2 j) = 0"
          using Suc.prems(7) [rule_format] x2 mp by (auto dest: Suc_leD)
      qed
      then show ?thesis using mp by auto
    qed
  qed
qed

lemma cleanup_spec:
  assumes ok: "table_ok (sc_page_size os) t" and run: "cleanup os t = (r, t')"
  shows "r \<noteq> Inl segv \<and> (r = Inr () \<longrightarrow> table_ok (sc_page_size os) t' \<and> contents now t' = [] \<and> max_pages t' = max_pages t
    \<and> (\<forall>i < max_pages t. expire_at (index_at t' i) = 0))"
proof -
  note inv = table_ok_parts(1) [OF ok] and idle = table_ok_parts(5) [OF ok]
  let ?in = "\<lambda>t. cleanup_loop os (max_pages t) 0 t"
  have cr: "critical ?in (\<lambda>_. modify release_open_pages) t = (r, t')"
    using run unfolding cleanup_critical .
  obtain s0 l0 s1 where eq: "critical ?in (\<lambda>_. modify release_open_pages) t =
    (case ?in (relock s0 l0 t) of (Inl e, t1) \<Rightarrow> (Inl e, relock s1 (lock t) t1)
     | (Inr x, t1) \<Rightarrow> modify release_open_pages (relock s1 (lock t) t1))"
    using critical_eq [of ?in "\<lambda>_. modify release_open_pages" t, OF cleanup_inside_neutral release_open_pages_neutral idle] by blast
  obtain r1 t1 where lp: "cleanup_loop os (max_pages t) 0 (relock s0 l0 t) = (r1, t1)" by fastforce
  have spec: "r1 \<noteq> Inl segv \<and> (r1 = Inr () \<longrightarrow> names_fit t1 \<and> max_pages t1 \<le> length (elements (table_index t1))
     \<and> (\<forall>i < max_pages t1. entry_ok t1 i (index_at t1 i)) \<and> data_inv (sc_page_size os) t1
     \<and> (\<forall>j < max_pages t1. expire_at (index_at t1 j) = 0) \<and> max_pages t1 = max_pages (relock s0 l0 t) \<and> table_name t1 = table_name (relock s0 l0 t))"
    by (rule cleanup_loop_spec [OF _ _ _ _ _ _ _ lp])
       (use inv table_ok_parts(2) [OF ok] in \<open>auto simp: index_inv_def names_fit_def entry_ok_def own_name_def\<close>)
  have idle': "lock_idle t'" using lock_balanced_idle [OF cleanup_balanced idle, of os] run by simp
  show ?thesis
  proof (cases r1)
    case (Inl e)
    then show ?thesis using cr lp spec unfolding eq by auto
  next
    case (Inr x)
    then have e: "r = Inr ()" "t' = release_open_pages (relock s1 (lock t) t1)" using cr lp unfolding eq by simp_all
    have z: "\<forall>j < max_pages t. expire_at (index_at t' j) = 0" "max_pages t' = max_pages t"
      using spec Inr by (auto simp: e release_open_pages_def index_at_def max_pages_def relock_def)
    have "names_fit t'" "max_pages t' \<le> length (elements (table_index t'))" "\<forall>i < max_pages t'. entry_ok t' i (index_at t' i)"
        "data_inv (sc_page_size os) t'"
      using spec Inr by (auto simp: e release_open_pages_def relock_def names_fit_def entry_ok_def own_name_def index_at_def
          max_pages_def data_inv_def page_object_def)
    then have "index_inv t'" "data_inv (sc_page_size os) t'" using z by (auto simp: index_inv_def)
    moreover have "synced t'" by (simp add: e synced_def release_open_pages_def)
    moreover have "backed t'" "contents now t' = []" using z by (auto simp: backed_def contents_def live_def)
    ultimately show ?thesis using z idle' e(1) by (simp add: table_ok_def segv_def)
  qed
qed

section \<open>When the operations succeed\<close>

text \<open>
  All system calls succeed, every named object has the right size, and no page semaphore is
  taken: then no operation of a table fails for want of a page.
\<close>

definition all_ok :: "os \<Rightarrow> bool" where
  "all_ok os \<longleftrightarrow> isMemAvailable os \<and> (\<forall>n. sem_ok os n \<and> open_ok os n \<and> trunc_ok os n \<and> map_ok os n)"

definition shm_sized :: "u32 \<Rightarrow> 'e shm \<Rightarrow> bool" where
  "shm_sized b s \<longleftrightarrow> (\<forall>m i. names s m = Some i \<longrightarrow> word_of_nat (st_size (objects s ! i)) = b)"

definition serviceable :: "os \<Rightarrow> 'e Table \<Rightarrow> bool" where
  "serviceable os t \<longleftrightarrow> all_ok os \<and> shm_sized (page_size_of (sc_page_size os) t) (data_shm t)
     \<and> (\<forall>i < max_pages t. sems t (data_page_name (table_name t) i) \<noteq> Some 0) \<and> sem_bounded (sems t)"

lemma page_open_total:
  assumes "all_ok os" "shm_inv b n s" "shm_sized b s"
  shows "\<exists>page s'. sbind (page_create_or_open os esz zero name b) (page_map os name b) s = (Inr page, s') \<and> shm_sized b s'"
proof (cases "names s name")
  case None
  let ?ob = "zero_object esz zero (unat b)"
  let ?s1 = "s\<lparr>names := (names s)(name \<mapsto> length (objects s)), objects := objects s @ [?ob]\<rparr>"
  have lt: "names s m = Some i \<Longrightarrow> i < length (objects s)" for m i using assms(2) by (auto simp: shm_inv_def)
  have "page_create_or_open os esz zero name b s = (Inr (length (objects s)), ?s1)"
    using assms(1) None mem_blocks(1) [of os] by (simp add: page_create_or_open_def all_ok_def Let_def)
  moreover have "page_map os name b (length (objects s)) ?s1
      = (Inr \<lparr>page_name = name, page_memory_size = b, mapping = length (objects s)\<rparr>, ?s1)"
    using assms(1) by (simp add: page_map_def all_ok_def zero_object_def)
  moreover have "shm_sized b ?s1" using assms(3) lt
    by (auto simp: shm_sized_def nth_append zero_object_def)
  ultimately show ?thesis by (auto simp: sbind_def)
next
  case (Some i)
  then show ?thesis using assms by (auto simp: page_create_or_open_def page_map_def all_ok_def shm_sized_def sbind_def)
qed

lemma with_cslock_total:
  assumes "sem_ok os name" "sm name \<noteq> Some 0" "body x = (r, x')"
  shows "\<exists>s'. with_cslock os name body (x, sm) = (r, (x', s'))"
proof -
  have "sem_value (sem_open name sm) name \<noteq> 0"
    using assms(2) by (cases "sm name") (auto simp: sem_open_def sem_value_def)
  then show ?thesis using assms by (simp add: with_cslock_def CriticalSection_new_def cs_enter_eq)
qed

lemma getPageByName_total:
  assumes ok: "all_ok os" and inv: "data_inv (sc_page_size os) t" and sz: "shm_sized (page_size_of (sc_page_size os) t) (data_shm t)"
    and nm: "name \<noteq> []" "length name \<le> 14" and sm: "sems t name \<noteq> Some 0"
  shows "\<exists>page t'. getPageByName os name t = (Inr page, t') \<and> shm_sized (page_size_of (sc_page_size os) t) (data_shm t')"
proof (cases "localGetPageByName (opened_pages_list t) name")
  case (Some page)
  then show ?thesis using sz by (simp add: getPageByName_def)
next
  case None
  let ?b = "page_size_of (sc_page_size os) t"
  have shm: "shm_inv ?b (unat (max_elements_in_page t)) (data_shm t)" using inv by (simp add: data_inv_def)
  obtain page d where o: "sbind (page_create_or_open os (elem_size t) (elem_zero t) name ?b) (page_map os name ?b) (data_shm t)
      = (Inr page, d)" and d: "shm_sized ?b d"
    using page_open_total [OF ok shm sz] by blast
  obtain s' where "SharedMemoryPage_new os (elem_size t) (elem_zero t) name (max_elements_in_page t) (data_shm t, sems t)
      = (Inr page, (d, s'))"
    using with_cslock_total [of os name "sems t" "sbind (page_create_or_open os (elem_size t) (elem_zero t) name ?b) (page_map os name ?b)" "data_shm t", OF _ sm o] ok nm by (auto simp: SharedMemoryPage_new_def all_ok_def MEMPAGE_NAME_MAX_LEN_def Let_def)
  then show ?thesis using None d by (simp add: getPageByName_def)
qed

lemma getPage_serviceable:
  assumes sv: "serviceable os t" and inv: "data_inv (sc_page_size os) t" and nf: "names_fit t" and i: "i < max_pages t"
  shows "\<exists>page t'. getPageByName os (data_page_name (table_name t) i) t = (Inr page, t') \<and> serviceable os t'"
proof -
  let ?n = "data_page_name (table_name t) i"
  have nm: "?n \<noteq> []" "length ?n \<le> 14" using nf i by (auto simp: data_page_name_def names_fit_def MEMPAGE_NAME_MAX_LEN_def)
  obtain page t' where g: "getPageByName os ?n t = (Inr page, t')" and sz: "shm_sized (page_size_of (sc_page_size os) t) (data_shm t')"
    using getPageByName_total [OF _ inv _ nm] sv i unfolding serviceable_def by blast
  have rest: "same_rest t t'" using getPageByName_spec [OF inv g] by simp
  have se: "sem_ext (sems t) (sems t')" using lock_neutralD [OF getPageByName_neutral, of t os ?n] sv g by (simp add: serviceable_def)
  have "sems t' (data_page_name (table_name t) j) \<noteq> Some 0" if "j < max_pages t" for j
    using spec [OF se [unfolded sem_ext_def], of "data_page_name (table_name t) j"] sv that by (auto simp: serviceable_def)
  then have "serviceable os t'" using sv sz rest same_rest_index [OF rest] sem_ext_bounded [OF se]
    by (auto simp: serviceable_def same_rest_def same_consts_def)
  with g show ?thesis by blast
qed

lemma removed_serviceable: "serviceable os t \<Longrightarrow> serviceable os (removed i page t)"
proof -
  assume sv: "serviceable os t"
  have e: "elem_size (removed i page t) = elem_size t" "sems (removed i page t) = sems t"
    by (simp_all add: removed_def clear_index_record_full_def unlink_page_def set_page_object_def Let_def)
  show ?thesis using sv by (auto simp: serviceable_def e shm_sized_def page_object_def unlinked_length split: if_splits)
qed

lemma release_loop_total:
  assumes "serviceable os t" "index_inv t" "data_inv (sc_page_size os) t" "i < max_pages t"
    and "\<forall>j. i < j \<longrightarrow> j < max_pages t \<longrightarrow> expire_at (index_at t j) = 0" "\<forall>j \<le> i. 0 < expire_at (index_at t j)"
  shows "\<exists>t'. release_loop os k i c t = (Inr (), t') \<and> serviceable os t'"
  using assms
proof (induction i arbitrary: c t)
  case 0
  then show ?case by simp
next
  case (Suc i)
  show ?case
  proof (cases "k < Suc i")
    case False
    then show ?thesis using Suc.prems by simp
  next
    case True
    let ?n = "data_page_name (table_name t) (Suc i)"
    have nf: "names_fit t" and "entry_ok t (Suc i) (index_at t (Suc i))" "0 < expire_at (index_at t (Suc i))"
      using Suc.prems by (auto simp: index_inv_def)
    then have cs: "cstr (ix_page_name (index_at t (Suc i))) = ?n" by (simp add: entry_ok_def cstr_own_name)
    obtain page t1 where g: "getPageByName os ?n t = (Inr page, t1)" and s1: "serviceable os t1"
      using getPage_serviceable [OF Suc.prems(1,3) nf Suc.prems(4)] by blast
    note gs = getPageByName_spec [OF Suc.prems(3) g]
    have rest: "same_rest t t1" using gs by simp
    note ix = same_rest_index [OF rest]
    have tn: "table_name t1 = table_name t" using rest by (simp add: same_rest_def same_consts_def)
    let ?t2 = "removed (Suc i) page t1"
    have t2: "clear_index_record_full (Suc i) (unlink_page page (page_name page) t1) = ?t2"
      using gs by (simp add: removed_def tn)
    have inv1: "index_inv t1" by (rule same_rest_inv [OF rest Suc.prems(2)])
    have inv2: "index_inv ?t2" using Suc.prems(4,5) ix by (intro removed_index_inv inv1) auto
    have d2: "data_inv (sc_page_size os) ?t2" using gs by (intro removed_data_inv) simp
    have s2: "serviceable os ?t2" by (rule removed_serviceable [OF s1])
    have il: "Suc i < length (elements (table_index t1))" using inv1 Suc.prems(4) ix by (auto simp: index_inv_def)
    have "\<exists>t'. release_loop os k i (c + 1) ?t2 = (Inr (), t') \<and> serviceable os t'"
    proof (rule Suc.IH [OF s2 inv2 d2])
      show "i < max_pages ?t2" using Suc.prems(4) ix by simp
      show "\<forall>j. i < j \<longrightarrow> j < max_pages ?t2 \<longrightarrow> expire_at (index_at ?t2 j) = 0"
        using Suc.prems(5) ix il by (auto simp: index_at_removed)
      show "\<forall>j \<le> i. 0 < expire_at (index_at ?t2 j)" using Suc.prems(6) ix by (auto simp: index_at_removed)
    qed
    then show ?thesis using g cs t2 True s2 by (auto simp: sbind_def Let_def)
  qed
qed

lemma release_maintenance_total:
  assumes sv: "serviceable os t" and inv: "index_inv t" and d: "data_inv (sc_page_size os) t"
  shows "\<exists>t'. release_maintenance os now t = (Inr (), t') \<and> serviceable os t'"
proof -
  obtain n k where f: "find_last_data now (global_expire_at t) (table_entries t) 0 0 = (n, k)" by fastforce
  note spec = find_last_data_spec [OF f]
  have len: "length (table_entries t) = max_pages t" by (rule length_table_entries [OF inv])
  have sc: "serviceable os (set_check t)" using sv by (simp add: serviceable_def set_check_def max_pages_def)
  show ?thesis
  proof (cases "expiration_check (table_index t) \<le> now \<and> n > 0 \<and> k < n - 1")
    case False
    then show ?thesis using f sv sc by (auto simp: release_maintenance_def set_check_def Let_def)
  next
    case True
    have n: "n \<le> max_pages t" and u: "\<forall>j < n. 0 < expire_at (index_at t j)" using spec len by (auto simp: table_entries_nth)
    have z: "expire_at (index_at t j) = 0" if j: "n \<le> j" "j < max_pages t" for j
    proof -
      have "expire_at (index_at t n) = 0" using spec len j by (auto simp: table_entries_nth)
      then show ?thesis using zero_after [OF inv] j by blast
    qed
    have "\<exists>t'. release_loop os k (n - 1) 0 (set_check t) = (Inr (), t') \<and> serviceable os t'"
      by (rule release_loop_total [OF sc]) (use inv d True n u z in \<open>auto simp: Suc_le_eq\<close>)
    then show ?thesis using f True by (simp add: release_maintenance_def set_check_def Let_def)
  qed
qed

text \<open>The lock of a table is named after it.\<close>

definition lock_named :: "'e Table \<Rightarrow> bool" where
  "lock_named t \<longleftrightarrow> cs_name (lock t) = table_name t"

lemma serviceable_held: "serviceable os t \<Longrightarrow> lock_named t \<Longrightarrow> serviceable os (held t)"
  by (auto simp: serviceable_def lock_named_def sem_bounded_def data_page_name_def)

lemma serviceable_released:
  assumes "serviceable os t" "serviceable os t1" "same_consts t t1" "sem_ext (sems t) s"
  shows "serviceable os (relock s l t1)"
proof -
  have "s (data_page_name (table_name t) i) \<noteq> Some 0" if "i < max_pages t" for i
    using assms(1) spec [OF assms(4) [unfolded sem_ext_def], of "data_page_name (table_name t) i"] that
    by (auto simp: serviceable_def)
  moreover have "sem_bounded s" using assms(1,4) sem_ext_bounded by (auto simp: serviceable_def)
  ultimately show ?thesis using assms(2,3) by (simp add: serviceable_def same_consts_def max_pages_def)
qed

lemma release_total:
  assumes ok: "table_ok (sc_page_size os) t" and sv: "serviceable os t" and ln: "lock_named t"
  shows "\<exists>t'. release_expired_memory_pages os now t = (Inr (), t') \<and> serviceable os t' \<and> lock_named t'"
proof (cases "time_to_check_page_expire t > now")
  case True
  then show ?thesis using sv ln by (simp add: release_expired_memory_pages_def)
next
  case False
  define u where "u = t\<lparr>time_to_check_page_expire := now + MEMPAGE_CHECK_EXPIRED_PAGES_INTERVAL_SEC\<rparr>"
  have u: "index_inv u" "data_inv (sc_page_size os) u" "lock_idle u" "serviceable os u" "lock_named u" "same_consts t u"
    using ok sv ln
    by (simp_all add: table_ok_def u_def index_inv_def data_inv_def lock_idle_def same_consts_def serviceable_def
      max_pages_def index_at_def names_fit_def entry_ok_def own_name_def page_object_def lock_named_def)
  have dn: "lock_neutral (modify drop_unlinked_pages)" by (rule lock_neutral_pure) (simp add: drop_unlinked_pages_def)
  obtain s1 where se: "sem_ext (sems u) s1" and eq: "critical (release_maintenance os now) (\<lambda>_. modify drop_unlinked_pages) u =
    (case release_maintenance os now (held u) of
       (Inl e, t1) \<Rightarrow> (Inl e, relock s1 (lock u) t1)
     | (Inr x, t1) \<Rightarrow> modify drop_unlinked_pages (relock s1 (lock u) t1))"
    using critical_held [of "release_maintenance os now" "\<lambda>_. modify drop_unlinked_pages" u, OF release_maintenance_neutral dn u(3)]
    by blast
  obtain t1 where rm: "release_maintenance os now (held u) = (Inr (), t1)" and s1: "serviceable os t1"
    using release_maintenance_total [OF serviceable_held [OF u(4,5)]] u by auto
  let ?t' = "drop_unlinked_pages (relock s1 (lock u) t1)"
  have run: "release_expired_memory_pages os now t = (Inr (), ?t')"
    using False eq rm by (simp add: release_expired_memory_pages_def critical_def u_def)
  have cs: "same_consts t ?t'" using release_expired_spec [OF ok run] by simp
  then have "same_consts u t1" using u(6) by (simp add: same_consts_def drop_unlinked_pages_def)
  then have "serviceable os (relock s1 (lock u) t1)" by (rule serviceable_released [OF u(4) s1 _ se])
  then have "serviceable os ?t'" by (simp add: serviceable_def drop_unlinked_pages_def max_pages_def)
  moreover have "lock_named ?t'" using u(5) cs u(6) by (simp add: lock_named_def same_consts_def drop_unlinked_pages_def)
  ultimately show ?thesis using run by blast
qed

lemma store_records_total:
  assumes sv: "serviceable os t" and d: "data_inv (sc_page_size os) t" and nf: "names_fit t" and i: "i < max_pages t"
    and nm: "ip_page_name ip = data_page_name (table_name t) i"
    and fit: "unat (ip_index ip) + unat c \<le> unat (max_elements_in_page t)" and len: "unat c \<le> length recs"
  shows "\<exists>ee t'. store_records os recs c ip t = (Inr ee, t')"
proof -
  obtain page t1 where g: "getPageByName os (data_page_name (table_name t) i) t = (Inr page, t1)"
    using getPage_serviceable [OF sv d nf i] by blast
  note gs = getPageByName_spec [OF d g]
  have "max_elements_in_page t1 = max_elements_in_page t" using gs by (simp add: same_rest_def same_consts_def)
  then have "unat (ip_index ip) + unat c \<le> length (elements (page_object t1 page))"
    using gs fit by (auto simp: page_usable_def)
  moreover have "0 < f_blocks os" using sv mem_blocks(1) by (simp add: serviceable_def all_ok_def)
  ultimately show ?thesis using g nm len by (simp add: store_records_def sbind_def Let_def)
qed

lemma insert_records_total:
  assumes ok: "table_ok (sc_page_size os) t" and sv: "serviceable os t" and ln: "lock_named t"
    and rc: "recyclable os t" and ex: "0 < expiry t now life" and c: "c \<le> max_elements_in_page t" and len: "unat c \<le> length recs"
    and ch: "choose_page os now c t = ((ty, i), t1)" and ty: "ty \<noteq> UNKNOWN"
  shows "\<exists>ee t'. insert_records os now recs c life t = (Inr ee, t')"
proof -
  note inv = table_ok_parts(1) [OF ok]
  note spec = choose_page_spec [OF inv rc ch ty] and eok = reserved_entry_ok [OF inv rc ch ty ex c]
  let ?ip = "\<lparr>ip_type = ty, ip_page = i, ip_page_name = data_page_name (table_name t) i, ip_index = first_free t ty i\<rparr>"
  obtain s1 where se: "sem_ext (sems t) s1" and eq: "insert_records os now recs c life t =
    (case reserve os now c life (held t) of
       (Inl e, t2) \<Rightarrow> (Inl e, relock s1 (lock t) t2)
     | (Inr x, t2) \<Rightarrow> store_records os recs c x (relock s1 (lock t) t2))"
    using critical_held [of "reserve os now c life" "store_records os recs c" t, OF reserve_neutral store_records_neutral
        table_ok_parts(5) [OF ok]] unfolding insert_records_def by blast
  have chh: "choose_page os now c (held t) = ((ty, i), relock ((sems t)(cs_name (lock t) \<mapsto> 0)) ((lock t)\<lparr>unlock_needed := True\<rparr>) t1)"
    using ch by (simp add: choose_page_relock)
  have res: "reserve os now c life (held t) = (Inr ?ip, set_index i (reserved_entry t now c life ty i)
      (relock ((sems t)(cs_name (lock t) \<mapsto> 0)) ((lock t)\<lparr>unlock_needed := True\<rparr>) t1))"
    using reserve_eq [OF _ _ low_test_blocks chh ty, of life] inv rc sv mem_blocks(1) [of os] by (simp add: serviceable_def all_ok_def first_free_def reserved_entry_def own_name_def Let_def)
  let ?u = "relock s1 (lock t) (set_index i (reserved_entry t now c life ty i)
      (relock ((sems t)(cs_name (lock t) \<mapsto> 0)) ((lock t)\<lparr>unlock_needed := True\<rparr>) t1))"
  have t1: "t1 = t \<or> t1 = update_global_expire (expire_at (index_at t i)) t" using spec ty by (cases ty) auto
  then have "same_consts t t1" "data_shm t1 = data_shm t" "opened_pages_list t1 = opened_pages_list t" by (auto simp: same_consts_def)
  then have u: "same_consts t ?u" "data_shm ?u = data_shm t" "data_inv (sc_page_size os) ?u"
    using table_ok_parts(2) [OF ok] by (auto simp: same_consts_def data_inv_def page_object_def)
  have "serviceable os (relock s1 (lock t) t)" by (rule serviceable_released [OF sv sv _ se]) simp
  then have su: "serviceable os ?u" using u(1,2) by (simp add: serviceable_def same_consts_def max_pages_def)
  have "\<exists>ee t'. store_records os recs c ?ip ?u = (Inr ee, t')"
    by (rule store_records_total [OF su u(3), of i])
       (use inv spec eok u(1) len in \<open>auto simp: index_inv_def names_fit_def same_consts_def max_pages_def\<close>)
  then show ?thesis unfolding eq res by simp
qed

lemma scan_pages_total:
  assumes "view_inv (sc_page_size os) t t" "serviceable os t" "\<forall>i \<in> set is. i < max_pages t \<and> 0 < expire_at (index_at t i)"
  shows "\<exists>p' t'. scan_pages os f is p t = (Inr p', t')"
  using assms
proof (induction "is" arbitrary: p t)
  case Nil
  then show ?case by simp
next
  case (Cons i "is")
  have i: "i < max_pages t" "0 < expire_at (index_at t i)" using Cons.prems(3) by auto
  have inv: "index_inv t" and d: "data_inv (sc_page_size os) t" and nf: "names_fit t"
    using Cons.prems(1) by (auto simp: view_inv_def index_inv_def)
  have cs: "cstr (ix_page_name (index_at t i)) = data_page_name (table_name t) i"
    using inv i by (auto simp: index_inv_def entry_ok_def cstr_own_name)
  obtain page t1 where g: "getPageByName os (data_page_name (table_name t) i) t = (Inr page, t1)" and s1: "serviceable os t1"
    using getPage_serviceable [OF Cons.prems(2) d nf i(1)] by blast
  note gv = getPage_view [OF Cons.prems(1) i g]
  have rest: "same_rest t t1" using gv by (simp add: view_inv_def)
  have c: "max_elements_in_page t1 = max_elements_in_page t" "index_at t1 i = index_at t i"
    using rest same_rest_index [OF rest] by (auto simp: same_rest_def same_consts_def)
  have "used t i \<le> length (elements (page_object t1 page))" using gv used_le [OF inv i] by simp
  then have sp: "scan_page os f i p t = (Inr (foldl f p (take (used t i) (elements (page_object t1 page)))), t1)"
    using g cs c by (simp add: scan_page_def sbind_def Let_def used_def)
  have v1: "view_inv (sc_page_size os) t1 t1" using gv by (auto simp: view_inv_def)
  have "\<exists>p' t'. scan_pages os f is (foldl f p (take (used t i) (elements (page_object t1 page)))) t1 = (Inr p', t')"
    using Cons.prems(3) same_rest_index [OF rest] by (intro Cons.IH [OF v1 s1]) auto
  then show ?case using sp by (simp add: sbind_def)
qed

lemma processRecords_total:
  assumes ok: "table_ok (sc_page_size os) t" and sv: "serviceable os t" and ln: "lock_named t"
  shows "\<exists>p' t'. processRecords os time0 now f p t = (Inr p', t')"
proof -
  obtain t1 where rel: "release_expired_memory_pages os time0 t = (Inr (), t1)" and s1: "serviceable os t1" "lock_named t1"
    using release_total [OF ok sv ln] by blast
  have ok1: "table_ok (sc_page_size os) t1" using release_expired_spec [OF ok rel] by simp
  let ?in = "\<lambda>t. (Inr (records_to_scan now (global_expire_at t) (table_entries t) 0), t)"
  let ?todo = "filter (live now t1) [0..<max_pages t1]"
  have nt: "lock_neutral ?in" by (simp add: lock_neutral_def)
  obtain s2 where se: "sem_ext (sems t1) s2" and eq: "critical ?in (\<lambda>todo. scan_pages os f todo p) t1 =
      (case ?in (held t1) of (Inl e, t2) \<Rightarrow> (Inl e, relock s2 (lock t1) t2)
       | (Inr todo, t2) \<Rightarrow> scan_pages os f todo p (relock s2 (lock t1) t2))"
    using critical_held [of ?in "\<lambda>todo. scan_pages os f todo p" t1, OF nt scan_pages_neutral table_ok_parts(5) [OF ok1]] by blast
  let ?u = "relock s2 (lock t1) t1"
  have "view_inv (sc_page_size os) ?u ?u" using ok1 by (intro view_inv_refl) (simp_all add: table_ok_def)
  moreover have "serviceable os ?u" by (rule serviceable_released [OF s1(1) s1(1) _ se]) simp
  moreover have "\<forall>i \<in> set ?todo. i < max_pages ?u \<and> 0 < expire_at (index_at ?u i)"
    by (auto simp: live_def intro: le_less_trans [OF word_zero_le])
  ultimately have "\<exists>p' t'. scan_pages os f ?todo p ?u = (Inr p', t')" by (rule scan_pages_total)
  then show ?thesis using rel eq records_to_scan_live [OF table_ok_parts(1) [OF ok1], of now]
    by (simp add: processRecords_critical sbind_def)
qed

text \<open>Some page can take \<open>c\<close> more records.\<close>

definition has_room :: "u32 \<Rightarrow> u32 \<Rightarrow> 'e Table \<Rightarrow> bool" where
  "has_room now c t \<longleftrightarrow> (\<exists>j < max_pages t. expire_at (index_at t j) = 0 \<or> expire_at (index_at t j) < now
     \<or> c \<le> page_elements_available (index_at t j))"

lemma choose_page_known:
  assumes inv: "index_inv t" and room: "has_room now c t" and ch: "choose_page os now c t = ((ty, i), t1)"
  shows "ty \<noteq> UNKNOWN"
proof
  assume u: "ty = UNKNOWN"
  obtain ty' j k where f: "find_page now c (table_entries t) 0 (- 1) 0 = (ty', j, k)" by (cases "find_page now c (table_entries t) 0 (- 1) 0")
  have "ty' = UNKNOWN" using ch f u by (auto simp: choose_page_def split: if_splits)
  then have all: "\<forall>m < max_pages t. now \<le> expire_at (index_at t m) \<and> 0 < expire_at (index_at t m) \<and> page_elements_available (index_at t m) < c"
    using find_page_spec [OF f] length_table_entries [OF inv] by (auto simp: table_entries_nth)
  obtain m where m: "m < max_pages t" "expire_at (index_at t m) = 0 \<or> expire_at (index_at t m) < now
     \<or> c \<le> page_elements_available (index_at t m)" using room by (auto simp: has_room_def)
  with all have a: "now \<le> expire_at (index_at t m)" "0 < expire_at (index_at t m)" "page_elements_available (index_at t m) < c" by auto
  from m(2) show False
  proof (elim disjE)
    assume "expire_at (index_at t m) = 0" with a(2) show False by simp
  next
    assume "expire_at (index_at t m) < now" with a(1) show False by simp
  next
    assume "c \<le> page_elements_available (index_at t m)" with a(3) show False by simp
  qed
qed

lemma release_has_room:
  assumes ok: "table_ok (sc_page_size os) t" and room: "has_room now c t"
    and run: "release_expired_memory_pages os time0 t = (Inr (), t1)"
  shows "has_room now c t1"
proof -
  note spec = release_expired_spec [OF ok run]
  obtain m n where m: "keeps_prefix m t t1" using spec by blast
  have mp: "max_pages t1 = max_pages t" using spec by (auto simp: same_consts_def max_pages_def)
  obtain j where j: "j < max_pages t" "expire_at (index_at t j) = 0 \<or> expire_at (index_at t j) < now
     \<or> c \<le> page_elements_available (index_at t j)" using room by (auto simp: has_room_def)
  show ?thesis
  proof (cases "j < m")
    case True
    then have "index_at t1 j = index_at t j" using m by (simp add: keeps_prefix_def)
    then show ?thesis using j mp by (auto simp: has_room_def)
  next
    case False
    then have "expire_at (index_at t1 j) = 0" using m j by (auto simp: keeps_prefix_def)
    then show ?thesis using j mp by (auto simp: has_room_def)
  qed
qed

lemma addRecord_total:
  assumes ok: "table_ok (sc_page_size os) t" and sv: "serviceable os t" and ln: "lock_named t" and rc: "recyclable os t"
    and ex: "0 < expiry t now life" and c: "c \<le> max_elements_in_page t" and len: "unat c \<le> length recs" and room: "has_room now c t"
  shows "\<exists>ee t'. addRecord os time0 now recs c life t = (Inr ee, t')"
proof -
  obtain t1 where rel: "release_expired_memory_pages os time0 t = (Inr (), t1)" and s1: "serviceable os t1" "lock_named t1"
    using release_total [OF ok sv ln] by blast
  note spec = release_expired_spec [OF ok rel]
  have ok1: "table_ok (sc_page_size os) t1" and cs: "same_consts t t1" using spec by auto
  have rc1: "recyclable os t1" by (rule release_recyclable [OF ok rc rel])
  have ex1: "0 < expiry t1 now life" and c1: "c \<le> max_elements_in_page t1"
    using ex c cs by (auto simp: expiry_def same_consts_def split: if_splits)
  obtain ty i t2 where ch: "choose_page os now c t1 = ((ty, i), t2)" by (metis prod.exhaust)
  have "ty \<noteq> UNKNOWN" by (rule choose_page_known [OF table_ok_parts(1) [OF ok1] release_has_room [OF ok room rel] ch])
  from insert_records_total [OF ok1 s1 rc1 ex1 c1 len ch this] show ?thesis
    using rel c1 by (simp add: addRecord_critical sbind_def checkRecord_def insert_records_def)
qed

section \<open>Properties\<close>

definition healthy_os :: os where
  "healthy_os = \<lparr>sc_page_size = 4096, f_bavail = 50, f_blocks = 100, sem_ok = (\<lambda>_. True), open_ok = (\<lambda>_. True),
     trunc_ok = (\<lambda>_. True), map_ok = (\<lambda>_. True)\<rparr>"

definition low_memory_os :: os where
  "low_memory_os = healthy_os\<lparr>f_bavail := 12\<rparr>"

lemma healthy_mem: "isMemAvailable healthy_os" "\<not> isMemLow healthy_os" "isMemAvailable low_memory_os" "isMemLow low_memory_os"
  by (simp_all add: isMemAvailable_def isMemLow_def freemem_def healthy_os_def low_memory_os_def LOWMEM_ERROR_PERCENT_def
      LOWMEM_PERCENT_FOR_PAGE_REUSING_def)

text \<open>A table of two pages with two 32-bit numbers each, as its constructor leaves it.\<close>

definition sample_table :: "u32 Table" where
  "sample_table = \<lparr>table_index = zero_object INDEX_ELEMENT_SIZE index_zero 4096,
     data_shm = \<lparr>names = (\<lambda>_. None), objects = []\<rparr>, global_expire_at = 0, sems = (\<lambda>n. if n = ''T'' then Some 1 else None),
     opened_pages_list = [], time_to_check_page_expire = 0, lock = \<lparr>cs_name = ''T'', unlock_needed = False\<rparr>,
     table_name = ''T'', table_max_pages = 2, max_elements_in_page = 2, record_expire_seconds = 60, elem_size = 4, elem_zero = 0\<rparr>"

lemma data_page_name_sample: "i < 2 \<Longrightarrow> length (data_page_name ''T'' i) \<le> 14"
  by (simp add: data_page_name_def to_string_digit)

lemma sample_new:
  "Table_new healthy_os 4 0 ''T'' 2 2 60 0 \<lparr>names = Map.empty, objects = []\<rparr> (\<lparr>names = Map.empty, objects = []\<rparr>, Map.empty)
   = (Inr sample_table, (\<lparr>names = [''T'' \<mapsto> 0], objects = [zero_object INDEX_ELEMENT_SIZE index_zero 4096]\<rparr>, [''T'' \<mapsto> 1]))"
proof -
  have b: "unat (page_bytes 4096 INDEX_ELEMENT_SIZE (ucast (2 :: u16))) = 4096"
    by (simp add: page_bytes_def INDEX_ELEMENT_SIZE_def PAGE_INFORMATION_SIZE_def)
  note m = healthy_mem(1)
  have f: "(\<lambda>n. if n = ''T'' then Some 1 else None) = [''T'' \<mapsto> (1::nat)]" by (auto simp: fun_eq_iff)
  show ?thesis using page_bytes_fresh [of healthy_os "''T''" "[''T'' \<mapsto> 1]" INDEX_ELEMENT_SIZE index_zero "ucast (2::u16)"] b m
    by (simp add: Table_new_def CriticalSection_new_def sem_open_def healthy_os_def sample_table_def f)
qed

lemma sample_table_ok: "table_ok 4096 sample_table \<and> max_pages sample_table = 2 \<and> contents now sample_table = []"
proof -
  note m = healthy_mem(1)
  obtain t :: "u32 Table" and st where e: "Table_new healthy_os 4 0 ''T'' 2 2 60 0 \<lparr>names = Map.empty, objects = []\<rparr>
      (\<lparr>names = Map.empty, objects = []\<rparr>, Map.empty) = (Inr t, st)"
    and t: "table_ok (sc_page_size healthy_os) t \<and> contents now t = [] \<and> max_pages t = unat (2 :: u16)"
    using new_table_ok [of 4 healthy_os 2 2 "''T''" 0 60 0 now] data_page_name_sample m
    by (auto simp: healthy_os_def PAGE_INFORMATION_SIZE_def INDEX_ELEMENT_SIZE_def)
  have "t = sample_table" using e sample_new by simp
  with t show ?thesis by (simp add: healthy_os_def)
qed

lemma sample_ready:
  "table_ok (sc_page_size healthy_os) sample_table" "serviceable healthy_os sample_table" "lock_named sample_table"
  "recyclable healthy_os sample_table" "no_wrap sample_table" "has_room 100 1 sample_table"
  "0 < expiry sample_table 100 0" "expiry sample_table 100 0 = 160" "max_elements_in_page sample_table = 2"
proof -
  have c: "elem_capacity INDEX_ELEMENT_SIZE 4096 = 146"
    by (simp add: elem_capacity_def INDEX_ELEMENT_SIZE_def PAGE_INFORMATION_SIZE_def)
  have mp: "max_pages sample_table = 2" using sample_table_ok by blast
  have ix: "index_at sample_table i = index_zero" if "i < 2" for i
    using that c by (simp add: index_at_def sample_table_def zero_object_def)
  show "table_ok (sc_page_size healthy_os) sample_table" using sample_table_ok by (simp add: healthy_os_def)
  show "lock_named sample_table" by (simp add: lock_named_def sample_table_def)
  show "serviceable healthy_os sample_table" using healthy_mem
    by (auto simp: serviceable_def all_ok_def shm_sized_def sem_bounded_def sample_table_def data_page_name_def healthy_os_def
        SEM_VALUE_MAX_def split: if_splits)
  show "recyclable healthy_os sample_table" using healthy_mem mp by (simp add: recyclable_def)
  show "no_wrap sample_table" using mp ix by (simp add: no_wrap_def index_zero_def)
  show "has_room 100 1 sample_table" unfolding has_room_def mp
    by (rule exI [of _ 0]) (simp add: ix index_zero_def)
  show "expiry sample_table 100 0 = 160" "max_elements_in_page sample_table = 2" by (simp_all add: expiry_def sample_table_def)
  then show "0 < expiry sample_table 100 0" by simp
qed

text \<open>
  C29. When the system calls succeed and some page is unused, expired or has room,
  \<^verbatim>\<open>addRecord\<close> of at most a page of records returns.
\<close>

theorem addRecord_succeeds:
  assumes "table_ok (sc_page_size os) t" and "serviceable os t" and "lock_named t" and "recyclable os t"
    and "0 < expiry t now life" and "c \<le> max_elements_in_page t" and "unat c \<le> length recs" and "has_room now c t"
  shows "\<exists>ee t'. addRecord os time0 now recs c life t = (Inr ee, t')"
  using assms by (rule addRecord_total)

theorem addRecord_succeeds_witness:
  "\<exists>ee t'. addRecord healthy_os 100 100 [7] 1 0 sample_table = (Inr ee, t')"
  using addRecord_succeeds [OF sample_ready(1-4,7) _ _ sample_ready(6), of "[7]" 100] sample_ready(9) by simp

text \<open>
  C24. What \<^verbatim>\<open>addRecord\<close> stored is read back through the extractor it returned, and the
  table is well formed again.
\<close>

theorem addRecord_read_back:
  assumes "table_ok (sc_page_size os) t" and "recyclable os t" and "0 < expiry t now life" and "unat c \<le> length recs"
    and "addRecord os time0 now recs c life t = (Inr ee, t')"
  shows "table_ok (sc_page_size os) t' \<and> ee_size ee = c \<and>
    (\<exists>xs. get_element_data os' ee t' = (Inr xs, t') \<and> take (unat c) xs = take (unat c) recs)"
proof -
  from addRecord_spec [OF assms] obtain ty i t1 t2 page where ok': "table_ok (sc_page_size os) t'"
    and eff: "add_effect os time0 now recs c life ty i t t1 t2 t'"
    and ee: "ee = \<lparr>ee_page_name = data_page_name (table_name t) i, ee_index = first_free t1 ty i, ee_size = c\<rparr>"
    and lg: "localGetPageByName (opened_pages_list t') (data_page_name (table_name t) i) = Some page"
    and cs: "same_consts t t'" by auto
  have tn: "table_name t' = table_name t" "max_pages t' = max_pages t" using cs by (auto simp: same_consts_def max_pages_def)
  have i: "i < max_pages t'" using eff tn by (simp add: add_effect_def)
  have "get_element_data os' ee t' = (Inr (drop (unat (first_free t1 ty i)) (page_elems t' i)), t')"
    using get_element_data_local [OF ok' i, of ee page] lg ee tn by simp
  moreover have "take (unat c) (drop (unat (first_free t1 ty i)) (page_elems t' i)) = take (unat c) recs"
    using eff by (simp add: add_effect_def inserted_def)
  ultimately show ?thesis using ok' ee by simp
qed

theorem addRecord_read_back_witness:
  "\<exists>ee t' xs. addRecord healthy_os 100 100 [7, 8] 2 0 sample_table = (Inr ee, t')
     \<and> get_element_data healthy_os ee t' = (Inr xs, t') \<and> take 2 xs = [7, 8]"
proof -
  have "has_room 100 2 sample_table" using sample_ready(6) sample_table_ok [of 0]
    by (auto simp: has_room_def index_at_def sample_table_def zero_object_def elem_capacity_def INDEX_ELEMENT_SIZE_def
        PAGE_INFORMATION_SIZE_def index_zero_def intro!: exI [of _ 0])
  then obtain ee t' where a: "addRecord healthy_os 100 100 [7, 8] 2 0 sample_table = (Inr ee, t')"
    using addRecord_total [OF sample_ready(1-4,7), of 2 "[7, 8]" 100] sample_ready(9) by auto
  with addRecord_read_back [OF sample_ready(1,4,7) _ a, of healthy_os] show ?thesis by fastforce
qed

text \<open>
  C22. Inserting loses nothing that was visible: unless memory is low, after a successful
  \<^verbatim>\<open>addRecord\<close> a scan at the same time visits every record it would have visited before
  and the new ones.
\<close>

theorem addRecord_keeps_visible:
  assumes "table_ok (sc_page_size os) t" and "recyclable os t" and "no_wrap t" and "time0 \<le> now" and "\<not> isMemLow os"
    and "now < expiry t now life" and "global_expire_at t < expiry t now life" and "unat c \<le> length recs"
    and "addRecord os time0 now recs c life t = (Inr ee, t')"
  shows "mset (contents now t) + mset (take (unat c) recs) \<subseteq># mset (contents now t')"
proof -
  have ex: "0 < expiry t now life" using assms(6) by (rule le_less_trans [OF word_zero_le])
  from addRecord_spec [OF assms(1,2) ex assms(8,9)] obtain ty i t1 t2 where
    eff: "add_effect os time0 now recs c life ty i t t1 t2 t'" and cs: "same_consts t t'" by auto
  have rel: "release_expired_memory_pages os time0 t = (Inr (), t1)" and ok1: "table_ok (sc_page_size os) t1"
    and rc1: "recyclable os t1" and ch: "choose_page os now c t1 = ((ty, i), t2)" and ty: "ty \<noteq> UNKNOWN"
    and ins: "inserted now recs c life ty i t1 t'" and g: "global_expire_at t' = global_expire_at t2"
    using eff by (auto simp: add_effect_def)
  note spec = choose_page_spec [OF table_ok_parts(1) [OF ok1] rc1 ch ty]
  have no: "ty \<noteq> OLDEST" using spec assms(5) by auto
  then have t2: "t2 = t1" using spec ty by (cases ty) auto
  note rs = release_expired_spec [OF assms(1) rel]
  have c1: "max_pages t1 = max_pages t" "expiry t1 = expiry t" "global_expire_at t1 = global_expire_at t" "max_pages t' = max_pages t"
    using rs cs by (auto simp: same_consts_def max_pages_def expiry_def fun_eq_iff)
  have "mset (contents now t1) + mset (take (unat c) recs) \<subseteq># mset (contents now t')"
  proof (rule inserted_contents [OF ins])
    show "i < max_pages t1" "max_pages t' = max_pages t1" using spec c1 by auto
    show "global_expire_at t' = global_expire_at t1" using g t2 by simp
    show "ty \<in> {NEW, EXPIRED, CURRENT}" using ty no by (cases ty) auto
    show "ty \<noteq> CURRENT \<longrightarrow> \<not> live now t1 i" using spec ty no by (cases ty) (auto simp: live_def)
    show "now < expiry t1 now life" "global_expire_at t1 < expiry t1 now life" using assms(6,7) c1 by auto
  qed
  then show ?thesis using release_contents [OF assms(1,3,4) rel] by simp
qed

theorem addRecord_keeps_visible_witness:
  "\<exists>ee t'. addRecord healthy_os 100 100 [7] 1 0 sample_table = (Inr ee, t') \<and> 7 \<in> set (contents 100 t')"
proof -
  obtain ee t' where a: "addRecord healthy_os 100 100 [7] 1 0 sample_table = (Inr ee, t')"
    using addRecord_total [OF sample_ready(1-4,7), of 1 "[7]" 100] sample_ready(6,9) by auto
  have "mset (contents 100 sample_table) + mset (take (unat (1::u32)) [7]) \<subseteq># mset (contents 100 t')"
    by (rule addRecord_keeps_visible [OF sample_ready(1,4,5) _ healthy_mem(2) _ _ _ a])
       (simp_all add: sample_ready(8), simp add: sample_table_def)
  then have "7 \<in># mset (contents 100 t')" by (auto dest: mset_subset_eqD)
  with a show ?thesis by auto
qed

text \<open>
  C25. A scan of a well-formed table returns, hands exactly the visible records to the
  processor, page after page, and leaves the table well formed with the same visible records.
\<close>

theorem processRecords_visits_contents:
  assumes "table_ok (sc_page_size os) t" and "serviceable os t" and "lock_named t" and "no_wrap t" and "time0 \<le> now"
  shows "\<exists>t'. processRecords os time0 now f p t = (Inr (foldl f p (contents now t)), t')
     \<and> table_ok (sc_page_size os) t' \<and> contents now t' = contents now t"
proof -
  obtain p' t' where run: "processRecords os time0 now f p t = (Inr p', t')" using processRecords_total [OF assms(1-3), of time0 now f p] by blast
  from processRecords_spec [OF assms(1,4,5) run] run show ?thesis by auto
qed

theorem processRecords_visits_contents_witness:
  "\<exists>t'. processRecords healthy_os 100 100 (\<lambda>acc e. acc @ [e]) [] sample_table = (Inr [], t')"
  using processRecords_visits_contents [OF sample_ready(1,2,3,5), of 100 100 "\<lambda>acc e. acc @ [e]" "[]"]
    sample_table_ok [of 100] by auto

text \<open>
  No operation reads or writes outside a mapped page, and on every path, exceptions
  included, insertion keeps the index and the data pages well formed.
\<close>

theorem table_memory_safe:
  assumes "table_ok (sc_page_size os) t" and "recyclable os t" and "0 < expiry t now life" and "unat c \<le> length recs"
    and "no_wrap t" and "time0 \<le> now"
  shows "fst (addRecord os time0 now recs c life t) \<noteq> Inl segv
    \<and> index_inv (snd (addRecord os time0 now recs c life t))
    \<and> data_inv (sc_page_size os) (snd (addRecord os time0 now recs c life t))
    \<and> fst (processRecords os time0 now f p t) \<noteq> Inl segv
    \<and> fst (release_expired_memory_pages os time0 t) \<noteq> Inl segv
    \<and> index_inv (snd (release_expired_memory_pages os time0 t))
    \<and> fst (cleanup os t) \<noteq> Inl segv"
proof -
  obtain r t' where a: "addRecord os time0 now recs c life t = (r, t')" by fastforce
  obtain r2 t2 where b: "processRecords os time0 now f p t = (r2, t2)" by fastforce
  obtain r3 t3 where d: "cleanup os t = (r3, t3)" by fastforce
  obtain r4 t4 where e: "release_expired_memory_pages os time0 t = (r4, t4)" by fastforce
  show ?thesis
    using addRecord_spec [OF assms(1-4) a] processRecords_spec [OF assms(1,5,6) b] cleanup_spec [OF assms(1) d]
      release_expired_spec [OF assms(1) e] a b d e by simp
qed

theorem table_memory_safe_witness:
  "fst (addRecord healthy_os 100 100 [7] 1 0 sample_table) \<noteq> Inl segv \<and> fst (cleanup healthy_os sample_table) \<noteq> Inl segv"
  using table_memory_safe [OF sample_ready(1,4,7) _ sample_ready(5), of 1 "[7]" 100 "\<lambda>p e. p" "()"] by simp

text \<open>
  C26. Maintenance removes only pages at the end of the index, at most five at a time and
  never the first one, and only pages that expired at least 60 seconds ago or before the
  global expiry; every other page keeps its entry and its records.
\<close>

theorem release_keeps_recent:
  assumes "table_ok (sc_page_size os) t" and "no_wrap t" and "release_expired_memory_pages os now t = (Inr (), t')"
  shows "table_ok (sc_page_size os) t' \<and>
    (\<exists>m n. m \<le> n \<and> n \<le> m + 5 \<and> (0 < n \<longrightarrow> 0 < m)
       \<and> (\<forall>j < m. index_at t' j = index_at t j \<and> stored t' j = stored t j)
       \<and> (\<forall>j < max_pages t. m \<le> j \<longrightarrow> expire_at (index_at t' j) = 0)
       \<and> (\<forall>j < max_pages t. m \<le> j \<longrightarrow> j < n \<longrightarrow>
            unat (expire_at (index_at t j)) + 60 \<le> unat now
            \<or> unat (expire_at (index_at t j)) + 60 \<le> unat (global_expire_at t)
            \<or> expire_at (index_at t j) = 0)
       \<and> (\<forall>j < max_pages t. n \<le> j \<longrightarrow> expire_at (index_at t j) = 0))"
proof -
  from release_expired_spec [OF assms(1,3)] obtain m n where ok: "table_ok (sc_page_size os) t'"
    and m: "m \<le> n" "n \<le> m + 5" "0 < n \<longrightarrow> 0 < m" "keeps_prefix m t t'" "keeps_prefix n t t"
    "\<forall>j < n. m \<le> j \<longrightarrow> \<not> maybe_in_use now (global_expire_at t) (index_at t j)" by auto
  have "unat (expire_at (index_at t j)) + 60 \<le> unat now \<or> unat (expire_at (index_at t j)) + 60 \<le> unat (global_expire_at t)
      \<or> expire_at (index_at t j) = 0" if j: "j < max_pages t" "m \<le> j" "j < n" for j
  proof -
    let ?e = "expire_at (index_at t j)"
    have u: "unat (?e + 60) = unat ?e + 60" using assms(2) j by (simp add: no_wrap_def unat_word_ariths)
    have "?e = 0 \<or> ?e + 60 \<le> now \<or> ?e + 60 \<le> global_expire_at t"
      using m(6) j by (auto simp: maybe_in_use_def MEMPAGE_REMOVE_EXPIRED_PAGES_DELAY_SEC_def not_less word_neq_0_conv)
    then show ?thesis unfolding word_le_nat_alt u by auto
  qed
  then show ?thesis using ok m unfolding keeps_prefix_def by blast
qed

theorem release_keeps_recent_witness:
  "\<exists>t'. release_expired_memory_pages healthy_os 100 sample_table = (Inr (), t') \<and> table_ok 4096 t'"
proof -
  obtain t' where a: "release_expired_memory_pages healthy_os 100 sample_table = (Inr (), t')"
    using release_total [OF sample_ready(1-3)] by blast
  from release_keeps_recent [OF sample_ready(1,5) a] a show ?thesis by (auto simp: healthy_os_def)
qed


definition full_table :: "u32 Table" where
  "full_table = set_index 0 \<lparr>expire_at = 300, page_elements_available = 0, ix_page_name = ''T:0'' @ replicate 17 NUL\<rparr> sample_table"

lemma full_table_index: "index_inv full_table \<and> recyclable low_memory_os full_table
  \<and> choose_page low_memory_os 100 1 full_table = ((OLDEST, 0), full_table\<lparr>global_expire_at := 300\<rparr>)"
proof -
  let ?r = "\<lparr>expire_at = 300, page_elements_available = 0, ix_page_name = ''T:0'' @ replicate 17 NUL\<rparr>"
  have inv: "index_inv sample_table" and mp: "max_pages sample_table = 2" using sample_table_ok [of 0] by (auto simp: table_ok_def)
  have n: "data_page_name ''T'' 0 = ''T:0''" by (simp add: data_page_name_def to_string_digit digit_char_0)
  have il: "0 < length (elements (table_index sample_table))" using inv mp by (auto simp: index_inv_def)
  have ok: "entry_ok sample_table 0 ?r"
    by (simp add: entry_ok_def own_name_def n MEMPAGE_NAME_MAX_LEN_def sample_table_def)
  then have i: "index_inv full_table" unfolding full_table_def using mp inv by (intro index_inv_set_index) auto
  have mp': "max_pages full_table = 2" using mp by (simp add: full_table_def)
  have x: "index_at full_table 0 = ?r" using il by (simp add: full_table_def index_at_set_index)
  have "index_at sample_table 1 = index_zero"
    by (simp add: index_at_def sample_table_def zero_object_def elem_capacity_def INDEX_ELEMENT_SIZE_def PAGE_INFORMATION_SIZE_def)
  then have y: "index_at full_table 1 = index_zero" by (simp add: full_table_def index_at_set_index)
  have len: "length (table_entries full_table) = 2" using length_table_entries [OF i] mp' by simp
  have "table_entries full_table = [?r, index_zero]"
    by (rule nth_equalityI) (use len x y mp' in \<open>auto simp: less_2_cases_iff table_entries_nth\<close>)
  then have "choose_page low_memory_os 100 1 full_table = ((OLDEST, 0), update_global_expire 300 full_table)"
    using healthy_mem x by (simp add: choose_page_def index_zero_def)
  moreover have "update_global_expire 300 full_table = full_table\<lparr>global_expire_at := 300\<rparr>"
    by (simp add: update_global_expire_def full_table_def set_index_def sample_table_def)
  ultimately show ?thesis using i x mp' by (simp add: recyclable_def)
qed


text \<open>
  \<^verbatim>\<open>cleanup\<close>, when it returns, leaves a well-formed table with no page in use and no
  visible record.
\<close>

theorem cleanup_empties:
  assumes "table_ok (sc_page_size os) t" and "cleanup os t = (Inr (), t')"
  shows "table_ok (sc_page_size os) t' \<and> contents now t' = [] \<and> (\<forall>i < max_pages t. expire_at (index_at t' i) = 0)"
  using cleanup_spec [OF assms, of now] by simp

theorem cleanup_empties_witness:
  "\<exists>t'. cleanup healthy_os sample_table = (Inr (), t') \<and> contents 100 t' = []"
proof -
  have z: "expire_at (index_at (relock s l sample_table) 0) = 0" for s l
    by (simp add: index_at_def sample_table_def zero_object_def elem_capacity_def INDEX_ELEMENT_SIZE_def PAGE_INFORMATION_SIZE_def index_zero_def)
  have mp: "max_pages sample_table = Suc 1" using sample_table_ok [of 0] by simp
  obtain s0 l0 s1 where eq: "critical (\<lambda>t. cleanup_loop healthy_os (max_pages t) 0 t) (\<lambda>_. modify release_open_pages) sample_table =
    (case cleanup_loop healthy_os (max_pages sample_table) 0 (relock s0 l0 sample_table) of
       (Inl e, t1) \<Rightarrow> (Inl e, relock s1 (lock sample_table) t1)
     | (Inr x, t1) \<Rightarrow> modify release_open_pages (relock s1 (lock sample_table) t1))"
    using critical_eq [of "\<lambda>t. cleanup_loop healthy_os (max_pages t) 0 t" "\<lambda>_. modify release_open_pages" sample_table,
      OF cleanup_inside_neutral release_open_pages_neutral table_ok_parts(5) [OF sample_ready(1)]] by auto
  then obtain t' where e: "cleanup healthy_os sample_table = (Inr (), t')"
    unfolding cleanup_critical using z mp by auto
  from cleanup_empties [OF sample_ready(1) e] e show ?thesis by blast
qed

theorem table_locks_released_witness:
  "locks_kept sample_table (snd (addRecord healthy_os 100 100 [7] 1 0 sample_table))
   \<and> locks_kept sample_table (snd (cleanup healthy_os sample_table))"
  using table_locks_released [OF table_ok_parts(5) [OF sample_ready(1)], of healthy_os 100 100 "[7]" 1 0 "\<lambda>p e. p" "()"] by blast

text \<open>
  The first insertion into an empty table while memory is low takes the path for the
  oldest page although there is none: the entry becomes used but gets no page name, and from
  then on every scan of it fails with \<^verbatim>\<open>EMPTY_PAGE_NAME\<close>.
\<close>

theorem oldest_on_empty_table:
  assumes "isMemLow os" and "0 < f_blocks os" and "0 < max_pages t" and "max_pages t \<le> length (elements (table_index t))"
    and "index_at t 0 = index_zero" and "0 < expiry t now life"
    and "localGetPageByName (opened_pages_list t) [] = None"
  shows "\<exists>ip t'. reserve os now c life t = (Inr ip, t') \<and> ip_type ip = OLDEST
    \<and> 0 < expire_at (index_at t' 0) \<and> cstr (ix_page_name (index_at t' 0)) = []
    \<and> fst (scan_page os' f 0 p t') = Inl (Error (''EMPTY_PAGE_NAME'' @ [LF]) InternalError)"
proof -
  have il: "0 < length (elements (table_index t))" using assms(3,4) by (rule less_le_trans)
  obtain rs where ent: "table_entries t = index_zero # rs"
    using assms(3,5) il by (cases "elements (table_index t)"; cases "max_pages t") (auto simp: table_entries_def index_at_def)
  have ch: "choose_page os now c t = ((OLDEST, 0), t)"
    using assms(1,5) by (simp add: choose_page_def ent index_zero_def update_global_expire_def)
  let ?e = "\<lparr>expire_at = expiry t now life, page_elements_available = max_elements_in_page t - c,
      ix_page_name = replicate MEMPAGE_NAME_MAX_LEN NUL\<rparr>"
  have ex: "expiry (set_index 0 r t) now life = expiry t now life" for r by (simp add: expiry_def)
  have run: "\<exists>ip. reserve os now c life t = (Inr ip, set_index 0 ?e t) \<and> ip_type ip = OLDEST"
    using il assms(5) low_test_blocks [OF assms(2)]
    by (simp add: reserve_def ch Let_def prepare_page_def clear_index_record_def update_record_expire_eq index_at_set_index
        ex set_index_twice index_zero_def)
  have ix: "index_at (set_index 0 ?e t) 0 = ?e" using il by (simp add: index_at_set_index)
  have cs: "cstr (replicate MEMPAGE_NAME_MAX_LEN NUL) = []" by (simp add: cstr_def takeWhile_replicate)
  have "fst (scan_page os' f 0 p (set_index 0 ?e t)) = Inl (Error (''EMPTY_PAGE_NAME'' @ [LF]) InternalError)"
    using assms(7) by (simp add: scan_page_def ix cs sbind_def getPageByName_def SharedMemoryPage_new_def)
  then show ?thesis using run ix cs assms(6) by auto
qed

theorem oldest_on_empty_table_witness:
  "\<exists>ip t'. reserve low_memory_os 100 1 0 sample_table = (Inr ip, t')
     \<and> fst (scan_page healthy_os (\<lambda>n _. n + 1) 0 (0::nat) t') = Inl (Error (''EMPTY_PAGE_NAME'' @ [LF]) InternalError)"
proof -
  have "index_inv sample_table" "max_pages sample_table = 2" using sample_table_ok [of 0] by (auto simp: table_ok_def)
  moreover have "index_at sample_table 0 = index_zero"
    by (simp add: index_at_def sample_table_def zero_object_def elem_capacity_def INDEX_ELEMENT_SIZE_def PAGE_INFORMATION_SIZE_def)
  moreover have "localGetPageByName (opened_pages_list sample_table) [] = None" by (simp add: sample_table_def)
  ultimately show ?thesis
    using oldest_on_empty_table [OF healthy_mem(4) mem_blocks(1) [OF healthy_mem(3)], of sample_table 100 0 1 healthy_os "\<lambda>(n::nat) _. n + 1" 0] sample_ready(7)
    by (auto simp: index_inv_def)
qed

end
