(* ===== verification/DealsQuery.thy ===== *)
theory DealsQuery
  imports SearchQuery DealsTypes TableContents
begin

text \<open>
  Model of \<^verbatim>\<open>src/deals_query.hpp\<close> and \<^verbatim>\<open>src/deals_query.cpp\<close>: \<^verbatim>\<open>DealsSearchQuery\<close>, the
  base of the aggregations.  Its virtual functions are arguments of the definitions that call
  them; the table it refers to is the state that \<open>execute\<close> runs on.
\<close>

unbundle bit_operations_syntax

section \<open>Filtering and execution\<close>

definition process_element :: "('x query \<Rightarrow> DealInfo \<Rightarrow> 'x query) \<Rightarrow> 'x query \<Rightarrow> DealInfo \<Rightarrow> 'x query" where
  "process_element process_deal q deal =
     (if d_timestamp deal \<le> min_timestamp q then q
      else if filter_origin q \<and> origin_value q \<noteq> d_origin deal then q
      else if filter_timestamp q \<and> timestamp_value q > d_timestamp deal then q
      else if filter_flight_by_roundtrip q \<and>
              (if roundtrip_flight_flag q then d_return_date deal = 0 else d_return_date deal \<noteq> 0) then q
      else if filter_destination q \<and> d_destination deal \<notin> destination_values_set q then q
      else if filter_destination_country q \<and> d_destination_country deal \<notin> destination_country_set q then q
      else if filter_departure_date q \<and>
              (d_departure_date deal < di_from (departure_date_values q) \<or>
               d_departure_date deal > di_to (departure_date_values q)) then q
      else if filter_return_date q \<and>
              (d_return_date deal < di_from (return_date_values q) \<or>
               d_return_date deal > di_to (return_date_values q)) then q
      else if filter_exact_date q \<and> d_return_date deal \<noteq> exact_date_value q \<and>
              d_departure_date deal \<noteq> exact_date_value q then q
      else if filter_stay_days q \<and>
              (d_stay_days deal < si_from (stay_days_values q) \<or>
               d_stay_days deal > si_to (stay_days_values q)) then q
      else if filter_flight_by_stops q \<and> direct_flights_flag q \<noteq> d_direct deal then q
      else if filter_departure_weekdays q \<and> d_departure_day_of_week deal AND departure_weekdays_bitmask q = 0 then q
      else if filter_return_weekdays q \<and> d_return_day_of_week deal AND return_weekdays_bitmask q = 0 then q
      else process_deal q deal)"

text \<open>
  \<open>ts\<close> is the time that \<^verbatim>\<open>execute\<close> reads itself, \<open>time0\<close> and \<open>now\<close> are the times read by
  the scan.
\<close>

definition execute ::
  "os \<Rightarrow> u32 \<Rightarrow> u32 \<Rightarrow> u32 \<Rightarrow> ('x query \<Rightarrow> 'x query result) \<Rightarrow> ('x query \<Rightarrow> DealInfo \<Rightarrow> 'x query) \<Rightarrow>
   ('x query \<Rightarrow> 'x query) \<Rightarrow> ('x query \<Rightarrow> DealInfo list) \<Rightarrow> 'x query \<Rightarrow> (DealInfo Table, DealInfo list) op" where
  "execute os ts time0 now pre_search process_deal post_search get_result q t =
     (case pre_search q of
        Inl e \<Rightarrow> (Inl e, t)
      | Inr q \<Rightarrow>
          sbind (processRecords os time0 now (process_element process_deal)
                   (q\<lparr>min_timestamp := max (global_expire_at t) ts - DEALS_EXPIRES\<rparr>))
            (\<lambda>q. let q = post_search q; result = get_result q
                 in ret (if length result > unat (filter_result_limit q)
                         then take (unat (filter_result_limit q)) result else result)) t)"

section \<open>The filter as a condition\<close>

definition matches :: "'x query \<Rightarrow> DealInfo \<Rightarrow> bool" where
  "matches q deal \<longleftrightarrow>
     d_timestamp deal > min_timestamp q \<and>
     (filter_origin q \<longrightarrow> origin_value q = d_origin deal) \<and>
     (filter_timestamp q \<longrightarrow> timestamp_value q \<le> d_timestamp deal) \<and>
     (filter_flight_by_roundtrip q \<longrightarrow> (if roundtrip_flight_flag q then d_return_date deal \<noteq> 0 else d_return_date deal = 0)) \<and>
     (filter_destination q \<longrightarrow> d_destination deal \<in> destination_values_set q) \<and>
     (filter_destination_country q \<longrightarrow> d_destination_country deal \<in> destination_country_set q) \<and>
     (filter_departure_date q \<longrightarrow> d_departure_date deal \<in>
        {di_from (departure_date_values q) .. di_to (departure_date_values q)}) \<and>
     (filter_return_date q \<longrightarrow> d_return_date deal \<in>
        {di_from (return_date_values q) .. di_to (return_date_values q)}) \<and>
     (filter_exact_date q \<longrightarrow> d_return_date deal = exact_date_value q \<or> d_departure_date deal = exact_date_value q) \<and>
     (filter_stay_days q \<longrightarrow> d_stay_days deal \<in> {si_from (stay_days_values q) .. si_to (stay_days_values q)}) \<and>
     (filter_flight_by_stops q \<longrightarrow> direct_flights_flag q = d_direct deal) \<and>
     (filter_departure_weekdays q \<longrightarrow> d_departure_day_of_week deal AND departure_weekdays_bitmask q \<noteq> 0) \<and>
     (filter_return_weekdays q \<longrightarrow> d_return_day_of_week deal AND return_weekdays_bitmask q \<noteq> 0)"

lemma guard_skip: "(\<not> a \<Longrightarrow> r = q) \<Longrightarrow> (if a then q else r) = q"
  and guard_pass: "\<not> a \<Longrightarrow> r = p \<Longrightarrow> (if a then q else r) = p"
  by simp_all

lemma process_element_skip: "\<not> matches q deal \<Longrightarrow> process_element process_deal q deal = q"
  unfolding process_element_def
  apply (rule guard_skip)+
  apply (erule notE)
  unfolding matches_def
  apply (intro conjI impI)
  apply (simp_all add: not_le not_less split: if_splits)
  done

lemma process_element_pass: "matches q deal \<Longrightarrow> process_element process_deal q deal = process_deal q deal"
  unfolding process_element_def matches_def
  apply (elim conjE)
  apply (rule guard_pass, simp add: not_le not_less)+
  apply (rule refl)
  done

lemma process_element_matches:
  "process_element process_deal q deal = (if matches q deal then process_deal q deal else q)"
  by (simp add: process_element_skip process_element_pass)

section \<open>Execution over the visible deals\<close>

text \<open>A table whose scan at \<open>now\<close> succeeds and visits exactly its visible records.\<close>

definition scannable :: "os \<Rightarrow> u32 \<Rightarrow> u32 \<Rightarrow> 'e Table \<Rightarrow> bool" where
  "scannable os time0 now t \<longleftrightarrow> table_ok (sc_page_size os) t \<and> serviceable os t \<and> lock_named t \<and> no_wrap t \<and> time0 \<le> now"

lemma processRecords_scannable:
  assumes "scannable os time0 now t"
  obtains t' where "processRecords os time0 now f p t = (Inr (foldl f p (contents now t)), t')"
    "table_ok (sc_page_size os) t'" "contents now t' = contents now t"
proof -
  have h: "table_ok (sc_page_size os) t" "serviceable os t" "lock_named t" "no_wrap t" "time0 \<le> now"
    using assms by (simp_all add: scannable_def)
  obtain p' t' where run: "processRecords os time0 now f p t = (Inr p', t')"
    using processRecords_total [OF h(1-3), of time0 now f p] by blast
  show thesis using that [of t'] run processRecords_spec [OF h(1,4,5) run] by auto
qed

definition search_time :: "u32 \<Rightarrow> 'e Table \<Rightarrow> 'x query \<Rightarrow> 'x query" where
  "search_time ts t q = q\<lparr>min_timestamp := max (global_expire_at t) ts - DEALS_EXPIRES\<rparr>"

lemma execute_error: "pre_search q = Inl e \<Longrightarrow> execute os ts time0 now pre_search pd post res q t = (Inl e, t)"
  by (simp add: execute_def)

lemma execute_scannable:
  assumes "scannable os time0 now t" "pre_search q = Inr q0"
  obtains t' where
    "execute os ts time0 now pre_search process_deal post_search get_result q t =
       (let q1 = post_search (foldl (process_element process_deal) (search_time ts t q0) (contents now t))
        in Inr (take (unat (filter_result_limit q1)) (get_result q1)), t')"
    "table_ok (sc_page_size os) t'" "contents now t' = contents now t"
proof -
  from processRecords_scannable [OF assms(1), of "process_element process_deal" "search_time ts t q0"]
  obtain t' where "processRecords os time0 now (process_element process_deal) (search_time ts t q0) t =
      (Inr (foldl (process_element process_deal) (search_time ts t q0) (contents now t)), t')"
    "table_ok (sc_page_size os) t'" "contents now t' = contents now t" by blast
  then show thesis using that [of t'] assms(2) by (simp add: execute_def search_time_def Let_def)
qed

end
