(* ===== verification/Samples.thy ===== *)
theory Samples
  imports DealsQuery
begin

text \<open>
  A concrete table with two pages of four elements, the first of which holds given records:
  the state on which the theorems about searches are applied.
\<close>

definition one_page :: "string \<Rightarrow> nat \<Rightarrow> 'e \<Rightarrow> 'e list \<Rightarrow> 'e Table" where
  "one_page name esz zero recs = \<lparr>
     table_index = \<lparr>st_size = 4096, unlinked = False, expiration_check = 0,
       elements = [\<lparr>expire_at = 90000, page_elements_available = 4 - word_of_nat (length recs),
                    ix_page_name = name @ '':0'' @ replicate (18 - length name) NUL\<rparr>, index_zero]\<rparr>,
     data_shm = \<lparr>names = [name @ '':0'' \<mapsto> 0],
       objects = [\<lparr>st_size = 4096, unlinked = False, expiration_check = 0,
                   elements = recs @ replicate (elem_capacity esz 4096 - length recs) zero\<rparr>]\<rparr>,
     global_expire_at = 0, sems = [name \<mapsto> 1],
     opened_pages_list = [], time_to_check_page_expire = 0,
     lock = \<lparr>cs_name = name, unlock_needed = False\<rparr>, table_name = name, table_max_pages = 2,
     max_elements_in_page = 4, record_expire_seconds = 86400, elem_size = esz, elem_zero = zero\<rparr>"

definition sample_name :: "string \<Rightarrow> bool" where
  "sample_name name \<longleftrightarrow> length name \<le> 12 \<and> NUL \<notin> set name"

lemma one_page_basics:
  "max_pages (one_page name esz zero recs) = 2" "table_name (one_page name esz zero recs) = name"
  "lock_named (one_page name esz zero recs)" "global_expire_at (one_page name esz zero recs) = 0"
  "max_elements_in_page (one_page name esz zero recs) = 4"
  by (simp_all add: one_page_def max_pages_def lock_named_def)

lemma one_page_index:
  "index_at (one_page name esz zero recs) 0 = \<lparr>expire_at = 90000, page_elements_available = 4 - word_of_nat (length recs),
     ix_page_name = name @ '':0'' @ replicate (18 - length name) NUL\<rparr>"
  "index_at (one_page name esz zero recs) (Suc 0) = index_zero"
  by (simp_all add: one_page_def index_at_def)

lemma page_name_01: "data_page_name name 0 = name @ '':0''" "data_page_name name (Suc 0) = name @ '':1''"
  by (simp_all add: data_page_name_def to_string_digit digit_char_0) (simp add: digit_char_def, code_simp)

lemma page_bytes_4:
  assumes "0 < esz" "esz \<le> 1000"
  shows "page_bytes 4096 esz 4 = 4096"
proof -
  have "unat (word_of_nat (8 + esz * 4) :: u32) = 8 + esz * 4" 
    using assms by (simp only: unat_of_nat) simp
  moreover have "(8 + esz * 4) div 4096 = 0" using assms by simp
  ultimately show ?thesis by (simp add: page_bytes_def PAGE_INFORMATION_SIZE_def Let_def del: of_nat_add of_nat_mult)
qed

lemma capacity_4: "0 < esz \<Longrightarrow> esz \<le> 1000 \<Longrightarrow> 4 \<le> elem_capacity esz 4096"
  by (simp add: elem_capacity_def PAGE_INFORMATION_SIZE_def less_eq_div_iff_mult_less_eq)


lemma small_available:
  assumes "n \<le> 4"
  shows "(4 - word_of_nat n :: u32) \<le> 4"
proof -
  from assms consider "n = 0" | "n = 1" | "n = 2" | "n = 3" | "n = 4" by linarith
  then show ?thesis by cases simp_all
qed

lemma one_page_index_inv:
  assumes "sample_name name" "length recs \<le> 4"
  shows "index_inv (one_page name esz zero recs)"
proof -
  let ?t = "one_page name esz zero recs"
  have "names_fit ?t" using assms(1)
    by (auto simp: names_fit_def one_page_basics sample_name_def less_2_cases_iff page_name_01 MEMPAGE_NAME_MAX_LEN_def)
  moreover have "(4 - word_of_nat (length recs) :: u32) \<le> 4" using assms(2)
    by (rule small_available)
  then have "entry_ok ?t 0 (index_at ?t 0)" using assms(1)
    by (simp add: entry_ok_def own_name_def one_page_basics one_page_index page_name_01 MEMPAGE_NAME_MAX_LEN_def sample_name_def)
  moreover have "entry_ok ?t (Suc 0) (index_at ?t (Suc 0))"
    by (simp add: entry_ok_def one_page_index index_zero_def)
  moreover have "max_pages ?t \<le> length (elements (table_index ?t))" by (simp add: one_page_basics) (simp add: one_page_def)
  ultimately show ?thesis
    by (auto simp: index_inv_def one_page_basics less_2_cases_iff one_page_index index_zero_def)
qed

lemma one_page_elems:
  "page_elems (one_page name esz zero recs) 0 = recs @ replicate (elem_capacity esz 4096 - length recs) zero"
  by (simp add: page_elems_def one_page_def page_name_01)

lemma one_page_stored: "length recs \<le> 4 \<Longrightarrow> stored (one_page name esz zero recs) 0 = recs"
  by (simp add: stored_def used_def one_page_basics one_page_index one_page_elems unat_of_nat)

lemma one_page_table_ok:
  assumes "sample_name name" "length recs \<le> 4" "0 < esz" "esz \<le> 1000"
  shows "table_ok 4096 (one_page name esz zero recs)"
proof -
  let ?t = "one_page name esz zero recs"
  have d: "data_inv 4096 ?t" using capacity_4 [OF assms(3,4)] assms(2)
    by (auto simp: data_inv_def one_page_def page_bytes_4 [OF assms(3,4)] shm_inv_def split: if_splits)
  have "page_backed ?t 0" using capacity_4 [OF assms(3,4)] assms(2)
    by (simp add: page_backed_def one_page_elems one_page_basics page_name_01) (simp add: one_page_def)
  then have "backed ?t" by (auto simp: backed_def one_page_basics less_2_cases_iff one_page_index index_zero_def)
  moreover have "synced ?t" by (simp add: synced_def one_page_def)
  moreover have "lock_idle ?t" by (auto simp: lock_idle_def sem_bounded_def one_page_def SEM_VALUE_MAX_def split: if_splits)
  ultimately show ?thesis using d one_page_index_inv [OF assms(1,2)] by (simp add: table_ok_def)
qed

lemma one_page_contents: "length recs \<le> 4 \<Longrightarrow> now < 90000 \<Longrightarrow> contents now (one_page name esz zero recs) = recs"
  by (simp add: contents_def one_page_basics upt_rec live_def one_page_index index_zero_def one_page_stored)

lemma one_page_scannable:
  assumes "sample_name name" "length recs \<le> 4" "0 < esz" "esz \<le> 1000"
  shows "scannable healthy_os now now (one_page name esz zero recs)"
proof -
  let ?t = "one_page name esz zero recs"
  have "serviceable healthy_os ?t" using healthy_mem
    by (auto simp: serviceable_def all_ok_def shm_sized_def sem_bounded_def one_page_def healthy_os_def
        page_bytes_4 [OF assms(3,4)] SEM_VALUE_MAX_def data_page_name_def split: if_splits)
  moreover have "no_wrap ?t" by (auto simp: no_wrap_def one_page_basics less_2_cases_iff one_page_index index_zero_def)
  ultimately show ?thesis using one_page_table_ok [OF assms] one_page_basics(3)
    by (simp add: scannable_def healthy_os_def)
qed

definition sample_deal :: "u32 \<Rightarrow> u32 \<Rightarrow> u32 \<Rightarrow> u32 \<Rightarrow> DealInfo" where
  "sample_deal dst dep price ts = deal_zero
     \<lparr>d_timestamp := ts, d_origin := 7, d_destination := dst, d_departure_date := dep, d_price := price\<rparr>"

text \<open>Arbitrary memory for a query object, with every flag set.\<close>

definition raw_query :: SearchQuery where
  "raw_query = \<lparr>
     departure_return_max_duration = 1, min_timestamp = 1, filter_origin = True, origin_value = 1,
     filter_destination = True, destination_values_set = {1}, filter_destination_country = True,
     destination_country_set = {1}, filter_departure_date = True,
     departure_date_values = \<lparr>di_from = 1, di_to = 1, di_duration = 1\<rparr>, filter_return_date = True,
     return_date_values = \<lparr>di_from = 1, di_to = 1, di_duration = 1\<rparr>, filter_exact_date = True,
     exact_date_value = 1, filter_timestamp = True, timestamp_value = 1, filter_flight_by_stops = True,
     direct_flights_flag = True, filter_flight_by_roundtrip = True, roundtrip_flight_flag = True,
     filter_departure_weekdays = True, departure_weekdays_bitmask = 1, filter_return_weekdays = True,
     return_weekdays_bitmask = 1, filter_stay_days = True, stay_days_values = \<lparr>si_from = 1, si_to = 1\<rparr>,
     filter_result_limit = 1, filter_locale = True, locale_value = 1, filter_all_combinations = True\<rparr>"

abbreviation deals_table :: "DealInfo list \<Rightarrow> DealInfo Table" where
  "deals_table \<equiv> one_page ''DealsInfo'' DEALINFO_SIZE deal_zero"

lemma deals_table_ready:
  "length ds \<le> 4 \<Longrightarrow> scannable healthy_os now now (deals_table ds)"
  "length ds \<le> 4 \<Longrightarrow> now < 90000 \<Longrightarrow> contents now (deals_table ds) = ds"
  by (simp_all add: one_page_scannable one_page_contents sample_name_def DEALINFO_SIZE_def)

end
