(* ===== verification/Aggregation.thy ===== *)
theory Aggregation
  imports Samples
begin

text \<open>
  What the three aggregations of deals have in common.  Each groups the matching deals by a
  32-bit key, remembers the current deal and the price history of every group, and afterwards
  picks one deal per history and sorts.  The locale \<open>deal_grouping\<close> states this contract of
  \<^verbatim>\<open>process_deal\<close>, \<open>deal_aggregation\<close> adds \<^verbatim>\<open>post_search\<close> and \<^verbatim>\<open>get_result\<close>; the results are
  proved once and reach the classes through interpretations.
\<close>

section \<open>One group\<close>

text \<open>The current deal of a group and its history, after one more deal.\<close>

definition choose_deal :: "DealInfo \<times> DealInfo list \<Rightarrow> DealInfo \<Rightarrow> DealInfo \<times> DealInfo list" where
  "choose_deal st deal = (case st of (dst_deal, hist) \<Rightarrow>
     if d_price dst_deal = 0 \<or> d_price deal \<le> d_price dst_deal
     then if deal_equal deal dst_deal \<and> d_timestamp dst_deal > d_timestamp deal then (dst_deal, hist)
          else (deal, hist @ [deal])
     else if deal_equal deal dst_deal \<and> d_timestamp dst_deal < d_timestamp deal
          then (deal\<lparr>d_overriden := True\<rparr>, hist @ [deal])
          else (dst_deal, hist))"

definition chosen :: "DealInfo list \<Rightarrow> DealInfo \<times> DealInfo list" where
  "chosen ds = foldl choose_deal (deal_zero, []) ds"

definition group_result :: "DealInfo list \<Rightarrow> DealInfo" where
  "group_result ds = findCheapestAndLast (snd (chosen ds))"

lemma chosen_Nil [simp]: "chosen [] = (deal_zero, [])"
  by (simp add: chosen_def)

lemma chosen_snoc [simp]: "chosen (ds @ [d]) = choose_deal (chosen ds) d"
  by (simp add: chosen_def)

lemma choose_deal_cases:
  "choose_deal st d = st \<or> choose_deal st d = (d, snd st @ [d]) \<or> choose_deal st d = (d\<lparr>d_overriden := True\<rparr>, snd st @ [d])"
  by (cases st) (simp add: choose_deal_def)

lemma choose_zero: "choose_deal (deal_zero, h) d = (d, h @ [d])"
  by (auto simp: choose_deal_def deal_zero_def)

lemma chosen_single [simp]: "chosen [d] = (d, [d])"
  using chosen_snoc [of "[]" d] by (simp add: choose_zero)

lemma chosen_history_mem: "set (snd (chosen ds)) \<subseteq> set ds"
proof (induction ds rule: rev_induct)
  case (snoc d ds)
  then show ?case using choose_deal_cases [of "chosen ds" d] by auto
qed simp

lemma chosen_history_nonempty: "ds \<noteq> [] \<Longrightarrow> snd (chosen ds) \<noteq> []"
proof (induction ds rule: rev_induct)
  case (snoc d ds)
  show ?case
  proof (cases "ds = []")
    case True
    then show ?thesis by simp
  next
    case False
    with snoc show ?thesis using choose_deal_cases [of "chosen ds" d] by auto
  qed
qed simp

lemma group_result_mem: "ds \<noteq> [] \<Longrightarrow> group_result ds \<in> set ds"
  using findCheapestAndLast_mem [OF chosen_history_nonempty] chosen_history_mem [of ds]
  by (auto simp: group_result_def)

text \<open>The current deal is the last of the history, up to the mark that it overrides.\<close>

definition same_deal :: "DealInfo \<Rightarrow> DealInfo \<Rightarrow> bool" where
  "same_deal d e \<longleftrightarrow> d = e \<or> d = e\<lparr>d_overriden := True\<rparr>"

lemma same_dealD:
  "same_deal d e \<Longrightarrow> d_price d = d_price e \<and> d_timestamp d = d_timestamp e \<and> (deal_equal x d \<longleftrightarrow> deal_equal x e)"
  by (auto simp: same_deal_def deal_equal_def)

lemma chosen_current:
  "ds \<noteq> [] \<Longrightarrow> \<exists>h r. snd (chosen ds) = h @ [r] \<and> same_deal (fst (chosen ds)) r \<and> r \<in> set ds"
proof (induction ds rule: rev_induct)
  case (snoc d ds)
  show ?case
  proof (cases "ds = []")
    case True
    then show ?thesis by (simp add: same_deal_def)
  next
    case False
    with snoc show ?thesis using choose_deal_cases [of "chosen ds" d] by (auto simp: same_deal_def)
  qed
qed simp

text \<open>
  When the deals come in the order of their timestamps, the chosen one is the newest of its
  kind, and whatever came after it is dearer.
\<close>

definition later_dearer :: "DealInfo list \<Rightarrow> DealInfo \<Rightarrow> bool" where
  "later_dearer ds r \<longleftrightarrow> (\<exists>xs ys. ds = xs @ r # ys \<and> (\<forall>d \<in> set ys. d_price r < d_price d))"

definition time_ordered :: "DealInfo list \<Rightarrow> bool" where
  "time_ordered ds \<longleftrightarrow> sorted (map d_timestamp ds)"

lemma time_ordered_snoc:
  "time_ordered (ds @ [d]) \<longleftrightarrow> time_ordered ds \<and> (\<forall>e \<in> set ds. d_timestamp e \<le> d_timestamp d)"
  by (simp add: time_ordered_def sorted_append)

lemma up_to_date_append: "up_to_date (xs @ ys) r \<longleftrightarrow> up_to_date xs r \<and> up_to_date ys r"
  by (auto simp: up_to_date_def)

lemma later_dearer_snoc:
  assumes "later_dearer ds r" "d_price r < d_price d"
  shows "later_dearer (ds @ [d]) r"
proof -
  from assms(1) obtain xs ys where "ds = xs @ r # ys" "\<forall>d \<in> set ys. d_price r < d_price d"
    unfolding later_dearer_def by blast
  then show ?thesis unfolding later_dearer_def
    by (intro exI [of _ xs] exI [of _ "ys @ [d]"]) (use assms(2) in auto)
qed

lemma later_dearer_last: "later_dearer (ds @ [d]) d"
  unfolding later_dearer_def by (intro exI [of _ ds] exI [of _ "[]"]) simp

lemma chosen_time_ordered:
  "ds \<noteq> [] \<Longrightarrow> time_ordered ds \<Longrightarrow> \<forall>d \<in> set ds. d_price d \<noteq> 0 \<Longrightarrow>
   up_to_date ds (last (snd (chosen ds))) \<and> later_dearer ds (last (snd (chosen ds)))"
proof (induction ds rule: rev_induct)
  case (snoc d ds)
  let ?r = "last (snd (chosen ds))"
  have ud: "up_to_date (ds @ [d]) d" using snoc.prems(2)
    by (auto simp: up_to_date_def time_ordered_snoc)
  have ld: "later_dearer (ds @ [d]) d" by (rule later_dearer_last)
  show ?case
  proof (cases "ds = []")
    case True
    then show ?thesis using ud ld by simp
  next
    case False
    obtain dst h where ch: "chosen ds = (dst, h)" by force
    from chosen_current [OF False] ch obtain h' r where h: "h = h' @ [r]" and sd: "same_deal dst r" and r: "r \<in> set ds" by auto
    have IH: "up_to_date ds r" "later_dearer ds r" using snoc False ch h by (auto simp: time_ordered_snoc)
    have ts: "d_timestamp r \<le> d_timestamp d" using snoc.prems(2) r by (simp add: time_ordered_snoc)
    have pr: "d_price r \<noteq> 0" using snoc.prems(3) r by simp
    note sdr = same_dealD [OF sd, of d]
    show ?thesis
    proof (cases "choose_deal (dst, h) d = (dst, h)")
      case True
      then have "d_price r < d_price d" and "deal_equal d r \<longrightarrow> d_timestamp d \<le> d_timestamp r"
        using sdr pr ts h by (auto simp: choose_deal_def not_le not_less split: if_splits)
      then have "up_to_date (ds @ [d]) r" "later_dearer (ds @ [d]) r"
        using IH later_dearer_snoc by (auto simp: up_to_date_append) (auto simp: up_to_date_def)
      then show ?thesis using True ch h by simp
    next
      case ne: False
      then have "snd (choose_deal (dst, h) d) = h @ [d]"
        using choose_deal_cases [of "(dst, h)" d] by auto
      then show ?thesis using ud ld ch by simp
    qed
  qed
qed simp

lemma up_to_date_subset: "up_to_date ds r \<Longrightarrow> set es \<subseteq> set ds \<Longrightarrow> up_to_date es r"
  by (auto simp: up_to_date_def)

lemma group_result_last:
  assumes "ds \<noteq> []" "up_to_date ds (last (snd (chosen ds)))"
  shows "group_result ds = last (snd (chosen ds))"
proof -
  have ne: "snd (chosen ds) \<noteq> []" by (rule chosen_history_nonempty [OF assms(1)])
  have "up_to_date (snd (chosen ds)) (last (snd (chosen ds)))"
    by (rule up_to_date_subset [OF assms(2) chosen_history_mem])
  then have "up_to_date (butlast (snd (chosen ds)) @ [last (snd (chosen ds))]) (last (snd (chosen ds)))"
    using ne by simp
  from findCheapestAndLast_up_to_date [OF this] ne show ?thesis by (simp add: group_result_def)
qed

lemma group_result_time_ordered:
  assumes "ds \<noteq> []" "time_ordered ds" "\<forall>d \<in> set ds. d_price d \<noteq> 0"
  shows "up_to_date ds (group_result ds) \<and> later_dearer ds (group_result ds)"
  using chosen_time_ordered [OF assms] group_result_last [OF assms(1)] by simp

text \<open>
  When a trip that is found again is not dearer and not older than before, the chosen deal is a
  cheapest one, and the newest of its trip; in particular when no two deals of the group are for the
  same trip, or when those that are do not differ.
\<close>

definition falling :: "DealInfo list \<Rightarrow> bool" where
  "falling ds \<longleftrightarrow> sorted_wrt (\<lambda>d e. deal_equal d e \<longrightarrow> d_price e \<le> d_price d \<and> d_timestamp d \<le> d_timestamp e) ds"

definition steady :: "DealInfo list \<Rightarrow> bool" where
  "steady ds \<longleftrightarrow> (\<forall>d \<in> set ds. \<forall>e \<in> set ds. deal_equal d e \<longrightarrow> d_price d = d_price e \<and> d_timestamp d = d_timestamp e)"

definition no_repeats :: "DealInfo list \<Rightarrow> bool" where
  "no_repeats ds \<longleftrightarrow> sorted_wrt (\<lambda>d e. \<not> deal_equal d e) ds"

lemma no_repeats_snoc: "no_repeats (ds @ [d]) \<longleftrightarrow> no_repeats ds \<and> (\<forall>e \<in> set ds. \<not> deal_equal e d)"
  by (auto simp: no_repeats_def sorted_wrt_append)

lemma no_repeats_falling: "no_repeats ds \<Longrightarrow> falling ds"
  unfolding no_repeats_def falling_def by (erule sorted_wrt_mono_rel [rotated]) simp

lemma steady_falling:
  assumes "steady ds"
  shows "falling ds"
  unfolding falling_def sorted_wrt_iff_nth_less
proof (intro allI impI)
  fix i j assume h: "i < j" "j < length ds" "deal_equal (ds ! i) (ds ! j)"
  have "ds ! i \<in> set ds" "ds ! j \<in> set ds" using h(1,2) by simp_all
  from bspec [OF bspec [OF assms [unfolded steady_def] this(1)] this(2)] h(3)
  show "d_price (ds ! j) \<le> d_price (ds ! i) \<and> d_timestamp (ds ! i) \<le> d_timestamp (ds ! j)" by simp
qed

lemma falling_snoc: "falling (ds @ [d]) \<longleftrightarrow> falling ds \<and>
    (\<forall>e \<in> set ds. deal_equal e d \<longrightarrow> d_price d \<le> d_price e \<and> d_timestamp e \<le> d_timestamp d)"
  by (simp add: falling_def sorted_wrt_append)

lemma chosen_falling:
  "ds \<noteq> [] \<Longrightarrow> falling ds \<Longrightarrow> \<forall>d \<in> set ds. d_price d \<noteq> 0 \<Longrightarrow>
   up_to_date ds (last (snd (chosen ds))) \<and> (\<forall>d \<in> set ds. d_price (last (snd (chosen ds))) \<le> d_price d)"
proof (induction ds rule: rev_induct)
  case (snoc d ds)
  have new: "\<forall>e \<in> set ds. deal_equal e d \<longrightarrow> d_price d \<le> d_price e \<and> d_timestamp e \<le> d_timestamp d"
    using snoc.prems(2) by (simp add: falling_snoc)
  have ud: "up_to_date (ds @ [d]) d" using new by (auto simp: up_to_date_def)
  show ?case
  proof (cases "ds = []")
    case True
    then show ?thesis using ud by simp
  next
    case False
    obtain dst h where ch: "chosen ds = (dst, h)" by force
    from chosen_current [OF False] ch obtain h' r where h: "h = h' @ [r]" and sd: "same_deal dst r" and r: "r \<in> set ds" by auto
    have IH: "up_to_date ds r" "\<forall>e \<in> set ds. d_price r \<le> d_price e" using snoc False ch h by (auto simp: falling_snoc)
    have sym: "deal_equal d r \<longleftrightarrow> deal_equal r d" by (auto simp: deal_equal_def)
    have eq: "deal_equal d r \<longrightarrow> d_price d \<le> d_price r \<and> d_timestamp r \<le> d_timestamp d" using new r sym by blast
    have pr: "d_price r \<noteq> 0" using snoc.prems(3) r by simp
    have c: "choose_deal (dst, h) d = (if d_price d \<le> d_price r then (d, h @ [d]) else (dst, h))"
      using same_dealD [OF sd, of d] eq pr by (cases "deal_equal d r") (auto simp: choose_deal_def)
    show ?thesis
    proof (cases "d_price d \<le> d_price r")
      case True
      then show ?thesis using ud IH(2) ch h c by (auto intro: order_trans)
    next
      case dearer: False
      then have "\<not> deal_equal d r" using eq by blast
      then have "up_to_date (ds @ [d]) r" using IH(1) sym by (auto simp: up_to_date_append) (simp add: up_to_date_def)
      then show ?thesis using dearer IH(2) ch h c by (auto simp: not_le)
    qed
  qed
qed simp

lemma group_result_falling:
  assumes "ds \<noteq> []" "falling ds" "\<forall>d \<in> set ds. d_price d \<noteq> 0"
  shows "up_to_date ds (group_result ds) \<and> (\<forall>d \<in> set ds. d_price (group_result ds) \<le> d_price d)"
  using chosen_falling [OF assms] group_result_last [OF assms(1)] by simp

section \<open>Grouping\<close>

locale deal_grouping =
  fixes process_deal :: "'x query \<Rightarrow> DealInfo \<Rightarrow> 'x query"
    and key :: "'x query \<Rightarrow> DealInfo \<Rightarrow> u32"
    and grouped :: "'x query \<Rightarrow> (u32, DealInfo) umap"
    and hist :: "'x query \<Rightarrow> (u32, DealInfo list) umap"
  assumes grouped_step: "grouped (process_deal q d) =
      um_set (key q d) (fst (choose_deal (um_at deal_zero (grouped q) (key q d), um_at [] (hist q) (key q d)) d)) (grouped q)"
    and hist_step: "hist (process_deal q d) =
      (let old = um_at [] (hist q) (key q d);
           new = snd (choose_deal (um_at deal_zero (grouped q) (key q d), old) d)
       in if new = old then hist q else um_set (key q d) new (hist q))"
    and matches_kept: "matches (process_deal q d) = matches q"
    and key_kept: "key (process_deal q d) = key q"
begin

abbreviation run :: "'x query \<Rightarrow> DealInfo list \<Rightarrow> 'x query" where
  "run \<equiv> foldl (process_element process_deal)"

lemma run_kept: "matches (run q ds) = matches q \<and> key (run q ds) = key q"
  by (induction ds rule: rev_induct) (simp_all add: process_element_matches matches_kept key_kept)

lemma run_snoc: "run q (ds @ [d]) = (if matches q d then process_deal (run q ds) d else run q ds)"
  using run_kept [of q ds] process_element_matches [of process_deal "run q ds" d] by simp

lemma step_view:
  "(um_at deal_zero (grouped (process_deal q d)) k, um_at [] (hist (process_deal q d)) k) =
     (if k = key q d then choose_deal (um_at deal_zero (grouped q) k, um_at [] (hist q) k) d
      else (um_at deal_zero (grouped q) k, um_at [] (hist q) k))"
  by (simp add: grouped_step hist_step Let_def prod_eq_iff)

text \<open>Every group holds what its own deals leave, as if the others did not exist.\<close>

lemma run_groups:
  assumes "hist q = []" "grouped q = []"
  shows "(um_at deal_zero (grouped (run q ds)) k, um_at [] (hist (run q ds)) k) =
     chosen (filter (\<lambda>d. matches q d \<and> key q d = k) ds)"
proof (induction ds rule: rev_induct)
  case (snoc d ds)
  have "key (run q ds) d = key q d" using run_kept [of q ds] by simp
  with step_view [of "run q ds" d k] show ?case
    unfolding run_snoc snoc.IH by (simp del: foldl_append split: if_split) (use snoc.IH in auto)
qed (simp add: assms)

lemma hist_step_keys:
  "distinct (map fst (hist q)) \<Longrightarrow> distinct (map fst (hist (process_deal q d)))"
  "insert (key q d) (fst ` set (hist (process_deal q d))) = insert (key q d) (fst ` set (hist q))"
  using keys_um_set [of "key q d" _ "hist q"] by (auto simp: hist_step Let_def distinct_um_set)

lemma um_at_nonempty: "um_at [] m k \<noteq> [] \<Longrightarrow> k \<in> fst ` set m"
  by (auto simp: um_at_def split: option.splits dest: map_of_SomeD intro: rev_image_eqI)

lemma run_keys:
  assumes "hist q = []" "grouped q = []"
  shows "distinct (map fst (hist (run q ds))) \<and>
    fst ` set (hist (run q ds)) = key q ` set (filter (matches q) ds)"
proof (induction ds rule: rev_induct)
  case (snoc d ds)
  show ?case
  proof (cases "matches q d")
    case True
    let ?k = "key q d"
    have k: "key (run q ds) d = ?k" "run q (ds @ [d]) = process_deal (run q ds) d"
      using True run_kept [of q ds] by (simp_all add: run_snoc del: foldl_append)
    have "um_at [] (hist (run q (ds @ [d]))) ?k \<noteq> []"
      using arg_cong [OF run_groups [OF assms, of "ds @ [d]" ?k], of snd]
        chosen_history_nonempty [of "filter (\<lambda>e. matches q e \<and> key q e = ?k) (ds @ [d])"] True
      by (simp del: foldl_append filter_append) simp
    then have "?k \<in> fst ` set (hist (process_deal (run q ds) d))" using um_at_nonempty k(2) by metis
    then have "fst ` set (hist (process_deal (run q ds) d)) = insert ?k (fst ` set (hist (run q ds)))"
      using hist_step_keys(2) [of "run q ds" d] unfolding k(1) by (simp add: insert_absorb)
    then show ?thesis using snoc hist_step_keys(1) [of "run q ds" d] True unfolding k(2) by simp
  next
    case False
    then show ?thesis using snoc by (simp add: run_snoc del: foldl_append)
  qed
qed (simp add: assms)

lemma run_hist_entries:
  assumes "hist q = []" "grouped q = []" "(k, h) \<in> set (hist (run q ds))"
  shows "h = snd (chosen (filter (\<lambda>d. key q d = k) (filter (matches q) ds)))"
proof -
  have "um_at [] (hist (run q ds)) k = h"
    using run_keys [OF assms(1,2), of ds] assms(3) by (simp add: um_at_mem)
  then show ?thesis using arg_cong [OF run_groups [OF assms(1,2), of ds k], of snd] by (simp add: conj_commute)
qed

end

section \<open>The answer\<close>

text \<open>
  One deal per group, sorted and cut off: what an aggregation returns for the matching deals
  \<open>ds\<close> whose keys, in some order, are \<open>ks\<close>.
\<close>

definition group :: "(DealInfo \<Rightarrow> u32) \<Rightarrow> DealInfo list \<Rightarrow> u32 \<Rightarrow> DealInfo list" where
  "group key ds k = filter (\<lambda>d. key d = k) ds"

definition answer :: "(DealInfo \<Rightarrow> DealInfo \<Rightarrow> bool) \<Rightarrow> (DealInfo \<Rightarrow> u32) \<Rightarrow> nat \<Rightarrow> DealInfo list \<Rightarrow> u32 list \<Rightarrow> DealInfo list" where
  "answer lt key n ds ks = take n (std_sort lt (map (\<lambda>k. group_result (group key ds k)) ks))"

definition keys_of :: "(DealInfo \<Rightarrow> u32) \<Rightarrow> DealInfo list \<Rightarrow> u32 list \<Rightarrow> bool" where
  "keys_of key ds ks \<longleftrightarrow> distinct ks \<and> set ks = key ` set ds"

lemma group_result_in_group:
  assumes "k \<in> key ` set ds"
  shows "group_result (group key ds k) \<in> set ds \<and> key (group_result (group key ds k)) = k"
proof -
  have "group key ds k \<noteq> []" using assms by (auto simp: group_def filter_empty_conv)
  from group_result_mem [OF this] show ?thesis by (auto simp: group_def)
qed

lemma answer_mem:
  assumes ks: "keys_of key ds ks" and "r \<in> set (answer lt key n ds ks)"
  shows "r \<in> set ds \<and> r = group_result (group key ds (key r))"
  using ks assms(2) group_result_in_group [of _ key ds] by (auto simp: answer_def keys_of_def dest!: in_set_takeD)

lemma answer_distinct:
  assumes ks: "keys_of key ds ks"
  shows "distinct (map key (answer lt key n ds ks))"
proof -
  have "map key (map (\<lambda>k. group_result (group key ds k)) ks) = ks"
    using ks group_result_in_group [of _ key ds] by (auto simp: keys_of_def o_def intro!: map_idI)
  then have "distinct (map key (std_sort lt (map (\<lambda>k. group_result (group key ds k)) ks)))"
    using ks by (simp add: keys_of_def)
  then show ?thesis unfolding answer_def take_map [symmetric] by (rule distinct_take)
qed

lemma answer_length:
  assumes ks: "keys_of key ds ks"
  shows "length (answer lt key n ds ks) = min n (card (key ` set ds))"
  using ks distinct_card [of ks] by (simp add: answer_def keys_of_def)

lemma answer_sorted:
  assumes ks: "keys_of key ds ks" and "strict_weak_order (set ds) lt"
  shows "sorted_wrt (\<lambda>a b. \<not> lt b a) (answer lt key n ds ks)"
proof -
  have "set (map (\<lambda>k. group_result (group key ds k)) ks) \<subseteq> set ds"
    using ks group_result_in_group [of _ key ds] by (auto simp: keys_of_def)
  from strict_weak_order.sorted_std_sort [OF assms(2) this] show ?thesis
    unfolding answer_def by (rule sorted_wrt_take)
qed

text \<open>A group that is missing from the answer was cut off by the limit and is not before any returned deal.\<close>

lemma answer_covers:
  assumes ks: "keys_of key ds ks" and "strict_weak_order (set ds) lt" "d \<in> set ds"
  shows "group_result (group key ds (key d)) \<in> set (answer lt key n ds ks) \<or>
    length (answer lt key n ds ks) = n \<and>
    (\<forall>r \<in> set (answer lt key n ds ks). \<not> lt (group_result (group key ds (key d))) r)"
proof -
  let ?all = "std_sort lt (map (\<lambda>k. group_result (group key ds k)) ks)"
  let ?g = "group_result (group key ds (key d))"
  have sub: "set (map (\<lambda>k. group_result (group key ds k)) ks) \<subseteq> set ds"
    using ks group_result_in_group [of _ key ds] by (auto simp: keys_of_def)
  have "sorted_wrt (\<lambda>a b. \<not> lt b a) (take n ?all @ drop n ?all)"
    using strict_weak_order.sorted_std_sort [OF assms(2) sub] by simp
  then have le: "\<forall>r \<in> set (take n ?all). \<forall>x \<in> set (drop n ?all). \<not> lt x r"
    unfolding sorted_wrt_append by blast
  have "?g \<in> set ?all" using ks assms(3) by (auto simp: keys_of_def)
  then have "?g \<in> set (take n ?all) \<or> ?g \<in> set (drop n ?all)" by (metis Un_iff append_take_drop_id set_append)
  moreover have "n \<le> length ?all" if "drop n ?all \<noteq> []" using that by simp
  ultimately show ?thesis unfolding answer_def using le by fastforce
qed

lemma price_weak_order: "strict_weak_order A (\<lambda>a b. d_price a < d_price b)"
  by unfold_locales auto

interpretation by_price: strict_weak_order A "\<lambda>a b. d_price a < d_price b" for A
  by (rule price_weak_order)

definition dates_before :: "DealInfo \<Rightarrow> DealInfo \<Rightarrow> bool" where
  "dates_before a b \<longleftrightarrow> d_departure_date a < d_departure_date b \<or>
     d_departure_date a = d_departure_date b \<and> d_return_date a < d_return_date b"

interpretation by_dates: strict_weak_order A dates_before for A
  by unfold_locales (auto simp: dates_before_def)

interpretation by_return_date: strict_weak_order A "\<lambda>a b. d_return_date a < d_return_date b" for A
  by unfold_locales auto

lemma sorted_price: "sorted_wrt (\<lambda>a b. \<not> d_price b < d_price a) ds \<longleftrightarrow> sorted (map d_price ds)"
  by (simp add: sorted_map not_less)

lemma answer_by_price:
  assumes "keys_of key ds ks"
  shows "set (answer (\<lambda>a b. d_price a < d_price b) key n ds ks) \<subseteq> set ds"
    "sorted (map d_price (answer (\<lambda>a b. d_price a < d_price b) key n ds ks))"
    "distinct (map key (answer (\<lambda>a b. d_price a < d_price b) key n ds ks))"
    "length (answer (\<lambda>a b. d_price a < d_price b) key n ds ks) = min n (card (key ` set ds))"
  using answer_mem [OF assms] answer_distinct [OF assms] answer_length [OF assms]
    answer_sorted [OF assms price_weak_order, of n] by (auto simp: sorted_price)

lemma group_falling: "falling ds \<Longrightarrow> falling (group key ds k)"
  and group_time_ordered: "time_ordered ds \<Longrightarrow> time_ordered (group key ds k)"
  and group_subset: "set (group key ds k) \<subseteq> set ds"
  by (auto simp: falling_def time_ordered_def group_def sorted_wrt_filter sorted_map intro: sorted_wrt_filter)

lemma group_member: "d \<in> set ds \<Longrightarrow> d \<in> set (group key ds (key d))"
  by (simp add: group_def)

lemma answer_cheapest:
  assumes ks: "keys_of key ds ks" and nr: "falling ds" and pr: "\<forall>d \<in> set ds. d_price d \<noteq> 0" and d: "d \<in> set ds"
    and res_def: "res = answer (\<lambda>a b. d_price a < d_price b) key n ds ks"
  shows "(\<exists>r \<in> set res. key r = key d \<and> d_price r \<le> d_price d) \<or> length res = n \<and> (\<forall>r \<in> set res. d_price r \<le> d_price d)"
proof -
  let ?g = "group_result (group key ds (key d))"
  have mem: "d \<in> set (group key ds (key d))" by (rule group_member [OF d])
  then have le: "d_price ?g \<le> d_price d"
    using group_result_falling [OF _ group_falling [OF nr], of key "key d"] pr group_subset [of key ds "key d"]
    by (metis empty_iff empty_set subsetD)
  have k: "key ?g = key d" using group_result_in_group [of "key d" key ds] d by simp
  from answer_covers [OF ks price_weak_order d, of n] show ?thesis
    unfolding res_def using le k by (meson le_less_trans not_less)
qed

text \<open>Each answer is a cheapest deal of its group and the newest of its trip in the group.\<close>

lemma answer_falling:
  assumes ks: "keys_of key ds ks" and nr: "falling ds" and pr: "\<forall>d \<in> set ds. d_price d \<noteq> 0"
    and r: "r \<in> set (answer lt key n ds ks)" and d: "d \<in> set ds" "key d = key r"
  shows "d_price r \<le> d_price d" "deal_equal d r \<Longrightarrow> d_timestamp d \<le> d_timestamp r"
proof -
  from answer_mem [OF ks r] have m: "r \<in> set ds" and e: "r = group_result (group key ds (key r))" by blast+
  have ne: "group key ds (key r) \<noteq> []" using group_member [OF m, of key] by auto
  have g: "d \<in> set (group key ds (key r))" using d by (simp add: group_def)
  have "up_to_date (group key ds (key r)) r \<and> (\<forall>d \<in> set (group key ds (key r)). d_price r \<le> d_price d)"
    using group_result_falling [OF ne group_falling [OF nr]] pr group_subset [of key ds "key r"] e by (metis subsetD)
  then show "d_price r \<le> d_price d" "deal_equal d r \<Longrightarrow> d_timestamp d \<le> d_timestamp r"
    using g by (auto simp: up_to_date_def)
qed

lemma answer_up_to_date:
  assumes ks: "keys_of key ds ks" and nr: "time_ordered ds" and pr: "\<forall>d \<in> set ds. d_price d \<noteq> 0"
    and r: "r \<in> set (answer lt key n ds ks)"
  shows "up_to_date (group key ds (key r)) r \<and> later_dearer (group key ds (key r)) r"
proof -
  from answer_mem [OF ks r] have m: "r \<in> set ds" and e: "r = group_result (group key ds (key r))" by blast+
  have "group key ds (key r) \<noteq> []" using group_member [OF m, of key] by auto
  from group_result_time_ordered [OF this group_time_ordered [OF nr]] pr group_subset [of key ds "key r"] e
  show ?thesis by auto
qed

lemma um_set_twice [simp]: "um_set k v (um_set k w m) = um_set k v m"
  by (induction m) auto

section \<open>Results\<close>

locale deal_aggregation = deal_grouping process_deal key grouped hist
  for process_deal :: "'x query \<Rightarrow> DealInfo \<Rightarrow> 'x query" and key and grouped and hist +
  fixes pending :: "'x query \<Rightarrow> DealInfo list"
    and post_search :: "((u32, DealInfo list) umap \<Rightarrow> (u32, DealInfo list) umap) \<Rightarrow> 'x query \<Rightarrow> 'x query"
    and get_result :: "'x query \<Rightarrow> DealInfo list"
    and lt :: "'x query \<Rightarrow> DealInfo \<Rightarrow> DealInfo \<Rightarrow> bool"
  assumes pending_kept: "pending (process_deal q d) = pending q"
    and limit_kept: "filter_result_limit (process_deal q d) = filter_result_limit q"
    and lt_kept: "lt (process_deal q d) = lt q"
    and post_limit: "filter_result_limit (post_search iter q) = filter_result_limit q"
    and post_result: "get_result (post_search iter q) =
      std_sort (lt q) (pending q @ map (\<lambda>e. findCheapestAndLast (snd e)) (iter (hist q)))"
begin

lemma run_rest: "pending (run q ds) = pending q \<and> filter_result_limit (run q ds) = filter_result_limit q \<and> lt (run q ds) = lt q"
  by (induction ds rule: rev_induct) (simp_all add: process_element_matches pending_kept limit_kept lt_kept)

lemma run_result:
  assumes "hist q = []" "grouped q = []" "pending q = []" "iteration_order iter"
  obtains ks where "distinct ks" "set ks = key q ` set (filter (matches q) ds)"
    "get_result (post_search iter (run q ds)) =
       std_sort (lt q) (map (\<lambda>k. group_result (group (key q) (filter (matches q) ds) k)) ks)"
proof -
  let ?h = "hist (run q ds)"
  let ?f = "\<lambda>k. group_result (group (key q) (filter (matches q) ds) k)"
  have "map (\<lambda>e. findCheapestAndLast (snd e)) (iter ?h) = map ?f (map fst (iter ?h))"
  proof -
    have "findCheapestAndLast (snd e) = ?f (fst e)" if "e \<in> set (iter ?h)" for e
      using run_hist_entries [OF assms(1,2), of "fst e" "snd e" ds] that
      by (simp add: iteration_order_set [OF assms(4)] group_result_def group_def)
    then show ?thesis by simp
  qed
  moreover have "distinct (map fst (iter ?h))" "set (map fst (iter ?h)) = key q ` set (filter (matches q) ds)"
    using run_keys [OF assms(1,2), of ds] iteration_order_distinct [OF assms(4), of ?h] iteration_order_set [OF assms(4), of ?h] by simp_all
  moreover have "get_result (post_search iter (run q ds)) = std_sort (lt q) (map (\<lambda>e. findCheapestAndLast (snd e)) (iter ?h))"
    using run_rest [of q ds] assms(3) by (simp add: post_result)
  ultimately show thesis using that [of "map fst (iter ?h)"] by metis
qed

lemma execute_result:
  fixes ts t
  defines "search q \<equiv> search_time ts t q"
  assumes "scannable os time0 now t" "pre_search q = Inr q0" "iteration_order iter"
    and "hist (search q0) = []" "grouped (search q0) = []" "pending (search q0) = []"
  obtains ks t' where
    "execute os ts time0 now pre_search process_deal (post_search iter) get_result q t =
       (Inr (answer (lt (search q0)) (key (search q0)) (unat (filter_result_limit (search q0)))
          (filter (matches (search q0)) (contents now t)) ks), t')"
    "keys_of (key (search q0)) (filter (matches (search q0)) (contents now t)) ks"
    "table_ok (sc_page_size os) t'" "contents now t' = contents now t"
proof -
  from execute_scannable [where pre_search = pre_search and q = q and ?q0.0 = q0 and ts = ts
      and process_deal = process_deal and post_search = "post_search iter" and get_result = get_result, OF assms(2,3)]
  obtain t' where e: "execute os ts time0 now pre_search process_deal (post_search iter) get_result q t =
       (let q1 = post_search iter (run (search q0) (contents now t))
        in Inr (take (unat (filter_result_limit q1)) (get_result q1)), t')"
    and t': "table_ok (sc_page_size os) t'" "contents now t' = contents now t"
    unfolding search_def by blast
  from run_result [OF assms(5-7) assms(4), of "contents now t"] obtain ks where
    ks: "distinct ks" "set ks = key (search q0) ` set (filter (matches (search q0)) (contents now t))"
    "get_result (post_search iter (run (search q0) (contents now t))) = std_sort (lt (search q0))
       (map (\<lambda>k. group_result (group (key (search q0)) (filter (matches (search q0)) (contents now t)) k)) ks)"
    by blast
  show thesis using that [of ks t'] e ks t' run_rest [of "search q0" "contents now t"]
    by (simp add: Let_def post_limit answer_def keys_of_def)
qed

end

end
