(* ===== verification/DealsCheapest.thy ===== *)
theory DealsCheapest
  imports Aggregation
begin

text \<open>
  Model of \<^verbatim>\<open>src/deals_cheapest.hpp\<close> and \<^verbatim>\<open>src/deals_cheapest.cpp\<close>: \<^verbatim>\<open>SimplyCheapest\<close>, the
  aggregation by destination.
\<close>

record SimplyCheapest = SearchQuery +
  sc_exec_result :: "DealInfo list"
  grouped_destinations :: "(u32, DealInfo) umap"
  grouped_destinations_hist :: "(u32, DealInfo list) umap"

definition SimplyCheapest_pre_search :: "SimplyCheapest \<Rightarrow> SimplyCheapest result" where
  "SimplyCheapest_pre_search q =
     (if filter_all_combinations q
      then Inl (Error (''all_combinations flag not implemented for cheapest aggregation'' @ [LF]) BadParameter)
      else Inr q)"

definition SimplyCheapest_process_deal :: "SimplyCheapest \<Rightarrow> DealInfo \<Rightarrow> SimplyCheapest" where
  "SimplyCheapest_process_deal q deal =
     (let k = d_destination deal;
          dst_deal = um_at deal_zero (grouped_destinations q) k;
          q = q\<lparr>grouped_destinations := um_set k dst_deal (grouped_destinations q)\<rparr>;
          assign = (\<lambda>d. q\<lparr>grouped_destinations := um_set k d (grouped_destinations q)\<rparr>);
          save = (\<lambda>q. q\<lparr>grouped_destinations_hist :=
            um_set k (um_at [] (grouped_destinations_hist q) k @ [deal]) (grouped_destinations_hist q)\<rparr>)
      in if d_price dst_deal = 0 \<or> d_price deal \<le> d_price dst_deal
         then if deal_equal deal dst_deal \<and> d_timestamp dst_deal > d_timestamp deal then q
              else save (assign deal)
         else if deal_equal deal dst_deal \<and> d_timestamp dst_deal < d_timestamp deal
              then save (assign (deal\<lparr>d_overriden := True\<rparr>))
              else q)"

definition SimplyCheapest_post_search ::
  "((u32, DealInfo list) umap \<Rightarrow> (u32, DealInfo list) umap) \<Rightarrow> SimplyCheapest \<Rightarrow> SimplyCheapest" where
  "SimplyCheapest_post_search iter q =
     q\<lparr>sc_exec_result := std_sort (\<lambda>a b. d_price a < d_price b)
        (sc_exec_result q @ map (\<lambda>v. findCheapestAndLast (snd v)) (iter (grouped_destinations_hist q)))\<rparr>"

definition SimplyCheapest_get_result :: "SimplyCheapest \<Rightarrow> DealInfo list" where
  "SimplyCheapest_get_result q = sc_exec_result q"

definition SimplyCheapest_new :: "SimplyCheapest \<Rightarrow> SimplyCheapest" where
  "SimplyCheapest_new raw = SearchQuery_init raw
     \<lparr>sc_exec_result := [], grouped_destinations := [], grouped_destinations_hist := []\<rparr>"

definition SimplyCheapest_execute where
  "SimplyCheapest_execute os ts time0 now iter q =
     execute os ts time0 now SimplyCheapest_pre_search SimplyCheapest_process_deal
       (SimplyCheapest_post_search iter) SimplyCheapest_get_result q"

interpretation cheapest: deal_aggregation SimplyCheapest_process_deal "\<lambda>q. d_destination"
  grouped_destinations grouped_destinations_hist sc_exec_result SimplyCheapest_post_search
  SimplyCheapest_get_result "\<lambda>q a b. d_price a < d_price b"
  by unfold_locales (auto simp: SimplyCheapest_process_deal_def SimplyCheapest_post_search_def
    SimplyCheapest_get_result_def choose_deal_def matches_def Let_def fun_eq_iff)

definition SimplyCheapest_fresh :: "SimplyCheapest \<Rightarrow> bool" where
  "SimplyCheapest_fresh q \<longleftrightarrow> sc_exec_result q = [] \<and> grouped_destinations q = [] \<and>
     grouped_destinations_hist q = [] \<and> \<not> filter_all_combinations q"

lemma SimplyCheapest_answer:
  assumes "scannable os time0 now t" "iteration_order iter" "SimplyCheapest_fresh q"
  obtains ks t' where
    "SimplyCheapest_execute os ts time0 now iter q t =
      (Inr (answer (\<lambda>a b. d_price a < d_price b) d_destination (unat (filter_result_limit q))
         (filter (matches (search_time ts t q)) (contents now t)) ks), t')"
    "keys_of d_destination (filter (matches (search_time ts t q)) (contents now t)) ks"
    "table_ok (sc_page_size os) t'" "contents now t' = contents now t"
proof -
  have pre: "SimplyCheapest_pre_search q = Inr q" using assms(3)
    by (simp add: SimplyCheapest_pre_search_def SimplyCheapest_fresh_def)
  have "filter_result_limit (search_time ts t q) = filter_result_limit q" by (simp add: search_time_def)
  with cheapest.execute_result [where pre_search = SimplyCheapest_pre_search, OF assms(1) pre assms(2), of ts] assms(3) that
  show thesis unfolding SimplyCheapest_execute_def
    by (simp add: SimplyCheapest_fresh_def search_time_def) blast
qed

section \<open>Properties\<close>

text \<open>
  C8. A search for the cheapest deals returns, and what it returns are stored deals that pass
  the filters, at most one per destination, in ascending order of price, as many as there are
  destinations or as the limit allows.
\<close>

theorem cheapest_search:
  assumes "scannable os time0 now t" and "iteration_order iter" and "SimplyCheapest_fresh q"
    and "found = filter (matches (search_time ts t q)) (contents now t)"
  shows "\<exists>res t'. SimplyCheapest_execute os ts time0 now iter q t = (Inr res, t')
    \<and> set res \<subseteq> set found \<and> distinct (map d_destination res) \<and> sorted (map d_price res)
    \<and> length res = min (unat (filter_result_limit q)) (card (d_destination ` set found))
    \<and> table_ok (sc_page_size os) t' \<and> contents now t' = contents now t"
proof -
  obtain ks t' where r: "SimplyCheapest_execute os ts time0 now iter q t =
      (Inr (answer (\<lambda>a b. d_price a < d_price b) d_destination (unat (filter_result_limit q)) found ks), t')"
    "keys_of d_destination found ks" "table_ok (sc_page_size os) t'" "contents now t' = contents now t"
    using SimplyCheapest_answer [OF assms(1-3), of ts] unfolding assms(4) by blast
  then show ?thesis using answer_by_price [OF r(2), of "unat (filter_result_limit q)"] by blast
qed

definition sample_deals :: "DealInfo list" where
  "sample_deals = [sample_deal 1 17 30 101, sample_deal 1 14 20 102, sample_deal 2 17 10 103]"

definition sample_query :: SimplyCheapest where
  "sample_query = SimplyCheapest_new (SearchQuery.extend raw_query (SimplyCheapest.fields [] [] []))"

lemma sample_query_ready:
  "SimplyCheapest_fresh sample_query" "unat (filter_result_limit sample_query) = 20"
  "matches (search_time 86500 (deals_table ds) sample_query) = (\<lambda>d. 100 < d_timestamp d)"
  by (simp_all add: fun_eq_iff sample_query_def raw_query_def SearchQuery.defs SimplyCheapest.defs SimplyCheapest_new_def SearchQuery_init_def SimplyCheapest_fresh_def
      search_time_def matches_def one_page_basics DEALS_EXPIRES_def)

lemma sample_found:
  "filter (matches (search_time 86500 (deals_table sample_deals) sample_query)) (contents 86500 (deals_table sample_deals)) = sample_deals"
proof -
  have "length sample_deals \<le> 4" by (simp add: sample_deals_def)
  from deals_table_ready(2) [OF this, of 86500] show ?thesis
    by (simp add: sample_query_ready(3)) (simp add: sample_deals_def sample_deal_def)
qed

theorem cheapest_search_witness:
  "\<exists>res t'. SimplyCheapest_execute healthy_os 86500 86500 86500 rev sample_query (deals_table sample_deals) = (Inr res, t')
    \<and> length res = 2 \<and> sorted (map d_price res)"
proof -
  have l: "length sample_deals \<le> 4" "card (d_destination ` set sample_deals) = 2"
    by (simp_all add: sample_deals_def sample_deal_def)
  from cheapest_search [OF deals_table_ready(1) [OF l(1)] iteration_order_rev sample_query_ready(1) sample_found [symmetric]]
  show ?thesis using l(2) sample_query_ready(2) by auto
qed




definition repeated_deals :: "DealInfo list" where
  "repeated_deals = [sample_deal 1 17 30 101, sample_deal 1 14 25 102, sample_deal 1 17 20 103]"


text \<open>
  The newest price of a trip wins, also when it is dearer than before: when the matching deals are scanned
  in the order of their timestamps, each returned deal is the newest of its trip, and every deal of
  its destination scanned after it is dearer.
\<close>

theorem cheapest_up_to_date:
  assumes "scannable os time0 now t" and "iteration_order iter" and "SimplyCheapest_fresh q"
    and "found = filter (matches (search_time ts t q)) (contents now t)"
    and "time_ordered found" and "\<forall>d \<in> set found. d_price d \<noteq> 0"
  shows "\<exists>res t'. SimplyCheapest_execute os ts time0 now iter q t = (Inr res, t') \<and>
    (\<forall>r \<in> set res. up_to_date found r \<and> later_dearer (group d_destination found (d_destination r)) r)"
proof -
  obtain ks t' where r: "SimplyCheapest_execute os ts time0 now iter q t =
      (Inr (answer (\<lambda>a b. d_price a < d_price b) d_destination (unat (filter_result_limit q)) found ks), t')"
    and ks: "keys_of d_destination found ks"
    using SimplyCheapest_answer [OF assms(1-3), of ts] unfolding assms(4) by blast
  have "up_to_date found r" if "up_to_date (group d_destination found (d_destination r)) r" for r
    using that by (auto simp: up_to_date_def group_def deal_equal_def)
  then show ?thesis using r answer_up_to_date [OF ks assms(5,6)] by blast
qed

theorem cheapest_up_to_date_witness:
  "\<exists>res t'. SimplyCheapest_execute healthy_os 86500 86500 86500 rev sample_query (deals_table sample_deals) = (Inr res, t')
    \<and> (\<forall>r \<in> set res. up_to_date sample_deals r)"
proof -
  have l: "length sample_deals \<le> 4" "time_ordered sample_deals" "\<forall>d \<in> set sample_deals. d_price d \<noteq> 0"
    by (simp_all add: sample_deals_def sample_deal_def time_ordered_def)
  from cheapest_up_to_date [OF deals_table_ready(1) [OF l(1)] iteration_order_rev sample_query_ready(1) sample_found [symmetric] l(2,3)]
  show ?thesis by blast
qed

text \<open>
  The example in the comment above \<^verbatim>\<open>findCheapestAndLast\<close>: a trip on the 17th for 14, one
  on the 14th for 15, then the trip on the 17th again for 16.  The comment says that 15 must be
  selected; the aggregation drops that deal when it sees it and returns 16.
\<close>

theorem comment_example:
  "SimplyCheapest_get_result (SimplyCheapest_post_search (\<lambda>m. m)
     (foldl SimplyCheapest_process_deal sample_query
        [sample_deal 1 17 14 101, sample_deal 1 14 15 102, sample_deal 1 17 16 103])) =
   [sample_deal 1 17 16 103]"
  by (simp add: sample_query_def raw_query_def SearchQuery.defs SimplyCheapest.defs SimplyCheapest_new_def SearchQuery_init_def SimplyCheapest_process_deal_def
    SimplyCheapest_post_search_def SimplyCheapest_get_result_def sample_deal_def deal_zero_def deal_equal_def
    findCheapestAndLast_def findCheapestAndLast_loop.simps std_sort_def um_at_def Let_def)

text \<open>
  A deal can be returned although a newer one for the same trip was found: a restart of the
  loop of \<^verbatim>\<open>findCheapestAndLast\<close> selects the same last deal again and skips the first entry.
\<close>

theorem outdated_deal_selected:
  "\<exists>r newer. SimplyCheapest_get_result (SimplyCheapest_post_search (\<lambda>m. m)
     (foldl SimplyCheapest_process_deal sample_query
        [newer, sample_deal 1 14 12 106, r])) = [r] \<and>
   deal_equal newer r \<and> d_timestamp newer > d_timestamp r \<and> d_price (sample_deal 1 14 12 106) < d_price newer"
  by (rule exI [of _ "sample_deal 1 17 10 103"], rule exI [of _ "sample_deal 1 17 14 105"])
    (simp add: sample_query_def raw_query_def SearchQuery.defs SimplyCheapest.defs SimplyCheapest_new_def SearchQuery_init_def SimplyCheapest_process_deal_def
    SimplyCheapest_post_search_def SimplyCheapest_get_result_def sample_deal_def deal_zero_def deal_equal_def
    findCheapestAndLast_def findCheapestAndLast_loop.simps std_sort_def um_at_def Let_def)

end
