(* ===== verification/DealsCheapestByCountry.thy ===== *)
theory DealsCheapestByCountry
  imports Aggregation
begin

text \<open>
  Model of \<^verbatim>\<open>src/deals_cheapest_by_country.hpp\<close> and \<^verbatim>\<open>src/deals_cheapest_by_country.cpp\<close>:
  \<^verbatim>\<open>CheapestByCountry\<close>, the aggregation by the country of the destination.
\<close>

record CheapestByCountry = SearchQuery +
  cc_exec_result :: "DealInfo list"
  grouped_by_country :: "(u32, DealInfo) umap"
  grouped_by_country_hist :: "(u32, DealInfo list) umap"

definition CheapestByCountry_pre_search :: "CheapestByCountry \<Rightarrow> CheapestByCountry result" where
  "CheapestByCountry_pre_search q =
     (let q = (if filter_destination_country q
               then q\<lparr>filter_result_limit := of_nat (card (destination_country_set q))\<rparr> else q)
      in if filter_all_combinations q
         then Inl (Error (''all_combinations flag not implemented for by_country aggregation'' @ [LF]) BadParameter)
         else Inr q)"

definition CheapestByCountry_process_deal :: "CheapestByCountry \<Rightarrow> DealInfo \<Rightarrow> CheapestByCountry" where
  "CheapestByCountry_process_deal q deal =
     (let k = ucast (d_destination_country deal);
          dst_deal = um_at deal_zero (grouped_by_country q) k;
          q = q\<lparr>grouped_by_country := um_set k dst_deal (grouped_by_country q)\<rparr>;
          assign = (\<lambda>d. q\<lparr>grouped_by_country := um_set k d (grouped_by_country q)\<rparr>);
          save = (\<lambda>q. q\<lparr>grouped_by_country_hist :=
            um_set k (um_at [] (grouped_by_country_hist q) k @ [deal]) (grouped_by_country_hist q)\<rparr>)
      in if d_price dst_deal = 0 \<or> d_price deal \<le> d_price dst_deal
         then if deal_equal deal dst_deal \<and> d_timestamp dst_deal > d_timestamp deal then q
              else save (assign deal)
         else if deal_equal deal dst_deal \<and> d_timestamp dst_deal < d_timestamp deal
              then save (assign (deal\<lparr>d_overriden := True\<rparr>))
              else q)"

definition CheapestByCountry_post_search ::
  "((u32, DealInfo list) umap \<Rightarrow> (u32, DealInfo list) umap) \<Rightarrow> CheapestByCountry \<Rightarrow> CheapestByCountry" where
  "CheapestByCountry_post_search iter q =
     q\<lparr>cc_exec_result := std_sort (\<lambda>a b. d_price a < d_price b)
        (cc_exec_result q @ map (\<lambda>v. findCheapestAndLast (snd v)) (iter (grouped_by_country_hist q)))\<rparr>"

definition CheapestByCountry_get_result :: "CheapestByCountry \<Rightarrow> DealInfo list" where
  "CheapestByCountry_get_result q = cc_exec_result q"

definition CheapestByCountry_new :: "CheapestByCountry \<Rightarrow> CheapestByCountry" where
  "CheapestByCountry_new raw = SearchQuery_init raw
     \<lparr>cc_exec_result := [], grouped_by_country := [], grouped_by_country_hist := []\<rparr>"

definition CheapestByCountry_execute where
  "CheapestByCountry_execute os ts time0 now iter q =
     execute os ts time0 now CheapestByCountry_pre_search CheapestByCountry_process_deal
       (CheapestByCountry_post_search iter) CheapestByCountry_get_result q"

abbreviation country_key :: "DealInfo \<Rightarrow> u32" where
  "country_key d \<equiv> ucast (d_destination_country d)"

interpretation by_country: deal_aggregation CheapestByCountry_process_deal "\<lambda>q. country_key"
  grouped_by_country grouped_by_country_hist cc_exec_result CheapestByCountry_post_search
  CheapestByCountry_get_result "\<lambda>q a b. d_price a < d_price b"
  by unfold_locales (auto simp: CheapestByCountry_process_deal_def CheapestByCountry_post_search_def
    CheapestByCountry_get_result_def choose_deal_def matches_def Let_def fun_eq_iff)

definition CheapestByCountry_fresh :: "CheapestByCountry \<Rightarrow> bool" where
  "CheapestByCountry_fresh q \<longleftrightarrow> cc_exec_result q = [] \<and> grouped_by_country q = [] \<and>
     grouped_by_country_hist q = [] \<and> \<not> filter_all_combinations q"

definition country_limit :: "'x query \<Rightarrow> nat" where
  "country_limit q = (if filter_destination_country q then card (destination_country_set q) else unat (filter_result_limit q))"

lemma unat_ucast_u8: "unat (ucast (w :: u8) :: u32) = unat w"
proof -
  have "unat w < 256" using unsigned_less [of w, where ?'a = nat] by simp
  then show ?thesis by (simp add: unsigned_ucast_eq take_bit_nat_eq_self)
qed

lemma unat_card_u8: "unat (of_nat (card (A :: u8 set)) :: u16) = card A"
proof -
  have "card A \<le> card (UNIV :: u8 set)" by (rule card_mono) simp_all
  also have "\<dots> = 256" by (simp add: card_word)
  finally show ?thesis by (simp add: unat_of_nat)
qed

lemma CheapestByCountry_answer:
  assumes "scannable os time0 now t" "iteration_order iter" "CheapestByCountry_fresh q"
  obtains ks t' where
    "CheapestByCountry_execute os ts time0 now iter q t =
      (Inr (answer (\<lambda>a b. d_price a < d_price b) country_key (country_limit q)
         (filter (matches (search_time ts t q)) (contents now t)) ks), t')"
    "keys_of country_key (filter (matches (search_time ts t q)) (contents now t)) ks"
    "table_ok (sc_page_size os) t'" "contents now t' = contents now t"
proof -
  let ?q = "if filter_destination_country q
     then q\<lparr>filter_result_limit := of_nat (card (destination_country_set q))\<rparr> else q"
  have pre: "CheapestByCountry_pre_search q = Inr ?q" using assms(3)
    by (simp add: CheapestByCountry_pre_search_def CheapestByCountry_fresh_def Let_def)
  have lim: "unat (filter_result_limit (search_time ts t ?q)) = country_limit q"
    by (simp add: search_time_def country_limit_def unat_card_u8)
  have m: "matches (search_time ts t ?q) = matches (search_time ts t q)"
    by (auto simp: search_time_def matches_def fun_eq_iff)
  have e: "grouped_by_country_hist (search_time ts t ?q) = []" "grouped_by_country (search_time ts t ?q) = []"
    "cc_exec_result (search_time ts t ?q) = []"
    using assms(3) by (simp_all add: CheapestByCountry_fresh_def search_time_def)
  show thesis
    using by_country.execute_result [where pre_search = CheapestByCountry_pre_search, OF assms(1) pre assms(2) e] that
    unfolding CheapestByCountry_execute_def lim m by blast
qed

section \<open>Properties\<close>

text \<open>
  The answers are in ascending order of price, and when countries are given, their number replaces the
  limit of the request.
\<close>

theorem country_answers:
  assumes "scannable os time0 now t" and "iteration_order iter" and "CheapestByCountry_fresh q"
    and "found = filter (matches (search_time ts t q)) (contents now t)"
  shows "\<exists>res t'. CheapestByCountry_execute os ts time0 now iter q t = (Inr res, t')
    \<and> set res \<subseteq> set found \<and> distinct (map d_destination_country res) \<and> sorted (map d_price res)
    \<and> length res = min (country_limit q) (card (d_destination_country ` set found))
    \<and> (filter_destination_country q \<longrightarrow> d_destination_country ` set res = d_destination_country ` set found)
    \<and> (falling found \<and> 0 \<notin> d_price ` set found \<longrightarrow> (\<forall>r \<in> set res. \<forall>d \<in> set found.
          d_destination_country d = d_destination_country r \<longrightarrow> d_price r \<le> d_price d \<and> (deal_equal d r \<longrightarrow> d_timestamp d \<le> d_timestamp r)))
    \<and> (falling found \<and> 0 \<notin> d_price ` set found \<longrightarrow> (\<forall>d \<in> set found.
          d_destination_country d \<in> d_destination_country ` set res \<or> length res = country_limit q \<and> (\<forall>r \<in> set res. d_price r \<le> d_price d)))"
proof -
  obtain ks t' where r: "CheapestByCountry_execute os ts time0 now iter q t =
      (Inr (answer (\<lambda>a b. d_price a < d_price b) country_key (country_limit q) found ks), t')"
    and ks: "keys_of country_key found ks"
    using CheapestByCountry_answer [OF assms(1-3), of ts] unfolding assms(4) by blast
  let ?res = "answer (\<lambda>a b. d_price a < d_price b) country_key (country_limit q) found ks"
  note p = answer_by_price [OF ks, of "country_limit q"]
  have inj: "(ucast a :: u32) = ucast b \<longleftrightarrow> a = b" for a b :: u8 
    using unat_ucast_u8 [of a] unat_ucast_u8 [of b] by (metis unsigned_word_eqI)
  have card: "card (country_key ` set found) = card (d_destination_country ` set found)"
    unfolding image_image [symmetric, of "ucast :: u8 \<Rightarrow> u32" d_destination_country] by (rule card_image) (simp add: inj_on_def inj)
  have dist: "distinct (map d_destination_country ?res)" using p(3) by (simp add: distinct_map inj_on_def inj)
  have full: "d_destination_country ` set ?res = d_destination_country ` set found" if f: "filter_destination_country q"
  proof (rule card_subset_eq)
    have "d_destination_country ` set found \<subseteq> destination_country_set q"
      using f by (auto simp: assms(4) matches_def search_time_def)
    then have "card (d_destination_country ` set found) \<le> country_limit q"
      using f by (simp add: country_limit_def card_mono)
    then show "card (d_destination_country ` set ?res) = card (d_destination_country ` set found)"
      using p(4) distinct_card [OF dist] card by simp
  qed (use p(1) in auto)
  have z: "\<forall>d \<in> set found. d_price d \<noteq> 0" if "0 \<notin> d_price ` set found" using that by force
  have cheap: "d_price r \<le> d_price d \<and> (deal_equal d r \<longrightarrow> d_timestamp d \<le> d_timestamp r)"
    if "falling found" "0 \<notin> d_price ` set found" "r \<in> set ?res" "d \<in> set found" "d_destination_country d = d_destination_country r" for r d
    using answer_falling [OF ks that(1) z [OF that(2)] that(3,4)] that(5) by simp
  have cover: "d_destination_country d \<in> d_destination_country ` set ?res \<or>
      length ?res = country_limit q \<and> (\<forall>r \<in> set ?res. d_price r \<le> d_price d)"
    if "falling found" "0 \<notin> d_price ` set found" "d \<in> set found" for d
  proof -
    from answer_cheapest [OF ks that(1) z [OF that(2)] that(3) refl, of "country_limit q"] show ?thesis
      unfolding inj by (metis (no_types, lifting) imageI)
  qed
  show ?thesis
    by (rule exI [of _ ?res], rule exI [of _ t'], intro conjI) (use r p(1,2,4) dist full card cheap cover in auto)
qed


definition sample_country_query :: CheapestByCountry where
  "sample_country_query = CheapestByCountry_new (SearchQuery.extend raw_query (CheapestByCountry.fields [] [] []))
     \<lparr>filter_destination_country := True, destination_country_set := {0, 5}\<rparr>"

lemma sample_country_ready:
  "CheapestByCountry_fresh sample_country_query" "filter_destination_country sample_country_query"
  "matches (search_time 86500 (deals_table ds) sample_country_query) =
     (\<lambda>d. 100 < d_timestamp d \<and> d_destination_country d \<in> {0, 5})"
  by (simp_all add: fun_eq_iff sample_country_query_def CheapestByCountry_new_def SearchQuery_init_def CheapestByCountry_fresh_def
      raw_query_def SearchQuery.defs CheapestByCountry.defs search_time_def matches_def one_page_basics DEALS_EXPIRES_def)


end
