(* ===== verification/DealsCheapestByDate.thy ===== *)
theory DealsCheapestByDate
  imports Aggregation
begin

text \<open>
  Model of \<^verbatim>\<open>src/deals_cheapest_by_date.hpp\<close> and \<^verbatim>\<open>src/deals_cheapest_by_date.cpp\<close>:
  \<^verbatim>\<open>CheapestByDay\<close>, the aggregation by departure date, return date, or both.
\<close>

unbundle bit_operations_syntax

record CheapestByDay = SearchQuery +
  cd_exec_result :: "DealInfo list"
  grouped_by_date :: "(u32, DealInfo) umap"
  grouped_by_date_hist :: "(u32, DealInfo list) umap"
  group_by_return_date :: bool

abbreviation dep_days :: "'x query \<Rightarrow> u32" where "dep_days q \<equiv> di_duration (departure_date_values q)"
abbreviation ret_days :: "'x query \<Rightarrow> u32" where "ret_days q \<equiv> di_duration (return_date_values q)"

definition checkInputParams :: "CheapestByDay \<Rightarrow> unit result" where
  "checkInputParams q =
     (if dep_days q = 0 \<and> ret_days q = 0
      then Inl (Error (''Departure or return dates interval must be specified'' @ [LF]) BadParameter)
      else if filter_departure_date q \<and> dep_days q > 367 \<or> filter_return_date q \<and> ret_days q > 367
      then Inl (Error (''Date interval to large. 365 days is maximum'' @ [LF]) BadParameter)
      else if filter_all_combinations q
      then if dep_days q = 0 \<or> ret_days q = 0
           then Inl (Error (''Departure and return dates must be specified, if all_combination flag is set'' @ [LF]) BadParameter)
           else if dep_days q > 11 \<or> ret_days q > 11
           then Inl (Error (''Departure and return dates interval must be <= 10, if all_combination flag is set'' @ [LF]) BadParameter)
           else Inr ()
      else Inr ())"

definition CheapestByDay_pre_search :: "CheapestByDay \<Rightarrow> CheapestByDay result" where
  "CheapestByDay_pre_search q =
     rbind (checkInputParams q) (\<lambda>_.
       if filter_exact_date q
       then Inr (if departure_return_max_duration q \<noteq> 0
                 then q\<lparr>filter_result_limit := ucast (departure_return_max_duration q)\<rparr> else q)
       else if filter_all_combinations q
       then Inr (q\<lparr>filter_result_limit := ucast (dep_days q * ret_days q)\<rparr>)
       else if dep_days q \<le> 1
       then let q = q\<lparr>group_by_return_date := True\<rparr>
            in Inr (if ret_days q \<noteq> 0 then q\<lparr>filter_result_limit := ucast (ret_days q)\<rparr> else q)
       else if dep_days q > 1
       then Inr (q\<lparr>filter_result_limit := ucast (dep_days q)\<rparr>)
       else Inr (q\<lparr>filter_result_limit := ucast (ret_days q)\<rparr>))"

definition getDateToGroup :: "CheapestByDay \<Rightarrow> DealInfo \<Rightarrow> u32" where
  "getDateToGroup q deal =
     (if filter_exact_date q
      then if exact_date_value q = d_return_date deal then d_departure_date deal
           else d_return_date deal OR 0x80000000
      else if filter_all_combinations q
      then push_bit 18 (d_departure_date deal) XOR d_return_date deal
      else if group_by_return_date q then d_return_date deal
      else d_departure_date deal)"

definition CheapestByDay_process_deal :: "CheapestByDay \<Rightarrow> DealInfo \<Rightarrow> CheapestByDay" where
  "CheapestByDay_process_deal q deal =
     (let date = getDateToGroup q deal;
          dst_deal = um_at deal_zero (grouped_by_date q) date;
          q = q\<lparr>grouped_by_date := um_set date dst_deal (grouped_by_date q)\<rparr>;
          assign = (\<lambda>d. q\<lparr>grouped_by_date := um_set date d (grouped_by_date q)\<rparr>);
          save = (\<lambda>q. q\<lparr>grouped_by_date_hist :=
            um_set date (um_at [] (grouped_by_date_hist q) date @ [deal]) (grouped_by_date_hist q)\<rparr>)
      in if d_price dst_deal = 0 \<or> d_price deal \<le> d_price dst_deal
         then if deal_equal deal dst_deal \<and> d_timestamp dst_deal > d_timestamp deal then q
              else save (assign deal)
         else if deal_equal deal dst_deal \<and> d_timestamp dst_deal < d_timestamp deal
              then save (assign (deal\<lparr>d_overriden := True\<rparr>))
              else q)"

definition CheapestByDay_less :: "CheapestByDay \<Rightarrow> DealInfo \<Rightarrow> DealInfo \<Rightarrow> bool" where
  "CheapestByDay_less q a b =
     (let exact_date = exact_date_value q
      in if filter_exact_date q
         then if exact_date = d_return_date a \<and> exact_date = d_return_date b
              then d_departure_date a < d_departure_date b
              else if exact_date = d_departure_date a \<and> exact_date = d_departure_date b
              then d_return_date a < d_return_date b
              else if exact_date = d_return_date a then True else False
         else if group_by_return_date q then d_return_date a < d_return_date b
         else if d_departure_date a = d_departure_date b then d_return_date a < d_return_date b
         else d_departure_date a < d_departure_date b)"

definition CheapestByDay_post_search ::
  "((u32, DealInfo list) umap \<Rightarrow> (u32, DealInfo list) umap) \<Rightarrow> CheapestByDay \<Rightarrow> CheapestByDay" where
  "CheapestByDay_post_search iter q =
     q\<lparr>cd_exec_result := std_sort (CheapestByDay_less q)
        (cd_exec_result q @ map (\<lambda>v. findCheapestAndLast (snd v)) (iter (grouped_by_date_hist q)))\<rparr>"

definition CheapestByDay_get_result :: "CheapestByDay \<Rightarrow> DealInfo list" where
  "CheapestByDay_get_result q = cd_exec_result q"

definition CheapestByDay_new :: "CheapestByDay \<Rightarrow> CheapestByDay" where
  "CheapestByDay_new raw = SearchQuery_init raw
     \<lparr>cd_exec_result := [], grouped_by_date := [], grouped_by_date_hist := [], group_by_return_date := False\<rparr>"

definition CheapestByDay_execute where
  "CheapestByDay_execute os ts time0 now iter q =
     execute os ts time0 now CheapestByDay_pre_search CheapestByDay_process_deal
       (CheapestByDay_post_search iter) CheapestByDay_get_result q"

lemma groups_irrelevant:
  "getDateToGroup (q\<lparr>grouped_by_date := g\<rparr>) = getDateToGroup q"
  "getDateToGroup (q\<lparr>grouped_by_date_hist := h\<rparr>) = getDateToGroup q"
  "CheapestByDay_less (q\<lparr>grouped_by_date := g\<rparr>) = CheapestByDay_less q"
  "CheapestByDay_less (q\<lparr>grouped_by_date_hist := h\<rparr>) = CheapestByDay_less q"
  "matches (q\<lparr>grouped_by_date := g\<rparr>) = matches q"
  "matches (q\<lparr>grouped_by_date_hist := h\<rparr>) = matches q"
  by (simp_all add: getDateToGroup_def CheapestByDay_less_def matches_def fun_eq_iff)

interpretation by_date: deal_aggregation CheapestByDay_process_deal getDateToGroup
  grouped_by_date grouped_by_date_hist cd_exec_result CheapestByDay_post_search
  CheapestByDay_get_result CheapestByDay_less
  by unfold_locales (auto simp: CheapestByDay_process_deal_def CheapestByDay_post_search_def
    CheapestByDay_get_result_def groups_irrelevant choose_deal_def Let_def)

text \<open>The outcome of \<^verbatim>\<open>pre_search\<close>: a limit and the choice of the grouping.\<close>

definition day_ready :: "CheapestByDay \<Rightarrow> CheapestByDay \<Rightarrow> bool" where
  "day_ready q q0 \<longleftrightarrow> CheapestByDay_pre_search q = Inr q0 \<and>
     cd_exec_result q = [] \<and> grouped_by_date q = [] \<and> grouped_by_date_hist q = []"

lemma pre_search_kept:
  assumes "CheapestByDay_pre_search q = Inr q0"
  obtains n b where "q0 = q\<lparr>filter_result_limit := n, group_by_return_date := b\<rparr>"
  using assms that [of "group_by_return_date q0" "filter_result_limit q0"]
  by (auto simp: CheapestByDay_pre_search_def rbind_eq_Inr Let_def split: if_splits)

lemma day_ready_kept:
  assumes "day_ready q q0"
  shows "matches (search_time ts t q0) = matches (search_time ts t q)"
    and "cd_exec_result (search_time ts t q0) = []" "grouped_by_date (search_time ts t q0) = []"
    "grouped_by_date_hist (search_time ts t q0) = []"
    and "getDateToGroup (search_time ts t q0) = getDateToGroup q0" "CheapestByDay_less (search_time ts t q0) = CheapestByDay_less q0"
    and "filter_exact_date q0 = filter_exact_date q" "exact_date_value q0 = exact_date_value q"
proof -
  from assms obtain n b where q0: "q0 = q\<lparr>filter_result_limit := n, group_by_return_date := b\<rparr>"
    and e: "cd_exec_result q = []" "grouped_by_date q = []" "grouped_by_date_hist q = []"
    using pre_search_kept by (metis day_ready_def)
  show "matches (search_time ts t q0) = matches (search_time ts t q)"
    by (simp add: q0 search_time_def matches_def fun_eq_iff)
  show "getDateToGroup (search_time ts t q0) = getDateToGroup q0" "CheapestByDay_less (search_time ts t q0) = CheapestByDay_less q0"
    by (simp_all add: search_time_def getDateToGroup_def CheapestByDay_less_def fun_eq_iff)
  show "cd_exec_result (search_time ts t q0) = []" "grouped_by_date (search_time ts t q0) = []"
    "grouped_by_date_hist (search_time ts t q0) = []"
    "filter_exact_date q0 = filter_exact_date q" "exact_date_value q0 = exact_date_value q"
    using e by (simp_all add: q0 search_time_def)
qed

lemma CheapestByDay_answer:
  assumes "scannable os time0 now t" "iteration_order iter" "day_ready q q0"
  obtains ks t' where
    "CheapestByDay_execute os ts time0 now iter q t =
      (Inr (answer (CheapestByDay_less q0) (getDateToGroup q0) (unat (filter_result_limit q0))
         (filter (matches (search_time ts t q)) (contents now t)) ks), t')"
    "keys_of (getDateToGroup q0) (filter (matches (search_time ts t q)) (contents now t)) ks"
    "table_ok (sc_page_size os) t'" "contents now t' = contents now t"
proof -
  have pre: "CheapestByDay_pre_search q = Inr q0" using assms(3) by (simp add: day_ready_def)
  have lim: "filter_result_limit (search_time ts t q0) = filter_result_limit q0" by (simp add: search_time_def)
  show thesis
    using by_date.execute_result [where pre_search = CheapestByDay_pre_search, OF assms(1) pre assms(2)
      day_ready_kept(4,3,2) [OF assms(3)], of ts] that
    unfolding CheapestByDay_execute_def lim day_ready_kept(1,5,6) [OF assms(3)] by blast
qed

section \<open>The order of the answer\<close>

text \<open>
  The comparator used with an exact date is a strict weak order, and then the order by dates, as long as no deal that
  returns on that date departs after it.
\<close>

definition exact_sane :: "u32 \<Rightarrow> DealInfo \<Rightarrow> bool" where
  "exact_sane e d \<longleftrightarrow> d_departure_date d = e \<or> d_return_date d = e \<and> d_departure_date d \<le> e"

lemma exact_order:
  fixes e :: "'a :: linorder"
  assumes "da = e \<or> ra = e \<and> da \<le> e" "db = e \<or> rb = e \<and> db \<le> e"
  shows "(if e = ra \<and> e = rb then da < db else if e = da \<and> e = db then ra < rb else e = ra) \<longleftrightarrow>
     da < db \<or> da = db \<and> ra < rb"
proof (cases "da = e")
  case True
  then show ?thesis using assms by (cases "db = e") auto
next
  case False
  then show ?thesis using assms by (cases "db = e") auto
qed

lemma exact_less_dates:
  assumes "filter_exact_date q" "exact_sane (exact_date_value q) a" "exact_sane (exact_date_value q) b"
  shows "CheapestByDay_less q a b \<longleftrightarrow> dates_before a b"
proof -
  have if_bool: "(if P then True else False) = P" for P by simp
  show ?thesis unfolding CheapestByDay_less_def Let_def dates_before_def if_bool
    using exact_order [OF assms(2,3) [unfolded exact_sane_def]] assms(1) by (simp only: if_True)
qed

definition answer_before :: "CheapestByDay \<Rightarrow> DealInfo \<Rightarrow> DealInfo \<Rightarrow> bool" where
  "answer_before q a b \<longleftrightarrow>
     (if \<not> filter_exact_date q \<and> group_by_return_date q then d_return_date a < d_return_date b else dates_before a b)"

lemma CheapestByDay_less_before:
  assumes "filter_exact_date q \<longrightarrow> exact_sane (exact_date_value q) a \<and> exact_sane (exact_date_value q) b"
  shows "CheapestByDay_less q a b \<longleftrightarrow> answer_before q a b"
proof (cases "filter_exact_date q")
  case True
  then show ?thesis using assms exact_less_dates [of q a b] by (simp add: answer_before_def)
next
  case False
  then show ?thesis by (auto simp: CheapestByDay_less_def answer_before_def dates_before_def Let_def)
qed

interpretation answer_order: strict_weak_order A "answer_before q" for A q
  by unfold_locales (auto simp: answer_before_def dates_before_def split: if_splits)

lemma CheapestByDay_weak_order:
  assumes "filter_exact_date q \<longrightarrow> (\<forall>d \<in> A. exact_sane (exact_date_value q) d)"
  shows "strict_weak_order A (CheapestByDay_less q)"
proof -
  have eq: "CheapestByDay_less q a b \<longleftrightarrow> answer_before q a b" if "a \<in> A" "b \<in> A" for a b
    by (rule CheapestByDay_less_before) (use assms that in blast)
  show ?thesis
  proof
    show "\<not> CheapestByDay_less q b a" if "a \<in> A" "b \<in> A" "CheapestByDay_less q a b" for a b
      using that answer_order.asym [of a UNIV b q] by (simp add: eq)
    show "\<not> CheapestByDay_less q a c" if "a \<in> A" "b \<in> A" "c \<in> A" "\<not> CheapestByDay_less q a b" "\<not> CheapestByDay_less q b c" for a b c
      using that answer_order.negtrans [of a UNIV b c q] by (simp add: eq)
  qed
qed

section \<open>The key of a combination of dates\<close>

lemma low_bits_close:
  assumes "x mod k = y mod (k :: nat)" "x < y + k" "y < x + k"
  shows "x = y"
proof (cases "y \<le> x")
  case True
  then have "k dvd x - y" using assms(1) by (metis mod_eq_dvd_iff_nat)
  with True assms(2) show ?thesis by (metis add.commute dvd_imp_le le_add_diff_inverse2 less_diff_conv2 not_less zero_less_diff le_neq_implies_less)
next
  case False
  then have "k dvd y - x" using assms(1) by (metis mod_eq_dvd_iff_nat nat_le_linear)
  with False assms(3) show ?thesis by (metis add.commute dvd_imp_le less_diff_conv2 not_less zero_less_diff nat_le_linear)
qed

lemma take_bit_close:
  fixes x y :: u32
  assumes "take_bit n x = take_bit n y" "unat x < unat y + 2 ^ n" "unat y < unat x + 2 ^ n"
  shows "x = y"
proof -
  have "unat (take_bit n x) = unat (take_bit n y)" using assms(1) by simp
  then have "take_bit n (unat x) = take_bit n (unat y)" by (simp only: unsigned_take_bit_eq)
  then have "unat x mod 2 ^ n = unat y mod 2 ^ n" by (simp only: take_bit_eq_mod)
  from low_bits_close [OF this assms(2,3)] show ?thesis by (simp add: unsigned_word_eqI)
qed

lemma combination_key_inject:
  fixes d r :: u32
  assumes key: "push_bit 18 d XOR r = push_bit 18 d' XOR r'"
    and dep: "unat d < unat d' + 2 ^ 14" "unat d' < unat d + 2 ^ 14"
    and ret: "unat r < unat r' + 2 ^ 18" "unat r' < unat r + 2 ^ 18"
  shows "d = d' \<and> r = r'"
proof -
  have "take_bit 18 (push_bit 18 d XOR r) = take_bit 18 (push_bit 18 d' XOR r')" using key by simp
  then have "take_bit 18 r = take_bit 18 r'" by (simp add: take_bit_xor take_bit_push_bit)
  from take_bit_close [OF this ret] have r: "r = r'" .
  have "push_bit 18 d = push_bit 18 d'" using arg_cong [OF key, of "\<lambda>w. w XOR r"] r by (simp add: xor.assoc)
  then have "take_bit 14 d = take_bit 14 d'"
  proof -
    assume eq: "push_bit 18 d = push_bit 18 d'"
    show ?thesis
    proof (rule bit_word_eqI)
      fix n assume "n < LENGTH(32)"
      have "bit (push_bit 18 d) (n + 18) = bit (push_bit 18 d') (n + 18)" using eq by simp
      then show "bit (take_bit 14 d) n = bit (take_bit 14 d') n"
        by (auto simp: bit_simps)
    qed
  qed
  from take_bit_close [OF this dep] r show ?thesis by simp
qed

lemma matches_exact:
  "matches q d \<Longrightarrow> filter_exact_date q \<Longrightarrow> d_return_date d = exact_date_value q \<or> d_departure_date d = exact_date_value q"
  unfolding matches_def by blast

section \<open>Properties\<close>

lemma exact_found:
  assumes "day_ready q q0" "found = filter (matches (search_time ts t q)) xs"
    and "filter_exact_date q \<Longrightarrow> \<forall>d \<in> set found. d_departure_date d \<le> d_return_date d \<or> d_departure_date d = exact_date_value q"
  shows "filter_exact_date q0 \<longrightarrow> (\<forall>d \<in> set found. exact_sane (exact_date_value q0) d)"
proof (intro impI ballI)
  have q0: "filter_exact_date q0 = filter_exact_date q" "exact_date_value q0 = exact_date_value q"
    using day_ready_kept(7,8) [OF assms(1)] by auto
  fix d assume e: "filter_exact_date q0" and d: "d \<in> set found"
  have "matches (search_time ts t q) d" using d by (simp add: assms(2))
  from matches_exact [OF this] e have "d_return_date d = exact_date_value q \<or> d_departure_date d = exact_date_value q"
    by (simp add: search_time_def q0)
  with bspec [OF assms(3) d] e q0 show "exact_sane (exact_date_value q0) d" by (auto simp: exact_sane_def)
qed

text \<open>
  The answers are in the order of their dates, not of their prices, and the number of requested days
  replaces the limit of the request.
\<close>

theorem day_answers:
  assumes "scannable os time0 now t" and "iteration_order iter" and "day_ready q q0"
    and "found = filter (matches (search_time ts t q)) (contents now t)"
    and "filter_exact_date q \<Longrightarrow> \<forall>d \<in> set found. d_departure_date d \<le> d_return_date d \<or> d_departure_date d = exact_date_value q"
  shows "\<exists>res t'. CheapestByDay_execute os ts time0 now iter q t = (Inr res, t')
    \<and> set res \<subseteq> set found \<and> distinct (map (getDateToGroup q0) res)
    \<and> length res = min (unat (filter_result_limit q0)) (card (getDateToGroup q0 ` set found))
    \<and> (if \<not> filter_exact_date q \<and> group_by_return_date q0 then sorted (map d_return_date res)
       else sorted_wrt (\<lambda>a b. d_departure_date a < d_departure_date b \<or>
              d_departure_date a = d_departure_date b \<and> d_return_date a \<le> d_return_date b) res)"
proof -
  obtain ks t' where r: "CheapestByDay_execute os ts time0 now iter q t =
      (Inr (answer (CheapestByDay_less q0) (getDateToGroup q0) (unat (filter_result_limit q0)) found ks), t')"
    and ks: "keys_of (getDateToGroup q0) found ks"
    using CheapestByDay_answer [OF assms(1-3), of ts] unfolding assms(4) by blast
  let ?res = "answer (CheapestByDay_less q0) (getDateToGroup q0) (unat (filter_result_limit q0)) found ks"
  have q0: "filter_exact_date q0 = filter_exact_date q" "exact_date_value q0 = exact_date_value q"
    using day_ready_kept(7,8) [OF assms(3)] by auto
  note sane = exact_found [OF assms(3-5)]
  have mem: "set ?res \<subseteq> set found" using answer_mem [OF ks] by auto
  have "sorted_wrt (\<lambda>a b. \<not> CheapestByDay_less q0 b a) ?res"
    by (rule answer_sorted [OF ks CheapestByDay_weak_order [OF sane]])
  then have sorted: "sorted_wrt (\<lambda>a b. \<not> answer_before q0 b a) ?res"
  proof (rule sorted_wrt_mono_rel [rotated])
    show "\<not> answer_before q0 b a" if "a \<in> set ?res" "b \<in> set ?res" "\<not> CheapestByDay_less q0 b a" for a b
    proof -
      have "CheapestByDay_less q0 b a \<longleftrightarrow> answer_before q0 b a"
        by (rule CheapestByDay_less_before) (use sane subsetD [OF mem that(1)] subsetD [OF mem that(2)] in simp)
      with that(3) show ?thesis by simp
    qed
  qed
  have ord: "if \<not> filter_exact_date q \<and> group_by_return_date q0 then sorted (map d_return_date ?res)
       else sorted_wrt (\<lambda>a b. d_departure_date a < d_departure_date b \<or>
              d_departure_date a = d_departure_date b \<and> d_return_date a \<le> d_return_date b) ?res"
  proof (cases "\<not> filter_exact_date q \<and> group_by_return_date q0")
    case True
    then show ?thesis using sorted by (simp add: answer_before_def q0 sorted_map not_less)
  next
    case False
    have "sorted_wrt (\<lambda>a b. \<not> dates_before b a) ?res" using sorted False by (simp add: answer_before_def q0)
    then have "sorted_wrt (\<lambda>a b. d_departure_date a < d_departure_date b \<or>
              d_departure_date a = d_departure_date b \<and> d_return_date a \<le> d_return_date b) ?res"
      by (rule sorted_wrt_mono_rel [rotated]) (auto simp: dates_before_def not_less)
    then show ?thesis by (simp only: False if_False)
  qed
  show ?thesis using r mem answer_distinct [OF ks] answer_length [OF ks] ord
    by (intro exI [of _ ?res] exI [of _ t'] conjI) simp_all
qed

text \<open>
  One answer for every group of dates that has any matching deal, where neither the limit nor the number of requested
  days is below the number of these groups, by a comparison that a sort can rely on.
\<close>

lemma day_groups:
  assumes "scannable os time0 now t" and "iteration_order iter" and "day_ready q q0"
    and "found = filter (matches (search_time ts t q)) (contents now t)"
    and "filter_exact_date q \<Longrightarrow> \<forall>d \<in> set found. d_departure_date d \<le> d_return_date d \<or> d_departure_date d = exact_date_value q"
    and "card (getDateToGroup q0 ` set found) \<le> unat (filter_result_limit q0)"
    and "falling found" and "\<forall>d \<in> set found. d_price d \<noteq> 0"
  shows "\<exists>res t'. CheapestByDay_execute os ts time0 now iter q t = (Inr res, t')
    \<and> set res \<subseteq> set found \<and> distinct (map (getDateToGroup q0) res)
    \<and> getDateToGroup q0 ` set res = getDateToGroup q0 ` set found
    \<and> (\<forall>r \<in> set res. \<forall>d \<in> set found. getDateToGroup q0 d = getDateToGroup q0 r \<longrightarrow>
          d_price r \<le> d_price d \<and> (deal_equal d r \<longrightarrow> d_timestamp d \<le> d_timestamp r))
    \<and> strict_weak_order (set found) (CheapestByDay_less q0)"
proof -
  obtain ks t' where r: "CheapestByDay_execute os ts time0 now iter q t =
      (Inr (answer (CheapestByDay_less q0) (getDateToGroup q0) (unat (filter_result_limit q0)) found ks), t')"
    and ks: "keys_of (getDateToGroup q0) found ks"
    using CheapestByDay_answer [OF assms(1-3), of ts] unfolding assms(4) by blast
  let ?res = "answer (CheapestByDay_less q0) (getDateToGroup q0) (unat (filter_result_limit q0)) found ks"
  have mem: "set ?res \<subseteq> set found" using answer_mem [OF ks] by auto
  note dist = answer_distinct [OF ks, of "CheapestByDay_less q0" "unat (filter_result_limit q0)"]
  have "length ?res = card (getDateToGroup q0 ` set found)" using answer_length [OF ks] assms(6) by simp
  then have "card (getDateToGroup q0 ` set ?res) = card (getDateToGroup q0 ` set found)" using distinct_card [OF dist] by simp
  then have all: "getDateToGroup q0 ` set ?res = getDateToGroup q0 ` set found" using mem by (intro card_subset_eq) auto
  have ord: "strict_weak_order (set found) (CheapestByDay_less q0)"
    by (rule CheapestByDay_weak_order [OF exact_found [OF assms(3-5)]])
  show ?thesis using r mem dist all ord answer_falling [OF ks assms(7,8)] by blast
qed


definition sample_day_query :: CheapestByDay where
  "sample_day_query = CheapestByDay_new (SearchQuery.extend raw_query (CheapestByDay.fields [] [] [] True))
     \<lparr>filter_departure_date := True, departure_date_values := \<lparr>di_from = 20170110, di_to = 20170120, di_duration = 11\<rparr>\<rparr>"

lemma sample_day_ready:
  "day_ready sample_day_query (sample_day_query\<lparr>filter_result_limit := 11\<rparr>)" "\<not> filter_exact_date sample_day_query"
  "matches (search_time 86500 (deals_table ds) sample_day_query) =
     (\<lambda>d. 100 < d_timestamp d \<and> d_departure_date d \<in> {20170110 .. 20170120})"
  "\<not> group_by_return_date sample_day_query" "filter_all_combinations sample_day_query = False"
  by (simp_all add: fun_eq_iff sample_day_query_def CheapestByDay_new_def SearchQuery_init_def day_ready_def CheapestByDay_pre_search_def
      checkInputParams_def raw_query_def SearchQuery.defs CheapestByDay.defs search_time_def matches_def one_page_basics DEALS_EXPIRES_def word_le_nat_alt)


text \<open>
  C37. With all combinations requested, two deals whose departure codes are less than \<open>2^14\<close> and
  whose return codes are less than \<open>2^18\<close> apart, which covers any eleven days, fall into one
  group only when both dates agree, although the key keeps 14 bits of the departure code.
\<close>

theorem combination_groups:
  assumes "filter_all_combinations q" and "\<not> filter_exact_date q"
    and "\<bar>uint (d_departure_date a) - uint (d_departure_date b)\<bar> < 2 ^ 14"
    and "\<bar>uint (d_return_date a) - uint (d_return_date b)\<bar> < 2 ^ 18"
  shows "getDateToGroup q a = getDateToGroup q b \<longleftrightarrow>
    d_departure_date a = d_departure_date b \<and> d_return_date a = d_return_date b"
proof -
  have close: "unat x < unat y + n \<and> unat y < unat x + n" if "\<bar>uint x - uint y\<bar> < int n" for x y :: u32 and n
  proof -
    have "uint x = int (unat x)" "uint y = int (unat y)" by simp_all
    then show ?thesis using that by linarith
  qed
  have "unat (d_departure_date a) < unat (d_departure_date b) + 2 ^ 14" "unat (d_departure_date b) < unat (d_departure_date a) + 2 ^ 14"
    "unat (d_return_date a) < unat (d_return_date b) + 2 ^ 18" "unat (d_return_date b) < unat (d_return_date a) + 2 ^ 18"
    using close [of _ _ "2 ^ 14"] close [of _ _ "2 ^ 18"] assms(3,4) by auto
  from combination_key_inject [OF _ this] show ?thesis using assms(1,2) by (auto simp: getDateToGroup_def)
qed

theorem combination_groups_witness:
  "getDateToGroup (sample_day_query\<lparr>filter_all_combinations := True\<rparr>) (sample_deal 1 20161231 30 101) \<noteq>
   getDateToGroup (sample_day_query\<lparr>filter_all_combinations := True\<rparr>) (sample_deal 1 20170101 30 101)"
proof -
  let ?q = "sample_day_query\<lparr>filter_all_combinations := True\<rparr>"
  have "\<not> filter_exact_date ?q" "filter_all_combinations ?q" using sample_day_ready(2) by simp_all
  with combination_groups [of ?q "sample_deal 1 20161231 30 101" "sample_deal 1 20170101 30 101"] show ?thesis
    by (simp add: sample_deal_def)
qed

end
