(* ===== verification/DealsUniqueRoutes.thy ===== *)
theory DealsUniqueRoutes
  imports Aggregation
begin

text \<open>
  Model of \<^verbatim>\<open>src/deals_unique_routes.hpp\<close> and \<^verbatim>\<open>src/deals_unique_routes.cpp\<close>: the list of all
  routes with a price.  The members of \<^verbatim>\<open>UniqueProcessor\<close> are the one map it groups in.
\<close>

section \<open>Grouping by a key\<close>

text \<open>
  A scan that keeps one value per key in an \<^verbatim>\<open>unordered_map\<close> computes for every key the fold over
  the elements of that key.
\<close>

definition um_group :: "('e \<Rightarrow> 'k) \<Rightarrow> ('v \<Rightarrow> 'e \<Rightarrow> 'v) \<Rightarrow> 'v \<Rightarrow> 'e list \<Rightarrow> ('k, 'v) umap" where
  "um_group key f z es = foldl (\<lambda>m e. um_set (key e) (f (um_at z m (key e)) e) m) [] es"

lemma um_group_snoc:
  "um_group key f z (es @ [e]) = um_set (key e) (f (um_at z (um_group key f z es) (key e)) e) (um_group key f z es)"
  by (simp add: um_group_def)

lemma um_group_at: "um_at z (um_group key f z es) k = foldl f z (filter (\<lambda>e. key e = k) es)"
proof (induction es rule: rev_induct)
  case (snoc e es)
  then show ?case by (auto simp: um_group_snoc)
qed (simp add: um_group_def)

lemma um_group_keys:
  "distinct (map fst (um_group key f z es)) \<and> set (map fst (um_group key f z es)) = key ` set es"
proof (induction es rule: rev_induct)
  case (snoc e es)
  then show ?case unfolding um_group_snoc keys_um_set by (simp add: distinct_um_set)
qed (simp add: um_group_def)

lemma um_group_entry:
  assumes "(k, v) \<in> set (um_group key f z es)"
  shows "v = foldl f z (filter (\<lambda>e. key e = k) es) \<and> k \<in> key ` set es"
proof -
  have "um_at z (um_group key f z es) k = v" using um_group_keys [of key f z es] assms by (intro um_at_mem) auto
  moreover have "k \<in> set (map fst (um_group key f z es))" using assms by force
  ultimately show ?thesis using um_group_at [of z key f es k] um_group_keys [of key f z es] by simp
qed

lemma um_group_iterated:
  assumes "iteration_order iter"
  obtains ks where "distinct ks" "set ks = key ` set es"
    "iter (um_group key f z es) = map (\<lambda>k. (k, foldl f z (filter (\<lambda>e. key e = k) es))) ks"
proof -
  let ?m = "um_group key f z es"
  have "map (\<lambda>k. (k, foldl f z (filter (\<lambda>e. key e = k) es))) (map fst (iter ?m)) = iter ?m"
  proof -
    have "(fst x, foldl f z (filter (\<lambda>e. key e = fst x) es)) = x" if "x \<in> set (iter ?m)" for x
      using um_group_entry [of "fst x" "snd x" key f z es] that iteration_order_set [OF assms, of ?m] by (simp add: prod_eq_iff)
    then show ?thesis by (simp add: map_idI)
  qed
  then show thesis using that [of "map fst (iter ?m)"] um_group_keys [of key f z es]
    iteration_order_distinct [OF assms, of ?m] iteration_order_set [OF assms, of ?m] by simp
qed

section \<open>Unique routes\<close>

definition route_key :: "DealInfo \<Rightarrow> u64" where
  "route_key deal = push_bit 32 (ucast (d_origin deal)) + ucast (d_destination deal)"

definition UniqueProcessor_process_element :: "(u64, DealInfo) umap \<Rightarrow> DealInfo \<Rightarrow> (u64, DealInfo) umap" where
  "UniqueProcessor_process_element grouped_by_routes deal =
     (let route = route_key deal;
          dst_deal = um_at deal_zero grouped_by_routes route;
          m = um_set route dst_deal grouped_by_routes
      in if d_price dst_deal = 0 \<or> d_price dst_deal \<ge> d_price deal
         then if d_price dst_deal = d_price deal \<and> d_timestamp dst_deal > d_timestamp deal then m
              else um_set route deal m
         else if d_departure_date deal = d_departure_date dst_deal \<and> d_return_date deal = d_return_date dst_deal \<and>
                 d_direct deal = d_direct dst_deal \<and> d_timestamp dst_deal < d_timestamp deal
              then um_set route (deal\<lparr>d_overriden := True\<rparr>) m
              else m)"

definition route_line :: "DealInfo \<Rightarrow> string" where
  "route_line deal = code_to_origin (d_origin deal) @ '','' @ code_to_origin (d_destination deal) @ '','' @
     to_string (unat (d_price deal)) @ [LF]"

definition UniqueProcessor_getStringResults ::
  "((u64, DealInfo) umap \<Rightarrow> (u64, DealInfo) umap) \<Rightarrow> (u64, DealInfo) umap \<Rightarrow> string" where
  "UniqueProcessor_getStringResults iter grouped_by_routes =
     foldl (\<lambda>res elm. res @ route_line (snd elm)) [] (iter grouped_by_routes)"

definition getUniqueRoutesRoutine ::
  "os \<Rightarrow> u32 \<Rightarrow> u32 \<Rightarrow> ((u64, DealInfo) umap \<Rightarrow> (u64, DealInfo) umap) \<Rightarrow> (DealInfo Table, string) op" where
  "getUniqueRoutesRoutine os time0 now iter =
     sbind (processRecords os time0 now UniqueProcessor_process_element [])
       (\<lambda>up. ret (UniqueProcessor_getStringResults iter up))"

section \<open>What the list holds\<close>

definition route_step :: "DealInfo \<Rightarrow> DealInfo \<Rightarrow> DealInfo" where
  "route_step dst deal =
     (if d_price dst = 0 \<or> d_price dst \<ge> d_price deal
      then if d_price dst = d_price deal \<and> d_timestamp dst > d_timestamp deal then dst else deal
      else if d_departure_date deal = d_departure_date dst \<and> d_return_date deal = d_return_date dst \<and>
              d_direct deal = d_direct dst \<and> d_timestamp dst < d_timestamp deal
           then deal\<lparr>d_overriden := True\<rparr> else dst)"

lemma UniqueProcessor_group:
  "foldl UniqueProcessor_process_element [] ds = um_group route_key route_step deal_zero ds"
proof -
  have "UniqueProcessor_process_element m d = um_set (route_key d) (route_step (um_at deal_zero m (route_key d)) d) m" for m d
    by (simp add: UniqueProcessor_process_element_def route_step_def Let_def)
  then have "UniqueProcessor_process_element = (\<lambda>m d. um_set (route_key d) (route_step (um_at deal_zero m (route_key d)) d) m)"
    by (intro ext)
  then show ?thesis by (simp add: um_group_def)
qed

lemma digits_inject:
  fixes y y' :: int
  assumes "y < k" "0 \<le> y" "y' < k" "0 \<le> y'" "x * k + y = x' * k + y'"
  shows "x = x' \<and> y = y'"
proof -
  have "(x * k + y) div k = x" "(x' * k + y') div k = x'" using assms(1-4) by (simp_all add: div_pos_pos_trivial)
  with assms(5) show ?thesis by simp
qed

lemma route_key_inject: "route_key a = route_key b \<longleftrightarrow> d_origin a = d_origin b \<and> d_destination a = d_destination b"
proof -
  have u: "uint (route_key d) = uint (d_origin d) * 2 ^ 32 + uint (d_destination d)" for d
  proof -
    have o: "uint (d_origin d) < 2 ^ 32" "uint (d_destination d) < 2 ^ 32" "0 \<le> uint (d_origin d)" "0 \<le> uint (d_destination d)"
      using unsigned_less [of "d_origin d", where ?'a = int] unsigned_less [of "d_destination d", where ?'a = int] by simp_all
    have "uint (ucast (d_origin d) :: u64) = uint (d_origin d)" "uint (ucast (d_destination d) :: u64) = uint (d_destination d)"
      using o by (simp_all add: unsigned_ucast_eq take_bit_int_eq_self)
    then show ?thesis using o
      by (simp add: route_key_def uint_word_ariths unsigned_push_bit_eq take_bit_eq_mod push_bit_eq_mult)
  qed
  have bound: "uint (d_destination d) < 2 ^ 32" "0 \<le> uint (d_destination d)" for d
    using unsigned_less [of "d_destination d", where ?'a = int] by simp_all
  show ?thesis
  proof
    assume "route_key a = route_key b"
    then have e: "uint (d_origin a) * 2 ^ 32 + uint (d_destination a) = uint (d_origin b) * 2 ^ 32 + uint (d_destination b)"
      using u [of a] u [of b] by simp
    from digits_inject [OF bound [of a] bound [of b] this]
    show "d_origin a = d_origin b \<and> d_destination a = d_destination b" by (simp add: word_uint_eq_iff)
  qed (simp add: route_key_def)
qed

definition same_route :: "DealInfo \<Rightarrow> DealInfo \<Rightarrow> bool" where
  "same_route a b \<longleftrightarrow> d_origin a = d_origin b \<and> d_destination a = d_destination b"

lemma route_step_cases: "route_step dst d = dst \<or> same_deal (route_step dst d) d"
  by (simp add: route_step_def same_deal_def)

lemma route_step_zero: "route_step deal_zero d = d"
  by (simp add: route_step_def deal_zero_def)

lemma route_fold_mem: "ds \<noteq> [] \<Longrightarrow> \<exists>d \<in> set ds. same_deal (foldl route_step deal_zero ds) d"
proof (induction ds rule: rev_induct)
  case (snoc d ds)
  let ?x = "foldl route_step deal_zero ds"
  have eq: "foldl route_step deal_zero (ds @ [d]) = route_step ?x d" by simp
  show ?case
  proof (cases "ds = [] \<or> same_deal (route_step ?x d) d")
    case True
    then have "same_deal (route_step ?x d) d" by (auto simp: route_step_zero same_deal_def)
    then show ?thesis unfolding eq by (intro bexI [of _ d]) simp_all
  next
    case False
    then have "route_step ?x d = ?x" using route_step_cases by blast
    moreover obtain e where "e \<in> set ds" "same_deal ?x e" using snoc.IH False by blast
    ultimately show ?thesis unfolding eq by (intro bexI [of _ e]) simp_all
  qed
qed simp

lemma image_same_fibres:
  assumes "\<And>a b. f a = f b \<Longrightarrow> g a = g b" "f ` A = f ` B"
  shows "g ` A = g ` B"
proof -
  have "g ` A \<subseteq> g ` B" if sub: "f ` A \<subseteq> f ` B" for A B
  proof
    fix y assume "y \<in> g ` A"
    then obtain a where a: "a \<in> A" "y = g a" by blast
    then obtain b where "b \<in> B" "f a = f b" using sub by blast
    then show "y \<in> g ` B" using assms(1) [of a b] a by blast
  qed
  from this [of A B] this [of B A] show ?thesis by (simp add: assms(2) subset_antisym)
qed

lemma route_fold_cheapest:
  "ds \<noteq> [] \<Longrightarrow> no_repeats ds \<Longrightarrow> \<forall>a \<in> set ds. d_price a \<noteq> 0 \<and> same_route a r \<Longrightarrow>
   \<forall>a \<in> set ds. d_price (foldl route_step deal_zero ds) \<le> d_price a"
proof (induction ds rule: rev_induct)
  case (snoc d ds)
  show ?case
  proof (cases "ds = []")
    case True
    then show ?thesis by (simp add: route_step_zero)
  next
    case False
    let ?x = "foldl route_step deal_zero ds"
    from route_fold_mem [OF False] obtain e where e: "e \<in> set ds" "same_deal ?x e" by blast
    have sr: "same_route d e" using snoc.prems(3) e(1) by (auto simp: same_route_def)
    have "\<not> deal_equal e d" using snoc.prems(2) e(1) by (simp add: no_repeats_snoc)
    then have ne: "\<not> (d_departure_date d = d_departure_date ?x \<and> d_return_date d = d_return_date ?x \<and> d_direct d = d_direct ?x)"
      using sr e(2) by (auto simp: deal_equal_def same_route_def same_deal_def)
    have "d_price ?x \<noteq> 0" using snoc.prems(3) e same_dealD [OF e(2)] by simp
    then have "route_step ?x d = (if d_price ?x \<ge> d_price d \<and> \<not> (d_price ?x = d_price d \<and> d_timestamp ?x > d_timestamp d) then d else ?x)"
      using ne by (auto simp: route_step_def)
    moreover have "\<forall>a \<in> set ds. d_price ?x \<le> d_price a" using snoc False by (simp add: no_repeats_snoc)
    ultimately show ?thesis by (auto simp: not_le intro: order_trans)
  qed
qed simp

lemma foldl_append_map: "foldl (\<lambda>res e. res @ f e) acc es = acc @ concat (map f es)"
  by (induction es arbitrary: acc) simp_all

lemma route_groups:
  assumes "scannable os time0 now t" and "iteration_order iter"
  obtains ks t' where "processRecords os time0 now UniqueProcessor_process_element [] t = (Inr (um_group route_key route_step deal_zero (contents now t)), t')"
    "iter (um_group route_key route_step deal_zero (contents now t)) =
       map (\<lambda>k. (k, foldl route_step deal_zero (filter (\<lambda>e. route_key e = k) (contents now t)))) ks"
    "distinct ks" "set ks = route_key ` set (contents now t)"
proof -
  obtain t' where "processRecords os time0 now UniqueProcessor_process_element [] t = (Inr (um_group route_key route_step deal_zero (contents now t)), t')"
    using processRecords_scannable [OF assms(1), of UniqueProcessor_process_element "[]"] unfolding UniqueProcessor_group by blast
  moreover obtain ks where "distinct ks" "set ks = route_key ` set (contents now t)"
    "iter (um_group route_key route_step deal_zero (contents now t)) =
       map (\<lambda>k. (k, foldl route_step deal_zero (filter (\<lambda>e. route_key e = k) (contents now t)))) ks"
    using um_group_iterated [OF assms(2)] by blast
  ultimately show thesis using that by blast
qed



text \<open>The text that is sent has one line for each, which ends with its price.\<close>

theorem unique_routes_text:
  assumes "scannable os time0 now t" and "iteration_order iter"
  shows "\<exists>m t'. processRecords os time0 now UniqueProcessor_process_element [] t = (Inr m, t') \<and>
    getUniqueRoutesRoutine os time0 now iter t = (Inr (concat (map (\<lambda>(_, r). route_line r) (iter m))), t')"
proof -
  obtain ks t' where run: "processRecords os time0 now UniqueProcessor_process_element [] t = (Inr (um_group route_key route_step deal_zero (contents now t)), t')"
    and it: "iter (um_group route_key route_step deal_zero (contents now t)) =
       map (\<lambda>k. (k, foldl route_step deal_zero (filter (\<lambda>e. route_key e = k) (contents now t)))) ks"
    by (rule route_groups [OF assms]) (rule that)
  show ?thesis
    by (simp add: run getUniqueRoutesRoutine_def UniqueProcessor_getStringResults_def it foldl_append_map o_def)
qed

end
