(* ===== verification/DealsStats.thy ===== *)
theory DealsStats
  imports Samples
begin

text \<open>
  Model of \<^verbatim>\<open>src/deals_stats.hpp\<close> and \<^verbatim>\<open>src/deals_stats.cpp\<close>: the counters over all visible
  deals.  The member \<^verbatim>\<open>group_by_route\<close> is only used in commented-out code and is left out.
\<close>

record StatsProcessor =
  st_elements :: u64
  st_total :: u64
  st_max :: u32
  st_min :: u32

definition StatsProcessor_init :: StatsProcessor where
  "StatsProcessor_init = \<lparr>st_elements = 0, st_total = 0, st_max = 0, st_min = - 1\<rparr>"

definition StatsProcessor_process_element :: "StatsProcessor \<Rightarrow> DealInfo \<Rightarrow> StatsProcessor" where
  "StatsProcessor_process_element st deal =
     (let st = st\<lparr>st_elements := st_elements st + 1\<rparr>;
          st = st\<lparr>st_total := st_total st + ucast (d_size deal)\<rparr>;
          st = (if d_timestamp deal > st_max st then st\<lparr>st_max := d_timestamp deal\<rparr> else st)
      in if d_timestamp deal < st_min st then st\<lparr>st_min := d_timestamp deal\<rparr> else st)"

definition quoted :: "string \<Rightarrow> string" where "quoted s = [CHR 0x22] @ s @ [CHR 0x22]"

definition StatsProcessor_getStringResults :: "StatsProcessor \<Rightarrow> string" where
  "StatsProcessor_getStringResults st =
     ''{'' @ quoted ''elements'' @ '':'' @ to_string (unat (st_elements st)) @
     '','' @ quoted ''size'' @ '':'' @ to_string (unat (st_total st)) @
     '','' @ quoted ''min'' @ '':'' @ to_string (unat (st_min st)) @
     '','' @ quoted ''max'' @ '':'' @ to_string (unat (st_max st)) @ ''}''"

definition getStatsRoutine :: "os \<Rightarrow> u32 \<Rightarrow> u32 \<Rightarrow> (DealInfo Table, string) op" where
  "getStatsRoutine os time0 now =
     sbind (processRecords os time0 now StatsProcessor_process_element StatsProcessor_init)
       (\<lambda>stat. ret (StatsProcessor_getStringResults stat))"

lemma stats_step:
  "StatsProcessor_process_element st d = st\<lparr>st_elements := st_elements st + 1, st_total := st_total st + ucast (d_size d),
     st_max := max (d_timestamp d) (st_max st), st_min := min (d_timestamp d) (st_min st)\<rparr>"
  by (cases st) (auto simp: StatsProcessor_process_element_def Let_def max_def min_def)

lemma stats_fold:
  "foldl StatsProcessor_process_element StatsProcessor_init ds =
     \<lparr>st_elements = of_nat (length ds), st_total = of_nat (sum_list (map (\<lambda>d. unat (d_size d)) ds)),
      st_max = fold max (map d_timestamp ds) 0, st_min = fold min (map d_timestamp ds) (- 1)\<rparr>"
proof (induction ds rule: rev_induct)
  case Nil
  then show ?case by (simp add: StatsProcessor_init_def)
next
  case (snoc d ds)
  have "(ucast (d_size d) :: u64) = of_nat (unat (d_size d))" by simp
  with snoc show ?case by (simp add: stats_step)
qed

lemma fold_max_eq: "fold max xs (a :: 'a :: linorder) = Max (insert a (set xs))"
  by (metis Max.set_eq_fold list.simps(15))

lemma fold_min_eq: "fold min xs (a :: 'a :: linorder) = Min (insert a (set xs))"
  by (metis Min.set_eq_fold list.simps(15))

lemma stats_scan:
  assumes "scannable os time0 now t"
  obtains t' where "processRecords os time0 now StatsProcessor_process_element StatsProcessor_init t =
      (Inr (foldl StatsProcessor_process_element StatsProcessor_init (contents now t)), t')"
  using processRecords_scannable [OF assms, of StatsProcessor_process_element StatsProcessor_init] that by blast

text \<open>
  C39. The counters of the statistics are exact: the number of visible deals and the sum of their data
  sizes, both modulo \<open>2^64\<close>, and, when there is a deal, the least and the greatest of the timestamps.
\<close>

theorem stats_exact:
  assumes "scannable os time0 now t" and "contents now t \<noteq> []"
  shows "\<exists>st t'. processRecords os time0 now StatsProcessor_process_element StatsProcessor_init t = (Inr st, t')
    \<and> unat (st_elements st) = length (contents now t) mod 2 ^ 64
    \<and> unat (st_total st) = (\<Sum>d \<leftarrow> contents now t. unat (d_size d)) mod 2 ^ 64
    \<and> st_min st = Min (d_timestamp ` set (contents now t)) \<and> st_max st = Max (d_timestamp ` set (contents now t))"
proof -
  let ?ts = "d_timestamp ` set (contents now t)"
  obtain t' where "processRecords os time0 now StatsProcessor_process_element StatsProcessor_init t =
      (Inr (foldl StatsProcessor_process_element StatsProcessor_init (contents now t)), t')"
    using stats_scan [OF assms(1)] .
  moreover have "?ts \<noteq> {}" using assms(2) by simp
  then have "Min (insert (- 1) ?ts) = Min ?ts" "Max (insert 0 ?ts) = Max ?ts"
    by (simp_all add: min_absorb2 max_absorb2)
  ultimately show ?thesis by (simp add: stats_fold fold_max_eq fold_min_eq unat_of_nat)
qed

theorem stats_exact_witness:
  "\<exists>st t'. processRecords healthy_os 86500 86500 StatsProcessor_process_element StatsProcessor_init
      (deals_table [sample_deal 1 17 30 101, sample_deal 1 14 20 102]) = (Inr st, t')
    \<and> unat (st_elements st) = 2 \<and> st_min st = 101 \<and> st_max st = 102"
proof -
  let ?ds = "[sample_deal 1 17 30 101, sample_deal 1 14 20 102]"
  have l: "length ?ds \<le> 4" by simp
  have c: "contents 86500 (deals_table ?ds) = ?ds" by (simp add: deals_table_ready)
  have v: "d_timestamp (sample_deal a b c d) = d" for a b c d by (simp add: sample_deal_def deal_zero_def)
  from stats_exact [OF deals_table_ready(1) [OF l, of 86500]] show ?thesis
    unfolding c by (auto simp: v min_def max_def)
qed

text \<open>
  The text has these four numbers and nothing else; without a deal it is not empty but shows the
  32-bit extremes as timestamps.
\<close>

theorem stats_text:
  assumes "scannable os time0 now t"
  shows "\<exists>t'. getStatsRoutine os time0 now t =
     (Inr (''{'' @ quoted ''elements'' @ '':'' @ to_string (length (contents now t) mod 2 ^ 64) @
       '','' @ quoted ''size'' @ '':'' @ to_string ((\<Sum>d \<leftarrow> contents now t. unat (d_size d)) mod 2 ^ 64) @
       '','' @ quoted ''min'' @ '':'' @ to_string (unat (Min (insert (- 1) (d_timestamp ` set (contents now t))))) @
       '','' @ quoted ''max'' @ '':'' @ to_string (unat (Max (insert 0 (d_timestamp ` set (contents now t))))) @ ''}''), t')"
proof -
  obtain t' where "processRecords os time0 now StatsProcessor_process_element StatsProcessor_init t =
      (Inr (foldl StatsProcessor_process_element StatsProcessor_init (contents now t)), t')"
    using stats_scan [OF assms] .
  then show ?thesis
    by (simp add: getStatsRoutine_def stats_fold StatsProcessor_getStringResults_def fold_max_eq fold_min_eq unat_of_nat)
qed

end
