(* ===== verification/MemorySafety.thy ===== *)
theory MemorySafety
  imports TableContents
begin

text \<open>
  Memory safety of the tables without any assumption about what the system calls, the clock or
  earlier failures did: every operation stays inside the mapped pages and keeps the little that
  the next operation needs for that, on the normal and on the exceptional way out.  Nor does it
  divide by zero, for which the file system of the shared memory has to report its size.
\<close>

section \<open>Operations that do not end the process\<close>

definition nosegv :: "'a result \<Rightarrow> bool" where
  "nosegv r \<longleftrightarrow> (\<forall>e. r = Inl e \<longrightarrow> \<not> kills e)"

lemma nosegv_alt: "nosegv r \<longleftrightarrow> r \<noteq> Inl segv \<and> r \<noteq> Inl sigfpe"
  by (auto simp: nosegv_def kills_def)

lemma not_kills [simp]: "\<not> kills (Error m c)"
  by (simp add: kills_def segv_def sigfpe_def)

named_theorems nosegv_rules

lemma nosegv_basic [nosegv_rules]: "nosegv (Inr x)" "nosegv (Inl (Error m c))"
  by (simp_all add: nosegv_def)

lemma nosegv_rbind [nosegv_rules]: "nosegv r \<Longrightarrow> (\<And>x. nosegv (f x)) \<Longrightarrow> nosegv (rbind r f)"
  by (cases r) (simp_all add: nosegv_def)

lemma nosegv_if [nosegv_rules]: "(b \<Longrightarrow> nosegv r) \<Longrightarrow> (\<not> b \<Longrightarrow> nosegv s) \<Longrightarrow> nosegv (if b then r else s)"
  by simp

text \<open>
  From a state with the invariant \<open>I\<close> and the precondition \<open>P\<close> the operation does not end the
  process and keeps the invariant on every way out; when it returns \<open>x\<close>, \<open>Q x\<close> holds.
\<close>

definition safe_op :: "('s \<Rightarrow> bool) \<Rightarrow> ('s \<Rightarrow> bool) \<Rightarrow> ('s, 'a) op \<Rightarrow> ('a \<Rightarrow> 's \<Rightarrow> bool) \<Rightarrow> bool" where
  "safe_op I P m Q \<longleftrightarrow> (\<forall>s. I s \<longrightarrow> P s \<longrightarrow>
     nosegv (fst (m s)) \<and> I (snd (m s)) \<and> (\<forall>x. fst (m s) = Inr x \<longrightarrow> Q x (snd (m s))))"

abbreviation any :: "'s \<Rightarrow> bool" where "any \<equiv> (\<lambda>_. True)"

abbreviation anything :: "'a \<Rightarrow> 's \<Rightarrow> bool" where "anything \<equiv> (\<lambda>_ _. True)"

named_theorems safe_rules

lemma safe_opI:
  assumes "\<And>s r s'. I s \<Longrightarrow> P s \<Longrightarrow> m s = (r, s') \<Longrightarrow> nosegv r \<and> I s' \<and> (\<forall>x. r = Inr x \<longrightarrow> Q x s')"
  shows "safe_op I P m Q"
  unfolding safe_op_def
proof (intro allI impI)
  fix s assume "I s" "P s"
  from assms [OF this, of "fst (m s)" "snd (m s)"]
  show "nosegv (fst (m s)) \<and> I (snd (m s)) \<and> (\<forall>x. fst (m s) = Inr x \<longrightarrow> Q x (snd (m s)))" by simp
qed

lemma safe_opD:
  assumes "safe_op I P m Q" "I s" "P s" "m s = (r, s')"
  shows "nosegv r" "I s'" "r = Inr x \<Longrightarrow> Q x s'"
  using assms unfolding safe_op_def by (metis fst_conv snd_conv)+

lemma safe_sbind:
  assumes "safe_op I P m Q" "\<And>x. safe_op I (Q x) (f x) R"
  shows "safe_op I P (sbind m f) R"
proof (rule safe_opI)
  fix s r s' assume s: "I s" "P s" and run: "sbind m f s = (r, s')"
  obtain r1 s1 where m: "m s = (r1, s1)" by fastforce
  note h = safe_opD [OF assms(1) s m]
  show "nosegv r \<and> I s' \<and> (\<forall>x. r = Inr x \<longrightarrow> R x s')"
  proof (cases r1)
    case (Inl e)
    with m run h show ?thesis by (auto simp: sbind_def nosegv_def)
  next
    case (Inr x)
    with m run have "f x s1 = (r, s')" by (simp add: sbind_def)
    from safe_opD [OF assms(2) h(2) h(3) [OF Inr] this] show ?thesis by blast
  qed
qed

lemma safe_then [safe_rules]: "safe_op I P m anything \<Longrightarrow> (\<And>x. safe_op I any (f x) Q) \<Longrightarrow> safe_op I P (sbind m f) Q"
  by (rule safe_sbind)

lemma safe_weaken:
  "safe_op I P m Q \<Longrightarrow> (\<And>s. I s \<Longrightarrow> P' s \<Longrightarrow> P s) \<Longrightarrow> (\<And>x s. I s \<Longrightarrow> Q x s \<Longrightarrow> Q' x s) \<Longrightarrow> safe_op I P' m Q'"
  unfolding safe_op_def by blast

lemma safe_ret [safe_rules]: "safe_op I (Q x) (ret x) Q"
  by (simp add: safe_op_def nosegv_rules)

lemma safe_throw [safe_rules]: "safe_op I P (throw (Error m c)) Q"
  by (simp add: safe_op_def nosegv_rules)

lemma safe_modify: "(\<And>s. I s \<Longrightarrow> P s \<Longrightarrow> I (f s) \<and> Q () (f s)) \<Longrightarrow> safe_op I P (modify f) Q"
  by (simp add: safe_op_def nosegv_rules)

lemma safe_returns: "(\<And>s. I s \<Longrightarrow> P s \<Longrightarrow> \<exists>x s'. m s = (Inr x, s') \<and> I s' \<and> Q x s') \<Longrightarrow> safe_op I P m Q"
  by (rule safe_opI) (metis nosegv_basic(1) prod.inject sum.inject(2))

lemma safe_if [safe_rules]: "(b \<Longrightarrow> safe_op I P m Q) \<Longrightarrow> (\<not> b \<Longrightarrow> safe_op I P n Q) \<Longrightarrow> safe_op I P (if b then m else n) Q"
  by simp

lemma safe_pure: "(b \<Longrightarrow> safe_op I any m Q) \<Longrightarrow> safe_op I (\<lambda>_. b) m Q"
  by (cases b) (simp_all add: safe_op_def)

lemma safe_state: "(\<And>s. I s \<Longrightarrow> P s \<Longrightarrow> safe_op I P (m s) Q) \<Longrightarrow> safe_op I P (\<lambda>s. m s s) Q"
  by (simp add: safe_op_def)

section \<open>The invariant\<close>

text \<open>The memory pages have the size on which the objects were laid out, and the file system reports its own.\<close>

definition os_fit :: "nat \<Rightarrow> os \<Rightarrow> bool" where
  "os_fit psz os \<longleftrightarrow> sc_page_size os = psz \<and> 0 < f_blocks os"

text \<open>
  What memory safety rests on: the index has all its entries and no counter exceeds the size of a
  page, mapped pages are large enough, and all elements of all objects, the ones of new pages
  included, satisfy \<open>E\<close>.  The number of pages and the size of a page are fixed.
\<close>

definition mem_safe :: "nat \<Rightarrow> ('e \<Rightarrow> bool) \<Rightarrow> nat \<Rightarrow> u32 \<Rightarrow> 'e Table \<Rightarrow> bool" where
  "mem_safe psz E pages n t \<longleftrightarrow> max_pages t = pages \<and> max_elements_in_page t = n \<and> data_inv psz t \<and>
     pages \<le> length (elements (table_index t)) \<and> (\<forall>i < pages. page_elements_available (index_at t i) \<le> n) \<and>
     E (elem_zero t) \<and> (\<forall>ob \<in> set (objects (data_shm t)). \<forall>e \<in> set (elements ob). E e)"

lemma mem_safe_fields [simp]:
  "mem_safe psz E pages n (t\<lparr>sems := s\<rparr>) = mem_safe psz E pages n t"
  "mem_safe psz E pages n (t\<lparr>lock := l\<rparr>) = mem_safe psz E pages n t"
  "mem_safe psz E pages n (t\<lparr>time_to_check_page_expire := x\<rparr>) = mem_safe psz E pages n t"
  "mem_safe psz E pages n (t\<lparr>global_expire_at := g\<rparr>) = mem_safe psz E pages n t"
  "mem_safe psz E pages n (t\<lparr>table_index := (table_index t)\<lparr>expiration_check := x\<rparr>\<rparr>) = mem_safe psz E pages n t"
  by (simp_all add: mem_safe_def max_pages_def data_inv_def page_object_def index_at_def)

lemma mem_safe_set_index:
  "mem_safe psz E pages n t \<Longrightarrow> page_elements_available r \<le> n \<Longrightarrow> mem_safe psz E pages n (set_index i r t)"
  by (auto simp: mem_safe_def index_at_set_index)

lemma mem_safe_update_global [simp]: "mem_safe psz E pages n (update_global_expire v t) = mem_safe psz E pages n t"
  by (simp add: update_global_expire_def)

section \<open>Pages\<close>

lemma zero_object_elements: "E zero \<Longrightarrow> e \<in> set (elements (zero_object esz zero b)) \<Longrightarrow> E e"
  by (simp add: zero_object_def)

abbreviation all_elements :: "('e \<Rightarrow> bool) \<Rightarrow> 'e shm \<Rightarrow> bool" where
  "all_elements E s \<equiv> \<forall>ob \<in> set (objects s). \<forall>e \<in> set (elements ob). E e"

lemma page_create_objects:
  assumes "page_create_or_open os esz zero name b s = (r, s')" "E zero" "all_elements E s"
  shows "all_elements E s'"
proof (cases "names s name")
  case None
  have z: "\<forall>e \<in> set (elements (zero_object esz zero k)). E e" for k using assms(2) zero_object_elements by metis
  have "objects s' = objects s \<or> (\<exists>k. objects s' = objects s @ [zero_object esz zero k])"
    using assms(1) None by (auto simp: page_create_or_open_def shm_unlink_def Let_def split: if_splits)
  then show ?thesis using assms(3) z by auto
next
  case (Some i)
  with assms(1,3) show ?thesis by (simp add: page_create_or_open_def split: if_splits)
qed

lemma page_open_objects:
  assumes "sbind (page_create_or_open os esz zero name b) (page_map os name b) s = (r, s')" "E zero" "all_elements E s"
  shows "all_elements E s'"
proof -
  obtain r1 s1 where c: "page_create_or_open os esz zero name b s = (r1, s1)" by fastforce
  have "objects s' = objects s1"
    using assms(1) c by (cases r1) (auto simp: sbind_def page_map_def shm_unlink_def split: if_splits)
  with page_create_objects [OF c assms(2,3)] show ?thesis by simp
qed

lemma SharedMemoryPage_new_objects:
  assumes "SharedMemoryPage_new os esz zero name k (d, s) = (r, (d', s'))" "E zero" "all_elements E d"
  shows "all_elements E d'"
proof -
  let ?b = "page_bytes (sc_page_size os) esz k"
  let ?m = "sbind (page_create_or_open os esz zero name ?b) (page_map os name ?b)"
  have "d' = d \<or> with_cslock os name ?m (d, s) = (r, (d', s'))"
    using assms(1) by (simp add: SharedMemoryPage_new_def Let_def split: if_splits)
  then have "d' = d \<or> ?m d = (r, d')" using with_cslock_body [of os name ?m d s r d' s'] by blast
  then show ?thesis using page_open_objects [OF _ assms(2,3)] assms(3) by blast
qed

lemma getPageByName_objects:
  assumes "getPageByName os name t = (r, t')" "E (elem_zero t)" "all_elements E (data_shm t)"
  shows "all_elements E (data_shm t')"
proof (cases "localGetPageByName (opened_pages_list t) name")
  case (Some page)
  with assms show ?thesis by (simp add: getPageByName_def)
next
  case None
  obtain d s where new: "SharedMemoryPage_new os (elem_size t) (elem_zero t) name (max_elements_in_page t) (data_shm t, sems t) = (r, (d, s))"
    and d: "data_shm t' = d" using assms(1) None by (auto simp: getPageByName_def split: sum.splits prod.splits)
  from SharedMemoryPage_new_objects [OF new assms(2,3)] d show ?thesis by simp
qed

lemma page_open_returns:
  assumes "sbind (page_create_or_open os esz zero name b) (page_map os name b) s = (r, s')" "0 < f_blocks os"
  shows "r \<noteq> Inl sigfpe"
  using assms by (auto simp: sbind_def page_create_or_open_def page_map_def Let_def split: if_splits option.splits)

lemma SharedMemoryPage_new_no_trap:
  assumes "SharedMemoryPage_new os esz zero name k (d, s) = (r, (d', s'))" "0 < f_blocks os"
  shows "r \<noteq> Inl sigfpe"
proof -
  let ?b = "page_bytes (sc_page_size os) esz k"
  let ?m = "sbind (page_create_or_open os esz zero name ?b) (page_map os name ?b)"
  have "(\<exists>m c. r = Inl (Error m c)) \<or> with_cslock os name ?m (d, s) = (r, (d', s'))"
    using assms(1) by (auto simp: SharedMemoryPage_new_def Let_def throw_def split: if_splits)
  then have "(\<exists>m c. r = Inl (Error m c)) \<or> ?m d = (r, d')" using with_cslock_body [of os name ?m d s r d' s'] by blast
  then show ?thesis
  proof
    assume "?m d = (r, d')"
    then show ?thesis using assms(2) by (rule page_open_returns)
  qed auto
qed

lemma getPageByName_no_trap:
  assumes "getPageByName os name t = (r, t')" "0 < f_blocks os"
  shows "r \<noteq> Inl sigfpe"
  using assms SharedMemoryPage_new_no_trap [OF _ assms(2)]
  by (fastforce simp: getPageByName_def split: option.splits sum.splits prod.splits)

lemma safe_getPageByName [safe_rules]:
  fixes E :: "'e \<Rightarrow> bool"
  assumes "os_fit psz os"
  shows "safe_op (mem_safe psz E pages n) any (getPageByName os name) (\<lambda>page t. page_usable t page)"
proof (rule safe_opI)
  fix t :: "'e Table" and r t' assume t: "mem_safe psz E pages n t" and g: "getPageByName os name t = (r, t')"
  have inv: "data_inv (sc_page_size os) t" using t assms by (simp add: mem_safe_def os_fit_def)
  note sp = getPageByName_spec [OF inv g]
  have rest: "same_rest t t'" using sp by simp
  have o: "all_elements E (data_shm t')" by (rule getPageByName_objects [OF g]) (use t in \<open>simp_all add: mem_safe_def\<close>)
  have "mem_safe psz E pages n t'" using t sp o same_rest_index [OF rest] rest assms
    by (simp add: mem_safe_def same_rest_def same_consts_def os_fit_def)
  then show "nosegv r \<and> mem_safe psz E pages n t' \<and> (\<forall>x. r = Inr x \<longrightarrow> page_usable t' x)"
    using sp getPageByName_no_trap [OF g] assms by (simp add: nosegv_alt os_fit_def)
qed

lemma mem_safe_unlink [simp]:
  assumes "mem_safe psz E pages n t"
  shows "mem_safe psz E pages n (clear_index_record_full i (unlink_page page name t))"
proof -
  have "set (elements (objects (data_shm t) ! j)) \<subseteq> {e. E e}" if "j < length (objects (data_shm t))" for j
    using assms nth_mem [OF that] unfolding mem_safe_def by blast
  then have "all_elements E (data_shm (unlink_page page name t))"
    by (fastforce simp: page_object_def unlinked_length in_set_conv_nth [of _ "_[_ := _]"])
  then have "mem_safe psz E pages n (unlink_page page name t)"
    using assms by (auto simp: mem_safe_def data_inv_def shm_inv_def page_object_def unlinked_length split: if_splits)
  then show ?thesis unfolding clear_index_record_full_def by (rule mem_safe_set_index) (use assms in \<open>simp add: mem_safe_def\<close>)
qed

section \<open>Locks\<close>

lemma safe_lock [safe_rules]:
  "safe_op (mem_safe psz E pages n) P lock_enter anything" "safe_op (mem_safe psz E pages n) P lock_exit anything"
  by (auto simp: safe_op_def lock_enter_def lock_exit_def cs_enter_eq cs_exit_eq nosegv_rules split: prod.splits)

lemma safe_guard [safe_rules]:
  assumes "safe_op (mem_safe psz E pages n) P body (\<lambda>x _. Q x)"
  shows "safe_op (mem_safe psz E pages n) P (with_guard body) (\<lambda>x _. Q x)"
proof (rule safe_opI)
  fix t r t' assume t: "mem_safe psz E pages n t" "P t" and run: "with_guard body t = (r, t')"
  obtain t1 where b: "body t = (r, t1)" "t' = snd (lock_exit t1)" using run by (auto simp: with_guard_def split: prod.splits)
  note h = safe_opD [OF assms t b(1)]
  have "mem_safe psz E pages n t'" using safe_lock(2) [of psz E pages n any] h(2) b(2) by (simp add: safe_op_def)
  with h show "nosegv r \<and> mem_safe psz E pages n t' \<and> (\<forall>x. r = Inr x \<longrightarrow> Q x)" by blast
qed

section \<open>Removing pages\<close>

lemma safe_any: "safe_op I any m Q \<Longrightarrow> safe_op I P m anything"
  by (erule safe_weaken) simp_all

lemma safe_release_loop:
  assumes "os_fit psz os"
  shows "safe_op (mem_safe psz E pages n) any (release_loop os k i c) anything"
proof (induction i arbitrary: c)
  case 0
  show ?case by (simp add: safe_op_def nosegv_rules)
next
  case (Suc i)
  have t: "safe_op (mem_safe psz E pages n) any (\<lambda>t1. let t2 = clear_index_record_full (Suc i) (unlink_page page (page_name page) t1)
      in if MEMPAGE_REMOVE_EXPIRED_PAGES_AT_ONCE \<le> c + 1 then (Inr (), t2) else release_loop os k i (c + 1) t2) anything" for page
    using Suc [of "c + 1"] unfolding safe_op_def by (simp add: Let_def nosegv_rules)
  show ?case
  proof (rule safe_opI)
    fix t r t' assume h: "mem_safe psz E pages n t" and run: "release_loop os k (Suc i) c t = (r, t')"
    show "nosegv r \<and> mem_safe psz E pages n t' \<and> (\<forall>x. r = Inr x \<longrightarrow> True)"
    proof (cases "k < Suc i")
      case False
      with run h show ?thesis by (auto simp: nosegv_rules)
    next
      case True
      note b = safe_sbind [OF safe_weaken [OF safe_getPageByName [OF assms] _ TrueI] t]
      from safe_opD [OF b h TrueI run [unfolded release_loop.simps if_P [OF True]]] show ?thesis by blast
    qed
  qed
qed

lemma safe_cleanup_loop:
  assumes "os_fit psz os"
  shows "safe_op (mem_safe psz E pages n) any (cleanup_loop os k i) anything"
proof (induction k arbitrary: i)
  case 0
  show ?case by (simp add: safe_op_def nosegv_rules)
next
  case (Suc k)
  have t: "safe_op (mem_safe psz E pages n) any (\<lambda>t1. cleanup_loop os k (Suc i)
      (clear_index_record_full i (unlink_page page (cstr (ix_page_name (index_at t1 i))) t1))) anything" for page
    using Suc [of "Suc i"] unfolding safe_op_def by simp
  show ?case
  proof (rule safe_opI)
    fix t r t' assume h: "mem_safe psz E pages n t" and run: "cleanup_loop os (Suc k) i t = (r, t')"
    show "nosegv r \<and> mem_safe psz E pages n t' \<and> (\<forall>x. r = Inr x \<longrightarrow> True)"
    proof (cases "expire_at (index_at t i) > 0")
      case False
      with run h show ?thesis by (auto simp: nosegv_rules)
    next
      case True
      note b = safe_sbind [OF safe_weaken [OF safe_getPageByName [OF assms] _ TrueI] t]
      from safe_opD [OF b h TrueI run [unfolded cleanup_loop.simps if_P [OF True]]] show ?thesis by blast
    qed
  qed
qed

lemma mem_safe_pages:
  "mem_safe psz E pages n t \<Longrightarrow> mem_safe psz E pages n (drop_unlinked_pages t)"
  "mem_safe psz E pages n t \<Longrightarrow> mem_safe psz E pages n (release_open_pages t)"
  by (auto simp: mem_safe_def drop_unlinked_pages_def release_open_pages_def data_inv_def page_object_def max_pages_def index_at_def)

lemma safe_release_maintenance:
  assumes "os_fit psz os"
  shows "safe_op (mem_safe psz E pages n) P (release_maintenance os now) anything"
proof (rule safe_any, rule safe_opI)
  fix t r t' assume h: "mem_safe psz E pages n t" and run: "release_maintenance os now t = (r, t')"
  let ?t1 = "t\<lparr>table_index := (table_index t)\<lparr>expiration_check := time_to_check_page_expire t\<rparr>\<rparr>"
  obtain idx k where f: "find_last_data now (global_expire_at t) (table_entries t) 0 0 = (idx, k)" by fastforce
  have "mem_safe psz E pages n ?t1" using h by simp
  note l = safe_opD(1,2) [OF safe_release_loop [OF assms] this TrueI]
  show "nosegv r \<and> mem_safe psz E pages n t' \<and> (\<forall>x. r = Inr x \<longrightarrow> True)"
    using run h f l by (auto simp: release_maintenance_def Let_def nosegv_rules split: if_splits)
qed

lemma safe_release [safe_rules]:
  assumes "os_fit psz os"
  shows "safe_op (mem_safe psz E pages n) P (release_expired_memory_pages os now) anything"
proof (rule safe_any, rule safe_opI)
  fix t r t' assume h: "mem_safe psz E pages n t" and run: "release_expired_memory_pages os now t = (r, t')"
  have b: "safe_op (mem_safe psz E pages n) any (sbind lock_enter (\<lambda>_. with_guard
             (sbind (release_maintenance os now) (\<lambda>_. sbind lock_exit (\<lambda>_. modify drop_unlinked_pages))))) anything"
    by (intro safe_rules safe_release_maintenance [OF assms] safe_modify) (simp_all add: mem_safe_pages)
  have "mem_safe psz E pages n (t\<lparr>time_to_check_page_expire := now + MEMPAGE_CHECK_EXPIRED_PAGES_INTERVAL_SEC\<rparr>)" using h by simp
  from safe_opD(1,2) [OF b this TrueI] run h show "nosegv r \<and> mem_safe psz E pages n t' \<and> (\<forall>x. r = Inr x \<longrightarrow> True)"
    by (auto simp: release_expired_memory_pages_def nosegv_rules split: if_splits)
qed

lemma safe_cleanup [safe_rules]:
  assumes "os_fit psz os"
  shows "safe_op (mem_safe psz E pages n) P (cleanup os) anything"
proof -
  have "safe_op (mem_safe psz E pages n) any (\<lambda>t. sbind (cleanup_loop os (max_pages t) 0)
      (\<lambda>_. sbind lock_exit (\<lambda>_. modify release_open_pages)) t) anything"
    by (rule safe_state, intro safe_rules safe_cleanup_loop [OF assms] safe_modify) (simp_all add: mem_safe_pages)
  then show ?thesis unfolding cleanup_def by (intro safe_rules)
qed

section \<open>Scanning\<close>

text \<open>A scan hands elements of the table to the processor, one after the other.\<close>

definition folded :: "('e \<Rightarrow> bool) \<Rightarrow> ('p \<Rightarrow> 'e \<Rightarrow> 'p) \<Rightarrow> 'p \<Rightarrow> 'p \<Rightarrow> bool" where
  "folded E f p p' \<longleftrightarrow> (\<exists>es. (\<forall>e \<in> set es. E e) \<and> p' = foldl f p es)"

lemma folded_refl [simp]: "folded E f p p"
  by (auto simp: folded_def intro: exI [of _ "[]"])

lemma folded_trans: "folded E f p p' \<Longrightarrow> folded E f p' p'' \<Longrightarrow> folded E f p p''"
  unfolding folded_def by (metis (no_types, opaque_lifting) Un_iff foldl_append set_append)

lemma records_to_scan_range: "set (records_to_scan now g rs idx) \<subseteq> {idx..<idx + length rs}"
proof (induction rs arbitrary: idx)
  case (Cons r rs)
  from Cons [of "Suc idx"] show ?case by auto
qed simp

lemma usable_elements:
  assumes "mem_safe psz E pages n t" "page_usable t page"
  shows "unat n \<le> length (elements (page_object t page))" "e \<in> set (elements (page_object t page)) \<Longrightarrow> E e"
proof -
  have "page_object t page \<in> set (objects (data_shm t))" using assms(2) by (simp add: page_usable_def page_object_def)
  then show "e \<in> set (elements (page_object t page)) \<Longrightarrow> E e" using assms(1) unfolding mem_safe_def by blast
  show "unat n \<le> length (elements (page_object t page))" using assms by (simp add: mem_safe_def page_usable_def)
qed

lemma safe_scan_page:
  assumes "os_fit psz os" "i < pages"
  shows "safe_op (mem_safe psz E pages n) any (scan_page os f i p) (\<lambda>p' _. folded E f p p')"
proof -
  have b: "safe_op (mem_safe psz E pages n) (\<lambda>t. page_usable t page) (\<lambda>t1.
      let size = unat (max_elements_in_page t1 - page_elements_available (index_at t1 i));
          els = elements (page_object t1 page)
      in if size \<le> length els then (Inr (foldl f p (take size els)), t1) else (Inl segv, t1)) (\<lambda>p' _. folded E f p p')" for page
  proof (rule safe_returns)
    fix t :: "'a Table" assume h: "mem_safe psz E pages n t" "page_usable t page"
    let ?els = "elements (page_object t page)" and ?k = "unat (max_elements_in_page t - page_elements_available (index_at t i))"
    have a: "page_elements_available (index_at t i) \<le> max_elements_in_page t" using h(1) assms(2) by (simp add: mem_safe_def)
    have "?k \<le> unat n" using unat_diff_le [OF a] h(1) by (simp add: mem_safe_def)
    then have "?k \<le> length ?els" using usable_elements(1) [OF h] by simp
    moreover have "folded E f p (foldl f p (take ?k ?els))"
      unfolding folded_def by (rule exI [of _ "take ?k ?els"]) (auto dest: in_set_takeD usable_elements(2) [OF h])
    ultimately show "\<exists>p' t'. (let size = ?k; els = ?els in if size \<le> length els then (Inr (foldl f p (take size els)), t) else (Inl segv, t)) = (Inr p', t') \<and>
        mem_safe psz E pages n t' \<and> folded E f p p'" using h(1) by (simp add: Let_def)
  qed
  show ?thesis unfolding scan_page_def
    by (rule safe_state, rule safe_sbind [OF safe_getPageByName [OF assms(1)] b])
qed

lemma safe_scan_pages:
  assumes "os_fit psz os" "\<forall>i \<in> set is. i < pages"
  shows "safe_op (mem_safe psz E pages n) any (scan_pages os f is p) (\<lambda>p' _. folded E f p p')"
  using assms(2)
proof (induction "is" arbitrary: p)
  case Nil
  show ?case by (simp add: safe_op_def nosegv_rules)
next
  case (Cons i "is")
  have "safe_op (mem_safe psz E pages n) (\<lambda>_. folded E f p p') (scan_pages os f is p') (\<lambda>p'' _. folded E f p p'')" for p'
  proof (rule safe_pure)
    assume f: "folded E f p p'"
    have "safe_op (mem_safe psz E pages n) any (scan_pages os f is p') (\<lambda>p'' _. folded E f p' p'')" by (rule Cons.IH) (use Cons.prems in simp)
    then show "safe_op (mem_safe psz E pages n) any (scan_pages os f is p') (\<lambda>p'' _. folded E f p p'')"
      by (rule safe_weaken) (auto intro: folded_trans [OF f])
  qed
  moreover have "safe_op (mem_safe psz E pages n) any (scan_page os f i p) (\<lambda>p' _. folded E f p p')"
    by (rule safe_scan_page [OF assms(1)]) (use Cons.prems in simp)
  ultimately have "safe_op (mem_safe psz E pages n) any (\<lambda>t. sbind (scan_page os f i p) (\<lambda>p'. scan_pages os f is p') t) (\<lambda>p'' _. folded E f p p'')"
    using safe_sbind by fastforce
  then show ?case by (simp add: safe_op_def)
qed

lemma safe_processRecords [safe_rules]:
  assumes "os_fit psz os"
  shows "safe_op (mem_safe psz E pages n) any (processRecords os time0 now f p) (\<lambda>p' _. folded E f p p')"
proof -
  have "safe_op (mem_safe psz E pages n) any (\<lambda>t. let todo = records_to_scan now (global_expire_at t) (table_entries t) 0
      in sbind lock_exit (\<lambda>_. scan_pages os f todo p) t) (\<lambda>p' _. folded E f p p')"
    unfolding Let_def
  proof (rule safe_state [where m = "\<lambda>t. sbind lock_exit (\<lambda>_. scan_pages os f (records_to_scan now (global_expire_at t) (table_entries t) 0) p)"])
    fix t :: "'a Table" assume "mem_safe psz E pages n t"
    then have "length (table_entries t) = pages" by (simp add: mem_safe_def table_entries_def)
    then have "\<forall>i \<in> set (records_to_scan now (global_expire_at t) (table_entries t) 0). i < pages"
      using records_to_scan_range [of now "global_expire_at t" "table_entries t" 0] by auto
    from safe_scan_pages [OF assms this]
    show "safe_op (mem_safe psz E pages n) any (sbind lock_exit
       (\<lambda>_. scan_pages os f (records_to_scan now (global_expire_at t) (table_entries t) 0) p)) (\<lambda>p' _. folded E f p p')"
      by (intro safe_then safe_lock)
  qed
  then show ?thesis unfolding processRecords_def by (intro safe_then safe_lock safe_release [OF assms] safe_guard)
qed

section \<open>Inserting and reading\<close>

lemma choose_page_range:
  assumes "choose_page os now c t = ((ty, i), t1)" "ty \<noteq> UNKNOWN" "max_pages t \<le> length (elements (table_index t))"
  shows "i < max_pages t" "ty = CURRENT \<Longrightarrow> c \<le> page_elements_available (index_at t i)" "t1 = t \<or> (\<exists>v. t1 = update_global_expire v t)"
proof -
  obtain ty' j k where f: "find_page now c (table_entries t) 0 (- 1) 0 = (ty', j, k)" by (cases "find_page now c (table_entries t) 0 (- 1) 0")
  note sp = find_page_spec [OF f] and old = find_page_oldest [OF f]
  have len: "length (table_entries t) = max_pages t" using assms(3) by (simp add: table_entries_def)
  have e: "ty = ty' \<and> i = j \<and> t1 = t \<or> ty' = NEW \<and> ty = OLDEST \<and> i = k \<and> (\<exists>v. t1 = update_global_expire v t)"
    using assms(1) f by (auto simp: choose_page_def split: if_splits)
  have j: "j < max_pages t" using sp e assms(2) len by auto
  with e old len show i: "i < max_pages t" by auto
  show "c \<le> page_elements_available (index_at t i)" if "ty = CURRENT" using e sp that i by (auto simp: table_entries_nth)
  show "t1 = t \<or> (\<exists>v. t1 = update_global_expire v t)" using e by blast
qed

lemma mem_safe_update_expire: "mem_safe psz E pages n t \<Longrightarrow> i < pages \<Longrightarrow> mem_safe psz E pages n (update_record_expire i now life t)"
  by (auto simp: update_record_expire_def Let_def intro!: mem_safe_set_index) (auto simp: mem_safe_def)

lemma mem_safe_prepare:
  assumes "mem_safe psz E pages n t" "i < pages"
  shows "mem_safe psz E pages n (prepare_page ty i name t)"
    "page_elements_available (index_at (prepare_page ty i name t) i) = (if ty \<in> {NEW, OLDEST, EXPIRED} then n else page_elements_available (index_at t i))"
proof -
  have i: "i < length (elements (table_index t))" "max_elements_in_page t = n" "page_elements_available (index_at t i) \<le> n"
    using assms by (auto simp: mem_safe_def)
  have c: "mem_safe psz E pages n (clear_index_record i u)" if "mem_safe psz E pages n u" for u :: "'a Table"
    using that unfolding clear_index_record_def by (intro mem_safe_set_index) (simp_all add: mem_safe_def)
  have s: "mem_safe psz E pages n (set_index i ((index_at t i)\<lparr>ix_page_name := nm\<rparr>) t)" for nm
    by (rule mem_safe_set_index [OF assms(1)]) (simp add: i)
  show "mem_safe psz E pages n (prepare_page ty i name t)" using assms(1) c s by (cases ty) (simp_all add: prepare_page_def)
  show "page_elements_available (index_at (prepare_page ty i name t) i) = (if ty \<in> {NEW, OLDEST, EXPIRED} then n else page_elements_available (index_at t i))"
    using i by (cases ty) (simp_all add: prepare_page_def clear_index_record_def index_at_set_index)
qed

lemma safe_reserve:
  assumes "c \<le> n" "0 < f_blocks os"
  shows "safe_op (mem_safe psz E pages n) any (reserve os now c life) (\<lambda>ip _. unat (ip_index ip) + unat c \<le> unat n)"
proof (rule safe_opI)
  fix t r t' assume t: "mem_safe psz E pages n t" and run: "reserve os now c life t = (r, t')"
  obtain ty i t1 where ch: "choose_page os now c t = ((ty, i), t1)" by (metis prod.exhaust)
  note low_test_blocks [OF assms(2), simp]
  show "nosegv r \<and> mem_safe psz E pages n t' \<and> (\<forall>ip. r = Inr ip \<longrightarrow> unat (ip_index ip) + unat c \<le> unat n)"
  proof (cases "ty = UNKNOWN")
    case True
    then have "t1 = t" using ch by (auto simp: choose_page_def split: prod.splits if_splits)
    then show ?thesis using run ch True t by (auto simp: reserve_def nosegv_rules)
  next
    case False
    have mp: "max_pages t \<le> length (elements (table_index t))" "max_pages t = pages" using t by (simp_all add: mem_safe_def)
    note ch' = choose_page_range [OF ch False mp(1)]
    have i: "i < pages" using ch'(1) mp(2) by simp
    have t1: "mem_safe psz E pages n t1" "index_at t1 i = index_at t i" using ch'(3) t by auto
    let ?t2 = "prepare_page ty i (data_page_name (table_name t1) i) t1"
    let ?a = "page_elements_available (index_at ?t2 i)"
    note p = mem_safe_prepare [OF t1(1) i, of ty "data_page_name (table_name t1) i"]
    have an: "page_elements_available (index_at t i) \<le> n" using t i by (simp add: mem_safe_def)
    have a: "c \<le> ?a" "?a \<le> n" unfolding p(2) using an ch'(2) False assms(1) t1(2) by (cases ty; simp)+
    have n2: "max_elements_in_page ?t2 = n" using p(1) by (simp add: mem_safe_def)
    have "?a - c \<le> n" using a by (meson order_trans word_sub_le)
    then have "mem_safe psz E pages n (set_index i ((index_at ?t2 i)\<lparr>page_elements_available := ?a - c\<rparr>) ?t2)"
      by (intro mem_safe_set_index p(1)) simp
    then have s: "mem_safe psz E pages n t'" using run ch False i by (auto simp: reserve_def Let_def intro: mem_safe_update_expire)
    have "unat (n - ?a) + unat c \<le> unat n" using unat_diff_le [OF a(2)] a by (simp add: word_le_nat_alt)
    then show ?thesis using run ch False s n2 by (auto simp: reserve_def Let_def nosegv_rules)
  qed
qed

lemma set_memcpy_at: "set (memcpy_at i recs xs) \<subseteq> set xs \<union> set recs"
  by (auto simp: memcpy_at_def dest: in_set_takeD in_set_dropD)

lemma safe_store_records:
  assumes "os_fit psz os" "unat c \<le> length recs" "\<forall>e \<in> set recs. E e"
  shows "safe_op (mem_safe psz E pages n) (\<lambda>_. unat (ip_index ip) + unat c \<le> unat n) (store_records os recs c ip)
    (\<lambda>ee _. unat (ee_index ee) + unat (ee_size ee) \<le> unat n)"
proof (rule safe_pure)
  assume fit: "unat (ip_index ip) + unat c \<le> unat n"
  have b: "safe_op (mem_safe psz E pages n) (\<lambda>t. page_usable t page) (\<lambda>t. let ob = page_object t page
      in if unat (ip_index ip) + unat c \<le> length (elements ob) \<and> unat c \<le> length recs
         then (Inr \<lparr>ee_page_name = ip_page_name ip, ee_index = ip_index ip, ee_size = c\<rparr>,
               set_page_object page (ob\<lparr>elements := memcpy_at (unat (ip_index ip)) (take (unat c) recs) (elements ob)\<rparr>) t)
         else (Inl segv, t)) (\<lambda>ee _. unat (ee_index ee) + unat (ee_size ee) \<le> unat n)" for page
  proof (rule safe_returns)
    fix t :: "'a Table" assume h: "mem_safe psz E pages n t" "page_usable t page"
    let ?ob = "page_object t page"
    let ?els = "memcpy_at (unat (ip_index ip)) (take (unat c) recs) (elements ?ob)"
    let ?t' = "set_page_object page (?ob\<lparr>elements := ?els\<rparr>) t"
    have le: "unat (ip_index ip) + unat c \<le> length (elements ?ob)" using usable_elements(1) [OF h] fit by simp
    have ln: "length ?els = length (elements ?ob)" using le assms(2) by (intro length_memcpy_at) simp
    have d: "data_inv psz ?t'" by (rule set_page_object_inv) (use h ln in \<open>simp_all add: mem_safe_def\<close>)
    have el: "\<forall>e \<in> set ?els. E e"
      using set_memcpy_at [of "unat (ip_index ip)" "take (unat c) recs" "elements ?ob"] usable_elements(2) [OF h] assms(3) by (auto dest: in_set_takeD)
    have "all_elements E (data_shm ?t')"
      using h(1) el set_update_subset_insert [of "objects (data_shm t)" "mapping page" "?ob\<lparr>elements := ?els\<rparr>"]
      by (fastforce simp: mem_safe_def set_page_object_def)
    then have "mem_safe psz E pages n ?t'" using h(1) d by (simp add: mem_safe_def) (simp add: set_page_object_def max_pages_def index_at_def)
    then show "\<exists>ee t'. (let ob = ?ob in if unat (ip_index ip) + unat c \<le> length (elements ob) \<and> unat c \<le> length recs
         then (Inr \<lparr>ee_page_name = ip_page_name ip, ee_index = ip_index ip, ee_size = c\<rparr>,
               set_page_object page (ob\<lparr>elements := memcpy_at (unat (ip_index ip)) (take (unat c) recs) (elements ob)\<rparr>) t)
         else (Inl segv, t)) = (Inr ee, t') \<and> mem_safe psz E pages n t' \<and> unat (ee_index ee) + unat (ee_size ee) \<le> unat n"
      using le assms(2) fit by (simp add: Let_def)
  qed
  show "safe_op (mem_safe psz E pages n) any (store_records os recs c ip) (\<lambda>ee _. unat (ee_index ee) + unat (ee_size ee) \<le> unat n)"
    using safe_sbind [OF safe_getPageByName [OF assms(1)] b] assms(1) by (simp add: store_records_def os_fit_def)
qed

lemma safe_addRecord:
  assumes "os_fit psz os" "unat c \<le> length recs" "\<forall>e \<in> set recs. E e"
  shows "safe_op (mem_safe psz E pages n) any (addRecord os time0 now recs c life) (\<lambda>ee _. unat (ee_index ee) + unat (ee_size ee) \<le> unat n)"
proof -
  have chk: "safe_op (mem_safe psz E pages n) any (checkRecord c) (\<lambda>_ _. c \<le> n)"
    by (auto simp: safe_op_def checkRecord_def nosegv_rules mem_safe_def)
  have "safe_op (mem_safe psz E pages n) (\<lambda>_. c \<le> n) (sbind lock_enter (\<lambda>_. with_guard
       (sbind (reserve os now c life) (\<lambda>ip. sbind lock_exit (\<lambda>_. store_records os recs c ip)))))
     (\<lambda>ee _. unat (ee_index ee) + unat (ee_size ee) \<le> unat n)"
  proof (rule safe_pure)
    assume c: "c \<le> n"
    have st: "safe_op (mem_safe psz E pages n) (\<lambda>_. unat (ip_index ip) + unat c \<le> unat n) (sbind lock_exit (\<lambda>_. store_records os recs c ip))
      (\<lambda>ee _. unat (ee_index ee) + unat (ee_size ee) \<le> unat n)" for ip
      by (rule safe_pure, rule safe_then [OF safe_lock(2)]) (use safe_store_records [of psz os c recs E pages n ip, OF assms] in simp)
    show "safe_op (mem_safe psz E pages n) any (sbind lock_enter (\<lambda>_. with_guard
       (sbind (reserve os now c life) (\<lambda>ip. sbind lock_exit (\<lambda>_. store_records os recs c ip)))))
     (\<lambda>ee _. unat (ee_index ee) + unat (ee_size ee) \<le> unat n)"
      by (intro safe_then safe_lock safe_guard safe_sbind [OF safe_reserve [OF c] st])
      (use assms(1) in \<open>simp add: os_fit_def\<close>)
  qed
  from safe_then [OF safe_release [OF assms(1)] safe_sbind [OF chk this]] show ?thesis unfolding addRecord_def .
qed

section \<open>A new table\<close>

text \<open>
  A table is safe from the start when the objects that exist already fit the ones it would
  create: on an empty memory, or on the memory another server process left.
\<close>

lemma SharedMemoryPage_new_returns:
  assumes "SharedMemoryPage_new os esz zero name k (d, s) = (Inr page, (d', s'))"
  shows "names d' name = Some (mapping page)"
  using assms
proof -
  let ?b = "page_bytes (sc_page_size os) esz k"
  let ?m = "sbind (page_create_or_open os esz zero name ?b) (page_map os name ?b)"
  have "with_cslock os name ?m (d, s) = (Inr page, (d', s'))"
    using assms by (simp add: SharedMemoryPage_new_def Let_def split: if_splits)
  then have "?m d = (Inr page, d')" using with_cslock_body [of os name ?m d s "Inr page" d' s'] by auto
  then show ?thesis by (auto simp: sbind_def page_create_or_open_def page_map_def Let_def shm_unlink_def split: if_splits option.splits prod.splits sum.splits)
qed

lemma new_table_safe:
  assumes run: "Table_new os esz zero name pages n expire g data (ix, sems0) = (Inr t, st)"
    and geo: "0 < esz" "0 < sc_page_size os" "PAGE_INFORMATION_SIZE + esz * unat n + sc_page_size os < 2 ^ 32"
      "PAGE_INFORMATION_SIZE + INDEX_ELEMENT_SIZE * unat pages + sc_page_size os < 2 ^ 32"
    and data: "shm_inv (page_bytes (sc_page_size os) esz n) (unat n) data" "E zero" "all_elements E data"
    and ix: "shm_inv (page_bytes (sc_page_size os) INDEX_ELEMENT_SIZE (ucast pages)) (unat pages) ix"
      "all_elements (\<lambda>r. page_elements_available r \<le> n) ix"
  shows "mem_safe (sc_page_size os) E (unat pages) n t"
proof -
  let ?b = "page_bytes (sc_page_size os) INDEX_ELEMENT_SIZE (ucast pages)"
  have up: "unat (ucast pages :: u32) = unat pages" by (rule unat_ucast_u32)
  have cap: "unat pages \<le> elem_capacity INDEX_ELEMENT_SIZE (unat ?b)" "?b \<noteq> 0"
    using page_capacity [of INDEX_ELEMENT_SIZE "sc_page_size os" "ucast pages"] geo(2,4) up by (simp_all add: INDEX_ELEMENT_SIZE_def)
  obtain s1 page ix' s2 where new: "SharedMemoryPage_new os INDEX_ELEMENT_SIZE index_zero name (ucast pages) (ix, s1) = (Inr page, (ix', s2))"
    and t: "table_index t = objects ix' ! mapping page" "data_shm t = data" "opened_pages_list t = []" "table_max_pages t = pages"
      "max_elements_in_page t = n" "elem_size t = esz" "elem_zero t = zero"
    using run by (auto simp: Table_new_def split: prod.splits sum.splits)
  have sp: "shm_inv ?b (unat pages) ix'" "unat pages \<le> length (elements (table_index t))"
    using SharedMemoryPage_new_spec [OF ix(1) cap refl new] t(1) by auto
  have "mapping page < length (objects ix')" using SharedMemoryPage_new_returns [OF new] sp(1) by (auto simp: shm_inv_def)
  moreover have "all_elements (\<lambda>r. page_elements_available r \<le> n) ix'"
    by (rule SharedMemoryPage_new_objects [OF new _ ix(2)]) (simp add: index_zero_def)
  ultimately have "\<forall>r \<in> set (elements (table_index t)). page_elements_available r \<le> n" unfolding t(1) using nth_mem by blast
  then have "\<forall>i < unat pages. page_elements_available (index_at t i) \<le> n" using sp(2) by (simp add: index_at_def)
  then show ?thesis using t sp(2) data page_capacity [OF geo(1-3)] by (simp add: mem_safe_def max_pages_def data_inv_def)
qed

text \<open>A store in which every object has the elements its size allows, as the constructors create them.\<close>

definition sized_store :: "nat \<Rightarrow> 'e shm \<Rightarrow> bool" where
  "sized_store esz s \<longleftrightarrow> shm_inv 0 0 s \<and> (\<forall>ob \<in> set (objects s). st_size ob < 2 ^ 32 \<and> length (elements ob) = elem_capacity esz (st_size ob))"

abbreviation empty_store :: "'e shm" where "empty_store \<equiv> \<lparr>names = Map.empty, objects = []\<rparr>"

lemma sized_empty [simp]: "sized_store esz empty_store" "shm_inv b n empty_store"
  by (simp_all add: sized_store_def shm_inv_def)

lemma sized_shm_inv:
  assumes "sized_store esz s" "n \<le> elem_capacity esz (unat b)"
  shows "shm_inv b n s"
proof -
  have "n \<le> length (elements (objects s ! i))" if i: "i < length (objects s)" "word_of_nat (st_size (objects s ! i)) = b" for i
  proof -
    have o: "st_size (objects s ! i) < 2 ^ 32" "length (elements (objects s ! i)) = elem_capacity esz (st_size (objects s ! i))"
      using assms(1) nth_mem [OF i(1)] unfolding sized_store_def by blast+
    have "unat b = st_size (objects s ! i)" unfolding i(2) [symmetric] by (rule unat_u32_of_nat [OF o(1)])
    then show ?thesis using o(2) assms(2) by simp
  qed
  then show ?thesis using assms(1) by (auto simp: sized_store_def shm_inv_def)
qed

lemma sized_new:
  assumes "SharedMemoryPage_new os esz zero name k (d, s) = (r, (d', s'))" "sized_store esz d"
  shows "sized_store esz d'"
proof -
  let ?b = "page_bytes (sc_page_size os) esz k"
  let ?m = "sbind (page_create_or_open os esz zero name ?b) (page_map os name ?b)"
  have "d' = d \<or> with_cslock os name ?m (d, s) = (r, (d', s'))"
    using assms(1) by (simp add: SharedMemoryPage_new_def Let_def split: if_splits)
  then have "d' = d \<or> ?m d = (r, d')" using with_cslock_body [of os name ?m d s r d' s'] by blast
  moreover have "sized_store esz d'" if run: "?m d = (r, d')"
  proof -
    obtain r1 d1 where c: "page_create_or_open os esz zero name ?b d = (r1, d1)" by fastforce
    have u: "sized_store esz (shm_unlink name u)" if "sized_store esz u" for u :: "'a shm"
      using that shm_unlink_inv [of 0 0 u name] by (simp add: sized_store_def shm_unlink_def)
    have a: "sized_store esz (d\<lparr>names := (names d)(name \<mapsto> length (objects d)), objects := objects d @ [zero_object esz zero n]\<rparr>)"
      if "names d name = None" "n < 2 ^ 32" for n
      using assms(2) that shm_inv_add [of 0 0 d name "zero_object esz zero n"] by (auto simp: sized_store_def zero_object_def)
    have "unat ?b < 2 ^ 32" using unsigned_less [of ?b] by simp
    then have "sized_store esz d1" using c assms(2) u a
      by (auto simp: page_create_or_open_def Let_def split: if_splits option.splits)
    then show ?thesis using run c u by (cases r1) (auto simp: sbind_def page_map_def split: if_splits)
  qed
  ultimately show ?thesis using assms(2) by blast
qed

text \<open>A table built on empty data pages, beside tables that have not been used yet.\<close>

definition unused_indexes :: "TablePageIndexElement shm \<Rightarrow> bool" where
  "unused_indexes ix \<longleftrightarrow> sized_store INDEX_ELEMENT_SIZE ix \<and> all_elements (\<lambda>r. page_elements_available r = 0) ix"

lemma fresh_table_safe:
  assumes run: "Table_new os esz zero name pages n expire g empty_store (ix, sems0) = (r, (ix', sems'))" and "unused_indexes ix"
    and geo: "0 < esz" "0 < sc_page_size os" "PAGE_INFORMATION_SIZE + esz * unat n + sc_page_size os < 2 ^ 32"
      "PAGE_INFORMATION_SIZE + INDEX_ELEMENT_SIZE * unat pages + sc_page_size os < 2 ^ 32" and "E zero"
  shows "unused_indexes ix'" "r = Inr t \<Longrightarrow> mem_safe (sc_page_size os) E (unat pages) n t"
proof -
  have sz: "sized_store INDEX_ELEMENT_SIZE ix" "all_elements (\<lambda>r. page_elements_available r = 0) ix" using assms(2) by (simp_all add: unused_indexes_def)
  have z: "page_elements_available index_zero = 0" by (simp add: index_zero_def)
  have "unused_indexes ix2" if "SharedMemoryPage_new os INDEX_ELEMENT_SIZE index_zero name k (ix, s1) = (r2, (ix2, s2))" for k s1 r2 ix2 s2
    using sized_new [OF that sz(1)] SharedMemoryPage_new_objects [OF that z sz(2)] by (simp add: unused_indexes_def)
  then show "unused_indexes ix'" using run assms(2) by (auto simp: Table_new_def split: prod.splits sum.splits)
  have up: "unat (ucast pages :: u32) = unat pages" by (rule unat_ucast_u32)
  have cap: "unat pages \<le> elem_capacity INDEX_ELEMENT_SIZE (unat (page_bytes (sc_page_size os) INDEX_ELEMENT_SIZE (ucast pages)))"
    using page_capacity(1) [of INDEX_ELEMENT_SIZE "sc_page_size os" "ucast pages"] geo(2,4) up by (simp add: INDEX_ELEMENT_SIZE_def)
  show "mem_safe (sc_page_size os) E (unat pages) n t" if "r = Inr t"
    by (rule new_table_safe [OF run [unfolded that] geo _ _ _ sized_shm_inv [OF sz(1) cap]]) (use assms(7) sz(2) in auto)
qed

subsection \<open>Construction when the system calls succeed\<close>

lemma page_created:
  assumes "sem_ok os name" "open_ok os name" "trunc_ok os name" "map_ok os name" "isMemAvailable os"
    and "name \<noteq> []" "length name \<le> 14" "sm name = None \<or> sm name = Some 1" "names d name = None"
  shows "SharedMemoryPage_new os esz zero name n (d, sm)
    = (Inr \<lparr>page_name = name, page_memory_size = page_bytes (sc_page_size os) esz n, mapping = length (objects d)\<rparr>,
       (\<lparr>names = (names d)(name \<mapsto> length (objects d)),
         objects = objects d @ [zero_object esz zero (unat (page_bytes (sc_page_size os) esz n))]\<rparr>, sm(name \<mapsto> 1)))"
proof -
  have o: "sem_open name sm = sm(name \<mapsto> 1)" using assms(8) by (auto simp: sem_open_def fun_upd_idem)
  have v: "sem_value (sm(name \<mapsto> 1)) name = 1" by (simp add: sem_value_def)
  show ?thesis using assms(1-7,9) v mem_blocks(1) [OF assms(5)]
    by (simp add: SharedMemoryPage_new_def MEMPAGE_NAME_MAX_LEN_def Let_def with_cslock_def CriticalSection_new_def o cs_enter_eq
       sbind_def page_create_or_open_def page_map_def zero_object_def CriticalSection_destroy_def semaphore_release_def
       sem_post_def SEM_VALUE_MAX_def sem_value_def)
qed

lemma table_created:
  assumes "sem_ok os name" "open_ok os name" "trunc_ok os name" "map_ok os name" "isMemAvailable os"
    and "name \<noteq> []" "length name \<le> 14" "sm name = None" "names ix name = None"
  shows "\<exists>t ob. Table_new os esz zero name pages n expire g data (ix, sm)
    = (Inr t, (\<lparr>names = (names ix)(name \<mapsto> length (objects ix)), objects = objects ix @ [ob]\<rparr>, sm(name \<mapsto> 1)))"
proof -
  have "sem_open name sm = sm(name \<mapsto> 1)" using assms(8) by (simp add: sem_open_def)
  then show ?thesis using page_created [of os name "sm(name \<mapsto> 1)" ix INDEX_ELEMENT_SIZE index_zero "ucast pages"] assms
    by (simp add: Table_new_def CriticalSection_new_def)
qed

end
