(* ===== verification/TableHistory.thy ===== *)
theory TableHistory
  imports MemorySafety
begin

text \<open>
  A table over many operations: what stays fit for use, what stays stored, and that nothing is
  stored but what was inserted.  The theories of the databases build the histories of their runs
  from these facts.
\<close>

section \<open>Constants and sizes\<close>

text \<open>Every named object exists and has the size of a page of the table.\<close>

definition sized :: "u32 \<Rightarrow> 'e shm \<Rightarrow> bool" where
  "sized b s \<longleftrightarrow> (\<forall>m k. names s m = Some k \<longrightarrow> k < length (objects s) \<and> word_of_nat (st_size (objects s ! k)) = b)"

definition shape :: "nat \<Rightarrow> 'e Table \<Rightarrow> 'e Table \<Rightarrow> bool" where
  "shape psz t0 t \<longleftrightarrow> same_consts t0 t \<and> sized (page_size_of psz t0) (data_shm t)"

lemma shape_fields [simp]:
  "shape psz t0 (t\<lparr>sems := s\<rparr>) = shape psz t0 t" "shape psz t0 (t\<lparr>lock := l\<rparr>) = shape psz t0 t"
  "shape psz t0 (t\<lparr>time_to_check_page_expire := x\<rparr>) = shape psz t0 t" "shape psz t0 (t\<lparr>table_index := ix\<rparr>) = shape psz t0 t"
  "shape psz t0 (t\<lparr>opened_pages_list := ps\<rparr>) = shape psz t0 t" "shape psz t0 (t\<lparr>global_expire_at := g\<rparr>) = shape psz t0 t"
  "shape psz t0 (set_index i r t) = shape psz t0 t" "shape psz t0 (drop_unlinked_pages t) = shape psz t0 t"
  "shape psz t0 (release_open_pages t) = shape psz t0 t" "shape psz t0 (update_global_expire v t) = shape psz t0 t"
  by (simp_all add: shape_def same_consts_def set_index_def drop_unlinked_pages_def release_open_pages_def update_global_expire_def)

lemma sized_unlink: "sized b s \<Longrightarrow> sized b (shm_unlink n s)"
  by (simp add: sized_def shm_unlink_def)

lemma sized_resize:
  assumes "sized b s" "st_size ob = st_size (objects s ! k)"
  shows "sized b (s\<lparr>objects := (objects s)[k := ob]\<rparr>)"
proof -
  have "st_size ((objects s)[k := ob] ! j) = st_size (objects s ! j)" for j
    using assms(2) by (cases "j = k"; cases "k < length (objects s)") (simp_all add: list_update_beyond)
  then show ?thesis using assms(1) by (simp add: sized_def)
qed

lemma shape_set_page_object:
  "shape psz t0 t \<Longrightarrow> st_size ob = st_size (page_object t page) \<Longrightarrow> shape psz t0 (set_page_object page ob t)"
  by (simp add: shape_def set_page_object_def page_object_def same_consts_def sized_resize)

lemma shape_unlink_page: "shape psz t0 t \<Longrightarrow> shape psz t0 (clear_index_record_full i (unlink_page page n t))"
proof -
  assume "shape psz t0 t"
  from shape_set_page_object [OF this, of "(page_object t page)\<lparr>unlinked := True\<rparr>" page] show ?thesis
    by (simp add: clear_index_record_full_def unlink_page_def Let_def) (simp add: shape_def same_consts_def sized_unlink)
qed

lemma page_open_sized:
  assumes "sbind (page_create_or_open os esz zero name b) (page_map os name b) s = (r, s')" "all_ok os" "sized b s"
  shows "sized b s'"
proof -
  have n: "k < length (objects s) \<and> word_of_nat (st_size (objects s ! k)) = b" if "names s m = Some k" for m k
    using assms(3) that by (simp add: sized_def)
  have z: "word_of_nat (st_size (zero_object esz zero (unat b))) = b" by (simp add: zero_object_def)
  show ?thesis
  proof (cases "names s name")
    case None
    let ?s1 = "s\<lparr>names := (names s)(name \<mapsto> length (objects s)), objects := objects s @ [zero_object esz zero (unat b)]\<rparr>"
    have "s' = ?s1" using assms(1,2) None z mem_blocks(1) [of os] by (auto simp: sbind_def page_create_or_open_def page_map_def all_ok_def Let_def split: if_splits)
    moreover have "sized b ?s1" using n z by (auto simp: sized_def nth_append less_SucI)
    ultimately show ?thesis by simp
  next
    case (Some k)
    then show ?thesis using assms n by (auto simp: sbind_def page_create_or_open_def page_map_def sized_unlink split: if_splits)
  qed
qed

lemma keeps_getPage:
  assumes ok: "all_ok os" "sc_page_size os = psz"
  shows "keeps (shape psz t0) (getPageByName os name)"
  unfolding keeps_def
proof (intro allI impI)
  fix t :: "'a Table" assume t: "shape psz t0 t"
  show "shape psz t0 (snd (getPageByName os name t))"
  proof (cases "localGetPageByName (opened_pages_list t) name")
    case (Some page)
    then show ?thesis using t by (simp add: getPageByName_def)
  next
    case None
    let ?b = "page_size_of psz t"
    let ?m = "sbind (page_create_or_open os (elem_size t) (elem_zero t) name ?b) (page_map os name ?b)"
    obtain r d s where new: "SharedMemoryPage_new os (elem_size t) (elem_zero t) name (max_elements_in_page t) (data_shm t, sems t) = (r, (d, s))"
      by (metis surj_pair)
    have "d = data_shm t \<or> with_cslock os name ?m (data_shm t, sems t) = (r, (d, s))"
      using new ok(2) by (simp add: SharedMemoryPage_new_def Let_def split: if_splits)
    then have "d = data_shm t \<or> ?m (data_shm t) = (r, d)" using with_cslock_body [of os name ?m "data_shm t" "sems t" r d s] by blast
    moreover have b: "page_size_of psz t0 = ?b" using t by (simp add: shape_def same_consts_def)
    ultimately have "sized (page_size_of psz t0) d" using page_open_sized [OF _ ok(1), of _ _ _ ?b "data_shm t"] t by (auto simp: shape_def)
    then show ?thesis using t None new by (auto simp: getPageByName_def shape_def same_consts_def split: sum.splits)
  qed
qed

named_theorems keeps_rules

declare keeps_sbind [keeps_rules] keeps_getPage [keeps_rules]

lemma keeps_basic [keeps_rules]:
  "keeps (shape psz t0) lock_enter" "keeps (shape psz t0) lock_exit"
  "keeps (shape psz t0) m \<Longrightarrow> keeps (shape psz t0) (with_guard m)" "(\<And>t. shape psz t0 (f t) = shape psz t0 t) \<Longrightarrow> keeps (shape psz t0) (modify f)"
  "keeps (shape psz t0) (checkRecord c)"
  by (auto simp: keeps_def lock_enter_def lock_exit_def with_guard_def checkRecord_def modify_def split: prod.splits)

lemma keeps_release_loop:
  assumes ok: "all_ok os" "sc_page_size os = psz"
  shows "keeps (shape psz t0) (release_loop os k i n)"
proof (induction i arbitrary: n)
  case (Suc i)
  have "keeps (shape psz t0) (\<lambda>t1. let t2 = clear_index_record_full (Suc i) (unlink_page page (page_name page) t1)
             in if MEMPAGE_REMOVE_EXPIRED_PAGES_AT_ONCE \<le> n + 1 then (Inr (), t2) else release_loop os k i (n + 1) t2)" for page
    using Suc by (auto simp: keeps_def Let_def shape_unlink_page)
  from keeps_sbind [OF keeps_getPage [OF ok] this] show ?case by (simp add: keeps_def)
qed (simp add: keeps_def)

lemma keeps_cleanup_loop:
  assumes ok: "all_ok os" "sc_page_size os = psz"
  shows "keeps (shape psz t0) (cleanup_loop os k i)"
proof (induction k arbitrary: i)
  case (Suc k)
  have "keeps (shape psz t0) (\<lambda>t1. cleanup_loop os k (Suc i) (clear_index_record_full i (unlink_page page (cstr (ix_page_name (index_at t1 i))) t1)))" for page
    using Suc by (auto simp: keeps_def shape_unlink_page)
  from keeps_sbind [OF keeps_getPage [OF ok] this] show ?case by (simp add: keeps_def)
qed (simp add: keeps_def)

lemma keeps_release:
  assumes ok: "all_ok os" "sc_page_size os = psz"
  shows "keeps (shape psz t0) (release_expired_memory_pages os now)"
proof -
  have m: "keeps (shape psz t0) (release_maintenance os now)"
  proof -
    have "shape psz t0 t \<Longrightarrow> shape psz t0 (snd (release_loop os k i n t))" for k i n t
      using keeps_release_loop [OF ok, of t0 k i n] by (simp add: keeps_def)
    then show ?thesis by (auto simp: keeps_def release_maintenance_def Let_def split: prod.splits)
  qed
  have "keeps (shape psz t0) (sbind lock_enter (\<lambda>_. with_guard
             (sbind (release_maintenance os now) (\<lambda>_. sbind lock_exit (\<lambda>_. modify drop_unlinked_pages)))))"
    by (intro keeps_rules m) simp
  then show ?thesis by (simp add: keeps_def release_expired_memory_pages_def)
qed

lemma keeps_cleanup:
  assumes ok: "all_ok os" "sc_page_size os = psz"
  shows "keeps (shape psz t0) (cleanup os)"
proof -
  have "keeps (shape psz t0) (sbind (cleanup_loop os n 0) (\<lambda>_. sbind lock_exit (\<lambda>_. modify release_open_pages)))" for n
    by (intro keeps_rules keeps_cleanup_loop [OF ok]) simp
  then have "keeps (shape psz t0) (\<lambda>t. sbind (cleanup_loop os (max_pages t) 0) (\<lambda>_. sbind lock_exit (\<lambda>_. modify release_open_pages)) t)"
    by (simp add: keeps_def)
  then show ?thesis unfolding cleanup_def by (intro keeps_rules)
qed

lemma keeps_processRecords:
  assumes ok: "all_ok os" "sc_page_size os = psz"
  shows "keeps (shape psz t0) (processRecords os time0 now f p)"
proof -
  have "keeps (shape psz t0) (scan_page os f i p)" for i p
  proof -
    have "keeps (shape psz t0) (sbind (getPageByName os n) (\<lambda>page t1.
          let size = unat (max_elements_in_page t1 - page_elements_available (index_at t1 i)); els = elements (page_object t1 page)
          in if size \<le> length els then (Inr (foldl f p (take size els)), t1) else (Inl segv, t1)))" for n
      by (rule keeps_sbind [OF keeps_getPage [OF ok]]) (simp add: keeps_def Let_def)
    then show ?thesis by (simp add: keeps_def scan_page_def)
  qed
  note page = this
  have "keeps (shape psz t0) (scan_pages os f is p)" for "is" p
  proof (induction "is" arbitrary: p)
    case (Cons i "is")
    from keeps_sbind [OF page Cons] show ?case by (simp add: keeps_def)
  qed (simp add: keeps_def)
  then have "keeps (shape psz t0) (sbind lock_exit (\<lambda>_. scan_pages os f is p))" for "is" by (intro keeps_rules)
  then have "keeps (shape psz t0) (\<lambda>t. let todo = records_to_scan now (global_expire_at t) (table_entries t) 0
            in sbind lock_exit (\<lambda>_. scan_pages os f todo p) t)" by (simp add: keeps_def Let_def)
  then show ?thesis unfolding processRecords_def by (intro keeps_rules keeps_release [OF ok])
qed

lemma keeps_addRecord:
  assumes ok: "all_ok os" "sc_page_size os = psz"
  shows "keeps (shape psz t0) (addRecord os time0 now recs c life)"
proof -
  have r: "keeps (shape psz t0) (reserve os now c life)"
    by (auto simp: keeps_def reserve_def choose_page_def prepare_page_def clear_index_record_def update_record_expire_def Let_def
        split: prod.splits PageType.splits)
  have s: "keeps (shape psz t0) (store_records os recs c ip)" for ip
  proof -
    have "0 < f_blocks os" using ok(1) mem_blocks(1) by (simp add: all_ok_def)
    then show ?thesis unfolding store_records_def
      by (simp, intro keeps_sbind [OF keeps_getPage [OF ok]]) (simp add: keeps_def Let_def shape_set_page_object)
  qed
  show ?thesis unfolding addRecord_critical critical_def
    by (intro keeps_rules keeps_release [OF ok] r s)
qed

section \<open>A table in service\<close>

text \<open>
  What a table needs so that, while the system calls succeed, all operations do: the invariants, the
  sizes, no lock held, and no page in use for longer than the lifetime of a record from \<open>now\<close> on.
\<close>

definition tended :: "nat \<Rightarrow> u32 \<Rightarrow> 'e Table \<Rightarrow> bool" where
  "tended psz now t \<longleftrightarrow> table_ok psz t \<and> lock_named t \<and> sized (page_size_of psz t) (data_shm t) \<and> 0 < max_pages t \<and>
     (\<forall>i < max_pages t. sems t (data_page_name (table_name t) i) \<noteq> Some 0) \<and>
     (\<forall>i < max_pages t. unat (expire_at (index_at t i)) \<le> unat now + unat (record_expire_seconds t))"

definition in_time :: "u32 \<Rightarrow> 'e Table \<Rightarrow> bool" where
  "in_time now t \<longleftrightarrow> unat now + unat (record_expire_seconds t) + 60 < 2 ^ 32"

lemma tended_serviceable: "tended psz now t \<Longrightarrow> all_ok os \<Longrightarrow> sc_page_size os = psz \<Longrightarrow> serviceable os t"
  by (auto simp: tended_def serviceable_def shm_sized_def sized_def table_ok_def lock_idle_def)

lemma tended_no_wrap: "tended psz now t \<Longrightarrow> in_time now t \<Longrightarrow> no_wrap t"
  unfolding tended_def in_time_def no_wrap_def by (metis add_le_cancel_right le_less_trans)

lemma tended_later: "tended psz now t \<Longrightarrow> now \<le> now' \<Longrightarrow> tended psz now' t"
  unfolding tended_def word_le_nat_alt by (meson add_le_cancel_right le_trans)

text \<open>An operation that keeps the constants and the sizes, gives back its locks and leaves the invariants and bounded pages.\<close>

lemma tended_step:
  assumes t: "tended psz now t" and k: "\<And>t0. keeps (shape psz t0) m" and b: "lock_balanced m" and run: "m t = (r, t')"
    and ok: "table_ok psz t'"
    and e: "\<And>i. i < max_pages t \<Longrightarrow> unat (expire_at (index_at t' i)) \<le> unat now + unat (record_expire_seconds t)"
  shows "tended psz now t'" "same_consts t t'"
proof -
  have idle: "lock_idle t" using t by (simp add: tended_def table_ok_def)
  have "shape psz t t" using t by (simp add: tended_def shape_def same_consts_def)
  then have "shape psz t t'" using keepsD [OF k _ run] by blast
  then show c: "same_consts t t'" and s: "tended psz now t'"
  proof -
    assume h: "shape psz t t'"
    then show "same_consts t t'" by (simp add: shape_def)
    have l: "sem_ext (sems t) (sems t')" "lock t' = lock t" using lock_balancedD [OF b idle] run by auto
    have c: "table_name t' = table_name t" "max_pages t' = max_pages t" "record_expire_seconds t' = record_expire_seconds t"
      "page_size_of psz t' = page_size_of psz t"
      using h by (simp_all add: shape_def same_consts_def max_pages_def)
    have "sems t' n \<noteq> Some 0" if "sems t n \<noteq> Some 0" for n
      using l(1) that unfolding sem_ext_def by (metis One_nat_def nat.distinct(1) option.inject)
    then show "tended psz now t'" using t ok e l(2) h by (simp add: tended_def c lock_named_def shape_def)
  qed
qed

section \<open>Pages and records\<close>

text \<open>A page that is in use until \<open>e\<close> and whose records satisfy \<open>P\<close>.\<close>

definition on_page :: "'e Table \<Rightarrow> nat \<Rightarrow> (nat \<Rightarrow> 'e list \<Rightarrow> bool) \<Rightarrow> bool" where
  "on_page t e P \<longleftrightarrow> (\<exists>i < max_pages t. e \<le> unat (expire_at (index_at t i)) \<and> P i (stored t i))"

definition stays :: "(nat \<Rightarrow> 'e list \<Rightarrow> bool) \<Rightarrow> bool" where
  "stays P \<longleftrightarrow> (\<forall>i xs ys. P i xs \<longrightarrow> P i (xs @ ys))"

text \<open>The time \<open>e\<close> is over, by the clock or by the shared context.\<close>

definition over :: "u32 \<Rightarrow> u32 \<Rightarrow> nat \<Rightarrow> bool" where
  "over now g e \<longleftrightarrow> e \<le> unat now \<or> e \<le> unat g"

definition records :: "'e Table \<Rightarrow> 'e set" where
  "records t = (\<Union>i \<in> {i. i < max_pages t \<and> 0 < expire_at (index_at t i)}. set (stored t i))"

lemma over_mono: "over now g e \<Longrightarrow> now \<le> now' \<Longrightarrow> g \<le> g' \<Longrightarrow> over now' g' e"
  by (auto simp: over_def word_le_nat_alt)

lemma contents_records: "set (contents now t) \<subseteq> records t"
  by (auto simp: contents_def records_def live_def intro: le_less_trans [OF word_zero_le])

lemma on_page_contents:
  assumes "on_page t e (\<lambda>i xs. d \<in> set xs)" "\<not> over now (global_expire_at t) e"
  shows "d \<in> set (contents now t)"
  using assms by (auto simp: on_page_def over_def contents_def live_def word_less_nat_alt not_le)

lemma on_page_keep:
  assumes "on_page t e P" "stays P" "max_pages t' = max_pages t"
    and "\<And>i. i < max_pages t \<Longrightarrow> e \<le> unat (expire_at (index_at t i)) \<Longrightarrow>
      expire_at (index_at t i) \<le> expire_at (index_at t' i) \<and> (\<exists>ys. stored t' i = stored t i @ ys)"
  shows "on_page t' e P"
proof -
  from assms(1) obtain i where i: "i < max_pages t" "e \<le> unat (expire_at (index_at t i))" "P i (stored t i)" by (auto simp: on_page_def)
  from assms(4) [OF i(1,2)] show ?thesis using i assms(2,3) unfolding on_page_def stays_def word_le_nat_alt by (metis order_trans)
qed

lemma on_page_view:
  assumes "view_inv psz t t'" "on_page t e P" "0 < e"
  shows "on_page t' e P"
  using assms same_rest_index [of t t'] by (auto simp: on_page_def view_inv_def word_less_nat_alt)

lemma records_view: "view_inv psz t t' \<Longrightarrow> records t' = records t"
  using same_rest_index [of t t'] by (auto simp: records_def view_inv_def)

section \<open>Maintenance\<close>

lemma release_keeps_page:
  assumes ok: "table_ok (sc_page_size os) t" and nw: "no_wrap t" and run: "release_expired_memory_pages os now t = (Inr (), t')"
    and h: "on_page t e P" "stays P" "0 < e"
  shows "on_page t' e P \<or> over now (global_expire_at t) e"
proof (rule ccontr)
  assume a: "\<not> (on_page t' e P \<or> over now (global_expire_at t) e)"
  from release_expired_spec [OF ok run] obtain m n where m: "keeps_prefix m t t'" "keeps_prefix n t t"
      "\<forall>j < n. m \<le> j \<longrightarrow> \<not> maybe_in_use now (global_expire_at t) (index_at t j)" and cs: "same_consts t t'" by blast
  have "on_page t' e P"
  proof (rule on_page_keep [OF h(1,2)])
    show "max_pages t' = max_pages t" using cs by (auto simp: same_consts_def max_pages_def)
    fix i assume i: "i < max_pages t" "e \<le> unat (expire_at (index_at t i))"
    have pos: "expire_at (index_at t i) \<noteq> 0" using i(2) h(3) by auto
    have "i < m"
    proof (rule ccontr)
      assume "\<not> i < m"
      moreover have "i < n" using m(2) i pos by (auto simp: keeps_prefix_def not_less)
      ultimately have "expire_at (index_at t i) + 60 \<le> now \<or> expire_at (index_at t i) + 60 \<le> global_expire_at t"
        using m(3) pos by (auto simp: maybe_in_use_def MEMPAGE_REMOVE_EXPIRED_PAGES_DELAY_SEC_def not_less word_neq_0_conv)
      moreover have "unat (expire_at (index_at t i) + 60) = unat (expire_at (index_at t i)) + 60"
        using nw i(1) by (simp add: no_wrap_def unat_word_ariths)
      ultimately show False using a i(2) by (auto simp: over_def word_le_nat_alt)
    qed
    then show "expire_at (index_at t i) \<le> expire_at (index_at t' i) \<and> (\<exists>ys. stored t' i = stored t i @ ys)"
      using m(1) by (auto simp: keeps_prefix_def)
  qed
  with a show False by simp
qed

lemma release_records:
  assumes "table_ok (sc_page_size os) t" "release_expired_memory_pages os now t = (Inr (), t')"
  shows "records t' \<subseteq> records t" "i < max_pages t \<Longrightarrow> expire_at (index_at t' i) = 0 \<or> expire_at (index_at t' i) = expire_at (index_at t i)"
proof -
  from release_expired_spec [OF assms] obtain m where m: "keeps_prefix m t t'" and cs: "same_consts t t'" by blast
  have mp: "max_pages t' = max_pages t" using cs by (auto simp: same_consts_def max_pages_def)
  show k: "expire_at (index_at t' i) = 0 \<or> expire_at (index_at t' i) = expire_at (index_at t i)" if "i < max_pages t" for i
    using m that by (cases "i < m") (auto simp: keeps_prefix_def)
  show "records t' \<subseteq> records t"
  proof
    fix x assume "x \<in> records t'"
    then obtain i where i: "i < max_pages t" "0 < expire_at (index_at t' i)" "x \<in> set (stored t' i)" using mp by (auto simp: records_def)
    then have "i < m" using m by (fastforce simp: keeps_prefix_def not_less)
    then show "x \<in> records t" using m i by (auto simp: keeps_prefix_def records_def)
  qed
qed

lemma release_tended:
  assumes t: "tended psz now t" and ok: "all_ok os" "sc_page_size os = psz" and run: "release_expired_memory_pages os now t = (r, t')"
  shows "r = Inr ()" "tended psz now t'" "same_consts t t'" "global_expire_at t' = global_expire_at t"
proof -
  have h: "table_ok (sc_page_size os) t" "lock_named t" using t ok(2) by (simp_all add: tended_def)
  show r: "r = Inr ()" using release_total [OF h(1) tended_serviceable [OF t ok] h(2), of now] run by auto
  note s = release_expired_spec [OF h(1) run]
  have "unat (expire_at (index_at t' i)) \<le> unat now + unat (record_expire_seconds t)" if "i < max_pages t" for i
    using release_records(2) [OF h(1) run [unfolded r] that] t that by (auto simp: tended_def)
  from tended_step [OF t keeps_release [OF ok] release_expired_balanced run _ this] s r ok(2)
  show "tended psz now t'" "same_consts t t'" "global_expire_at t' = global_expire_at t" by auto
qed

section \<open>Scans\<close>

text \<open>A scan keeps the table in service, with all records, and hands over the visible ones.\<close>

lemma scan_tended:
  assumes t: "tended psz now t" and ok: "all_ok os" "sc_page_size os = psz" and fit: "in_time now t"
    and run: "processRecords os now now f p t = (r, t')"
  shows "r = Inr (foldl f p (contents now t))" "tended psz now t'" "same_consts t t'" "global_expire_at t' = global_expire_at t"
    "records t' \<subseteq> records t" "on_page t e P \<Longrightarrow> stays P \<Longrightarrow> 0 < e \<Longrightarrow> on_page t' e P \<or> over now (global_expire_at t) e"
proof -
  have h: "table_ok (sc_page_size os) t" "lock_named t" using t ok(2) by (simp_all add: tended_def)
  have nw: "no_wrap t" by (rule tended_no_wrap [OF t fit])
  obtain p' where r: "r = Inr p'" using processRecords_total [OF h(1) tended_serviceable [OF t ok] h(2), of now now f p] run by auto
  obtain t1 s where rel: "release_expired_memory_pages os now t = (Inr (), t1)" and ok1: "table_ok (sc_page_size os) t1"
    and p': "p' = foldl f p (contents now t1)" and ok': "table_ok (sc_page_size os) t'" and v: "view_inv (sc_page_size os) (relock s (lock t1) t1) t'"
    using processRecords_parts [OF h(1) run] r by blast
  note rt = release_tended [OF t ok rel]
  show "r = Inr (foldl f p (contents now t))" using r p' release_contents [OF h(1) nw order_refl rel] by simp
  note rs = same_rest_index [of "relock s (lock t1) t1" t']
  have rest: "same_rest (relock s (lock t1) t1) t'" using v by (simp add: view_inv_def)
  have c: "same_consts t1 t'" using rest by (simp add: same_rest_def same_consts_def)
  have mp: "max_pages t1 = max_pages t" using rt(3) by (simp add: same_consts_def max_pages_def)
  show "global_expire_at t' = global_expire_at t" using rest rt(4) by (simp add: same_rest_def)
  have "unat (expire_at (index_at t' i)) \<le> unat now + unat (record_expire_seconds t)" if "i < max_pages t" for i
    using rs [OF rest] rt(2,3) that mp by (simp add: tended_def same_consts_def)
  from tended_step [OF t keeps_processRecords [OF ok] processRecords_balanced run _ this] ok' ok(2)
  show "tended psz now t'" "same_consts t t'" by auto
  have "records (relock s (lock t1) t1) = records t1" by (simp add: records_def)
  then show "records t' \<subseteq> records t" using records_view [OF v] release_records(1) [OF h(1) rel] by simp
  show "on_page t' e P \<or> over now (global_expire_at t) e" if P: "on_page t e P" "stays P" "0 < e"
  proof -
    have "on_page (relock s (lock t1) t1) e P = on_page t1 e P" by (simp add: on_page_def)
    then show ?thesis using release_keeps_page [OF h(1) nw rel P] on_page_view [OF v _ P(3)] by blast
  qed
qed

section \<open>Clearing\<close>

lemma cleanup_tended:
  assumes t: "tended psz now t" and ok: "all_ok os" "sc_page_size os = psz" and run: "cleanup os t = (Inr (), t')"
  shows "tended psz now t'" "same_consts t t'" "records t' = {}"
proof -
  have h: "table_ok (sc_page_size os) t" using t ok(2) by (simp add: tended_def)
  have z: "table_ok (sc_page_size os) t'" "max_pages t' = max_pages t" "\<forall>i < max_pages t. expire_at (index_at t' i) = 0"
    using cleanup_spec [OF h run] by auto
  from tended_step [OF t keeps_cleanup [OF ok] cleanup_balanced run] z ok(2)
  show "tended psz now t'" "same_consts t t'" by auto
  show "records t' = {}" using z by (auto simp: records_def)
qed

text \<open>Clearing does not fail while the system calls succeed.\<close>

lemma cleanup_loop_total:
  assumes "serviceable os t" "names_fit t" "max_pages t \<le> length (elements (table_index t))" "\<forall>i < max_pages t. entry_ok t i (index_at t i)"
    and "data_inv (sc_page_size os) t" "idx + k = max_pages t"
  shows "\<exists>t'. cleanup_loop os k idx t = (Inr (), t')"
  using assms
proof (induction k arbitrary: idx t)
  case (Suc k)
  show ?case
  proof (cases "expire_at (index_at t idx) > 0")
    case True
    let ?n = "data_page_name (table_name t) idx"
    have im: "idx < max_pages t" using Suc.prems(6) by simp
    then have cs: "cstr (ix_page_name (index_at t idx)) = ?n" using Suc.prems(2,4) True by (auto simp: entry_ok_def cstr_own_name)
    obtain page t1 where g: "getPageByName os ?n t = (Inr page, t1)" and s1: "serviceable os t1"
      using getPage_serviceable [OF Suc.prems(1,5,2) im] by blast
    note spec = getPageByName_spec [OF Suc.prems(5) g]
    have rest: "same_rest t t1" using spec by simp
    note ix = same_rest_index [OF rest]
    have c: "table_name t1 = table_name t" "max_elements_in_page t1 = max_elements_in_page t" "table_index t1 = table_index t"
      using rest by (auto simp: same_rest_def same_consts_def)
    let ?t2 = "removed idx page t1"
    have "names_fit t1" "max_pages t1 \<le> length (elements (table_index t1))" "\<forall>i < max_pages t1. entry_ok t1 i (index_at t1 i)"
      using Suc.prems(2-4) ix c by (auto simp: names_fit_def entry_ok_def own_name_def)
    note re = removed_entries [OF this, of idx page]
    have "\<exists>t'. cleanup_loop os k (Suc idx) ?t2 = (Inr (), t')"
    proof (rule Suc.IH [OF removed_serviceable [OF s1]])
      show "names_fit ?t2" "max_pages ?t2 \<le> length (elements (table_index ?t2))" "\<forall>i < max_pages ?t2. entry_ok ?t2 i (index_at ?t2 i)"
        using re ix by simp_all
      show "data_inv (sc_page_size os) ?t2" using spec by (intro removed_data_inv) simp
      show "Suc idx + k = max_pages ?t2" using Suc.prems(6) ix by simp
    qed
    moreover have "clear_index_record_full idx (unlink_page page (cstr (ix_page_name (index_at t1 idx))) t1) = ?t2"
      using cs ix c by (simp add: removed_def)
    ultimately show ?thesis using True g cs by (simp add: sbind_def)
  qed simp
qed simp

lemma cleanup_total:
  assumes t: "tended psz now t" and ok: "all_ok os" "sc_page_size os = psz"
  shows "\<exists>t'. cleanup os t = (Inr (), t')"
proof -
  have h: "table_ok (sc_page_size os) t" "lock_named t" using t ok(2) by (simp_all add: tended_def)
  note sv = tended_serviceable [OF t ok]
  obtain s1 where eq: "critical (\<lambda>t. cleanup_loop os (max_pages t) 0 t) (\<lambda>_. modify release_open_pages) t =
    (case cleanup_loop os (max_pages (held t)) 0 (held t) of
       (Inl e, t1) \<Rightarrow> (Inl e, relock s1 (lock t) t1)
     | (Inr x, t1) \<Rightarrow> modify release_open_pages (relock s1 (lock t) t1))"
    using critical_held [of "\<lambda>t. cleanup_loop os (max_pages t) 0 t" "\<lambda>_. modify release_open_pages" t,
      OF cleanup_inside_neutral release_open_pages_neutral table_ok_parts(5) [OF h(1)]] by blast
  have "\<exists>t'. cleanup_loop os (max_pages (held t)) 0 (held t) = (Inr (), t')"
    by (rule cleanup_loop_total [OF serviceable_held [OF sv h(2)]])
      (use table_ok_parts(1,2) [OF h(1)] in \<open>auto simp: index_inv_def names_fit_def entry_ok_def own_name_def\<close>)
  then show ?thesis unfolding cleanup_critical eq by (auto simp: modify_def)
qed
section \<open>Insertion\<close>

lemma add_effect_facts:
  assumes eff: "add_effect os time0 now recs c life ty i t t1 t2 t'" and ok: "table_ok (sc_page_size os) t" and cs: "same_consts t t'"
  shows "release_expired_memory_pages os time0 t = (Inr (), t1)" "table_ok (sc_page_size os) t1"
    "global_expire_at t1 = global_expire_at t" "global_expire_at t \<le> global_expire_at t'" "i < max_pages t"
    "max_pages t1 = max_pages t" "table_name t1 = table_name t" "max_pages t' = max_pages t1" "table_name t' = table_name t1"
    "max_elements_in_page t1 = max_elements_in_page t" "expiry t1 = expiry t" "inserted now recs c life ty i t1 t'"
    "ty = OLDEST \<Longrightarrow> expire_at (index_at t1 i) \<le> global_expire_at t'"
    "ty = EXPIRED \<Longrightarrow> expire_at (index_at t1 i) < now" "ty = NEW \<Longrightarrow> expire_at (index_at t1 i) = 0"
    "ty = CURRENT \<Longrightarrow> c \<le> page_elements_available (index_at t1 i) \<and> 0 < expire_at (index_at t1 i)" "ty \<noteq> UNKNOWN"
    "\<not> isMemLow os \<Longrightarrow> global_expire_at t' = global_expire_at t"
proof -
  have e: "release_expired_memory_pages os time0 t = (Inr (), t1)" "table_ok (sc_page_size os) t1" "recyclable os t1"
    "choose_page os now c t1 = ((ty, i), t2)" "ty \<noteq> UNKNOWN" "inserted now recs c life ty i t1 t'"
    "global_expire_at t' = global_expire_at t2" "i < max_pages t"
    using eff by (auto simp: add_effect_def)
  note spec = choose_page_spec [OF table_ok_parts(1) [OF e(2)] e(3,4,5)]
  note rs = release_expired_spec [OF ok e(1)]
  have "t2 = t1 \<or> t2 = update_global_expire (expire_at (index_at t1 i)) t1" using spec e(5) by (cases ty) auto
  then have "global_expire_at t1 \<le> global_expire_at t2" by (auto simp: update_global_expire_def)
  then show "global_expire_at t1 = global_expire_at t" "global_expire_at t \<le> global_expire_at t'" using rs e(7) by auto
  show "release_expired_memory_pages os time0 t = (Inr (), t1)" "table_ok (sc_page_size os) t1" "i < max_pages t"
    "inserted now recs c life ty i t1 t'" "ty \<noteq> UNKNOWN" using e by auto
  show "max_pages t1 = max_pages t" "table_name t1 = table_name t" "max_pages t' = max_pages t1" "table_name t' = table_name t1"
    "max_elements_in_page t1 = max_elements_in_page t" "expiry t1 = expiry t"
    using rs cs by (auto simp: same_consts_def max_pages_def expiry_def fun_eq_iff)
  show "\<not> isMemLow os \<Longrightarrow> global_expire_at t' = global_expire_at t" using spec e(5,7) rs by (cases ty) auto
  show "ty = OLDEST \<Longrightarrow> expire_at (index_at t1 i) \<le> global_expire_at t'" using spec e(7) by (auto simp: update_global_expire_def)
  show "ty = EXPIRED \<Longrightarrow> expire_at (index_at t1 i) < now" "ty = NEW \<Longrightarrow> expire_at (index_at t1 i) = 0"
    "ty = CURRENT \<Longrightarrow> c \<le> page_elements_available (index_at t1 i) \<and> 0 < expire_at (index_at t1 i)" using spec by auto
qed

lemma insertion_keeps_page:
  assumes ok: "table_ok (sc_page_size os) t" and cs: "same_consts t t'" and eff: "add_effect os time0 now recs c life ty i t t1 t2 t'"
    and h: "on_page t1 e P" "stays P" "0 < e"
  shows "on_page t' e P \<or> over now (global_expire_at t') e"
proof (rule ccontr)
  note f = add_effect_facts [OF eff ok cs]
  assume a: "\<not> ?thesis"
  have "on_page t' e P"
  proof (rule on_page_keep [OF h(1,2) f(8)])
    fix j assume j: "j < max_pages t1" "e \<le> unat (expire_at (index_at t1 j))"
    show "expire_at (index_at t1 j) \<le> expire_at (index_at t' j) \<and> (\<exists>ys. stored t' j = stored t1 j @ ys)"
    proof (cases "j = i")
      case False
      then show ?thesis using f(12) j(1) by (simp add: inserted_def)
    next
      case True
      have "ty = CURRENT"
      proof (rule ccontr)
        assume "ty \<noteq> CURRENT"
        with f(17) consider "ty = OLDEST" | "ty = EXPIRED" | "ty = NEW" by (cases ty) auto
        then show False
        proof cases
          case 1
          then show False using f(13) a j(2) True by (auto simp: over_def word_le_nat_alt)
        next
          case 2
          then show False using f(14) a j(2) True by (auto simp: over_def word_less_nat_alt)
        next
          case 3
          then show False using f(15) j(2) True h(3) by simp
        qed
      qed
      then show ?thesis using f(12) True by (auto simp: inserted_def reserved_entry_def Let_def)
    qed
  qed
  with a show False by simp
qed

lemma addRecord_keeps_page:
  assumes ok: "table_ok (sc_page_size os) t" and rc: "recyclable os t" and nw: "no_wrap t" and le: "time0 \<le> now"
    and ex: "0 < expiry t now life" and len: "unat c \<le> length recs"
    and run: "addRecord os time0 now recs c life t = (Inr ee, t')" and h: "on_page t e P" "stays P" "0 < e"
  shows "on_page t' e P \<or> over now (global_expire_at t') e"
proof -
  from addRecord_spec [OF ok rc ex len run] obtain ty i t1 t2 where
    eff: "add_effect os time0 now recs c life ty i t t1 t2 t'" and cs: "same_consts t t'" by auto
  note f = add_effect_facts [OF eff ok cs]
  from release_keeps_page [OF ok nw f(1) h] show ?thesis
    using insertion_keeps_page [OF ok cs eff _ h(2,3)] over_mono [OF _ le f(4)] by blast
qed

lemma add_tended:
  assumes t: "tended psz now t" and ok: "all_ok os" "sc_page_size os = psz" and rc: "recyclable os t" and fit: "in_time now t"
    and life: "0 < record_expire_seconds t" and len: "unat c \<le> length recs" and run: "addRecord os now now recs c 0 t = (Inr ee, t')"
  shows "tended psz now t'" "same_consts t t'" "global_expire_at t \<le> global_expire_at t'" "records t' \<subseteq> records t \<union> set recs"
    "on_page t' (unat now + unat (record_expire_seconds t)) (\<lambda>i xs. \<exists>ys. xs = ys @ take (unat c) recs)"
    "on_page t e P \<Longrightarrow> stays P \<Longrightarrow> 0 < e \<Longrightarrow> on_page t' e P \<or> over now (global_expire_at t') e"
proof -
  have h: "table_ok (sc_page_size os) t" using t ok(2) by (simp add: tended_def)
  have ue: "unat (expiry t now 0) = unat now + unat (record_expire_seconds t)" using fit by (simp add: expiry_def in_time_def unat_word_ariths)
  then have ex: "0 < expiry t now 0" using life by (simp add: word_less_nat_alt)
  from addRecord_spec [OF h rc ex len run] obtain ty i t1 t2 where
    eff: "add_effect os now now recs c 0 ty i t t1 t2 t'" and cs: "same_consts t t'" and ok': "table_ok (sc_page_size os) t'" by auto
  note f = add_effect_facts [OF eff h cs]
  have mx: "unat (max a b) = max (unat a) (unat b)" for a b :: u32 by (simp add: max_def word_le_nat_alt)
  have b1: "unat (expire_at (index_at t1 j)) \<le> unat now + unat (record_expire_seconds t)" if "j < max_pages t" for j
    using release_records(2) [OF h f(1) that] t that by (auto simp: tended_def)
  have bd: "unat (expire_at (index_at t' j)) \<le> unat now + unat (record_expire_seconds t)" if "j < max_pages t" for j
    using f(6,11,12) b1 [OF that] that ue by (cases "j = i") (auto simp: inserted_def reserved_entry_def mx Let_def)
  from tended_step [OF t keeps_addRecord [OF ok] addRecord_balanced run _ bd] ok' ok(2) show "tended psz now t'" "same_consts t t'" by auto
  show "global_expire_at t \<le> global_expire_at t'" by (rule f(4))
  have st: "stored t' i = (if ty = CURRENT then stored t1 i else []) @ take (unat c) recs" using f(12) by (simp add: inserted_def)
  show "on_page t' (unat now + unat (record_expire_seconds t)) (\<lambda>i xs. \<exists>ys. xs = ys @ take (unat c) recs)"
  proof -
    have "expiry t now 0 \<le> expire_at (index_at t' i)" using f(11,12) by (auto simp: inserted_def reserved_entry_def Let_def)
    then have "unat now + unat (record_expire_seconds t) \<le> unat (expire_at (index_at t' i))" using ue by (simp add: word_le_nat_alt)
    then show ?thesis using f(5,6,8) st unfolding on_page_def by (intro exI [of _ i]) auto
  qed
  show "records t' \<subseteq> records t \<union> set recs"
  proof
    fix x assume "x \<in> records t'"
    then obtain j where j: "j < max_pages t1" "0 < expire_at (index_at t' j)" "x \<in> set (stored t' j)" using f(8) by (auto simp: records_def)
    have "x \<in> records t1 \<union> set recs"
    proof (cases "j = i")
      case True
      then show ?thesis using j st f(16) by (auto simp: records_def dest: in_set_takeD split: if_splits)
    next
      case False
      then show ?thesis using j f(12) by (auto simp: records_def inserted_def)
    qed
    then show "x \<in> records t \<union> set recs" using release_records(1) [OF h f(1)] by auto
  qed
  show "on_page t' e P \<or> over now (global_expire_at t') e" if "on_page t e P" "stays P" "0 < e"
    by (rule addRecord_keeps_page [OF h rc tended_no_wrap [OF t fit] order_refl ex len run that])
qed

text \<open>An insertion that is refused, because the records do not fit a page or there is no page left, changes no record.\<close>

lemma add_refused:
  assumes t: "tended psz now t" and ok: "all_ok os" "sc_page_size os = psz" and rc: "recyclable os t" and fit: "in_time now t"
    and life: "0 < record_expire_seconds t" and len: "unat c \<le> length recs" and run: "addRecord os now now recs c 0 t = (Inl x, t')"
  shows "tended psz now t'" "same_consts t t'" "global_expire_at t' = global_expire_at t" "records t' \<subseteq> records t"
    "on_page t e P \<Longrightarrow> stays P \<Longrightarrow> 0 < e \<Longrightarrow> on_page t' e P \<or> over now (global_expire_at t') e"
proof -
  have h: "table_ok (sc_page_size os) t" using t ok(2) by (simp add: tended_def)
  obtain r1 t1 where "release_expired_memory_pages os now t = (r1, t1)" by fastforce
  note rt = release_tended [OF t ok this] and rel = this
  have ok1: "table_ok (sc_page_size os) t1" "lock_named t1" and sv: "serviceable os t1"
    using rt(2) ok(2) tended_serviceable [OF rt(2) ok] by (simp_all add: tended_def)
  note rel = rel [unfolded rt(1)]
  have rc1: "recyclable os t1" by (rule release_recyclable [OF h rc rel])
  have ex: "0 < expiry t1 now 0" using fit life rt(3)
    by (simp add: expiry_def in_time_def unat_word_ariths word_less_nat_alt same_consts_def)
  have eq: "addRecord os now now recs c 0 t = sbind (checkRecord c) (\<lambda>_. insert_records os now recs c 0) t1"
    using rel by (simp add: addRecord_critical sbind_def insert_records_def)
  obtain s l where t': "t' = t1 \<or> t' = relock s l t1"
  proof (cases "c \<le> max_elements_in_page t1")
    case False
    then have "checkRecord c t1 = (Inl (Error (''checkRecord::RECORD_SIZE_TO_BIG size:'' @ to_string (unat c) @ [LF]) InternalError), t1)"
      by (simp add: checkRecord_def)
    then have "t' = t1" using run unfolding eq by (simp add: sbind_def)
    then show thesis using that by blast
  next
    case True
    then have "checkRecord c t1 = (Inr (), t1)" by (simp add: checkRecord_def leD)
    then have ins: "insert_records os now recs c 0 t1 = (Inl x, t')" using run unfolding eq by (simp add: sbind_def)
    obtain ty i t2 where ch: "choose_page os now c t1 = ((ty, i), t2)" by (metis prod.exhaust)
    have u: "ty = UNKNOWN" using insert_records_total [OF ok1(1) sv ok1(2) rc1 ex True len ch] ins by auto
    then have "t2 = t1" using ch by (auto simp: choose_page_def split: prod.splits if_splits)
    with insert_records_run [OF table_ok_parts(5) [OF ok1(1)] table_ok_parts(1) [OF ok1(1)] rc1 ins ch] u that show thesis by auto
  qed
  then have k: "index_at t' = index_at t1" "stored t' = stored t1" "max_pages t' = max_pages t1" "global_expire_at t' = global_expire_at t1"
    by auto
  then show "global_expire_at t' = global_expire_at t" using rt(4) by simp
  have "lock_idle t'" using lock_balanced_idle [OF addRecord_balanced table_ok_parts(5) [OF h], of os now now recs c 0] run by simp
  then have ok': "table_ok (sc_page_size os) t'" using t' ok1(1) by (auto simp: table_ok_def)
  have mp: "max_pages t1 = max_pages t" using rt(3) by (simp add: same_consts_def max_pages_def)
  have bd: "unat (expire_at (index_at t' i)) \<le> unat now + unat (record_expire_seconds t)" if "i < max_pages t" for i
    using rt(2,3) that k mp by (simp add: tended_def same_consts_def)
  from tended_step [OF t keeps_addRecord [OF ok] addRecord_balanced run _ bd] ok' ok(2) show "tended psz now t'" "same_consts t t'" by auto
  show "records t' \<subseteq> records t" using release_records(1) [OF h rel] k by (simp add: records_def)
  show "on_page t' e P \<or> over now (global_expire_at t') e" if P: "on_page t e P" "stays P" "0 < e"
    using release_keeps_page [OF h tended_no_wrap [OF t fit] rel P] k rt(4) by (simp add: on_page_def)
qed

text \<open>Either way no record is lost before its time.\<close>

lemma add_any:
  assumes "tended psz now t" "all_ok os" "sc_page_size os = psz" "recyclable os t" "in_time now t"
    and "0 < record_expire_seconds t" "unat c \<le> length recs" "addRecord os now now recs c 0 t = (r, t')"
  shows "tended psz now t'" "same_consts t t'" "global_expire_at t \<le> global_expire_at t'"
    "on_page t e P \<Longrightarrow> stays P \<Longrightarrow> 0 < e \<Longrightarrow> on_page t' e P \<or> over now (global_expire_at t') e"
proof -
  have "tended psz now t' \<and> same_consts t t' \<and> global_expire_at t \<le> global_expire_at t'"
  proof (cases r)
    case (Inl x)
    from add_refused(1-3) [OF assms(1-7) assms(8) [unfolded Inl]] show ?thesis by simp
  next
    case (Inr ee)
    from add_tended(1-3) [OF assms(1-7) assms(8) [unfolded Inr]] show ?thesis by simp
  qed
  then show "tended psz now t'" "same_consts t t'" "global_expire_at t \<le> global_expire_at t'" by simp_all
  show "on_page t' e P \<or> over now (global_expire_at t') e" if P: "on_page t e P" "stays P" "0 < e"
  proof (cases r)
    case (Inl x)
    show ?thesis using add_refused(5) [OF assms(1-7) assms(8) [unfolded Inl]] P by blast
  next
    case (Inr ee)
    show ?thesis using add_tended(6) [OF assms(1-7) assms(8) [unfolded Inr]] P by blast
  qed
qed

section \<open>A new table\<close>

lemma new_tended:
  assumes run: "Table_new os esz zero name pages n expire g \<lparr>names = Map.empty, objects = []\<rparr> (ix, sm) = (Inr t, st')"
    and geo: "0 < esz" "0 < sc_page_size os" "PAGE_INFORMATION_SIZE + esz * unat n + sc_page_size os < 2 ^ 32"
      "PAGE_INFORMATION_SIZE + INDEX_ELEMENT_SIZE * unat pages + sc_page_size os < 2 ^ 32"
    and nm: "NUL \<notin> set name" "\<forall>i < unat pages. length (data_page_name name i) \<le> 14" "name \<noteq> []" "length name \<le> 14" "0 < pages"
    and ok: "all_ok os" and fresh: "sm name = None" "names ix name = None" "sem_bounded sm" "\<forall>i < unat pages. sm (data_page_name name i) = None"
  shows "tended (sc_page_size os) now t" "records t = {}" "record_expire_seconds t = expire" "global_expire_at t = g"
    "st' = (\<lparr>names = (names ix)(name \<mapsto> length (objects ix)), objects = objects ix @ [table_index t]\<rparr>, sm(name \<mapsto> 1))"
    "max_pages t = unat pages" "max_elements_in_page t = n" "i < unat pages \<Longrightarrow> index_at t i = index_zero"
proof -
  let ?b = "page_bytes (sc_page_size os) INDEX_ELEMENT_SIZE (ucast pages)"
  let ?ob = "zero_object INDEX_ELEMENT_SIZE index_zero (unat ?b)"
  have op: "sem_ok os name" "open_ok os name" "trunc_ok os name" "map_ok os name" "isMemAvailable os" using ok by (simp_all add: all_ok_def)
  have new: "SharedMemoryPage_new os INDEX_ELEMENT_SIZE index_zero name (ucast pages) (ix, sm(name \<mapsto> 1))
      = (Inr \<lparr>page_name = name, page_memory_size = ?b, mapping = length (objects ix)\<rparr>,
         (\<lparr>names = (names ix)(name \<mapsto> length (objects ix)), objects = objects ix @ [?ob]\<rparr>, sm(name \<mapsto> 1)))"
    using page_created [OF op nm(3,4) _ fresh(2), of "sm(name \<mapsto> 1)" INDEX_ELEMENT_SIZE index_zero "ucast pages"] by simp
  have "sem_open name sm = sm(name \<mapsto> 1)" using fresh(1) by (simp add: sem_open_def)
  then have t: "t = \<lparr>table_index = ?ob, data_shm = \<lparr>names = Map.empty, objects = []\<rparr>, global_expire_at = g,
     sems = sm(name \<mapsto> 1), opened_pages_list = [], time_to_check_page_expire = 0, lock = \<lparr>cs_name = name, unlock_needed = False\<rparr>,
     table_name = name, table_max_pages = pages, max_elements_in_page = n, record_expire_seconds = expire,
     elem_size = esz, elem_zero = zero\<rparr>"
    and st': "st' = (\<lparr>names = (names ix)(name \<mapsto> length (objects ix)), objects = objects ix @ [?ob]\<rparr>, sm(name \<mapsto> 1))"
    using run op(1) new by (auto simp: Table_new_def CriticalSection_new_def)
  have mp: "max_pages t = unat pages" "table_name t = name" by (simp_all add: t max_pages_def)
  have cap: "unat pages \<le> elem_capacity INDEX_ELEMENT_SIZE (unat ?b)"
    using page_capacity(1) [of INDEX_ELEMENT_SIZE "sc_page_size os" "ucast pages"] geo(2,4) unat_ucast_u32 [of pages]
    by (simp add: INDEX_ELEMENT_SIZE_def)
  have ix: "i < unat pages \<Longrightarrow> index_at t i = index_zero" for i
    using cap by (simp add: t index_at_def zero_object_def)
  have "names_fit t" using nm by (simp add: names_fit_def mp MEMPAGE_NAME_MAX_LEN_def)
  moreover have "max_pages t \<le> length (elements (table_index t))" using cap by (simp add: mp) (simp add: t zero_object_def)
  moreover have "entry_ok t i index_zero" for i by (simp add: entry_ok_def index_zero_def)
  ultimately have "index_inv t" using ix by (simp add: index_inv_def mp index_zero_def)
  moreover have "data_inv (sc_page_size os) t"
    using page_capacity [OF geo(1-3)] by (simp add: t data_inv_def shm_inv_def)
  moreover have "synced t" "lock_idle t" "lock_named t"
    using fresh(3) by (auto simp: t synced_def lock_idle_def lock_named_def sem_bounded_def SEM_VALUE_MAX_def)
  moreover have "backed t" using ix by (auto simp: backed_def mp index_zero_def)
  moreover have d: "sems t = sm(name \<mapsto> 1)" "names (data_shm t) = Map.empty" by (simp_all add: t)
  moreover have "data_page_name name i \<noteq> name" for i by (simp add: data_page_name_def)
  ultimately show "tended (sc_page_size os) now t"
    using ix fresh(4) nm(5) d by (auto simp: tended_def table_ok_def mp index_zero_def sized_def word_less_nat_alt)
  show "records t = {}" using ix by (auto simp: records_def mp index_zero_def)
  show "record_expire_seconds t = expire" "global_expire_at t = g" by (simp_all add: t)
  show "st' = (\<lparr>names = (names ix)(name \<mapsto> length (objects ix)), objects = objects ix @ [table_index t]\<rparr>, sm(name \<mapsto> 1))"
    by (simp add: st') (simp add: t)
  show "max_pages t = unat pages" "max_elements_in_page t = n" by (simp_all add: mp) (simp add: t)
  show "i < unat pages \<Longrightarrow> index_at t i = index_zero" by (rule ix)
qed

end
