(* ===== verification/DealsDatabase.thy ===== *)
theory DealsDatabase
  imports DealsCheapest DealsCheapestByCountry DealsCheapestByDate DealsUniqueRoutes DealsStats TableHistory
begin

text \<open>
  Model of \<^verbatim>\<open>src/deals_database.hpp\<close> and \<^verbatim>\<open>src/deals_database.cpp\<close>: the database of deals, an index
  table and a data table that share one context.  The context's \<^verbatim>\<open>global_expire_at\<close> is kept in
  \<open>db_context\<close> and handed to the table that an operation works on.  The two tables use different
  names for their semaphores and pages, so each has its own.  A byte of deal data is a \<^typ>\<open>char\<close>.
\<close>

section \<open>State\<close>

record DealsDatabase =
  db_context :: u32
  db_index :: "DealInfo Table"
  db_data :: "char Table"

definition DealsDatabase_new :: "os \<Rightarrow> DealInfo shm \<Rightarrow> char shm \<Rightarrow> (shared_store, DealsDatabase) op" where
  "DealsDatabase_new os index_pages data_pages =
     sbind (on_contexts (SharedContext_new os DEALS_DB_NAME)) (\<lambda>ctx.
     sbind (on_indexes (Table_new os DEALINFO_SIZE deal_zero DEALINFO_TABLENAME DEALINFO_PAGES DEALINFO_ELEMENTS DEALS_EXPIRES
              (ctx_global_expire_at ctx) index_pages)) (\<lambda>ix.
     sbind (on_indexes (Table_new os 1 NUL DEALDATA_TABLENAME DEALDATA_PAGES DEALDATA_ELEMENTS DEALS_EXPIRES
              (ctx_global_expire_at ctx) data_pages)) (\<lambda>dt.
     ret \<lparr>db_context = ctx_global_expire_at ctx, db_index = ix, db_data = dt\<rparr>)))"

definition on_index :: "(DealInfo Table, 'a) op \<Rightarrow> (DealsDatabase, 'a) op" where
  "on_index m db = (case m ((db_index db)\<lparr>global_expire_at := db_context db\<rparr>) of
     (r, t) \<Rightarrow> (r, db\<lparr>db_index := t, db_context := global_expire_at t\<rparr>))"

definition on_data :: "(char Table, 'a) op \<Rightarrow> (DealsDatabase, 'a) op" where
  "on_data m db = (case m ((db_data db)\<lparr>global_expire_at := db_context db\<rparr>) of
     (r, t) \<Rightarrow> (r, db\<lparr>db_data := t, db_context := global_expire_at t\<rparr>))"

definition DealsDatabase_truncate :: "os \<Rightarrow> (DealsDatabase, unit) op" where
  "DealsDatabase_truncate os = sbind (on_data (cleanup os)) (\<lambda>_. on_index (cleanup os))"

section \<open>Adding a deal\<close>

definition strncpy :: "nat \<Rightarrow> string \<Rightarrow> char list" where
  "strncpy n s = take n (cstr s @ replicate n NUL)"

text \<open>
  The record of a deal.  \<open>oob\<close> is what the read outside the month table of \<^verbatim>\<open>utils::day_of_week\<close>
  delivers: an undefined return date has month 0.
\<close>

definition deal_info ::
  "(int \<Rightarrow> u8) \<Rightarrow> u32 \<Rightarrow> IATACode \<Rightarrow> IATACode \<Rightarrow> CountryCode \<Rightarrow> Date \<Rightarrow> Date \<Rightarrow> Boolean \<Rightarrow> Number \<Rightarrow>
   ElementExtractor \<Rightarrow> DealInfo result" where
  "deal_info oob ts org destination destination_country departure_date return_date direct_flight price data_pos =
     (let departure_day_of_week = Weekdays_of_Date oob departure_date;
          return_day_of_week = Weekdays_of_Date oob return_date
      in rbind (IATACode_get_code org) (\<lambda>o_code.
         rbind (IATACode_get_code destination) (\<lambda>d_code.
         rbind (CountryCode_get_code destination_country) (\<lambda>c_code.
         rbind (Date_get_code departure_date) (\<lambda>dep_code.
         rbind (isTrue direct_flight) (\<lambda>direct.
         rbind (get_bitmask departure_day_of_week) (\<lambda>dep_mask.
         rbind (get_bitmask return_day_of_week) (\<lambda>ret_mask.
         rbind (get_value price) (\<lambda>price_value.
         rbind (if isUndefined return_date then Inr (0, 255)
                else rbind (Date_get_code return_date) (\<lambda>c.
                  let ds = days_after return_date departure_date
                  in Inr (c, if unat ds > UINT8_MAX then 255 else ucast ds))) (\<lambda>(ret_code, stay).
           Inr \<lparr>d_timestamp = ts, d_origin = o_code, d_destination = d_code, d_departure_date = dep_code,
                d_return_date = ret_code, d_price = price_value, d_stay_days = stay,
                d_destination_country = c_code, d_departure_day_of_week = dep_mask,
                d_return_day_of_week = ret_mask, d_direct = direct, d_overriden = False,
                d_page_name = strncpy MEMPAGE_NAME_MAX_LEN (ee_page_name data_pos),
                d_index = ee_index data_pos, d_size = ee_size data_pos\<rparr>))))))))))"

text \<open>
  \<open>td0\<close> and \<open>td\<close> are the times that the insertion of the data reads, \<open>ts\<close> is the timestamp of
  the deal, \<open>ti0\<close> and \<open>ti\<close> are the times of the insertion into the index.
\<close>

definition addDeal ::
  "os \<Rightarrow> (int \<Rightarrow> u8) \<Rightarrow> u32 \<Rightarrow> u32 \<Rightarrow> u32 \<Rightarrow> u32 \<Rightarrow> u32 \<Rightarrow>
   IATACode \<Rightarrow> IATACode \<Rightarrow> CountryCode \<Rightarrow> Date \<Rightarrow> Date \<Rightarrow> Boolean \<Rightarrow> Number \<Rightarrow> string \<Rightarrow> (DealsDatabase, unit) op" where
  "addDeal os oob td0 td ts ti0 ti org destination destination_country departure_date return_date direct_flight price data =
     (let data_size = word_of_nat (length data) :: u32
      in sbind (on_data (addRecord os td0 td data data_size 0)) (\<lambda>data_pos db.
           case deal_info oob ts org destination destination_country departure_date return_date direct_flight price data_pos of
             Inl e \<Rightarrow> (Inl e, db)
           | Inr info \<Rightarrow> sbind (on_index (addRecord os ti0 ti [info] 1 0)) (\<lambda>_. ret ()) db))"

section \<open>Searching\<close>

record SearchParams =
  p_origin :: IATACode
  p_destinations :: IATACodes
  p_destination_countries :: CountryCodes
  p_departure_date_from :: Date
  p_departure_date_to :: Date
  p_departure_days_of_week :: Weekdays
  p_return_date_from :: Date
  p_return_date_to :: Date
  p_return_days_of_week :: Weekdays
  p_stay_from :: Number
  p_stay_to :: Number
  p_direct_flights :: Boolean
  p_limit :: Number
  p_max_lifetime_sec :: Number
  p_roundtrip_flights :: Boolean
  p_departure_or_return_date :: Date
  p_all_combinations :: Boolean

definition fill_query :: "u32 \<Rightarrow> SearchParams \<Rightarrow> 'x query \<Rightarrow> 'x query result" where
  "fill_query now p q =
     rbind (origin (p_origin p) q) (\<lambda>q.
     rbind (destinations (p_destinations p) q) (\<lambda>q.
     rbind (destination_countries (p_destination_countries p) q) (\<lambda>q.
     rbind (departure_dates (p_departure_date_from p) (p_departure_date_to p) q) (\<lambda>q.
     rbind (return_dates (p_return_date_from p) (p_return_date_to p) q) (\<lambda>q.
     rbind (departure_weekdays (p_departure_days_of_week p) q) (\<lambda>q.
     rbind (return_weekdays (p_return_days_of_week p) q) (\<lambda>q.
     rbind (stay_days (p_stay_from p) (p_stay_to p) q) (\<lambda>q.
     rbind (direct_flights (p_direct_flights p) q) (\<lambda>q.
     rbind (roundtrip_flights (p_roundtrip_flights p) q) (\<lambda>q.
     rbind (max_lifetime_sec now (p_max_lifetime_sec p) q) (\<lambda>q.
     rbind (result_limit (p_limit p) q) (\<lambda>q.
     rbind (exact_departure_or_return_date (p_departure_or_return_date p) q) (\<lambda>q.
     rbind (calc_departue_return_max_duration (p_departure_date_from p) (p_departure_date_to p)
              (p_return_date_from p) (p_return_date_to p) q) (\<lambda>q.
     all_combinations (p_all_combinations p) q))))))))))))))"

text \<open>
  \<open>DealInfo\<close> of namespace \<^verbatim>\<open>deals\<close>, the answer: the data string and, in a test build only, a
  second member.  \<open>read_deal\<close> is the body of the loop of \<^verbatim>\<open>fill_deals_with_data\<close>; building the
  string from a pointer and a size reads past the page when the size is too large.
\<close>

definition read_deal :: "os \<Rightarrow> DealInfo \<Rightarrow> (char Table, string) op" where
  "read_deal os deal =
     sbind (get_element_data os \<lparr>ee_page_name = cstr (d_page_name deal), ee_index = d_index deal, ee_size = d_size deal\<rparr>)
       (\<lambda>xs t. if unat (d_size deal) \<le> length xs then (Inr (take (unat (d_size deal)) xs), t) else (Inl segv, t))"

fun fill_deals_with_data :: "os \<Rightarrow> DealInfo list \<Rightarrow> (char Table, string list) op" where
  "fill_deals_with_data os [] = ret []"
| "fill_deals_with_data os (deal # i_deals) =
     sbind (read_deal os deal) (\<lambda>data. sbind (fill_deals_with_data os i_deals) (\<lambda>result. ret (data # result)))"

definition searchFor ::
  "os \<Rightarrow> u32 \<Rightarrow> ('x query \<Rightarrow> (DealInfo Table, DealInfo list) op) \<Rightarrow> 'x query \<Rightarrow> SearchParams \<Rightarrow> (DealsDatabase, string list) op" where
  "searchFor os now query_execute query p db =
     (case fill_query now p query of
        Inl e \<Rightarrow> (Inl e, db)
      | Inr q \<Rightarrow> sbind (on_index (query_execute q)) (\<lambda>i_deals. on_data (fill_deals_with_data os i_deals)) db)"

definition getUniqueRoutesDeals where
  "getUniqueRoutesDeals os time0 now iter = on_index (getUniqueRoutesRoutine os time0 now iter)"

definition getStats where
  "getStats os time0 now = on_index (getStatsRoutine os time0 now)"

section \<open>Tables and the shared context\<close>

text \<open>Only the visibility of records depends on the context; the invariants of a table do not.\<close>

lemma context_simps [simp]:
  fixes t :: "'e Table"
  defines "t' \<equiv> \<lambda>g. t\<lparr>global_expire_at := g\<rparr>"
  shows "max_pages (t' g) = max_pages t" "index_at (t' g) i = index_at t i" "page_elems (t' g) i = page_elems t i"
    "used (t' g) i = used t i" "stored (t' g) i = stored t i" "expiry (t' g) now life = expiry t now life"
    "table_name (t' g) = table_name t" "record_expire_seconds (t' g) = record_expire_seconds t"
  by (simp_all add: t'_def max_pages_def index_at_def page_elems_def used_def stored_def expiry_def cong: option.case_cong)

lemma table_ok_context [simp]: "table_ok psz (t\<lparr>global_expire_at := g\<rparr>) = table_ok psz t"
  by (simp add: table_ok_def index_inv_def names_fit_def entry_ok_def own_name_def data_inv_def page_object_def synced_def
      backed_def page_backed_def lock_idle_def)

lemma context_conditions [simp]:
  "recyclable os (t\<lparr>global_expire_at := g\<rparr>) = recyclable os t" "no_wrap (t\<lparr>global_expire_at := g\<rparr>) = no_wrap t"
  "serviceable os (t\<lparr>global_expire_at := g\<rparr>) = serviceable os t" "lock_named (t\<lparr>global_expire_at := g\<rparr>) = lock_named t"
  "scannable os time0 now (t\<lparr>global_expire_at := g\<rparr>) = scannable os time0 now t"
  by (simp_all add: recyclable_def no_wrap_def serviceable_def lock_named_def scannable_def)

abbreviation index_table :: "DealsDatabase \<Rightarrow> DealInfo Table" where
  "index_table db \<equiv> (db_index db)\<lparr>global_expire_at := db_context db\<rparr>"

abbreviation data_table :: "DealsDatabase \<Rightarrow> char Table" where
  "data_table db \<equiv> (db_data db)\<lparr>global_expire_at := db_context db\<rparr>"

section \<open>The data of a deal\<close>

text \<open>
  The data table holds the data \<open>s\<close> of a deal when the page the deal names has it at the place
  the deal gives, and stays in use for a day after the deal's timestamp.  A deal is outdated
  when that day is over, or when the shared context says that data this old may be gone.
\<close>

definition deal_end :: "DealInfo \<Rightarrow> nat" where
  "deal_end d = unat (d_timestamp d) + unat DEALS_EXPIRES"

definition holds :: "char Table \<Rightarrow> DealInfo \<Rightarrow> string \<Rightarrow> bool" where
  "holds t d s \<longleftrightarrow> (\<exists>i < max_pages t. cstr (d_page_name d) = data_page_name (table_name t) i
     \<and> deal_end d \<le> unat (expire_at (index_at t i))
     \<and> unat (d_index d) + unat (d_size d) \<le> length (stored t i)
     \<and> take (unat (d_size d)) (drop (unat (d_index d)) (stored t i)) = s)"

definition outdated :: "u32 \<Rightarrow> u32 \<Rightarrow> DealInfo \<Rightarrow> bool" where
  "outdated now gexp d \<longleftrightarrow> deal_end d \<le> unat now \<or> deal_end d \<le> unat gexp"

lemma outdated_over: "outdated now g d = over now g (deal_end d)"
  by (simp add: outdated_def over_def)

lemma holds_on_page: "holds t d s = on_page t (deal_end d) (\<lambda>i xs. cstr (d_page_name d) = data_page_name (table_name t) i \<and>
    unat (d_index d) + unat (d_size d) \<le> length xs \<and> take (unat (d_size d)) (drop (unat (d_index d)) xs) = s)"
  by (auto simp: holds_def on_page_def)

lemma deal_end_pos: "0 < deal_end d"
  by (simp add: deal_end_def DEALS_EXPIRES_def)

lemma stays_rules [simp]:
  "stays (\<lambda>i xs. d \<in> set xs)" "stays (\<lambda>i xs. Q i \<and> m + n \<le> length xs \<and> take n (drop m xs) = s)"
  by (auto simp: stays_def)

text \<open>What keeps pages keeps the data of a deal.\<close>

lemma holds_kept:
  assumes "same_consts t t'" and "\<And>e P. on_page t e P \<Longrightarrow> stays P \<Longrightarrow> 0 < e \<Longrightarrow> on_page t' e P \<or> over now g e" and "holds t d s"
  shows "holds t' d s \<or> outdated now g d"
proof -
  have n: "table_name t' = table_name t" using assms(1) by (simp add: same_consts_def)
  show ?thesis using assms(2) [OF assms(3) [unfolded holds_on_page] _ deal_end_pos] unfolding holds_on_page outdated_over n by simp
qed

lemma holds_view: "view_inv psz t t' \<Longrightarrow> holds t d s \<Longrightarrow> holds t' d s"
  using on_page_view [OF _ _ deal_end_pos] by (simp add: holds_on_page view_inv_def same_rest_def same_consts_def)

lemma outdated_mono: "outdated now g d \<Longrightarrow> now \<le> now' \<Longrightarrow> g \<le> g' \<Longrightarrow> outdated now' g' d"
  by (auto simp: outdated_def word_le_nat_alt)

text \<open>
  The data of a deal survives every insertion into the data table for as long as a search can
  return the deal, also when a page is recycled because memory is low.
\<close>

lemma addRecord_keeps_data:
  assumes ok: "table_ok (sc_page_size os) t" and rc: "recyclable os t" and nw: "no_wrap t" and le: "time0 \<le> now"
    and ex: "0 < expiry t now life" and len: "unat c \<le> length recs"
    and run: "addRecord os time0 now recs c life t = (Inr ee, t')" and h: "holds t d s"
  shows "holds t' d s \<or> outdated now (global_expire_at t') d"
  using holds_kept [OF _ addRecord_keeps_page [OF ok rc nw le ex len run] h] addRecord_spec [OF ok rc ex len run] by blast

lemma length_stored:
  assumes "table_ok psz t" "i < max_pages t" "0 < expire_at (index_at t i)"
  shows "length (stored t i) = used t i"
proof -
  have "page_backed t i" using assms by (auto simp: table_ok_def backed_def)
  moreover have "used t i \<le> unat (max_elements_in_page t)" using used_le assms by (auto simp: table_ok_def)
  ultimately show ?thesis by (auto simp: stored_def page_backed_def)
qed

lemma addRecord_holds_new:
  assumes ok: "table_ok (sc_page_size os) t" and rc: "recyclable os t"
    and ex: "unat now + unat DEALS_EXPIRES < 2 ^ 32" "record_expire_seconds t = DEALS_EXPIRES"
    and len: "length recs < 2 ^ 32" and run: "addRecord os time0 now recs (word_of_nat (length recs)) 0 t = (Inr ee, t')"
    and d: "cstr (d_page_name d) = ee_page_name ee" "d_index d = ee_index ee" "d_size d = ee_size ee" "d_timestamp d \<le> now"
  shows "holds t' d recs"
proof -
  let ?c = "word_of_nat (length recs) :: u32"
  have c: "unat ?c = length recs" using len by (simp add: unat_of_nat)
  have ue: "unat (expiry t now 0) = unat now + unat DEALS_EXPIRES"
    using ex by (simp add: expiry_def unat_word_ariths)
  then have ex0: "0 < expiry t now 0" by (simp add: DEALS_EXPIRES_def word_less_nat_alt)
  from addRecord_spec [OF ok rc ex0 _ run] c obtain ty i t1 t2 where
    eff: "add_effect os time0 now recs ?c 0 ty i t t1 t2 t'" and cs: "same_consts t t'"
    and ee: "ee = \<lparr>ee_page_name = data_page_name (table_name t) i, ee_index = first_free t1 ty i, ee_size = ?c\<rparr>" by auto
  note f = add_effect_facts [OF eff ok cs]
  have st: "stored t' i = (if ty = CURRENT then stored t1 i else []) @ recs" using f(12) c by (simp add: inserted_def)
  have ff: "unat (first_free t1 ty i) = length (if ty = CURRENT then stored t1 i else [])"
    using f(16) length_stored [OF f(2), of i] f(5,6) by (auto simp: first_free_def used_def)
  have "expiry t now 0 \<le> expire_at (index_at t' i)" using f(11,12) by (auto simp: inserted_def reserved_entry_def Let_def)
  then have e: "deal_end d \<le> unat (expire_at (index_at t' i))"
    using d(4) ue by (auto simp: deal_end_def word_le_nat_alt)
  show ?thesis unfolding holds_def
    by (rule exI [of _ i]) (use f(5-9) e d(1-3) ee st ff c in simp)
qed

section \<open>Reading the data back\<close>

lemma holds_context [simp]: "holds (t\<lparr>global_expire_at := g\<rparr>) = holds t"
  by (simp add: holds_def fun_eq_iff)

lemma read_deal_holds:
  assumes ok: "table_ok (sc_page_size os) t" and sv: "serviceable os t" and h: "holds t d s"
  obtains t' where "read_deal os d t = (Inr s, t')" "table_ok (sc_page_size os) t'" "serviceable os t'"
    "view_inv (sc_page_size os) t t'"
proof -
  from h obtain i where i: "i < max_pages t" "cstr (d_page_name d) = data_page_name (table_name t) i"
    "deal_end d \<le> unat (expire_at (index_at t i))" "unat (d_index d) + unat (d_size d) \<le> length (stored t i)"
    "take (unat (d_size d)) (drop (unat (d_index d)) (stored t i)) = s" by (auto simp: holds_def)
  have pos: "0 < expire_at (index_at t i)"
    using i(3) by (cases "expire_at (index_at t i) = 0") (auto simp: deal_end_def DEALS_EXPIRES_def word_neq_0_conv)
  have v: "view_inv (sc_page_size os) t t" using ok by (intro view_inv_refl) (simp_all add: table_ok_def)
  have inv: "data_inv (sc_page_size os) t" "names_fit t" using ok by (auto simp: table_ok_def index_inv_def)
  from getPage_serviceable [OF sv inv i(1)] obtain page t' where
    g: "getPageByName os (data_page_name (table_name t) i) t = (Inr page, t')" and sv': "serviceable os t'" by blast
  from getPage_view [OF v i(1) pos g] have v': "view_inv (sc_page_size os) t t'" and el: "elements (page_object t' page) = page_elems t i" by auto
  have idle: "lock_idle t" using ok by (simp add: table_ok_def)
  have se: "sem_ext (sems t) (sems t')" and lk: "lock t' = lock t"
    using lock_neutralD [OF getPageByName_neutral, of t os "data_page_name (table_name t) i"] idle g by (auto simp: lock_idle_def)
  have "sems t' (cs_name (lock t)) = sems t (cs_name (lock t))" using se idle unfolding sem_ext_def lock_idle_def by (metis option.distinct(1))
  then have "lock_idle t'" using idle lk sem_ext_bounded [OF se] by (simp add: lock_idle_def)
  then have ok': "table_ok (sc_page_size os) t'" using v' by (simp add: table_ok_def view_inv_def)
  have r: "read_deal os d t = (Inr s, t')"
  proof -
    have st: "stored t i = take (used t i) (page_elems t i)" by (simp add: stored_def)
    have le: "unat (d_index d) + unat (d_size d) \<le> length (page_elems t i)" using i(4) by (simp add: st)
    have "take (unat (d_size d)) (drop (unat (d_index d)) (page_elems t i)) = s"
      using i(4,5) by (simp add: st drop_take min_def split: if_splits)
    then show ?thesis using g el i(2) le by (simp add: read_deal_def get_element_data_def sbind_def)
  qed
  show thesis by (rule that [OF r ok' sv' v'])
qed

lemma fill_deals_holds:
  assumes "table_ok (sc_page_size os) t" "serviceable os t" "list_all2 (holds t) ds ss"
  shows "\<exists>t'. fill_deals_with_data os ds t = (Inr ss, t') \<and> view_inv (sc_page_size os) t t' \<and> table_ok (sc_page_size os) t'"
  using assms
proof (induction ds arbitrary: t ss)
  case Nil
  then show ?case by (simp add: ret_def table_ok_def view_inv_refl)
next
  case (Cons d ds)
  then obtain s ss' where ss: "ss = s # ss'" "holds t d s" "list_all2 (holds t) ds ss'" by (auto simp: list_all2_Cons1)
  from read_deal_holds [OF Cons.prems(1,2) ss(2)] obtain t' where t': "read_deal os d t = (Inr s, t')" "table_ok (sc_page_size os) t'"
    "serviceable os t'" "view_inv (sc_page_size os) t t'" by blast
  have "list_all2 (holds t') ds ss'" using ss(3) by (rule list_all2_mono) (rule holds_view [OF t'(4)])
  from Cons.IH [OF t'(2,3) this] show ?case using t'(1) ss(1) view_inv_trans [OF t'(4)] by (auto simp: sbind_def ret_def)
qed

section \<open>A database and its deals\<close>

definition db_ok :: "os \<Rightarrow> DealsDatabase \<Rightarrow> bool" where
  "db_ok os db \<longleftrightarrow> table_ok (sc_page_size os) (db_index db) \<and> table_ok (sc_page_size os) (db_data db)
     \<and> recyclable os (db_index db) \<and> recyclable os (db_data db) \<and> no_wrap (db_data db)
     \<and> record_expire_seconds (db_index db) = DEALS_EXPIRES \<and> record_expire_seconds (db_data db) = DEALS_EXPIRES"

definition day_fits :: "u32 \<Rightarrow> bool" where
  "day_fits now \<longleftrightarrow> unat now + unat DEALS_EXPIRES < 2 ^ 32"

lemma expiry_day: "record_expire_seconds t = DEALS_EXPIRES \<Longrightarrow> day_fits now \<Longrightarrow> unat (expiry t now 0) = unat now + unat DEALS_EXPIRES"
  by (simp add: expiry_def day_fits_def unat_word_ariths)

lemma expiry_pos: "record_expire_seconds t = DEALS_EXPIRES \<Longrightarrow> day_fits now \<Longrightarrow> 0 < expiry t now 0"
  by (simp add: word_less_nat_alt expiry_day DEALS_EXPIRES_def)

lemma addDeal_run:
  assumes "addDeal os oob td0 td ts ti0 ti org dst country dep retd direct price data db = (Inr (), db')"
  obtains ee t info ee' t' where
    "addRecord os td0 td data (word_of_nat (length data)) 0 (data_table db) = (Inr ee, t)"
    "deal_info oob ts org dst country dep retd direct price ee = Inr info"
    "addRecord os ti0 ti [info] 1 0 ((db_index db)\<lparr>global_expire_at := global_expire_at t\<rparr>) = (Inr ee', t')"
    "db' = \<lparr>db_context = global_expire_at t', db_index = t', db_data = t\<rparr>"
proof -
  obtain r t where a: "addRecord os td0 td data (word_of_nat (length data)) 0 (data_table db) = (r, t)" by fastforce
  then obtain ee where ee: "r = Inr ee" using assms by (cases r) (auto simp: addDeal_def on_data_def sbind_def)
  then obtain info where i: "deal_info oob ts org dst country dep retd direct price ee = Inr info"
    using assms a by (cases "deal_info oob ts org dst country dep retd direct price ee") (auto simp: addDeal_def on_data_def sbind_def)
  obtain r' t' where b: "addRecord os ti0 ti [info] 1 0 ((db_index db)\<lparr>global_expire_at := global_expire_at t\<rparr>) = (r', t')" by fastforce
  then obtain ee' where ee': "r' = Inr ee'" using assms a ee i
    by (cases r') (auto simp: addDeal_def on_data_def on_index_def sbind_def)
  have "db' = \<lparr>db_context = global_expire_at t', db_index = t', db_data = t\<rparr>"
    using assms a ee i b ee' by (cases db) (auto simp: addDeal_def on_data_def on_index_def sbind_def ret_def)
  then show thesis using that a ee i b ee' by blast
qed

lemma cstr_strncpy:
  assumes "NUL \<notin> set n" "length n \<le> 20"
  shows "cstr (strncpy MEMPAGE_NAME_MAX_LEN n) = n"
proof -
  have "cstr n = n" using assms(1) by (auto simp: cstr_def takeWhile_eq_all_conv)
  then have "strncpy MEMPAGE_NAME_MAX_LEN n = n @ replicate (20 - length n) NUL"
    using assms(2) by (simp add: strncpy_def MEMPAGE_NAME_MAX_LEN_def min_def)
  moreover have "takeWhile (\<lambda>c. c \<noteq> NUL) (n @ replicate k NUL) = n" for k
    using assms(1) by (subst takeWhile_append2) (auto simp: takeWhile_eq_Nil_iff)
  ultimately show ?thesis by (simp add: cstr_def)
qed

lemma deal_info_fields:
  assumes "deal_info oob ts org dst country dep retd direct price ee = Inr info"
  shows "d_timestamp info = ts" "d_page_name info = strncpy MEMPAGE_NAME_MAX_LEN (ee_page_name ee)"
    "d_index info = ee_index ee" "d_size info = ee_size ee"
  using assms unfolding deal_info_def Let_def rbind_eq_Inr by auto

lemma data_page_name_short:
  assumes "names_fit t" "i < max_pages t"
  shows "NUL \<notin> set (data_page_name (table_name t) i)" "length (data_page_name (table_name t) i) \<le> 20"
  using assms to_string_digits [of i]
  by (auto simp: names_fit_def data_page_name_def is_digit_def in_range_def MEMPAGE_NAME_MAX_LEN_def)

lemma addRecord_page_name:
  assumes "table_ok (sc_page_size os) t" "recyclable os t" "0 < expiry t now life" "unat c \<le> length recs"
    and "addRecord os time0 now recs c life t = (Inr ee, t')"
  shows "cstr (strncpy MEMPAGE_NAME_MAX_LEN (ee_page_name ee)) = ee_page_name ee"
proof -
  from addRecord_spec [OF assms] obtain ty i t1 t2 where
    eff: "add_effect os time0 now recs c life ty i t t1 t2 t'"
    and ee: "ee = \<lparr>ee_page_name = data_page_name (table_name t) i, ee_index = first_free t1 ty i, ee_size = c\<rparr>" by auto
  have i: "i < max_pages t" using eff by (simp add: add_effect_def)
  have "names_fit t" using assms(1) by (simp add: table_ok_def index_inv_def)
  from data_page_name_short [OF this i] show ?thesis by (simp add: ee cstr_strncpy)
qed

lemma addRecord_context:
  assumes "table_ok (sc_page_size os) t" "recyclable os t" "0 < expiry t now life" "unat c \<le> length recs"
    and "addRecord os time0 now recs c life t = (Inr ee, t')"
  shows "global_expire_at t \<le> global_expire_at t'" "\<not> isMemLow os \<Longrightarrow> global_expire_at t' = global_expire_at t"
    "\<not> isMemLow os \<Longrightarrow> now < expiry t now life \<Longrightarrow> global_expire_at t < expiry t now life \<Longrightarrow>
       set (take (unat c) recs) \<subseteq> set (contents now t')"
proof -
  from addRecord_spec [OF assms] obtain ty i t1 t2 where
    eff: "add_effect os time0 now recs c life ty i t t1 t2 t'" and cs: "same_consts t t'" by auto
  note f = add_effect_facts [OF eff assms(1) cs]
  show "global_expire_at t \<le> global_expire_at t'" "\<not> isMemLow os \<Longrightarrow> global_expire_at t' = global_expire_at t" using f by auto
  assume a: "\<not> isMemLow os" "now < expiry t now life" "global_expire_at t < expiry t now life"
  have "expiry t now life \<le> expire_at (index_at t' i)" using f(11,12) by (auto simp: inserted_def reserved_entry_def Let_def)
  then have "live now t' i" using a f(18) by (auto simp: live_def)
  moreover have "set (take (unat c) recs) \<subseteq> set (stored t' i)" using f(12) by (auto simp: inserted_def)
  ultimately show "set (take (unat c) recs) \<subseteq> set (contents now t')" using f(5,6,8) by (auto simp: contents_def)
qed

lemma matches_not_outdated:
  assumes "matches (search_time ts t q) d" "DEALS_EXPIRES \<le> ts"
  shows "\<not> outdated ts (global_expire_at t) d"
proof -
  let ?m = "max (global_expire_at t) ts"
  have le: "DEALS_EXPIRES \<le> ?m" using assms(2) by (simp add: le_max_iff_disj)
  have "?m - DEALS_EXPIRES < d_timestamp d" using assms(1) by (simp add: matches_def search_time_def)
  then have "unat ?m - unat DEALS_EXPIRES < unat (d_timestamp d)" using unat_diff_le [OF le] by (simp add: word_less_nat_alt)
  moreover have "unat ts \<le> unat ?m" "unat (global_expire_at t) \<le> unat ?m" by (simp_all flip: word_le_nat_alt)
  ultimately show ?thesis using assms(2) unfolding outdated_def deal_end_def word_le_nat_alt by linarith
qed

section \<open>Properties\<close>

text \<open>
  C6. Adding a deal stores its data where the new index record says, makes the record visible
  unless memory is low, and keeps the data of every earlier deal in place for as long as a
  search may return that deal, even when a page is recycled.
\<close>

theorem deal_data_kept:
  assumes "db_ok os db" and "td0 \<le> td" and "ts \<le> td" and "day_fits td" and "day_fits ti" and "length data < 2 ^ 32"
    and "addDeal os oob td0 td ts ti0 ti org dst country dep retd direct price data db = (Inr (), db')"
  shows "\<exists>info. d_timestamp info = ts \<and> holds (db_data db') info data
    \<and> (\<not> isMemLow os \<and> unat (db_context db) < unat ti + unat DEALS_EXPIRES \<longrightarrow> info \<in> set (contents ti (index_table db')))
    \<and> (\<forall>d s. holds (db_data db) d s \<longrightarrow> holds (db_data db') d s \<or> outdated td (db_context db') d)"
proof -
  obtain ee t info ee' t' where a: "addRecord os td0 td data (word_of_nat (length data)) 0 (data_table db) = (Inr ee, t)"
    and i: "deal_info oob ts org dst country dep retd direct price ee = Inr info"
    and b: "addRecord os ti0 ti [info] 1 0 ((db_index db)\<lparr>global_expire_at := global_expire_at t\<rparr>) = (Inr ee', t')"
    and db': "db' = \<lparr>db_context = global_expire_at t', db_index = t', db_data = t\<rparr>"
    using addDeal_run [OF assms(7)] by metis
  let ?d = "data_table db" and ?i = "(db_index db)\<lparr>global_expire_at := global_expire_at t\<rparr>"
  have d: "table_ok (sc_page_size os) ?d" "recyclable os ?d" "no_wrap ?d" "record_expire_seconds ?d = DEALS_EXPIRES"
    and ix: "table_ok (sc_page_size os) ?i" "recyclable os ?i" "record_expire_seconds ?i = DEALS_EXPIRES"
    using assms(1) by (simp_all add: db_ok_def)
  have len: "unat (word_of_nat (length data) :: u32) \<le> length data" "unat (1 :: u32) \<le> length [info]" by (simp_all add: unat_of_nat)
  have exd: "0 < expiry ?d td 0" "0 < expiry ?i ti 0" using expiry_pos [OF d(4) assms(4)] expiry_pos [OF ix(3) assms(5)] by auto
  note inf = deal_info_fields [OF i]
  have h: "holds t info data"
    by (rule addRecord_holds_new [OF d(1,2) _ d(4) assms(6) a])
      (use addRecord_page_name [OF d(1,2) exd(1) len(1) a] inf assms(3,4) in \<open>simp_all add: day_fits_def\<close>)
  have ge: "global_expire_at t \<le> global_expire_at t'" using addRecord_context(1) [OF ix(1,2) exd(2) len(2) b] by simp
  have kept: "holds t e s \<or> outdated td (global_expire_at t') e" if "holds (db_data db) e s" for e s
    using addRecord_keeps_data [OF d(1-3) assms(2) exd(1) len(1) a, of e s] that outdated_mono [OF _ order_refl ge] by auto
  have vis: "info \<in> set (contents ti t')" if m: "\<not> isMemLow os" "unat (db_context db) < unat ti + unat DEALS_EXPIRES"
  proof -
    have "global_expire_at t = db_context db" using addRecord_context(2) [OF d(1,2) exd(1) len(1) a m(1)] by simp
    then have "ti < expiry ?i ti 0" "global_expire_at ?i < expiry ?i ti 0"
      using expiry_day [OF ix(3) assms(5)] m(2) by (simp_all add: word_less_nat_alt DEALS_EXPIRES_def)
    from addRecord_context(3) [OF ix(1,2) exd(2) len(2) b m(1) this] show ?thesis by simp
  qed
  show ?thesis using h kept vis inf(1) by (intro exI [of _ info]) (simp add: db')
qed

text \<open>A database with one deal whose data is \<open>''abc''\<close>, and a request to add another.\<close>

definition stored_deal :: DealInfo where
  "stored_deal = (sample_deal 1 17 30 101)\<lparr>d_page_name := ''DealsData:0'' @ replicate 9 NUL, d_index := 0, d_size := 3\<rparr>"

definition sample_db :: DealsDatabase where
  "sample_db = \<lparr>db_context = 0, db_index = deals_table [stored_deal], db_data = one_page ''DealsData'' 1 NUL ''abc''\<rparr>"

lemma one_page_usable:
  "recyclable healthy_os (one_page n e z rs)" "no_wrap (one_page n e z rs)" "has_room now c (one_page n e z rs)"
  "record_expire_seconds (one_page n e z rs) = DEALS_EXPIRES"
  using healthy_mem by (auto simp: recyclable_def no_wrap_def has_room_def one_page_basics one_page_index index_zero_def
      less_2_cases_iff intro!: exI [of _ "Suc 0"]) (simp add: one_page_def DEALS_EXPIRES_def)

lemma sample_db_tables:
  "scannable healthy_os now now (db_index sample_db)" "scannable healthy_os now now (db_data sample_db)"
  "now < 90000 \<Longrightarrow> contents now (index_table sample_db) = [stored_deal]"
  "holds (db_data sample_db) stored_deal ''abc''" "db_ok healthy_os sample_db"
  "has_room now c (db_index sample_db)" "has_room now c (db_data sample_db)"
proof -
  let ?d = "one_page ''DealsData'' 1 NUL ''abc''"
  show i: "scannable healthy_os now now (db_index sample_db)" for now by (simp add: sample_db_def deals_table_ready)
  show d: "scannable healthy_os now now (db_data sample_db)" for now
    by (simp add: sample_db_def one_page_scannable sample_name_def)
  have g: "index_table sample_db = deals_table [stored_deal]" by (simp add: sample_db_def one_page_def)
  show "contents now (index_table sample_db) = [stored_deal]" if "now < 90000" unfolding g
    using that by (simp add: deals_table_ready)
  have "cstr (d_page_name stored_deal) = ''DealsData:0''" by (simp add: stored_deal_def cstr_def)
  then show "holds (db_data sample_db) stored_deal ''abc''" unfolding holds_def sample_db_def
    by (intro exI [of _ 0]) (simp add: one_page_basics one_page_index one_page_stored page_name_01 deal_end_def
      stored_deal_def sample_deal_def DEALS_EXPIRES_def)
  show "db_ok healthy_os sample_db" using i [of 0] d [of 0] unfolding db_ok_def scannable_def
    by (simp add: sample_db_def one_page_usable)
  show "has_room now c (db_index sample_db)" "has_room now c (db_data sample_db)" by (simp_all add: sample_db_def one_page_usable)
qed

lemma sample_addDeal:
  "\<exists>db'. addDeal healthy_os (\<lambda>_. 0) 200 200 200 200 200 \<lparr>paramter_undefined = False, iata_code = 7\<rparr>
     \<lparr>paramter_undefined = False, iata_code = 2\<rparr> \<lparr>paramter_undefined = False, country_code = 5\<rparr> (sample_date 20170110)
     \<lparr>paramter_undefined = True, date_code = 0, date_day = 0, date_month = 0, date_year = 0\<rparr>
     \<lparr>paramter_undefined = False, bool_value = True\<rparr> \<lparr>paramter_undefined = False, num_value = 90\<rparr> ''xy'' sample_db = (Inr (), db')"
proof -
  have ok: "table_ok (sc_page_size healthy_os) (db_index sample_db)" "serviceable healthy_os (db_index sample_db)" "lock_named (db_index sample_db)"
    "table_ok (sc_page_size healthy_os) (db_data sample_db)" "serviceable healthy_os (db_data sample_db)" "lock_named (db_data sample_db)"
    using sample_db_tables(1,2) by (auto simp: scannable_def)
  have rc: "recyclable healthy_os (db_index sample_db)" "recyclable healthy_os (db_data sample_db)"
    "0 < expiry (db_index sample_db) 200 0" "0 < expiry (db_data sample_db) 200 0"
    using sample_db_tables(5) expiry_pos [of _ 200] by (auto simp: db_ok_def day_fits_def DEALS_EXPIRES_def)
  have sz: "max_elements_in_page (db_index sample_db) = 4" "max_elements_in_page (db_data sample_db) = 4"
    by (simp_all add: sample_db_def one_page_basics)
  have hr: "has_room now c (t\<lparr>global_expire_at := g\<rparr>) = has_room now c t" for now c g and t :: "'e Table" by (simp add: has_room_def)
  obtain ee t where a: "addRecord healthy_os 200 200 ''xy'' 2 0 (data_table sample_db) = (Inr ee, t)"
    using addRecord_total [of healthy_os "data_table sample_db" 200 0 2 "''xy''" 200] ok rc sz sample_db_tables(7) by (auto simp: hr)
  obtain info where i: "deal_info (\<lambda>_. 0) 200 \<lparr>paramter_undefined = False, iata_code = 7\<rparr>
     \<lparr>paramter_undefined = False, iata_code = 2\<rparr> \<lparr>paramter_undefined = False, country_code = 5\<rparr> (sample_date 20170110)
     \<lparr>paramter_undefined = True, date_code = 0, date_day = 0, date_month = 0, date_year = 0\<rparr>
     \<lparr>paramter_undefined = False, bool_value = True\<rparr> \<lparr>paramter_undefined = False, num_value = 90\<rparr> ee = Inr info"
    by (simp add: deal_info_def IATACode_get_code_def CountryCode_get_code_def Date_get_code_def isTrue_def get_bitmask_def
      Weekdays_of_Date_def get_value_def isUndefined_def sample_date_def Let_def)
  obtain ee' t' where "addRecord healthy_os 200 200 [info] 1 0 ((db_index sample_db)\<lparr>global_expire_at := global_expire_at t\<rparr>) = (Inr ee', t')"
    using addRecord_total [of healthy_os "(db_index sample_db)\<lparr>global_expire_at := global_expire_at t\<rparr>" 200 0 1 "[info]" 200]
      ok rc sz sample_db_tables(6) by (auto simp: hr)
  then show ?thesis using a i by (simp add: addDeal_def on_data_def on_index_def sbind_def ret_def)
qed

theorem deal_data_kept_witness:
  "\<exists>db'. (holds (db_data db') stored_deal ''abc'' \<or> outdated 200 (db_context db') stored_deal) \<and>
     (\<exists>info \<in> set (contents 200 (index_table db')). holds (db_data db') info ''xy'')"
proof -
  have h: "day_fits 200" "length ''xy'' < 2 ^ 32" "(200 :: u32) \<le> 200" by (simp_all add: day_fits_def DEALS_EXPIRES_def)
  have c: "unat (db_context sample_db) < unat (200 :: u32) + unat DEALS_EXPIRES" by (simp add: sample_db_def)
  from sample_addDeal obtain db' where a: "addDeal healthy_os (\<lambda>_. 0) 200 200 200 200 200 \<lparr>paramter_undefined = False, iata_code = 7\<rparr>
     \<lparr>paramter_undefined = False, iata_code = 2\<rparr> \<lparr>paramter_undefined = False, country_code = 5\<rparr> (sample_date 20170110)
     \<lparr>paramter_undefined = True, date_code = 0, date_day = 0, date_month = 0, date_year = 0\<rparr>
     \<lparr>paramter_undefined = False, bool_value = True\<rparr> \<lparr>paramter_undefined = False, num_value = 90\<rparr> ''xy'' sample_db = (Inr (), db')" ..
  from deal_data_kept [OF sample_db_tables(5) h(3,3,1,1,2) a] sample_db_tables(4) healthy_mem(2) c show ?thesis by blast
qed

text \<open>
  A search whose selected deals all have their data returns it.  The search itself works on the
  index, so it may be any of the aggregations.
\<close>

lemma searchFor_reads:
  assumes "fill_query now p q0 = Inr q" "run q (index_table db) = (Inr res, t')"
    and "table_ok (sc_page_size os) (db_data db)" "serviceable os (db_data db)"
    and "\<And>d. d \<in> set res \<Longrightarrow> \<exists>s. holds (db_data db) d s"
  shows "\<exists>datas db'. searchFor os now run q0 p db = (Inr datas, db') \<and> list_all2 (holds (db_data db)) res datas"
proof -
  from assms(5) obtain f where f: "\<forall>d \<in> set res. holds (db_data db) d (f d)" by metis
  then have l: "list_all2 (holds (db_data db)) res (map f res)" by (simp add: list.rel_map list.rel_refl_strong)
  let ?dt = "(db_data db)\<lparr>global_expire_at := global_expire_at t'\<rparr>"
  have "table_ok (sc_page_size os) ?dt" "serviceable os ?dt" "list_all2 (holds ?dt) res (map f res)"
    using assms(3,4) l by simp_all
  from fill_deals_holds [OF this] obtain t'' where "fill_deals_with_data os res ?dt = (Inr (map f res), t'')" by blast
  then show ?thesis using assms(1,2) l by (simp add: searchFor_def sbind_def on_index_def on_data_def)
qed

text \<open>
  When every visible deal that is not outdated has its data, a search for the cheapest
  deals returns the data strings of the deals it selected, in their order.
\<close>

theorem cheapest_search_data:
  assumes "scannable os time0 now (db_index db)" and "table_ok (sc_page_size os) (db_data db)" and "serviceable os (db_data db)"
    and "iteration_order iter" and "fill_query now0 p q0 = Inr q" and "SimplyCheapest_fresh q" and "DEALS_EXPIRES \<le> ts"
    and "\<forall>d \<in> set (contents now (index_table db)). outdated ts (db_context db) d \<or> (\<exists>s. holds (db_data db) d s)"
  shows "\<exists>res datas t' db'. SimplyCheapest_execute os ts time0 now iter q (index_table db) = (Inr res, t')
    \<and> searchFor os now0 (SimplyCheapest_execute os ts time0 now iter) q0 p db = (Inr datas, db')
    \<and> list_all2 (holds (db_data db)) res datas"
proof -
  have sc: "scannable os time0 now (index_table db)" using assms(1) by simp
  obtain ks t' where e: "SimplyCheapest_execute os ts time0 now iter q (index_table db) =
      (Inr (answer (\<lambda>a b. d_price a < d_price b) d_destination (unat (filter_result_limit q))
         (filter (matches (search_time ts (index_table db) q)) (contents now (index_table db))) ks), t')"
    and ks: "keys_of d_destination (filter (matches (search_time ts (index_table db) q)) (contents now (index_table db))) ks"
    using SimplyCheapest_answer [OF sc assms(4,6), of ts] by blast
  define res where "res = answer (\<lambda>a b. d_price a < d_price b) d_destination (unat (filter_result_limit q))
         (filter (matches (search_time ts (index_table db) q)) (contents now (index_table db))) ks"
  have "\<exists>s. holds (db_data db) d s" if "d \<in> set res" for d
  proof -
    have m: "matches (search_time ts (index_table db) q) d" "d \<in> set (contents now (index_table db))"
      using answer_mem [OF ks that [unfolded res_def]] by auto
    from matches_not_outdated [OF m(1) assms(7)] assms(8) m(2) show ?thesis by auto
  qed
  then show ?thesis using searchFor_reads [where p = p and ?q0.0 = q0 and now = now0 and run = "SimplyCheapest_execute os ts time0 now iter", OF assms(5) e [folded res_def] assms(2,3)] e
    unfolding res_def by blast
qed

text \<open>A request for all deals from place 7.\<close>

definition undefined_date :: Date where
  "undefined_date = \<lparr>paramter_undefined = True, date_code = 0, date_day = 0, date_month = 0, date_year = 0\<rparr>"

definition sample_params :: SearchParams where
  "sample_params = \<lparr>p_origin = \<lparr>paramter_undefined = False, iata_code = 7\<rparr>,
     p_destinations = \<lparr>paramter_undefined = True, iata_codes = []\<rparr>,
     p_destination_countries = \<lparr>paramter_undefined = True, country_codes = []\<rparr>,
     p_departure_date_from = undefined_date, p_departure_date_to = undefined_date,
     p_departure_days_of_week = \<lparr>paramter_undefined = True, wd_bitmask = 0\<rparr>,
     p_return_date_from = undefined_date, p_return_date_to = undefined_date,
     p_return_days_of_week = \<lparr>paramter_undefined = True, wd_bitmask = 0\<rparr>,
     p_stay_from = \<lparr>paramter_undefined = True, num_value = 0\<rparr>, p_stay_to = \<lparr>paramter_undefined = True, num_value = 0\<rparr>,
     p_direct_flights = \<lparr>paramter_undefined = True, bool_value = False\<rparr>,
     p_limit = \<lparr>paramter_undefined = True, num_value = 0\<rparr>, p_max_lifetime_sec = \<lparr>paramter_undefined = True, num_value = 0\<rparr>,
     p_roundtrip_flights = \<lparr>paramter_undefined = True, bool_value = False\<rparr>,
     p_departure_or_return_date = undefined_date, p_all_combinations = \<lparr>paramter_undefined = True, bool_value = False\<rparr>\<rparr>"

lemmas setter_defs = fill_query_def origin_def destinations_def destination_countries_def departure_dates_def return_dates_def
  departure_weekdays_def return_weekdays_def stay_days_def direct_flights_def roundtrip_flights_def max_lifetime_sec_def
  result_limit_def exact_departure_or_return_date_def calc_departue_return_max_duration_def all_combinations_def

lemma sample_fill: "\<exists>q. fill_query 86500 sample_params sample_query = Inr q \<and> SimplyCheapest_fresh q"
  by (simp add: setter_defs sample_params_def undefined_date_def isUndefined_def isDefined_def IATACode_get_code_def
    SimplyCheapest_fresh_def interval_days_def sample_query_def SimplyCheapest_new_def SearchQuery_init_def raw_query_def
    SearchQuery.defs SimplyCheapest.defs)

theorem cheapest_search_data_witness:
  "\<exists>q res datas t' db'. SimplyCheapest_execute healthy_os 86500 86500 86500 rev q (index_table sample_db) = (Inr res, t')
    \<and> searchFor healthy_os 86500 (SimplyCheapest_execute healthy_os 86500 86500 86500 rev) sample_query sample_params sample_db = (Inr datas, db')
    \<and> list_all2 (holds (db_data sample_db)) res datas"
proof -
  obtain q where q: "fill_query 86500 sample_params sample_query = Inr q" "SimplyCheapest_fresh q" using sample_fill by blast
  have d: "table_ok (sc_page_size healthy_os) (db_data sample_db)" "serviceable healthy_os (db_data sample_db)"
    using sample_db_tables(2) [of 0] by (auto simp: scannable_def)
  have e: "DEALS_EXPIRES \<le> 86500" by (simp add: DEALS_EXPIRES_def)
  have h: "\<forall>d \<in> set (contents 86500 (index_table sample_db)).
      outdated 86500 (db_context sample_db) d \<or> (\<exists>s. holds (db_data sample_db) d s)"
    using sample_db_tables(3) [of 86500] sample_db_tables(4) by auto
  from cheapest_search_data [OF sample_db_tables(1) d iteration_order_rev q e h] show ?thesis by blast
qed

end
