(* ===== verification/SearchFilters.thy ===== *)
theory SearchFilters
  imports DealsDatabase
begin

text \<open>
  What the parameters of a search mean: which requests \<^verbatim>\<open>searchFor\<close> rejects, and which deals the
  filters let through, both stated on the parameters of the request.
\<close>

unbundle bit_operations_syntax

section \<open>The setters as updates\<close>

lemma origin_eq:
  "origin c q = Inr (
       filter_origin_update (\<lambda>was. was \<or> isDefined c)
       (origin_value_update (\<lambda>v. if isDefined c then iata_code c else v) q))"
  by (cases q) (simp add: origin_def IATACode_get_code_def isUndefined_def isDefined_def)

lemma insert_all_ok:
  "(\<And>c. c \<in> set cs \<Longrightarrow> get c = Inr (f c)) \<Longrightarrow> insert_all get s cs = Inr (s \<union> f ` set cs)"
proof (induction cs arbitrary: s)
  case (Cons c cs)
  then show ?case by (simp add: insert_commute)
qed simp

lemma insert_all_bad:
  "\<exists>c \<in> set cs. \<exists>e. get c = Inl e \<Longrightarrow> \<exists>e. insert_all get s cs = Inl e"
proof (induction cs arbitrary: s)
  case (Cons c cs)
  then show ?case by (cases "get c") auto
qed simp

definition has_undefined :: "'a BaseParameter_scheme list \<Rightarrow> bool" where
  "has_undefined cs \<longleftrightarrow> (\<exists>c \<in> set cs. isUndefined c)"

lemma destinations_ok:
  "\<not> (isDefined cs \<and> has_undefined (iata_codes cs)) \<Longrightarrow>
   destinations cs q = Inr (
       destination_values_set_update (\<lambda>v. if isDefined cs then iata_code ` set (iata_codes cs) else v)
       (filter_destination_update (\<lambda>was. was \<or> isDefined cs \<and> iata_codes cs \<noteq> []) q))"
  using insert_all_ok [of "iata_codes cs" IATACode_get_code iata_code "{}"]
  by (cases q) (auto simp: destinations_def IATACode_get_code_def isUndefined_def isDefined_def has_undefined_def Let_def)

lemma destinations_bad:
  "isDefined cs \<Longrightarrow> has_undefined (iata_codes cs) \<Longrightarrow> \<exists>e. destinations cs q = Inl e"
proof -
  assume d: "isDefined cs" and h: "has_undefined (iata_codes cs)"
  have "\<exists>c \<in> set (iata_codes cs). \<exists>e. IATACode_get_code c = Inl e"
    using h by (auto simp: IATACode_get_code_def has_undefined_def isUndefined_def intro!: bexI)
  from insert_all_bad [OF this, of "{}"] d show ?thesis
    by (auto simp: destinations_def isUndefined_def isDefined_def)
qed

lemma destination_countries_ok:
  "\<not> (isDefined cs \<and> has_undefined (country_codes cs)) \<Longrightarrow>
   destination_countries cs q = Inr (
       destination_country_set_update (\<lambda>v. if isDefined cs then country_code ` set (country_codes cs) else v)
       (filter_destination_country_update (\<lambda>was. was \<or> isDefined cs \<and> country_codes cs \<noteq> []) q))"
  using insert_all_ok [of "country_codes cs" CountryCode_get_code country_code "{}"]
  by (cases q) (auto simp: destination_countries_def CountryCode_get_code_def isUndefined_def isDefined_def has_undefined_def Let_def)

lemma destination_countries_bad:
  "isDefined cs \<Longrightarrow> has_undefined (country_codes cs) \<Longrightarrow> \<exists>e. destination_countries cs q = Inl e"
proof -
  assume d: "isDefined cs" and h: "has_undefined (country_codes cs)"
  have "\<exists>c \<in> set (country_codes cs). \<exists>e. CountryCode_get_code c = Inl e"
    using h by (auto simp: CountryCode_get_code_def has_undefined_def isUndefined_def intro!: bexI)
  from insert_all_bad [OF this, of "{}"] d show ?thesis
    by (auto simp: destination_countries_def isUndefined_def isDefined_def)
qed

definition reversed_dates :: "Date \<Rightarrow> Date \<Rightarrow> bool" where
  "reversed_dates f t \<longleftrightarrow> isDefined f \<and> isDefined t \<and> date_code f > date_code t"

definition date_interval :: "Date \<Rightarrow> Date \<Rightarrow> DateInterval" where
  "date_interval f t = \<lparr>di_from = if isDefined f then date_code f else 0, di_to = if isDefined t then date_code t else - 1,
     di_duration = interval_days f t\<rparr>"

lemma le_max_word: "(x :: u32) \<le> - 1" by (rule word_order.extremum)

lemma departure_dates_eq:
  "departure_dates f t q = (if reversed_dates f t
     then Inl (Error (''departure_dates departure_date_from > departure_date_to'' @ [LF]) BadParameter)
     else Inr (
       filter_departure_date_update (\<lambda>was. was \<or> isDefined f \<or> isDefined t)
       (departure_date_values_update (\<lambda>v. if isDefined f \<or> isDefined t then date_interval f t else v) q)))"
  by (cases q) (auto simp: departure_dates_def reversed_dates_def date_or_def Date_get_code_def date_interval_def isUndefined_def
      isDefined_def Let_def leD le_max_word)

lemma return_dates_eq:
  "return_dates f t q = (if reversed_dates f t
     then Inl (Error (''departure_dates return_date_from > return_date_to'' @ [LF]) BadParameter)
     else Inr (
       filter_return_date_update (\<lambda>was. was \<or> isDefined f \<or> isDefined t)
       (return_date_values_update (\<lambda>v. if isDefined f \<or> isDefined t then date_interval f t else v) q)))"
  by (cases q) (auto simp: return_dates_def reversed_dates_def date_or_def Date_get_code_def date_interval_def isUndefined_def
      isDefined_def Let_def leD le_max_word)

lemma departure_weekdays_eq:
  "departure_weekdays w q = Inr (
       filter_departure_weekdays_update (\<lambda>was. was \<or> isDefined w)
       (departure_weekdays_bitmask_update (\<lambda>v. if isDefined w then wd_bitmask w else v) q))"
  by (cases q) (simp add: departure_weekdays_def get_bitmask_def isUndefined_def isDefined_def)

lemma return_weekdays_eq:
  "return_weekdays w q = Inr (
       filter_return_weekdays_update (\<lambda>was. was \<or> isDefined w)
       (return_weekdays_bitmask_update (\<lambda>v. if isDefined w then wd_bitmask w else v) q))"
  by (cases q) (simp add: return_weekdays_def get_bitmask_def isUndefined_def isDefined_def)

lemma direct_flights_eq:
  "direct_flights b q = Inr (
       filter_flight_by_stops_update (\<lambda>was. was \<or> isDefined b)
       (direct_flights_flag_update (\<lambda>v. if isDefined b then bool_value b else v) q))"
  by (cases q) (simp add: direct_flights_def isTrue_def isUndefined_def isDefined_def)

lemma roundtrip_flights_eq:
  "roundtrip_flights b q = Inr (
       filter_flight_by_roundtrip_update (\<lambda>was. was \<or> isDefined b)
       (roundtrip_flight_flag_update (\<lambda>v. if isDefined b then bool_value b else v) q))"
  by (cases q) (simp add: roundtrip_flights_def isTrue_def isUndefined_def isDefined_def)

lemma max_lifetime_sec_eq:
  "max_lifetime_sec now n q = Inr (
       filter_timestamp_update (\<lambda>was. was \<or> isDefined n)
       (timestamp_value_update (\<lambda>v. if isDefined n then now - num_value n else v) q))"
  by (cases q) (simp add: max_lifetime_sec_def get_value_def isUndefined_def isDefined_def)

lemma exact_date_eq:
  "exact_departure_or_return_date d q = Inr (
       filter_exact_date_update (\<lambda>was. was \<or> isDefined d)
       (exact_date_value_update (\<lambda>v. if isDefined d then date_code d else v) q))"
  by (cases q) (simp add: exact_departure_or_return_date_def Date_get_code_def isUndefined_def isDefined_def)

lemma all_combinations_eq:
  "all_combinations b q = Inr (
       filter_all_combinations_update (\<lambda>v. if isDefined b then bool_value b else v) q)"
  by (cases q) (simp add: all_combinations_def isTrue_def isUndefined_def isDefined_def)

definition bad_limit :: "Number \<Rightarrow> bool" where
  "bad_limit n \<longleftrightarrow> isDefined n \<and> unat (num_value n) \<notin> {1..367}"

lemma result_limit_eq:
  "result_limit n q = (if bad_limit n then Inl (Error (''deals_limit to big'' @ [LF]) BadParameter)
     else Inr (
       filter_result_limit_update (\<lambda>v. if isDefined n then ucast (num_value n) else v) q))"
  by (cases q) (auto simp: result_limit_def bad_limit_def get_value_def isUndefined_def isDefined_def word_less_nat_alt word_le_nat_alt)

definition stay_value :: "nat \<Rightarrow> Number \<Rightarrow> nat" where
  "stay_value dflt n = (if isDefined n then unat (num_value n) else dflt)"

definition bad_stay :: "Number \<Rightarrow> Number \<Rightarrow> bool" where
  "bad_stay f t \<longleftrightarrow> stay_value 0 f > 255 \<or> stay_value 255 t > 255 \<or> stay_value 0 f > stay_value 255 t"

lemma unat_ucast_stay: "unat (n :: u32) \<le> 255 \<Longrightarrow> unat (ucast n :: u8) = unat n"
  by (simp add: unsigned_ucast_eq take_bit_nat_eq_self)

lemma stay_days_ok:
  assumes "\<not> bad_stay f t"
  shows "stay_days f t q = Inr (
       filter_stay_days_update (\<lambda>was. was \<or> isDefined f \<or> isDefined t)
       (stay_days_values_update (\<lambda>v. if isDefined f \<or> isDefined t then \<lparr>si_from = of_nat (stay_value 0 f), si_to = of_nat (stay_value 255 t)\<rparr> else v) q))"
  using assms
  by (cases q; cases "paramter_undefined f"; cases "paramter_undefined t") (auto simp: stay_days_def bad_stay_def stay_value_def check_stay_def number_or_def get_value_def isUndefined_def isDefined_def
      UINT8_MAX_def Let_def word_less_nat_alt unat_ucast_stay not_less)

lemma stay_days_bad: "bad_stay f t \<Longrightarrow> \<exists>e. stay_days f t q = Inl e"
  by (auto simp: stay_days_def bad_stay_def stay_value_def check_stay_def number_or_def get_value_def isUndefined_def isDefined_def
      UINT8_MAX_def Let_def word_less_nat_alt unat_ucast_stay not_less split: if_splits)

section \<open>Rejected requests\<close>

definition rejected :: "SearchParams \<Rightarrow> bool" where
  "rejected p \<longleftrightarrow>
     isDefined (p_destinations p) \<and> has_undefined (iata_codes (p_destinations p)) \<or>
     isDefined (p_destination_countries p) \<and> has_undefined (country_codes (p_destination_countries p)) \<or>
     reversed_dates (p_departure_date_from p) (p_departure_date_to p) \<or>
     reversed_dates (p_return_date_from p) (p_return_date_to p) \<or>
     bad_stay (p_stay_from p) (p_stay_to p) \<or> bad_limit (p_limit p)"

lemmas setter_eqs = origin_eq departure_dates_eq return_dates_eq departure_weekdays_eq return_weekdays_eq direct_flights_eq
  roundtrip_flights_eq max_lifetime_sec_eq result_limit_eq exact_date_eq all_combinations_eq

lemma calc_duration_ok: "\<exists>n. calc_departue_return_max_duration a b c d q = Inr (q\<lparr>departure_return_max_duration := n\<rparr>)"
  by (auto simp: calc_departue_return_max_duration_def Let_def)

lemma rbind_InlI: "m = Inl e \<Longrightarrow> \<exists>e. rbind m f = Inl e"
  by simp

lemma rbind_InrI: "m = Inr x \<Longrightarrow> \<exists>e. f x = Inl e \<Longrightarrow> \<exists>e. rbind m f = Inl e"
  by simp

lemma fill_query_bad:
  fixes q :: "'x query"
  assumes "rejected p"
  shows "\<exists>e. fill_query now p q = Inl e"
proof (rule ccontr)
  assume "\<not> ?thesis"
  then obtain q' where "fill_query now p q = Inr q'" by (cases "fill_query now p q") auto
  then obtain q1 q2 q3 q4 q5 q6 and r1 r2 r3 r4 r5 r6 :: "'x query" where
    r: "destinations (p_destinations p) q1 = Inr r1" "destination_countries (p_destination_countries p) q2 = Inr r2"
    "departure_dates (p_departure_date_from p) (p_departure_date_to p) q3 = Inr r3"
    "return_dates (p_return_date_from p) (p_return_date_to p) q4 = Inr r4"
    "stay_days (p_stay_from p) (p_stay_to p) q5 = Inr r5" "result_limit (p_limit p) q6 = Inr r6"
    unfolding fill_query_def rbind_eq_Inr by (elim exE conjE) (rule that)
  show False using assms r destinations_bad [of "p_destinations p" q1] destination_countries_bad [of "p_destination_countries p" q2]
      stay_days_bad [of "p_stay_from p" "p_stay_to p" q5]
    unfolding rejected_def departure_dates_eq return_dates_eq result_limit_eq by (auto split: if_splits)
qed

definition unfiltered :: "'x query \<Rightarrow> bool" where
  "unfiltered q \<longleftrightarrow> SearchQuery_init q = q"

lemma unfilteredD:
  assumes "unfiltered q"
  shows "\<not> filter_origin q" "\<not> filter_destination q" "\<not> filter_destination_country q" "\<not> filter_departure_date q"
    "\<not> filter_return_date q" "\<not> filter_departure_weekdays q" "\<not> filter_return_weekdays q" "\<not> filter_stay_days q"
    "\<not> filter_flight_by_stops q" "\<not> filter_flight_by_roundtrip q" "\<not> filter_timestamp q" "\<not> filter_exact_date q"
    "\<not> filter_all_combinations q" "filter_result_limit q = 20"
  by (subst assms [unfolded unfiltered_def, symmetric], simp add: SearchQuery_init_def)+

lemma rbind_InrE:
  assumes "rbind m f = Inr y"
  obtains x where "m = Inr x" "f x = Inr y"
  using assms by (auto simp: rbind_eq_Inr)

text \<open>The steps of \<open>fill_query\<close>, each an update of its own fields.\<close>

lemma fill_query_steps:
  assumes "fill_query now p q = Inr q'"
  obtains q1 q2 q3 q4 q5 q6 q7 q8 q9 q10 q11 q12 q13 q14 where
    "origin (p_origin p) q = Inr q1" "destinations (p_destinations p) q1 = Inr q2"
    "destination_countries (p_destination_countries p) q2 = Inr q3"
    "departure_dates (p_departure_date_from p) (p_departure_date_to p) q3 = Inr q4"
    "return_dates (p_return_date_from p) (p_return_date_to p) q4 = Inr q5"
    "departure_weekdays (p_departure_days_of_week p) q5 = Inr q6" "return_weekdays (p_return_days_of_week p) q6 = Inr q7"
    "stay_days (p_stay_from p) (p_stay_to p) q7 = Inr q8" "direct_flights (p_direct_flights p) q8 = Inr q9"
    "roundtrip_flights (p_roundtrip_flights p) q9 = Inr q10" "max_lifetime_sec now (p_max_lifetime_sec p) q10 = Inr q11"
    "result_limit (p_limit p) q11 = Inr q12" "exact_departure_or_return_date (p_departure_or_return_date p) q12 = Inr q13"
    "calc_departue_return_max_duration (p_departure_date_from p) (p_departure_date_to p) (p_return_date_from p) (p_return_date_to p) q13 = Inr q14"
    "all_combinations (p_all_combinations p) q14 = Inr q'"
  using assms unfolding fill_query_def by (elim rbind_InrE) (rule that)

lemma fill_query_total:
  fixes q :: "'x query"
  assumes "\<not> rejected p"
  shows "\<exists>q'. fill_query now p q = Inr q'"
proof -
  have r: "\<not> (isDefined (p_destinations p) \<and> has_undefined (iata_codes (p_destinations p)))"
    "\<not> (isDefined (p_destination_countries p) \<and> has_undefined (country_codes (p_destination_countries p)))"
    "\<not> reversed_dates (p_departure_date_from p) (p_departure_date_to p)"
    "\<not> reversed_dates (p_return_date_from p) (p_return_date_to p)"
    "\<not> bad_stay (p_stay_from p) (p_stay_to p)" "\<not> bad_limit (p_limit p)"
    using assms by (auto simp: rejected_def)
  have step: "\<exists>q'. rbind m f = Inr q'" if "\<exists>x. m = Inr x" "\<And>x. \<exists>q'. f x = Inr q'" for m :: "'x query result" and f :: "'x query \<Rightarrow> 'x query result"
    using that by auto
  have c: "\<exists>q'. calc_departue_return_max_duration a b c d q = Inr q'" for a b c d and q :: "'x query" using calc_duration_ok by blast
  show ?thesis unfolding fill_query_def
    by (intro step) (simp_all add: setter_eqs destinations_ok [OF r(1)] destination_countries_ok [OF r(2)] stay_days_ok [OF r(5)] r(3,4,6) c)
qed

section \<open>Deals that pass\<close>

definition wanted :: "u32 \<Rightarrow> SearchParams \<Rightarrow> DealInfo \<Rightarrow> bool" where
  "wanted now p d \<longleftrightarrow>
     (isDefined (p_origin p) \<longrightarrow> d_origin d = iata_code (p_origin p)) \<and>
     (isDefined (p_destinations p) \<and> iata_codes (p_destinations p) \<noteq> [] \<longrightarrow>
        d_destination d \<in> iata_code ` set (iata_codes (p_destinations p))) \<and>
     (isDefined (p_destination_countries p) \<and> country_codes (p_destination_countries p) \<noteq> [] \<longrightarrow>
        d_destination_country d \<in> country_code ` set (country_codes (p_destination_countries p))) \<and>
     (isDefined (p_departure_date_from p) \<longrightarrow> date_code (p_departure_date_from p) \<le> d_departure_date d) \<and>
     (isDefined (p_departure_date_to p) \<longrightarrow> d_departure_date d \<le> date_code (p_departure_date_to p)) \<and>
     (isDefined (p_return_date_from p) \<longrightarrow> date_code (p_return_date_from p) \<le> d_return_date d) \<and>
     (isDefined (p_return_date_to p) \<longrightarrow> d_return_date d \<le> date_code (p_return_date_to p)) \<and>
     (isDefined (p_departure_days_of_week p) \<longrightarrow> d_departure_day_of_week d AND wd_bitmask (p_departure_days_of_week p) \<noteq> 0) \<and>
     (isDefined (p_return_days_of_week p) \<longrightarrow> d_return_day_of_week d AND wd_bitmask (p_return_days_of_week p) \<noteq> 0) \<and>
     (isDefined (p_stay_from p) \<longrightarrow> unat (num_value (p_stay_from p)) \<le> unat (d_stay_days d)) \<and>
     (isDefined (p_stay_to p) \<longrightarrow> unat (d_stay_days d) \<le> unat (num_value (p_stay_to p))) \<and>
     (isDefined (p_direct_flights p) \<longrightarrow> d_direct d = bool_value (p_direct_flights p)) \<and>
     (isDefined (p_roundtrip_flights p) \<longrightarrow> (d_return_date d \<noteq> 0) = bool_value (p_roundtrip_flights p)) \<and>
     (isDefined (p_max_lifetime_sec p) \<longrightarrow> now - num_value (p_max_lifetime_sec p) \<le> d_timestamp d) \<and>
     (isDefined (p_departure_or_return_date p) \<longrightarrow>
        date_code (p_departure_or_return_date p) \<in> {d_departure_date d, d_return_date d})"

lemma fill_query_fields:
  fixes q q' :: "'x query"
  assumes fill: "fill_query now p q = Inr q'" and u: "unfiltered q"
  shows "filter_origin q' = isDefined (p_origin p)" "isDefined (p_origin p) \<Longrightarrow> origin_value q' = iata_code (p_origin p)"
    "filter_destination q' = (isDefined (p_destinations p) \<and> iata_codes (p_destinations p) \<noteq> [])"
    "isDefined (p_destinations p) \<Longrightarrow> destination_values_set q' = iata_code ` set (iata_codes (p_destinations p))"
    "filter_destination_country q' = (isDefined (p_destination_countries p) \<and> country_codes (p_destination_countries p) \<noteq> [])"
    "isDefined (p_destination_countries p) \<Longrightarrow> destination_country_set q' = country_code ` set (country_codes (p_destination_countries p))"
    "filter_departure_date q' = (isDefined (p_departure_date_from p) \<or> isDefined (p_departure_date_to p))"
    "isDefined (p_departure_date_from p) \<or> isDefined (p_departure_date_to p) \<Longrightarrow>
       departure_date_values q' = date_interval (p_departure_date_from p) (p_departure_date_to p)"
    "filter_return_date q' = (isDefined (p_return_date_from p) \<or> isDefined (p_return_date_to p))"
    "isDefined (p_return_date_from p) \<or> isDefined (p_return_date_to p) \<Longrightarrow>
       return_date_values q' = date_interval (p_return_date_from p) (p_return_date_to p)"
    "filter_departure_weekdays q' = isDefined (p_departure_days_of_week p)"
    "isDefined (p_departure_days_of_week p) \<Longrightarrow> departure_weekdays_bitmask q' = wd_bitmask (p_departure_days_of_week p)"
    "filter_return_weekdays q' = isDefined (p_return_days_of_week p)"
    "isDefined (p_return_days_of_week p) \<Longrightarrow> return_weekdays_bitmask q' = wd_bitmask (p_return_days_of_week p)"
    "filter_stay_days q' = (isDefined (p_stay_from p) \<or> isDefined (p_stay_to p))"
    "isDefined (p_stay_from p) \<or> isDefined (p_stay_to p) \<Longrightarrow>
       stay_days_values q' = \<lparr>si_from = of_nat (stay_value 0 (p_stay_from p)), si_to = of_nat (stay_value 255 (p_stay_to p))\<rparr>"
    "filter_flight_by_stops q' = isDefined (p_direct_flights p)"
    "isDefined (p_direct_flights p) \<Longrightarrow> direct_flights_flag q' = bool_value (p_direct_flights p)"
    "filter_flight_by_roundtrip q' = isDefined (p_roundtrip_flights p)"
    "isDefined (p_roundtrip_flights p) \<Longrightarrow> roundtrip_flight_flag q' = bool_value (p_roundtrip_flights p)"
    "filter_timestamp q' = isDefined (p_max_lifetime_sec p)"
    "isDefined (p_max_lifetime_sec p) \<Longrightarrow> timestamp_value q' = now - num_value (p_max_lifetime_sec p)"
    "filter_exact_date q' = isDefined (p_departure_or_return_date p)"
    "isDefined (p_departure_or_return_date p) \<Longrightarrow> exact_date_value q' = date_code (p_departure_or_return_date p)"
    "isDefined (p_limit p) \<Longrightarrow> unat (filter_result_limit q') = unat (num_value (p_limit p))"
    "isUndefined (p_limit p) \<Longrightarrow> filter_result_limit q' = 20" and "\<not> rejected p"
proof -
  show nr: "\<not> rejected p" using fill fill_query_bad [of p now q] by auto
  then have r: "\<not> (isDefined (p_destinations p) \<and> has_undefined (iata_codes (p_destinations p)))"
    "\<not> (isDefined (p_destination_countries p) \<and> has_undefined (country_codes (p_destination_countries p)))"
    "\<not> reversed_dates (p_departure_date_from p) (p_departure_date_to p)"
    "\<not> reversed_dates (p_return_date_from p) (p_return_date_to p)"
    "\<not> bad_stay (p_stay_from p) (p_stay_to p)" "\<not> bad_limit (p_limit p)"
    by (auto simp: rejected_def)
  from fill_query_steps [OF fill] obtain q1 q2 q3 q4 q5 q6 q7 q8 q9 q10 q11 q12 q13 q14 where
    "origin (p_origin p) q = Inr q1" "destinations (p_destinations p) q1 = Inr q2"
    "destination_countries (p_destination_countries p) q2 = Inr q3"
    "departure_dates (p_departure_date_from p) (p_departure_date_to p) q3 = Inr q4"
    "return_dates (p_return_date_from p) (p_return_date_to p) q4 = Inr q5"
    "departure_weekdays (p_departure_days_of_week p) q5 = Inr q6" "return_weekdays (p_return_days_of_week p) q6 = Inr q7"
    "stay_days (p_stay_from p) (p_stay_to p) q7 = Inr q8" "direct_flights (p_direct_flights p) q8 = Inr q9"
    "roundtrip_flights (p_roundtrip_flights p) q9 = Inr q10" "max_lifetime_sec now (p_max_lifetime_sec p) q10 = Inr q11"
    "result_limit (p_limit p) q11 = Inr q12" "exact_departure_or_return_date (p_departure_or_return_date p) q12 = Inr q13"
    and c: "calc_departue_return_max_duration (p_departure_date_from p) (p_departure_date_to p) (p_return_date_from p) (p_return_date_to p) q13 = Inr q14"
    and "all_combinations (p_all_combinations p) q14 = Inr q'" .
  note st = this [unfolded setter_eqs destinations_ok [OF r(1)] destination_countries_ok [OF r(2)] stay_days_ok [OF r(5)]
      if_not_P [OF r(3)] if_not_P [OF r(4)] if_not_P [OF r(6)] sum.inject, symmetric]
  obtain n where "q14 = q13\<lparr>departure_return_max_duration := n\<rparr>" using calc_duration_ok c by (metis Inr_inject)
  note st = st this and u = unfilteredD [OF u]
  show "filter_origin q' = isDefined (p_origin p)" "isDefined (p_origin p) \<Longrightarrow> origin_value q' = iata_code (p_origin p)"
    by (simp_all add: st u)
  show "filter_destination q' = (isDefined (p_destinations p) \<and> iata_codes (p_destinations p) \<noteq> [])"
    "isDefined (p_destinations p) \<Longrightarrow> destination_values_set q' = iata_code ` set (iata_codes (p_destinations p))"
    "filter_destination_country q' = (isDefined (p_destination_countries p) \<and> country_codes (p_destination_countries p) \<noteq> [])"
    "isDefined (p_destination_countries p) \<Longrightarrow> destination_country_set q' = country_code ` set (country_codes (p_destination_countries p))"
    by (simp_all add: st u)
  show "filter_departure_date q' = (isDefined (p_departure_date_from p) \<or> isDefined (p_departure_date_to p))"
    "isDefined (p_departure_date_from p) \<or> isDefined (p_departure_date_to p) \<Longrightarrow>
       departure_date_values q' = date_interval (p_departure_date_from p) (p_departure_date_to p)"
    "filter_return_date q' = (isDefined (p_return_date_from p) \<or> isDefined (p_return_date_to p))"
    "isDefined (p_return_date_from p) \<or> isDefined (p_return_date_to p) \<Longrightarrow>
       return_date_values q' = date_interval (p_return_date_from p) (p_return_date_to p)"
    by (simp_all add: st u)
  show "filter_departure_weekdays q' = isDefined (p_departure_days_of_week p)"
    "isDefined (p_departure_days_of_week p) \<Longrightarrow> departure_weekdays_bitmask q' = wd_bitmask (p_departure_days_of_week p)"
    "filter_return_weekdays q' = isDefined (p_return_days_of_week p)"
    "isDefined (p_return_days_of_week p) \<Longrightarrow> return_weekdays_bitmask q' = wd_bitmask (p_return_days_of_week p)"
    by (simp_all add: st u)
  show "filter_stay_days q' = (isDefined (p_stay_from p) \<or> isDefined (p_stay_to p))"
    "isDefined (p_stay_from p) \<or> isDefined (p_stay_to p) \<Longrightarrow>
       stay_days_values q' = \<lparr>si_from = of_nat (stay_value 0 (p_stay_from p)), si_to = of_nat (stay_value 255 (p_stay_to p))\<rparr>"
    by (simp_all add: st u)
  show "filter_flight_by_stops q' = isDefined (p_direct_flights p)"
    "isDefined (p_direct_flights p) \<Longrightarrow> direct_flights_flag q' = bool_value (p_direct_flights p)"
    "filter_flight_by_roundtrip q' = isDefined (p_roundtrip_flights p)"
    "isDefined (p_roundtrip_flights p) \<Longrightarrow> roundtrip_flight_flag q' = bool_value (p_roundtrip_flights p)"
    "filter_timestamp q' = isDefined (p_max_lifetime_sec p)"
    "isDefined (p_max_lifetime_sec p) \<Longrightarrow> timestamp_value q' = now - num_value (p_max_lifetime_sec p)"
    "filter_exact_date q' = isDefined (p_departure_or_return_date p)"
    "isDefined (p_departure_or_return_date p) \<Longrightarrow> exact_date_value q' = date_code (p_departure_or_return_date p)"
    by (simp_all add: st u)
  show "isUndefined (p_limit p) \<Longrightarrow> filter_result_limit q' = 20" by (simp add: st u isUndefined_def isDefined_def)
  assume d: "isDefined (p_limit p)"
  then have "unat (num_value (p_limit p)) \<le> 367" using r(6) by (simp add: bad_limit_def)
  then show "unat (filter_result_limit q') = unat (num_value (p_limit p))" using d by (simp add: st unat_ucast_u16)
qed

lemma stay_range:
  assumes "\<not> bad_stay f t"
  shows "(of_nat (stay_value 0 f) :: u8) \<le> n \<longleftrightarrow> (isDefined f \<longrightarrow> unat (num_value f) \<le> unat n)"
    "n \<le> (of_nat (stay_value 255 t) :: u8) \<longleftrightarrow> (isDefined t \<longrightarrow> unat n \<le> unat (num_value t))"
proof -
  have v: "stay_value 0 f \<le> 255" "stay_value 255 t \<le> 255" using assms by (auto simp: bad_stay_def)
  have u: "unat (of_nat (stay_value 0 f) :: u8) = stay_value 0 f" "unat (of_nat (stay_value 255 t) :: u8) = stay_value 255 t"
    using v by (simp_all add: unat_of_nat)
  have n: "unat n \<le> 255" using unsigned_less [of n, where ?'a = nat] by simp
  show "(of_nat (stay_value 0 f) :: u8) \<le> n \<longleftrightarrow> (isDefined f \<longrightarrow> unat (num_value f) \<le> unat n)"
    unfolding word_le_nat_alt u by (simp add: stay_value_def)
  show "n \<le> (of_nat (stay_value 255 t) :: u8) \<longleftrightarrow> (isDefined t \<longrightarrow> unat n \<le> unat (num_value t))"
    unfolding word_le_nat_alt u using n by (simp add: stay_value_def)
qed

lemma in_date_interval:
  "x \<in> {di_from (date_interval f t) .. di_to (date_interval f t)} \<longleftrightarrow>
     (isDefined f \<longrightarrow> date_code f \<le> x) \<and> (isDefined t \<longrightarrow> x \<le> date_code t)"
  by (simp add: date_interval_def le_max_word)

lemma guard_or: "(a \<or> b \<longrightarrow> (a \<longrightarrow> P) \<and> (b \<longrightarrow> Q)) \<longleftrightarrow> (a \<longrightarrow> P) \<and> (b \<longrightarrow> Q)"
  by blast

lemma guard_cong: "(a \<Longrightarrow> P = Q) \<Longrightarrow> (a \<longrightarrow> P) = (a \<longrightarrow> Q)"
  by blast

lemma matches_at:
  "matches (search_time ts t q) d \<longleftrightarrow> max (global_expire_at t) ts - DEALS_EXPIRES < d_timestamp d \<and>
     (filter_origin q \<longrightarrow> origin_value q = d_origin d) \<and>
     (filter_timestamp q \<longrightarrow> timestamp_value q \<le> d_timestamp d) \<and>
     (filter_flight_by_roundtrip q \<longrightarrow> (if roundtrip_flight_flag q then d_return_date d \<noteq> 0 else d_return_date d = 0)) \<and>
     (filter_destination q \<longrightarrow> d_destination d \<in> destination_values_set q) \<and>
     (filter_destination_country q \<longrightarrow> d_destination_country d \<in> destination_country_set q) \<and>
     (filter_departure_date q \<longrightarrow> d_departure_date d \<in>
        {di_from (departure_date_values q) .. di_to (departure_date_values q)}) \<and>
     (filter_return_date q \<longrightarrow> d_return_date d \<in>
        {di_from (return_date_values q) .. di_to (return_date_values q)}) \<and>
     (filter_exact_date q \<longrightarrow> d_return_date d = exact_date_value q \<or> d_departure_date d = exact_date_value q) \<and>
     (filter_stay_days q \<longrightarrow> d_stay_days d \<in> {si_from (stay_days_values q) .. si_to (stay_days_values q)}) \<and>
     (filter_flight_by_stops q \<longrightarrow> direct_flights_flag q = d_direct d) \<and>
     (filter_departure_weekdays q \<longrightarrow> d_departure_day_of_week d AND departure_weekdays_bitmask q \<noteq> 0) \<and>
     (filter_return_weekdays q \<longrightarrow> d_return_day_of_week d AND return_weekdays_bitmask q \<noteq> 0)"
  by (simp add: matches_def search_time_def)

section \<open>Properties\<close>

lemma matches_wanted:
  assumes "fill_query now p q = Inr q'" and "unfiltered q"
  shows "matches (search_time ts t q') d \<longleftrightarrow>
    max (global_expire_at t) ts - DEALS_EXPIRES < d_timestamp d \<and> wanted now p d"
proof -
  note f = fill_query_fields [OF assms]
  have bs: "\<not> bad_stay (p_stay_from p) (p_stay_to p)" using f(27) by (auto simp: rejected_def)
  have "(filter_departure_date q' \<longrightarrow> d_departure_date d \<in> {di_from (departure_date_values q') .. di_to (departure_date_values q')}) \<longleftrightarrow>
      (isDefined (p_departure_date_from p) \<longrightarrow> date_code (p_departure_date_from p) \<le> d_departure_date d) \<and>
      (isDefined (p_departure_date_to p) \<longrightarrow> d_departure_date d \<le> date_code (p_departure_date_to p))"
    unfolding f(7) by (rule trans [OF guard_cong guard_or]) (simp add: f(8) in_date_interval del: atLeastAtMost_iff)
  moreover have "(filter_return_date q' \<longrightarrow> d_return_date d \<in> {di_from (return_date_values q') .. di_to (return_date_values q')}) \<longleftrightarrow>
      (isDefined (p_return_date_from p) \<longrightarrow> date_code (p_return_date_from p) \<le> d_return_date d) \<and>
      (isDefined (p_return_date_to p) \<longrightarrow> d_return_date d \<le> date_code (p_return_date_to p))"
    unfolding f(9) by (rule trans [OF guard_cong guard_or]) (simp add: f(10) in_date_interval del: atLeastAtMost_iff)
  moreover have "(filter_stay_days q' \<longrightarrow> d_stay_days d \<in> {si_from (stay_days_values q') .. si_to (stay_days_values q')}) \<longleftrightarrow>
      (isDefined (p_stay_from p) \<longrightarrow> unat (num_value (p_stay_from p)) \<le> unat (d_stay_days d)) \<and>
      (isDefined (p_stay_to p) \<longrightarrow> unat (d_stay_days d) \<le> unat (num_value (p_stay_to p)))"
    unfolding f(15) by (rule trans [OF guard_cong guard_or]) (simp add: f(16) stay_range [OF bs])
  moreover have "(filter_origin q' \<longrightarrow> origin_value q' = d_origin d) \<longleftrightarrow> (isDefined (p_origin p) \<longrightarrow> d_origin d = iata_code (p_origin p))"
    unfolding f(1) by (rule guard_cong) (auto simp: f(2))
  moreover have "(filter_timestamp q' \<longrightarrow> timestamp_value q' \<le> d_timestamp d) \<longleftrightarrow>
      (isDefined (p_max_lifetime_sec p) \<longrightarrow> now - num_value (p_max_lifetime_sec p) \<le> d_timestamp d)"
    unfolding f(21) by (rule guard_cong) (simp add: f(22))
  moreover have "(filter_flight_by_roundtrip q' \<longrightarrow> (if roundtrip_flight_flag q' then d_return_date d \<noteq> 0 else d_return_date d = 0)) \<longleftrightarrow>
      (isDefined (p_roundtrip_flights p) \<longrightarrow> (d_return_date d \<noteq> 0) = bool_value (p_roundtrip_flights p))"
    unfolding f(19) by (rule guard_cong) (auto simp: f(20))
  moreover have "(filter_destination q' \<longrightarrow> d_destination d \<in> destination_values_set q') \<longleftrightarrow>
      (isDefined (p_destinations p) \<and> iata_codes (p_destinations p) \<noteq> [] \<longrightarrow> d_destination d \<in> iata_code ` set (iata_codes (p_destinations p)))"
    unfolding f(3) by (rule guard_cong) (simp add: f(4))
  moreover have "(filter_destination_country q' \<longrightarrow> d_destination_country d \<in> destination_country_set q') \<longleftrightarrow>
      (isDefined (p_destination_countries p) \<and> country_codes (p_destination_countries p) \<noteq> [] \<longrightarrow>
        d_destination_country d \<in> country_code ` set (country_codes (p_destination_countries p)))"
    unfolding f(5) by (rule guard_cong) (simp add: f(6))
  moreover have "(filter_exact_date q' \<longrightarrow> d_return_date d = exact_date_value q' \<or> d_departure_date d = exact_date_value q') \<longleftrightarrow>
      (isDefined (p_departure_or_return_date p) \<longrightarrow> date_code (p_departure_or_return_date p) \<in> {d_departure_date d, d_return_date d})"
    unfolding f(23) by (rule guard_cong) (auto simp: f(24))
  moreover have "(filter_flight_by_stops q' \<longrightarrow> direct_flights_flag q' = d_direct d) \<longleftrightarrow>
      (isDefined (p_direct_flights p) \<longrightarrow> d_direct d = bool_value (p_direct_flights p))"
    unfolding f(17) by (rule guard_cong) (auto simp: f(18))
  moreover have "(filter_departure_weekdays q' \<longrightarrow> d_departure_day_of_week d AND departure_weekdays_bitmask q' \<noteq> 0) \<longleftrightarrow>
      (isDefined (p_departure_days_of_week p) \<longrightarrow> d_departure_day_of_week d AND wd_bitmask (p_departure_days_of_week p) \<noteq> 0)"
    unfolding f(11) by (rule guard_cong) (simp add: f(12))
  moreover have "(filter_return_weekdays q' \<longrightarrow> d_return_day_of_week d AND return_weekdays_bitmask q' \<noteq> 0) \<longleftrightarrow>
      (isDefined (p_return_days_of_week p) \<longrightarrow> d_return_day_of_week d AND wd_bitmask (p_return_days_of_week p) \<noteq> 0)"
    unfolding f(13) by (rule guard_cong) (simp add: f(14))
  ultimately show ?thesis unfolding matches_at wanted_def by argo
qed

text \<open>The setters keep the members of the derived class and, but for its own, the last flag.\<close>

definition same_ext :: "'x query \<Rightarrow> 'x query \<Rightarrow> bool" where
  "same_ext q q' \<longleftrightarrow> SearchQuery.more q' = SearchQuery.more q \<and> filter_all_combinations q' = filter_all_combinations q"

lemma setters_same_ext:
  "origin c q = Inr q' \<Longrightarrow> same_ext q q'" "departure_dates f t q = Inr q' \<Longrightarrow> same_ext q q'"
  "return_dates f t q = Inr q' \<Longrightarrow> same_ext q q'" "departure_weekdays w q = Inr q' \<Longrightarrow> same_ext q q'"
  "return_weekdays w q = Inr q' \<Longrightarrow> same_ext q q'" "direct_flights b q = Inr q' \<Longrightarrow> same_ext q q'"
  "roundtrip_flights b q = Inr q' \<Longrightarrow> same_ext q q'" "max_lifetime_sec now n q = Inr q' \<Longrightarrow> same_ext q q'"
  "result_limit n q = Inr q' \<Longrightarrow> same_ext q q'" "exact_departure_or_return_date f q = Inr q' \<Longrightarrow> same_ext q q'"
  unfolding setter_eqs by (auto simp: same_ext_def split: if_splits)

lemma destinations_same_ext:
  "destinations cs q = Inr q' \<Longrightarrow> \<not> (isDefined cs \<and> has_undefined (iata_codes cs)) \<Longrightarrow> same_ext q q'"
  "destination_countries ds q = Inr q' \<Longrightarrow> \<not> (isDefined ds \<and> has_undefined (country_codes ds)) \<Longrightarrow> same_ext q q'"
  "stay_days n m q = Inr q' \<Longrightarrow> \<not> bad_stay n m \<Longrightarrow> same_ext q q'"
  by (auto simp: same_ext_def destinations_ok destination_countries_ok stay_days_ok)

lemma fill_query_more:
  assumes "fill_query now p q = Inr q'"
  shows "SearchQuery.more q' = SearchQuery.more q"
    "filter_all_combinations q' = (if isDefined (p_all_combinations p) then bool_value (p_all_combinations p) else filter_all_combinations q)"
proof -
  have r: "\<not> rejected p" using assms fill_query_bad [of p now q] by auto
  then have g: "\<not> (isDefined (p_destinations p) \<and> has_undefined (iata_codes (p_destinations p)))"
    "\<not> (isDefined (p_destination_countries p) \<and> has_undefined (country_codes (p_destination_countries p)))"
    "\<not> bad_stay (p_stay_from p) (p_stay_to p)" by (auto simp: rejected_def)
  obtain q1 q2 q3 q4 q5 q6 q7 q8 q9 q10 q11 q12 q13 q14 where steps:
    "origin (p_origin p) q = Inr q1" "destinations (p_destinations p) q1 = Inr q2"
    "destination_countries (p_destination_countries p) q2 = Inr q3"
    "departure_dates (p_departure_date_from p) (p_departure_date_to p) q3 = Inr q4"
    "return_dates (p_return_date_from p) (p_return_date_to p) q4 = Inr q5"
    "departure_weekdays (p_departure_days_of_week p) q5 = Inr q6" "return_weekdays (p_return_days_of_week p) q6 = Inr q7"
    "stay_days (p_stay_from p) (p_stay_to p) q7 = Inr q8" "direct_flights (p_direct_flights p) q8 = Inr q9"
    "roundtrip_flights (p_roundtrip_flights p) q9 = Inr q10" "max_lifetime_sec now (p_max_lifetime_sec p) q10 = Inr q11"
    "result_limit (p_limit p) q11 = Inr q12" "exact_departure_or_return_date (p_departure_or_return_date p) q12 = Inr q13"
    "calc_departue_return_max_duration (p_departure_date_from p) (p_departure_date_to p) (p_return_date_from p) (p_return_date_to p) q13 = Inr q14"
    "all_combinations (p_all_combinations p) q14 = Inr q'"
    by (rule fill_query_steps [OF assms]) (rule that)
  obtain n where n: "q14 = q13\<lparr>departure_return_max_duration := n\<rparr>" using calc_duration_ok steps(14) by (metis sum.inject(2))
  have "same_ext q q1" "same_ext q1 q2" "same_ext q2 q3" "same_ext q3 q4" "same_ext q4 q5" "same_ext q5 q6" "same_ext q6 q7"
    "same_ext q7 q8" "same_ext q8 q9" "same_ext q9 q10" "same_ext q10 q11" "same_ext q11 q12" "same_ext q12 q13"
    by (rule setters_same_ext destinations_same_ext, rule steps g, (rule g)?)+
  moreover have "same_ext q13 q14" by (simp add: same_ext_def n)
  ultimately have "SearchQuery.more q14 = SearchQuery.more q \<and> filter_all_combinations q14 = filter_all_combinations q"
    by (simp add: same_ext_def)
  then show "SearchQuery.more q' = SearchQuery.more q"
    "filter_all_combinations q' = (if isDefined (p_all_combinations p) then bool_value (p_all_combinations p) else filter_all_combinations q)"
    using steps(15) unfolding all_combinations_eq by (auto simp flip: Inr_inject)
qed

text \<open>The members that the classes add to the query are not touched.\<close>

lemma cheapest_members:
  "SearchQuery.more q' = SearchQuery.more (q :: SimplyCheapest) \<Longrightarrow> sc_exec_result q' = sc_exec_result q \<and>
     DealsCheapest.grouped_destinations q' = DealsCheapest.grouped_destinations q \<and> grouped_destinations_hist q' = grouped_destinations_hist q"
  by (cases q, cases q') simp

lemma country_members:
  "SearchQuery.more q' = SearchQuery.more (q :: CheapestByCountry) \<Longrightarrow> cc_exec_result q' = cc_exec_result q \<and>
     grouped_by_country q' = grouped_by_country q \<and> grouped_by_country_hist q' = grouped_by_country_hist q"
  by (cases q, cases q') simp

lemma day_members:
  "SearchQuery.more q' = SearchQuery.more (q :: CheapestByDay) \<Longrightarrow> cd_exec_result q' = cd_exec_result q \<and>
     grouped_by_date q' = grouped_by_date q \<and> grouped_by_date_hist q' = grouped_by_date_hist q"
  by (cases q, cases q') simp

text \<open>
  C7. A search that accepted its parameters lets a deal through exactly when the deal is not
  outdated and satisfies every given parameter; a parameter that is not given, or a list that
  is empty, restricts nothing.
\<close>

theorem search_filters:
  assumes "fill_query now p q = Inr q'" and "unfiltered q"
  shows "matches (search_time ts t q') d \<longleftrightarrow>
    max (global_expire_at t) ts - DEALS_EXPIRES < d_timestamp d \<and> wanted now p d"
  by (rule matches_wanted [OF assms])

lemma unfiltered_new:
  "unfiltered (SimplyCheapest_new raw)" "unfiltered (CheapestByCountry_new raw')" "unfiltered (CheapestByDay_new raw'')"
  by (simp_all add: unfiltered_def SimplyCheapest_new_def CheapestByCountry_new_def CheapestByDay_new_def SearchQuery_init_def)

definition weekend_params :: SearchParams where
  "weekend_params = sample_params\<lparr>p_departure_days_of_week := \<lparr>paramter_undefined = False, wd_bitmask = 96\<rparr>,
     p_limit := \<lparr>paramter_undefined = False, num_value = 5\<rparr>\<rparr>"

lemma weekend_accepted: "\<not> rejected weekend_params"
  by (simp add: rejected_def weekend_params_def sample_params_def undefined_date_def isDefined_def reversed_dates_def bad_stay_def
    stay_value_def bad_limit_def)

theorem search_filters_witness:
  "\<exists>q'. fill_query 86500 weekend_params sample_query = Inr q' \<and>
     (matches (search_time 86500 (deals_table []) q') (stored_deal\<lparr>d_departure_day_of_week := 32\<rparr>)) \<and>
     \<not> matches (search_time 86500 (deals_table []) q') (stored_deal\<lparr>d_departure_day_of_week := 1\<rparr>)"
proof -
  obtain q' where q: "fill_query 86500 weekend_params sample_query = Inr q'" using fill_query_total [OF weekend_accepted] by blast
  have u: "unfiltered sample_query" unfolding sample_query_def by (rule unfiltered_new)
  show ?thesis using q search_filters [OF q u, of 86500 "deals_table []"]
    by (simp add: wanted_def weekend_params_def sample_params_def undefined_date_def isDefined_def stored_deal_def sample_deal_def
      one_page_basics DEALS_EXPIRES_def)
qed

text \<open>
  The parameters are rejected exactly when a list of destinations or countries has an empty item,
  an interval of dates or of days is reversed, a stay exceeds 255 days, or the limit is not
  between 1 and 367, each with the error of a bad parameter.
\<close>

definition bad_only :: "'a result \<Rightarrow> bool" where
  "bad_only r \<longleftrightarrow> (\<forall>e. r = Inl e \<longrightarrow> (\<exists>msg. e = Error msg BadParameter))"

named_theorems bad_only_rules

lemma bad_only_basic [bad_only_rules]: "bad_only (Inr x)" "bad_only (Inl (Error m BadParameter))"
  by (simp_all add: bad_only_def)

lemma bad_only_rbind [bad_only_rules]: "bad_only r \<Longrightarrow> (\<And>x. bad_only (f x)) \<Longrightarrow> bad_only (rbind r f)"
  by (cases r) (simp_all add: bad_only_def)

lemma bad_only_if [bad_only_rules]: "(b \<Longrightarrow> bad_only r) \<Longrightarrow> (\<not> b \<Longrightarrow> bad_only s) \<Longrightarrow> bad_only (if b then r else s)"
  by simp

lemma bad_only_getters [bad_only_rules]: "bad_only (IATACode_get_code c)" "bad_only (CountryCode_get_code k)" "bad_only (get_value n)"
  unfolding IATACode_get_code_def CountryCode_get_code_def get_value_def by (intro bad_only_rules)+

lemma bad_only_insert_all [bad_only_rules]: "(\<And>c. bad_only (g c)) \<Longrightarrow> bad_only (insert_all g s cs)"
  by (induction cs arbitrary: s) (auto intro: bad_only_rules)

lemma fill_query_error:
  assumes "fill_query now p q = Inl e"
  shows "\<exists>msg. e = Error msg BadParameter"
proof -
  have "bad_only (destinations cs q)" "bad_only (destination_countries ds q)" "bad_only (stay_days a b q)" for cs ds a b and q :: "'x query"
    unfolding destinations_def destination_countries_def stay_days_def check_stay_def number_or_def Let_def by (intro bad_only_rules)+
  moreover have "bad_only (calc_departue_return_max_duration a b c d q)" for a b c d and q :: "'x query"
    using calc_duration_ok [of a b c d q] by (auto simp: bad_only_def)
  ultimately have "bad_only (fill_query now p q)" unfolding fill_query_def setter_eqs by (intro bad_only_rules)
  with assms show ?thesis by (simp add: bad_only_def)
qed

theorem parameters_rejected:
  "if rejected p then \<exists>msg. fill_query now p q = Inl (Error msg BadParameter) else \<exists>q'. fill_query now p q = Inr q'"
  using fill_query_bad [of p now q] fill_query_total [of p now q] fill_query_error [of now p q] by fastforce

end
