(* ===== verification/TopDestinations.thy ===== *)
theory TopDestinations
  imports SearchFilters
begin

text \<open>
  Model of \<^verbatim>\<open>src/cache.hpp\<close>, \<^verbatim>\<open>src/top_destinations.hpp\<close> and \<^verbatim>\<open>src/top_destinations.cpp\<close>: the most
  searched destinations of a locale, counted in a table of their own, and the per-process cache
  of the answers.  \<open>DstRecord\<close> is the \<open>DstInfo\<close> of namespace \<^verbatim>\<open>i\<close>, the record of the table.
\<close>

section \<open>Cached values\<close>

record 'a Cache =
  ts_live_until_sec :: u32
  cached_value :: 'a

definition Cache_new :: "u32 \<Rightarrow> 'a \<Rightarrow> u32 \<Rightarrow> 'a Cache" where
  "Cache_new now val lifetime_sec = \<lparr>ts_live_until_sec = lifetime_sec + now, cached_value = val\<rparr>"

definition is_expired :: "u32 \<Rightarrow> 'a Cache \<Rightarrow> bool" where
  "is_expired now c = (ts_live_until_sec c < now)"

definition Cache_get_value :: "'a Cache \<Rightarrow> 'a" where
  "Cache_get_value c = cached_value c"

section \<open>State\<close>

definition TOPDST_EXPIRES :: u32 where "TOPDST_EXPIRES = DEALS_EXPIRES"
definition TOPDST_TABLENAME :: string where "TOPDST_TABLENAME = ''TopDst''"
definition TOPDST_PAGES :: u16 where "TOPDST_PAGES = 5000"
definition TOPDST_ELEMENTS :: u32 where "TOPDST_ELEMENTS = 10000"

record DstRecord =
  i_locale :: u8
  i_destination :: u32
  i_departure_date :: u32

definition dst_zero :: DstRecord where
  "dst_zero = \<lparr>i_locale = 0, i_destination = 0, i_departure_date = 0\<rparr>"

text \<open>\<^verbatim>\<open>sizeof(i::DstInfo)\<close>: one byte, padded to four, and two 32-bit fields.\<close>

definition DSTINFO_SIZE :: nat where "DSTINFO_SIZE = 12"

record DstInfo =
  dst_destination :: u32
  dst_counter :: u32

record TopDstDatabase =
  dst_index :: "DstRecord Table"
  result_cache_by_locale :: "(u8, DstInfo list Cache) umap"

definition TopDstDatabase_new :: "os \<Rightarrow> DstRecord shm \<Rightarrow> (shared_store, TopDstDatabase) op" where
  "TopDstDatabase_new os pages =
     sbind (on_contexts (SharedContext_new os TOPDST_TABLENAME)) (\<lambda>ctx.
     sbind (on_indexes (Table_new os DSTINFO_SIZE dst_zero TOPDST_TABLENAME TOPDST_PAGES TOPDST_ELEMENTS TOPDST_EXPIRES
              (ctx_global_expire_at ctx) pages)) (\<lambda>t.
     ret \<lparr>dst_index = t, result_cache_by_locale = []\<rparr>))"

text \<open>An operation of the table, on the member \<^verbatim>\<open>db_index\<close> of the database.\<close>

definition on_dst_index :: "(DstRecord Table, 'a) op \<Rightarrow> (TopDstDatabase, 'a) op" where
  "on_dst_index m db = (case m (dst_index db) of (r, t) \<Rightarrow> (r, db\<lparr>dst_index := t\<rparr>))"

definition TopDstDatabase_truncate :: "os \<Rightarrow> (TopDstDatabase, unit) op" where
  "TopDstDatabase_truncate os = on_dst_index (cleanup os)"

definition dst_record :: "CountryCode \<Rightarrow> IATACode \<Rightarrow> Date \<Rightarrow> DstRecord result" where
  "dst_record loc dst departure_date =
     rbind (CountryCode_get_code loc) (\<lambda>l.
     rbind (IATACode_get_code dst) (\<lambda>d.
     rbind (Date_get_code departure_date) (\<lambda>dep.
       Inr \<lparr>i_locale = l, i_destination = d, i_departure_date = dep\<rparr>)))"

definition addDestination ::
  "os \<Rightarrow> u32 \<Rightarrow> u32 \<Rightarrow> CountryCode \<Rightarrow> IATACode \<Rightarrow> Date \<Rightarrow> (TopDstDatabase, unit) op" where
  "addDestination os t0 now loc dst departure_date db =
     (case dst_record loc dst departure_date of
        Inl e \<Rightarrow> (Inl e, db)
      | Inr info \<Rightarrow> sbind (on_dst_index (addRecord os t0 now [info] 1 0)) (\<lambda>_. ret ()) db)"

section \<open>The query\<close>

record TopDstSearchQuery = SearchQuery +
  grouped_destinations :: "(u32, u32) umap"

definition TopDst_process_element :: "TopDstSearchQuery \<Rightarrow> DstRecord \<Rightarrow> TopDstSearchQuery" where
  "TopDst_process_element q current_element =
     (if filter_locale q \<and> locale_value q \<noteq> i_locale current_element then q
      else if filter_departure_date q \<and>
              (i_departure_date current_element < di_from (departure_date_values q) \<or>
               i_departure_date current_element > di_to (departure_date_values q)) then q
      else q\<lparr>grouped_destinations :=
               um_set (i_destination current_element)
                 (um_at 0 (grouped_destinations q) (i_destination current_element) + 1)
                 (grouped_destinations q)\<rparr>)"

definition TopDst_exec ::
  "os \<Rightarrow> u32 \<Rightarrow> u32 \<Rightarrow> ((u32, u32) umap \<Rightarrow> (u32, u32) umap) \<Rightarrow> TopDstSearchQuery \<Rightarrow> (DstRecord Table, DstInfo list) op" where
  "TopDst_exec os time0 now iter q =
     sbind (processRecords os time0 now TopDst_process_element (q\<lparr>grouped_destinations := []\<rparr>))
       (\<lambda>q. let top_destinations = map (\<lambda>v. \<lparr>dst_destination = fst v, dst_counter = snd v\<rparr>) (iter (grouped_destinations q));
                top_destinations = std_sort (\<lambda>a b. dst_counter a > dst_counter b) top_destinations
            in ret (if length top_destinations > unat (filter_result_limit q)
                    then take (unat (filter_result_limit q)) top_destinations else top_destinations))"

section \<open>The cache of answers\<close>

definition getCachedResult ::
  "u32 \<Rightarrow> CountryCode \<Rightarrow> Date \<Rightarrow> Date \<Rightarrow> Number \<Rightarrow> (TopDstDatabase, DstInfo list) op" where
  "getCachedResult now loc departure_date_from departure_date_to limit db =
     (if isDefined departure_date_from \<or> isDefined departure_date_to then (Inr [], db)
      else case CountryCode_get_code loc of
        Inl e \<Rightarrow> (Inl e, db)
      | Inr code \<Rightarrow>
          (case map_of (result_cache_by_locale db) code of
             None \<Rightarrow> (Inr [], db)
           | Some cache \<Rightarrow>
               if is_expired now cache
               then (Inr [], db\<lparr>result_cache_by_locale := um_erase code (result_cache_by_locale db)\<rparr>)
               else let result = Cache_get_value cache
                    in if isDefined limit
                       then (case get_value limit of
                               Inl e \<Rightarrow> (Inl e, db)
                             | Inr limit_value \<Rightarrow>
                                 if length result < unat limit_value then (Inr [], db)
                                 else if length result > unat limit_value then (Inr (take (unat limit_value) result), db)
                                 else (Inr result, db))
                       else (Inr result, db)))"

definition saveResultToCache ::
  "u32 \<Rightarrow> CountryCode \<Rightarrow> Date \<Rightarrow> Date \<Rightarrow> DstInfo list \<Rightarrow> (TopDstDatabase, unit) op" where
  "saveResultToCache now loc departure_date_from departure_date_to result db =
     (if length result = 0 \<or> isDefined departure_date_from \<or> isDefined departure_date_to then (Inr (), db)
      else case CountryCode_get_code loc of
        Inl e \<Rightarrow> (Inl e, db)
      | Inr locale_code \<Rightarrow>
          let cache = (case map_of (result_cache_by_locale db) locale_code of
                         Some _ \<Rightarrow> um_erase locale_code (result_cache_by_locale db)
                       | None \<Rightarrow> result_cache_by_locale db)
          in (Inr (), db\<lparr>result_cache_by_locale := um_set locale_code (Cache_new now result 60) cache\<rparr>))"

definition fill_dst_query :: "CountryCode \<Rightarrow> Date \<Rightarrow> Date \<Rightarrow> Number \<Rightarrow> 'x query \<Rightarrow> 'x query result" where
  "fill_dst_query loc departure_date_from departure_date_to limit q =
     rbind (locale_filter loc q) (\<lambda>q.
     rbind (departure_dates departure_date_from departure_date_to q) (\<lambda>q.
     result_limit limit q))"

text \<open>
  \<open>tc\<close> is the time at which the cache is consulted, \<open>time0\<close> and \<open>now\<close> are the times of the scan
  and \<open>ts\<close> is the time at which the answer is cached.  \<open>raw\<close> is the memory of the new query.
\<close>

definition getLocaleTop ::
  "os \<Rightarrow> u32 \<Rightarrow> u32 \<Rightarrow> u32 \<Rightarrow> u32 \<Rightarrow> ((u32, u32) umap \<Rightarrow> (u32, u32) umap) \<Rightarrow> TopDstSearchQuery \<Rightarrow>
   CountryCode \<Rightarrow> Date \<Rightarrow> Date \<Rightarrow> Number \<Rightarrow> (TopDstDatabase, DstInfo list) op" where
  "getLocaleTop os tc time0 now ts iter raw loc departure_date_from departure_date_to limit =
     sbind (getCachedResult tc loc departure_date_from departure_date_to limit) (\<lambda>cache_result.
       if length cache_result > 0 then ret cache_result
       else (\<lambda>db. case fill_dst_query loc departure_date_from departure_date_to limit (SearchQuery_init raw) of
              Inl e \<Rightarrow> (Inl e, db)
            | Inr query \<Rightarrow>
                sbind (on_dst_index (TopDst_exec os time0 now iter query)) (\<lambda>result.
                sbind (saveResultToCache ts loc departure_date_from departure_date_to result) (\<lambda>_. ret result)) db))"

section \<open>What the query counts\<close>

definition dst_selected :: "CountryCode \<Rightarrow> Date \<Rightarrow> Date \<Rightarrow> DstRecord \<Rightarrow> bool" where
  "dst_selected loc f t e \<longleftrightarrow> i_locale e = country_code loc \<and>
     (isDefined f \<longrightarrow> date_code f \<le> i_departure_date e) \<and> (isDefined t \<longrightarrow> i_departure_date e \<le> date_code t)"

definition dst_limit :: "Number \<Rightarrow> nat" where
  "dst_limit n = (if isDefined n then unat (num_value n) else 20)"

definition dst_count :: "DstRecord list \<Rightarrow> u32 \<Rightarrow> u32" where
  "dst_count es d = of_nat (length (filter (\<lambda>e. i_destination e = d) es))"

text \<open>A list of destinations is a top of the records when it counts exactly the destinations with the most records.\<close>

definition is_top :: "nat \<Rightarrow> DstRecord list \<Rightarrow> DstInfo list \<Rightarrow> bool" where
  "is_top n es ds \<longleftrightarrow>
     distinct (map dst_destination ds) \<and> length ds = min n (card (i_destination ` set es)) \<and>
     (\<forall>d \<in> set ds. dst_destination d \<in> i_destination ` set es \<and> dst_counter d = dst_count es (dst_destination d)) \<and>
     sorted_wrt (\<lambda>a b. dst_counter a \<ge> dst_counter b) ds \<and>
     (\<forall>e \<in> set es. i_destination e \<in> dst_destination ` set ds \<or>
        (\<forall>d \<in> set ds. dst_counter d \<ge> dst_count es (i_destination e)))"

interpretation by_counter: strict_weak_order UNIV "\<lambda>a b. dst_counter a > dst_counter b"
  by unfold_locales auto

lemma foldl_count: "foldl (\<lambda>n _. n + 1) z es = z + (of_nat (length es) :: u32)"
  by (induction es arbitrary: z) (simp_all add: algebra_simps)

lemma TopDst_fold:
  "foldl TopDst_process_element q es = q\<lparr>grouped_destinations :=
     foldl (\<lambda>m e. um_set (i_destination e) (um_at 0 m (i_destination e) + 1) m) (grouped_destinations q)
       (filter (\<lambda>e. \<not> (filter_locale q \<and> locale_value q \<noteq> i_locale e) \<and>
          \<not> (filter_departure_date q \<and> (i_departure_date e < di_from (departure_date_values q) \<or>
                i_departure_date e > di_to (departure_date_values q)))) es)\<rparr>"
proof (induction es rule: rev_induct)
  case (snoc e es)
  then show ?case by (simp add: TopDst_process_element_def)
qed simp

lemma sorted_prefix_max:
  assumes "sorted_wrt P xs" "x \<in> set xs" "x \<notin> set (take n xs)" "y \<in> set (take n xs)"
  shows "P y x"
proof -
  from assms(2,3) have "x \<in> set (drop n xs)" by (metis Un_iff append_take_drop_id set_append)
  with assms(1,4) show ?thesis by (metis append_take_drop_id sorted_wrt_append)
qed

lemma top_of_groups:
  assumes "iteration_order iter"
  shows "is_top n es (take n (std_sort (\<lambda>a b. dst_counter a > dst_counter b)
     (map (\<lambda>v. \<lparr>dst_destination = fst v, dst_counter = snd v\<rparr>) (iter (um_group i_destination (\<lambda>c _. c + 1) 0 es)))))"
proof -
  let ?lt = "\<lambda>a b. dst_counter a > dst_counter b"
  obtain ks where ks: "distinct ks" "set ks = i_destination ` set es" and it:
    "iter (um_group i_destination (\<lambda>c _. c + 1) 0 es) =
       map (\<lambda>k. (k, foldl (\<lambda>c _. c + 1) 0 (filter (\<lambda>e. i_destination e = k) es))) ks"
    using um_group_iterated [OF assms] by blast
  let ?xs = "map (\<lambda>k. \<lparr>dst_destination = k, dst_counter = dst_count es k\<rparr>) ks"
  let ?s = "std_sort ?lt ?xs"
  have eq: "map (\<lambda>v. \<lparr>dst_destination = fst v, dst_counter = snd v\<rparr>) (iter (um_group i_destination (\<lambda>c _. c + 1) 0 es)) = ?xs"
    by (simp add: it foldl_count dst_count_def o_def)
  have "map dst_destination ?xs = ks" by (simp add: o_def)
  then have d: "distinct (map dst_destination ?s)" using ks(1) unfolding distinct_map_std_sort by simp
  have so: "sorted_wrt (\<lambda>a b. dst_counter a \<ge> dst_counter b) ?s"
    using by_counter.sorted_std_sort [of ?xs] by (simp add: not_less)
  have len: "length ?s = card (i_destination ` set es)" using ks distinct_card [of ks] by simp
  have mem: "dst_destination x \<in> i_destination ` set es \<and> dst_counter x = dst_count es (dst_destination x)" if "x \<in> set (take n ?s)" for x
  proof -
    from that have "x \<in> set ?s" by (rule in_set_takeD)
    then have "x \<in> set ?xs" unfolding set_std_sort .
    then show ?thesis using ks(2) by auto
  qed
  have rest: "dst_counter y \<ge> dst_count es (i_destination e)"
    if "e \<in> set es" "i_destination e \<notin> dst_destination ` set (take n ?s)" "y \<in> set (take n ?s)" for e y
  proof -
    let ?x = "\<lparr>dst_destination = i_destination e, dst_counter = dst_count es (i_destination e)\<rparr>"
    have "?x \<in> set ?s" using that(1) ks(2) unfolding set_std_sort by auto
    moreover have "?x \<notin> set (take n ?s)" using that(2) by (rule contrapos_nn) (rule image_eqI [of _ _ ?x], simp_all)
    ultimately have "dst_counter y \<ge> dst_counter ?x" using sorted_prefix_max [OF so] that(3) by blast
    then show ?thesis by simp
  qed
  show ?thesis unfolding eq is_top_def
  proof (intro conjI)
    show "distinct (map dst_destination (take n ?s))" using d by (simp add: take_map [symmetric])
    show "sorted_wrt (\<lambda>a b. dst_counter a \<ge> dst_counter b) (take n ?s)" using so by (rule sorted_wrt_take)
    show "length (take n ?s) = min n (card (i_destination ` set es))" using len by simp
    show "\<forall>d \<in> set (take n ?s). dst_destination d \<in> i_destination ` set es \<and> dst_counter d = dst_count es (dst_destination d)"
      by (rule ballI) (rule mem)
    show "\<forall>e \<in> set es. i_destination e \<in> dst_destination ` set (take n ?s) \<or>
        (\<forall>d \<in> set (take n ?s). dst_counter d \<ge> dst_count es (i_destination e))"
      using rest by blast
  qed
qed

section \<open>Answers\<close>

lemma locale_filter_eq:
  "locale_filter c q = Inr (filter_locale_update (\<lambda>was. was \<or> isDefined c)
     (locale_value_update (\<lambda>v. if isDefined c then country_code c else v) q))"
  by (cases q) (simp add: locale_filter_def CountryCode_get_code_def isUndefined_def isDefined_def)

text \<open>The requests \<^verbatim>\<open>getLocaleTop\<close> accepts.\<close>

definition dst_request_ok :: "CountryCode \<Rightarrow> Date \<Rightarrow> Date \<Rightarrow> Number \<Rightarrow> bool" where
  "dst_request_ok loc f t lim \<longleftrightarrow> isDefined loc \<and> \<not> reversed_dates f t \<and> \<not> bad_limit lim"

lemma limit_u16: "\<not> bad_limit n \<Longrightarrow> isDefined n \<Longrightarrow> unat (ucast (num_value n) :: u16) = unat (num_value n)"
  by (simp add: bad_limit_def unsigned_ucast_eq take_bit_nat_eq_self)

lemma fill_dst_query_ok:
  assumes "dst_request_ok loc f t lim"
  obtains q where "fill_dst_query loc f t lim (SearchQuery_init raw) = Inr q"
    "filter_locale q" "locale_value q = country_code loc"
    "filter_departure_date q = (isDefined f \<or> isDefined t)"
    "isDefined f \<or> isDefined t \<Longrightarrow> departure_date_values q = date_interval f t"
    "unat (filter_result_limit q) = dst_limit lim"
proof -
  have r: "isDefined loc" "\<not> reversed_dates f t" "\<not> bad_limit lim" using assms by (simp_all add: dst_request_ok_def)
  show thesis
    by (rule that, simp add: fill_dst_query_def locale_filter_eq departure_dates_eq result_limit_eq r)
      (simp_all add: r SearchQuery_init_def dst_limit_def limit_u16)
qed

lemma selected_filter:
  assumes "filter_locale q" "locale_value q = country_code loc" "filter_departure_date q = (isDefined f \<or> isDefined t)"
    "isDefined f \<or> isDefined t \<Longrightarrow> departure_date_values q = date_interval f t"
  shows "(\<not> (filter_locale q \<and> locale_value q \<noteq> i_locale e) \<and>
    \<not> (filter_departure_date q \<and> (i_departure_date e < di_from (departure_date_values q) \<or>
          i_departure_date e > di_to (departure_date_values q)))) = dst_selected loc f t e"
  using assms by (cases "isDefined f \<or> isDefined t") (auto simp: dst_selected_def date_interval_def not_less leD le_max_word)

lemma TopDst_exec_top:
  assumes "scannable os time0 now t" "iteration_order iter" "dst_request_ok loc f d lim"
    "fill_dst_query loc f d lim (SearchQuery_init raw) = Inr q"
  obtains ds t' where "TopDst_exec os time0 now iter q t = (Inr ds, t')"
    "is_top (dst_limit lim) (filter (dst_selected loc f d) (contents now t)) ds"
proof -
  from fill_dst_query_ok [OF assms(3), of raw] assms(4)
  have q: "filter_locale q" "locale_value q = country_code loc" "filter_departure_date q = (isDefined f \<or> isDefined d)"
    "isDefined f \<or> isDefined d \<Longrightarrow> departure_date_values q = date_interval f d"
    "unat (filter_result_limit q) = dst_limit lim" by auto
  let ?es = "filter (dst_selected loc f d) (contents now t)"
  let ?q0 = "q\<lparr>grouped_destinations := []\<rparr>"
  have fold: "foldl TopDst_process_element ?q0 (contents now t) =
      q\<lparr>grouped_destinations := um_group i_destination (\<lambda>c _. c + 1) 0 ?es\<rparr>"
    unfolding TopDst_fold um_group_def using selected_filter [OF q(1-4)] by (simp cong: filter_cong)
  obtain t' where "processRecords os time0 now TopDst_process_element ?q0 t =
      (Inr (foldl TopDst_process_element ?q0 (contents now t)), t')"
    using processRecords_scannable [OF assms(1), of TopDst_process_element ?q0] by blast
  then have run: "processRecords os time0 now TopDst_process_element ?q0 t =
      (Inr (q\<lparr>grouped_destinations := um_group i_destination (\<lambda>c _. c + 1) 0 ?es\<rparr>), t')" unfolding fold .
  show thesis
    by (rule that [OF _ top_of_groups [OF assms(2)]]) (simp add: TopDst_exec_def run Let_def q(5))
qed

text \<open>The cache has no answer for a request with dates, and none that has expired.\<close>

definition cache_misses :: "u32 \<Rightarrow> CountryCode \<Rightarrow> Date \<Rightarrow> Date \<Rightarrow> TopDstDatabase \<Rightarrow> bool" where
  "cache_misses tc loc f t db \<longleftrightarrow> isDefined f \<or> isDefined t \<or>
     (case map_of (result_cache_by_locale db) (country_code loc) of None \<Rightarrow> True | Some c \<Rightarrow> is_expired tc c)"

lemma getCachedResult_miss:
  assumes "cache_misses tc loc f t db" "isDefined loc"
  obtains m where "getCachedResult tc loc f t lim db = (Inr [], db\<lparr>result_cache_by_locale := m\<rparr>)"
proof -
  have "\<exists>m. getCachedResult tc loc f t lim db = (Inr [], db\<lparr>result_cache_by_locale := m\<rparr>)"
    using assms by (cases db) (auto simp: getCachedResult_def cache_misses_def CountryCode_get_code_def isDefined_def split: option.splits)
  then show thesis using that by blast
qed

lemma getLocaleTop_miss:
  assumes "cache_misses tc loc f t db" "dst_request_ok loc f t lim" "scannable os time0 now (dst_index db)" "iteration_order iter"
  obtains ds i m where
    "getLocaleTop os tc time0 now ts iter raw loc f t lim db = (Inr ds, \<lparr>dst_index = i, result_cache_by_locale = m\<rparr>)"
    "is_top (dst_limit lim) (filter (dst_selected loc f t) (contents now (dst_index db))) ds"
    "isUndefined f \<Longrightarrow> isUndefined t \<Longrightarrow> ds \<noteq> [] \<Longrightarrow> map_of m (country_code loc) = Some (Cache_new ts ds 60)"
proof -
  have d: "isDefined loc" using assms(2) by (simp add: dst_request_ok_def)
  obtain m0 where c: "getCachedResult tc loc f t lim db = (Inr [], db\<lparr>result_cache_by_locale := m0\<rparr>)"
    using getCachedResult_miss [OF assms(1) d] by blast
  obtain q where q: "fill_dst_query loc f t lim (SearchQuery_init raw) = Inr q"
    using fill_dst_query_ok [OF assms(2)] by blast
  obtain ds i where r: "TopDst_exec os time0 now iter q (dst_index db) = (Inr ds, i)"
    "is_top (dst_limit lim) (filter (dst_selected loc f t) (contents now (dst_index db))) ds"
    using TopDst_exec_top [OF assms(3,4,2) q] by blast
  let ?db = "\<lparr>dst_index = i, result_cache_by_locale = m0\<rparr>"
  obtain m where s: "saveResultToCache ts loc f t ds ?db = (Inr (), ?db\<lparr>result_cache_by_locale := m\<rparr>)"
    "isUndefined f \<Longrightarrow> isUndefined t \<Longrightarrow> ds \<noteq> [] \<Longrightarrow> map_of m (country_code loc) = Some (Cache_new ts ds 60)"
    using d that by (cases "ds = [] \<or> isDefined f \<or> isDefined t")
      (auto simp: saveResultToCache_def CountryCode_get_code_def isDefined_def isUndefined_def Let_def)
  have db: "db\<lparr>result_cache_by_locale := m0, dst_index := i\<rparr> = ?db" by (cases db) simp
  show thesis
  proof (rule that [of ds i m])
    show "getLocaleTop os tc time0 now ts iter raw loc f t lim db = (Inr ds, \<lparr>dst_index = i, result_cache_by_locale = m\<rparr>)"
      by (simp add: getLocaleTop_def c q on_dst_index_def r(1) db s(1))
  qed (rule r(2), rule s(2))
qed

text \<open>
  C18. The most searched destinations of a locale are exact where they are counted and not taken from the cache:
  when no fresh answer is cached for the locale, or the request has dates, an accepted request returns, for the visible records of the locale with a departure date in the
  requested interval, the destinations with the most records, each once and with its number of
  records, in descending order, as many as there are up to the limit (20 when none is given).
\<close>

theorem top_destinations_exact:
  assumes "dst_request_ok loc f t lim" and "cache_misses tc loc f t db"
    and "scannable os time0 now (dst_index db)" and "iteration_order iter"
  shows "\<exists>ds db'. getLocaleTop os tc time0 now ts iter raw loc f t lim db = (Inr ds, db')
    \<and> is_top (dst_limit lim) (filter (dst_selected loc f t) (contents now (dst_index db))) ds"
  by (rule getLocaleTop_miss [OF assms(2,1,3,4), where ts = ts and raw = raw]) (intro exI conjI, assumption+)

definition sample_dst :: "u8 \<Rightarrow> u32 \<Rightarrow> DstRecord" where
  "sample_dst l d = \<lparr>i_locale = l, i_destination = d, i_departure_date = 20260101\<rparr>"

definition sample_dst_db :: TopDstDatabase where
  "sample_dst_db = \<lparr>dst_index = one_page TOPDST_TABLENAME DSTINFO_SIZE dst_zero
     [sample_dst 5 10, sample_dst 5 20, sample_dst 6 30, sample_dst 5 20], result_cache_by_locale = []\<rparr>"

abbreviation sample_locale :: CountryCode where
  "sample_locale \<equiv> \<lparr>paramter_undefined = False, country_code = 5\<rparr>"

abbreviation no_number :: Number where "no_number \<equiv> \<lparr>paramter_undefined = True, num_value = 0\<rparr>"

definition raw_top_query :: TopDstSearchQuery where
  "raw_top_query = SearchQuery.extend raw_query (TopDstSearchQuery.fields [(1, 1)])"

lemma sample_dst_ready:
  "scannable healthy_os now now (dst_index sample_dst_db)"
  "now < 90000 \<Longrightarrow> contents now (dst_index sample_dst_db) = [sample_dst 5 10, sample_dst 5 20, sample_dst 6 30, sample_dst 5 20]"
  "dst_request_ok sample_locale undefined_date undefined_date no_number"
  "cache_misses tc sample_locale undefined_date undefined_date sample_dst_db"
  by (simp_all add: sample_dst_db_def one_page_scannable one_page_contents sample_name_def TOPDST_TABLENAME_def DSTINFO_SIZE_def
      dst_request_ok_def isDefined_def undefined_date_def reversed_dates_def bad_limit_def cache_misses_def)

abbreviation sample_top :: "TopDstDatabase \<Rightarrow> DstInfo list result \<times> TopDstDatabase" where
  "sample_top \<equiv> getLocaleTop healthy_os 86500 86500 86500 86500 rev raw_top_query sample_locale undefined_date undefined_date no_number"

lemma sample_selected:
  "filter (dst_selected sample_locale undefined_date undefined_date) (contents 86500 (dst_index sample_dst_db)) =
     [sample_dst 5 10, sample_dst 5 20, sample_dst 5 20]" "dst_limit no_number = 20"
  "is_top 20 [sample_dst 5 10, sample_dst 5 20, sample_dst 5 20] ds \<Longrightarrow> length ds = 2"
  unfolding sample_dst_ready(2) [of 86500, simplified]
  by (simp_all add: dst_selected_def sample_dst_def undefined_date_def isDefined_def dst_limit_def is_top_def)

theorem top_destinations_exact_witness:
  "\<exists>ds db'. sample_top sample_dst_db = (Inr ds, db') \<and> length ds = 2
     \<and> is_top 20 [sample_dst 5 10, sample_dst 5 20, sample_dst 5 20] ds"
  using top_destinations_exact [OF sample_dst_ready(3,4,1) iteration_order_rev, of 86500 86500 86500 raw_top_query] sample_selected(3)
  unfolding sample_selected(1,2) by blast

lemma sample_top_answer: "\<exists>ds db'. sample_top sample_dst_db = (Inr ds, db') \<and> length ds = 2"
  by (rule getLocaleTop_miss [OF sample_dst_ready(4) [of 86500] sample_dst_ready(3) sample_dst_ready(1) [of 86500] iteration_order_rev,
        where ts = 86500 and raw = raw_top_query])
    (use sample_selected(3) in \<open>simp add: sample_selected(1,2)\<close>)

lemma is_expired_new:
  assumes "unat ts + 60 < 2 ^ 32"
  shows "is_expired tc (Cache_new ts ds 60) \<longleftrightarrow> unat ts + 60 < unat tc"
proof -
  have "unat (60 + ts) = (60 + unat ts) mod 2 ^ 32" by (subst unat_word_ariths(1)) simp
  also have "\<dots> = unat ts + 60" using assms by (simp only: add.commute mod_less)
  finally show ?thesis by (simp add: is_expired_def Cache_new_def word_less_nat_alt)
qed

lemma getLocaleTop_hit:
  assumes "map_of (result_cache_by_locale db) (country_code loc) = Some (Cache_new ts ds 60)" "isDefined loc"
    "isUndefined f" "isUndefined t" "ds \<noteq> []" "unat ts + 60 < 2 ^ 32" "unat tc \<le> unat ts + 60"
    "isDefined lim \<Longrightarrow> num_value lim \<noteq> 0 \<and> unat (num_value lim) \<le> length ds"
  shows "getLocaleTop os tc time0 now ts' iter raw loc f t lim db =
    (Inr (if isDefined lim then take (unat (num_value lim)) ds else ds), db)"
proof -
  have e: "\<not> is_expired tc (Cache_new ts ds 60)" using assms(7) by (simp add: is_expired_new [OF assms(6)])
  have l: "isDefined lim \<longrightarrow> num_value lim \<noteq> 0 \<and> unat (num_value lim) \<le> length ds" using assms(8) by blast
  have "getCachedResult tc loc f t lim db = (Inr (if isDefined lim then take (unat (num_value lim)) ds else ds), db)"
    using assms(1-5) e l by (auto simp: getCachedResult_def CountryCode_get_code_def isDefined_def isUndefined_def Cache_get_value_def
        Cache_new_def get_value_def)
  then show ?thesis using assms(5,8) by (simp add: getLocaleTop_def unat_eq_0)
qed

text \<open>
  An answer without dates is cached for 60 seconds: whatever happens to the table in between,
  a request for the locale without dates is answered with the same list, cut at its own limit if
  that is not larger, and nothing is scanned; after the 60 seconds the cached answer is never used.
\<close>

theorem top_destinations_cached:
  assumes "dst_request_ok loc f t lim" and "isUndefined f" and "isUndefined t" and "cache_misses tc loc f t db"
    and "scannable os time0 now (dst_index db)" and "iteration_order iter" and "unat ts + 60 < 2 ^ 32"
  shows "\<exists>ds db1. getLocaleTop os tc time0 now ts iter raw loc f t lim db = (Inr ds, db1)
    \<and> (ds \<noteq> [] \<longrightarrow> (\<forall>db2 tc2 lim2. result_cache_by_locale db2 = result_cache_by_locale db1 \<longrightarrow>
         (if unat tc2 > unat ts + 60 then cache_misses tc2 loc f t db2
          else (isDefined lim2 \<longrightarrow> num_value lim2 \<noteq> 0 \<and> unat (num_value lim2) \<le> length ds) \<longrightarrow>
               (\<forall>os' a b c. getLocaleTop os' tc2 a b c iter raw loc f t lim2 db2 =
                  (Inr (if isDefined lim2 then take (unat (num_value lim2)) ds else ds), db2)))))"
proof -
  obtain ds i m where r:
    "getLocaleTop os tc time0 now ts iter raw loc f t lim db = (Inr ds, \<lparr>dst_index = i, result_cache_by_locale = m\<rparr>)"
    "ds \<noteq> [] \<Longrightarrow> map_of m (country_code loc) = Some (Cache_new ts ds 60)"
    by (rule getLocaleTop_miss [OF assms(4,1,5,6), where ts = ts and raw = raw]) (rule that, assumption, simp add: assms(2,3))
  have loc: "isDefined loc" using assms(1) by (simp add: dst_request_ok_def)
  have late: "cache_misses tc2 loc f t db2"
    if "ds \<noteq> []" "result_cache_by_locale db2 = m" "unat tc2 > unat ts + 60" for tc2 db2
    using r(2) [OF that(1)] that(2,3) by (simp add: cache_misses_def is_expired_new [OF assms(7)])
  show ?thesis
    by (rule exI [of _ ds], rule exI [of _ "\<lparr>dst_index = i, result_cache_by_locale = m\<rparr>"], simp only: r(1) simp_thms)
      (auto simp: late r(2) getLocaleTop_hit [OF _ loc assms(2,3) _ assms(7)])
qed

theorem top_destinations_cached_witness:
  "\<exists>ds db1. sample_top sample_dst_db = (Inr ds, db1) \<and>
     getLocaleTop healthy_os 86560 0 0 0 rev raw_top_query sample_locale undefined_date undefined_date no_number
        (db1\<lparr>dst_index := one_page TOPDST_TABLENAME DSTINFO_SIZE dst_zero []\<rparr>) =
        (Inr ds, db1\<lparr>dst_index := one_page TOPDST_TABLENAME DSTINFO_SIZE dst_zero []\<rparr>)"
proof -
  have u: "isUndefined undefined_date" "unat (86500 :: u32) + 60 < 2 ^ 32" by (simp_all add: isUndefined_def undefined_date_def)
  have l: "\<not> isDefined no_number" by (simp add: isDefined_def)
  obtain ds db1 where r: "sample_top sample_dst_db = (Inr ds, db1)" and "length ds = 2" using sample_top_answer by blast
  then have ne: "ds \<noteq> []" by auto
  show ?thesis
    by (rule exI [of _ ds], rule exI [of _ db1])
      (use top_destinations_cached [OF sample_dst_ready(3) u(1,1) sample_dst_ready(4,1) iteration_order_rev u(2), of 86500 86500 raw_top_query]
        r ne l in simp)
qed

end
