(* ===== verification/Server.thy ===== *)
theory Server
  imports Http TcpServer TopDestinations
begin

text \<open>
  Model of \<^verbatim>\<open>src/deals_server.hpp\<close> and \<^verbatim>\<open>src/deals_server.cpp\<close>: the handlers of the requests, their
  dispatch, the answers, and the shutdown.  A handler works on the connection and the server.
  The members of the class are \<open>DealsServer\<close>; \<^verbatim>\<open>gotQuitSignal\<close> is a global variable.  The log lines
  are left out, and so is the member \<^verbatim>\<open>anyvalue\<close> of \<open>Context\<close>, which is never used.
\<close>

section \<open>State\<close>

record Context =
  http :: HttpParser

record DealsServer =
  srv_db :: DealsDatabase
  srv_dst :: TopDstDatabase
  quit_request :: bool

text \<open>The constructor; the base class opens the listening socket first.\<close>

definition DealsServer_new :: "os \<Rightarrow> DealInfo shm \<Rightarrow> char shm \<Rightarrow> DstRecord shm \<Rightarrow> (shared_store, DealsServer) op" where
  "DealsServer_new os index_pages data_pages dst_pages =
     sbind (DealsDatabase_new os index_pages data_pages) (\<lambda>db.
     sbind (TopDstDatabase_new os dst_pages) (\<lambda>db_dst.
     ret \<lparr>srv_db = db, srv_dst = db_dst, quit_request = False\<rparr>))"

text \<open>
  What a request finds outside the program: the answers of the system calls, the successive
  readings of the clock, the iteration orders of the hash maps, and the memory that new query
  objects are built in.
\<close>

record renv =
  r_os :: os
  r_oob :: "int \<Rightarrow> u8"
  r_clock :: "nat \<Rightarrow> u32"
  r_hist_order :: "(u32, DealInfo list) umap \<Rightarrow> (u32, DealInfo list) umap"
  r_route_order :: "(u64, DealInfo) umap \<Rightarrow> (u64, DealInfo) umap"
  r_dst_order :: "(u32, u32) umap \<Rightarrow> (u32, u32) umap"
  r_raw_cheapest :: SimplyCheapest
  r_raw_country :: CheapestByCountry
  r_raw_day :: CheapestByDay
  r_raw_top :: TopDstSearchQuery

type_synonym 'a server_op = "(Context Connection \<times> DealsServer, 'a) op"

definition on_db :: "(DealsDatabase, 'a) op \<Rightarrow> 'a server_op" where
  "on_db m = (\<lambda>(conn, srv). case m (srv_db srv) of (r, db) \<Rightarrow> (r, (conn, srv\<lparr>srv_db := db\<rparr>)))"

definition on_db_dst :: "(TopDstDatabase, 'a) op \<Rightarrow> 'a server_op" where
  "on_db_dst m = (\<lambda>(conn, srv). case m (srv_dst srv) of (r, db) \<Rightarrow> (r, (conn, srv\<lparr>srv_dst := db\<rparr>)))"

text \<open>\<^verbatim>\<open>conn.close(response)\<close>: the response is converted to a string.\<close>

definition answer_with :: "HttpResponse \<Rightarrow> unit server_op" where
  "answer_with response = (\<lambda>(conn, srv). (Inr (), (conn_close_with (HttpResponse_string response) conn, srv)))"

definition of_result :: "'a result \<Rightarrow> 'a server_op" where
  "of_result r st = (r, st)"

text \<open>The connection as the handler finds it.\<close>

definition the_connection :: "Context Connection server_op" where
  "the_connection st = (Inr (fst st), st)"

definition request_params :: "Context Connection \<Rightarrow> ObjectMap" where
  "request_params conn = params (query (request (http (conn_context conn))))"

definition quit :: "unit server_op" where
  "quit = (\<lambda>(conn, srv). (Inr (), (conn, srv\<lparr>quit_request := True\<rparr>)))"

section \<open>Answers\<close>

definition empty_result :: "string \<Rightarrow> HttpResponse" where
  "empty_result reason = add_header (HttpResponse_new 204 reason) ''Content-Length'' ''0''"

definition content_result :: "string \<Rightarrow> string \<Rightarrow> HttpResponse" where
  "content_result content_type response =
     HttpResponse_write
       (add_header (add_header (HttpResponse_new 200 ''OK'') ''Content-Type'' content_type)
          ''Content-Length'' (to_string (length response))) response"

text \<open>
  The answer to a search: the length of the size information, the size of every data block, and
  the blocks.  \<^verbatim>\<open>sizes_strlen\<close> counts at most the 20 digits of a 64-bit number.
\<close>

definition top_sizes :: "string list \<Rightarrow> string" where
  "top_sizes result = foldl (\<lambda>sizes data. sizes @ to_string (length data) @ '';'') [] result"

definition top_size_info :: "string list \<Rightarrow> string" where
  "top_size_info result =
     (let sizes = top_sizes result;
          sizes_strlen = length (to_string (length sizes));
          sizes_strlen = (if length (to_string (length sizes + sizes_strlen + 1)) \<noteq> sizes_strlen
                          then sizes_strlen + 1 else sizes_strlen)
      in to_string (length sizes + sizes_strlen + 1) @ '';'' @ sizes)"

definition top_response :: "string list \<Rightarrow> string" where
  "top_response result = foldl (\<lambda>response data. response @ data) (top_size_info result) result"

definition writeTopResult :: "string list \<Rightarrow> unit server_op" where
  "writeTopResult result =
     (if length result = 0 then answer_with (empty_result ''Empty result'')
      else answer_with (content_result ''application/octet-stream'' (top_response result)))"

definition terminateWithError :: "string \<Rightarrow> ErrorCode \<Rightarrow> unit server_op" where
  "terminateWithError msg code =
     (if code = BadParameter then answer_with (HttpResponse_body 400 ''Bad request'' msg)
      else answer_with (HttpResponse_body 500 ''Internal Server Error'' msg))"

section \<open>Handlers\<close>

subsection \<open>Searches\<close>

record TopRequest =
  t_search :: SearchParams
  t_add_locale_top :: Boolean
  t_group_by_date :: Boolean
  t_group_by_country :: Boolean
  t_locale :: "CountryCode Optional"

definition optional :: "(string \<Rightarrow> 'a result) \<Rightarrow> ObjectMap \<Rightarrow> string \<Rightarrow> 'a result" where
  "optional ctor ps name = rbind (Optional_of ctor ps name) (\<lambda>v. Inr (opt_base v))"

definition read_top_request :: "ObjectMap \<Rightarrow> TopRequest result" where
  "read_top_request ps =
     rbind (Required_of IATACode_of_string ps ''origin'') (\<lambda>v_origin.
     rbind (optional IATACodes_of_string ps ''destinations'') (\<lambda>v_destinations.
     rbind (optional CountryCodes_of_string ps ''destination_countries'') (\<lambda>v_countries.
     rbind (optional Date_of_string ps ''departure_date_from'') (\<lambda>v_departure_from.
     rbind (optional Date_of_string ps ''departure_date_to'') (\<lambda>v_departure_to.
     rbind (optional Date_of_string ps ''return_date_from'') (\<lambda>v_return_from.
     rbind (optional Date_of_string ps ''return_date_to'') (\<lambda>v_return_to.
     rbind (optional Weekdays_of_string ps ''departure_days_of_week'') (\<lambda>dweekdays.
     rbind (optional Weekdays_of_string ps ''return_days_of_week'') (\<lambda>rweekdays.
     rbind (optional Number_of_string ps ''stay_from'') (\<lambda>v_stay_from.
     rbind (optional Number_of_string ps ''stay_to'') (\<lambda>v_stay_to.
     rbind (optional Number_of_string ps ''timelimit'') (\<lambda>timelimit.
     rbind (optional Number_of_string ps ''deals_limit'') (\<lambda>deals_limit.
     rbind (optional Boolean_of_string ps ''direct_flights'') (\<lambda>v_direct.
     rbind (optional Boolean_of_string ps ''roundtrip_flights'') (\<lambda>v_roundtrip.
     rbind (optional Boolean_of_string ps ''add_locale_top'') (\<lambda>v_add_locale_top.
     rbind (optional Boolean_of_string ps ''group_by_date'') (\<lambda>v_by_date.
     rbind (optional Boolean_of_string ps ''group_by_country'') (\<lambda>v_by_country.
     rbind (Optional_of CountryCode_of_string ps ''locale'') (\<lambda>v_locale.
     rbind (optional Date_of_string ps ''departure_or_return_date'') (\<lambda>v_exact.
     rbind (optional Boolean_of_string ps ''all_combinations'') (\<lambda>v_all.
       Inr \<lparr>t_search = \<lparr>p_origin = v_origin, p_destinations = v_destinations, p_destination_countries = v_countries,
              p_departure_date_from = v_departure_from, p_departure_date_to = v_departure_to,
              p_departure_days_of_week = dweekdays, p_return_date_from = v_return_from, p_return_date_to = v_return_to,
              p_return_days_of_week = rweekdays, p_stay_from = v_stay_from, p_stay_to = v_stay_to,
              p_direct_flights = v_direct, p_limit = deals_limit, p_max_lifetime_sec = timelimit,
              p_roundtrip_flights = v_roundtrip, p_departure_or_return_date = v_exact, p_all_combinations = v_all\<rparr>,
            t_add_locale_top = v_add_locale_top, t_group_by_date = v_by_date, t_group_by_country = v_by_country,
            t_locale = v_locale\<rparr>)))))))))))))))))))))"

definition bad_dates :: "SearchParams \<Rightarrow> bool" where
  "bad_dates p \<longleftrightarrow>
     Date_gt (p_return_date_from p) (p_return_date_to p) \<or> Date_gt (p_departure_date_from p) (p_departure_date_to p) \<or>
     Date_gt (p_departure_date_from p) (p_return_date_from p) \<or> Date_gt (p_departure_date_from p) (p_return_date_to p) \<or>
     Date_gt (p_departure_date_to p) (p_return_date_to p)"

definition set_true :: "Boolean \<Rightarrow> bool" where
  "set_true b \<longleftrightarrow> isDefined b \<and> isTrue b = Inr True"

fun add_codes :: "IATACodes \<Rightarrow> DstInfo list \<Rightarrow> IATACodes result" where
  "add_codes codes [] = Inr codes"
| "add_codes codes (dst # result) = rbind (IATACodes_add_code codes (dst_destination dst)) (\<lambda>codes. add_codes codes result)"

text \<open>The destinations of a search, with the most searched ones of the locale when they are asked for.\<close>

definition locale_destinations :: "renv \<Rightarrow> TopRequest \<Rightarrow> IATACodes server_op" where
  "locale_destinations env rq =
     (if set_true (t_add_locale_top rq)
      then if isUndefined (opt_base (t_locale rq))
           then throw (Error (''No locale provided on add_locale_top=true'' @ [LF]) BadParameter)
           else sbind (of_result (Required_of_Optional CountryCode_of_string (t_locale rq))) (\<lambda>loc.
                sbind (on_db_dst (getLocaleTop (r_os env) (r_clock env 0) (r_clock env 1) (r_clock env 2) (r_clock env 3)
                         (r_dst_order env) (r_raw_top env) loc
                         (p_departure_date_from (t_search rq)) (p_departure_date_to (t_search rq)) (p_limit (t_search rq)))) (\<lambda>result.
                of_result (add_codes (p_destinations (t_search rq)) result)))
      else ret (p_destinations (t_search rq)))"

definition run_search :: "renv \<Rightarrow> TopRequest \<Rightarrow> SearchParams \<Rightarrow> (DealsDatabase, string list) op" where
  "run_search env rq p =
     (let now = r_clock env 4; ts = r_clock env 5; time0 = r_clock env 6; scan = r_clock env 7
      in if set_true (t_group_by_date rq)
         then searchFor (r_os env) now (CheapestByDay_execute (r_os env) ts time0 scan (r_hist_order env)) (CheapestByDay_new (r_raw_day env)) p
         else if set_true (t_group_by_country rq)
         then searchFor (r_os env) now (CheapestByCountry_execute (r_os env) ts time0 scan (r_hist_order env)) (CheapestByCountry_new (r_raw_country env)) p
         else searchFor (r_os env) now (SimplyCheapest_execute (r_os env) ts time0 scan (r_hist_order env)) (SimplyCheapest_new (r_raw_cheapest env)) p)"

definition getTop :: "renv \<Rightarrow> unit server_op" where
  "getTop env =
     sbind the_connection (\<lambda>conn.
     sbind (of_result (read_top_request (request_params conn))) (\<lambda>rq.
       if bad_dates (t_search rq) then throw (Error (''Bad date parameters in request'' @ [LF]) BadParameter)
       else sbind (locale_destinations env rq) (\<lambda>dsts.
            sbind (on_db (run_search env rq ((t_search rq)\<lparr>p_destinations := dsts\<rparr>))) writeTopResult)))"

subsection \<open>Reports\<close>

definition write_report :: "string \<Rightarrow> unit server_op" where
  "write_report result =
     (if length result = 0 then answer_with (empty_result ''Empty result'')
      else answer_with (content_result ''text/plain'' result))"

definition server_getUniqueRoutes :: "renv \<Rightarrow> unit server_op" where
  "server_getUniqueRoutes env =
     sbind (on_db (getUniqueRoutesDeals (r_os env) (r_clock env 0) (r_clock env 1) (r_route_order env))) write_report"

definition server_getStats :: "renv \<Rightarrow> unit server_op" where
  "server_getStats env = sbind (on_db (getStats (r_os env) (r_clock env 0) (r_clock env 1))) write_report"

definition dst_line :: "DstInfo \<Rightarrow> string" where
  "dst_line elm = code_to_origin (dst_destination elm) @ '';'' @ to_string (unat (dst_counter elm)) @ [LF]"

definition getDestiantionsTop :: "renv \<Rightarrow> unit server_op" where
  "getDestiantionsTop env =
     sbind the_connection (\<lambda>conn. let ps = request_params conn
      in sbind (of_result (Required_of CountryCode_of_string ps ''locale'')) (\<lambda>loc.
         sbind (of_result (optional Date_of_string ps ''departure_date_from'')) (\<lambda>f.
         sbind (of_result (optional Date_of_string ps ''departure_date_to'')) (\<lambda>t.
         sbind (of_result (optional Number_of_string ps ''destinations_limit'')) (\<lambda>limit.
         sbind (on_db_dst (getLocaleTop (r_os env) (r_clock env 0) (r_clock env 1) (r_clock env 2) (r_clock env 3)
                  (r_dst_order env) (r_raw_top env) loc f t limit)) (\<lambda>result.
           if length result = 0 then answer_with (empty_result ''empty result'')
           else answer_with (content_result ''text/plain'' (foldl (\<lambda>response elm. response @ dst_line elm) [] result))))))))"

subsection \<open>Adding a deal\<close>

definition server_addDeal :: "renv \<Rightarrow> unit server_op" where
  "server_addDeal env =
     sbind the_connection (\<lambda>conn. let ps = request_params conn; clk = r_clock env
      in sbind (of_result (optional Date_of_string ps ''return_date'')) (\<lambda>return_date.
         sbind (of_result (Required_of Date_of_string ps ''departure_date'')) (\<lambda>departure_date.
         sbind (of_result (Required_of Number_of_string ps ''price'')) (\<lambda>price.
         sbind (of_result (Required_of CountryCode_of_string ps ''locale'')) (\<lambda>loc.
         sbind (of_result (Required_of CountryCode_of_string ps ''destination_country'')) (\<lambda>dst_country.
         sbind (of_result (Required_of IATACode_of_string ps ''origin'')) (\<lambda>org.
         sbind (of_result (Required_of IATACode_of_string ps ''destination'')) (\<lambda>dst.
         sbind (of_result (Required_of Boolean_of_string ps ''direct_flight'')) (\<lambda>direct_flight.
           if IATACode_eq org dst then throw (Error (''Error origin = destination'' @ [LF]) BadParameter)
           else if isDefined return_date \<and> Date_gt departure_date return_date
           then throw (Error (''departure date > return date'' @ [LF]) BadParameter)
           else sbind (on_db (addDeal (r_os env) (r_oob env) (clk 0) (clk 1) (clk 2) (clk 3) (clk 4) org dst dst_country
                   departure_date return_date direct_flight price (get_body (http (conn_context conn))))) (\<lambda>_.
                sbind (on_db_dst (addDestination (r_os env) (clk 5) (clk 6) loc dst departure_date)) (\<lambda>_.
                answer_with (HttpResponse_body 200 ''OK'' (''Well done'' @ [LF])))))))))))))"

section \<open>Dispatch\<close>

definition reply :: "string \<Rightarrow> unit server_op" where
  "reply text = answer_with (HttpResponse_body 200 ''OK'' (text @ [LF]))"

text \<open>The body of the \<^verbatim>\<open>try\<close> block of \<^verbatim>\<open>on_data\<close>.\<close>

definition handle_request :: "renv \<Rightarrow> unit server_op" where
  "handle_request env =
     sbind the_connection (\<lambda>conn. let rq = request (http (conn_context conn)); p = path (query rq);
          not_found = answer_with (HttpResponse_body 404 ''Not Found'' (''Method unknown'' @ [LF]))
      in (if req_method rq = ''GET''
          then if p = ''/deals/top'' then getTop env
               else if p = ''/deals/uniqueRoutes'' then server_getUniqueRoutes env
               else if p = ''/deals/stats'' then server_getStats env
               else if p = ''/destinations/top'' then getDestiantionsTop env
               else if p = ''/deals/clear'' then sbind (on_db (DealsDatabase_truncate (r_os env))) (\<lambda>_. reply ''deals cleared'')
               else if p = ''/destinations/clear''
               then sbind (on_db_dst (TopDstDatabase_truncate (r_os env))) (\<lambda>_. reply ''destinations cleared'')
               else if p = ''/clear''
               then sbind (on_db (DealsDatabase_truncate (r_os env))) (\<lambda>_.
                    sbind (on_db_dst (TopDstDatabase_truncate (r_os env))) (\<lambda>_. reply ''ALL cleared''))
               else if p = ''/ping'' then reply ''pong''
               else if p = ''/quit'' then sbind quit (\<lambda>_. reply ''quiting...'')
               else not_found
          else if req_method rq = ''POST''
          then if p = ''/deals/add'' then server_addDeal env else not_found
          else not_found))"

definition broken :: string where "broken = ''Something is broken inside me'' @ [LF]"

definition bad_format :: "HttpParser \<Rightarrow> string" where
  "bad_format h = ''Bad HTTP Request format <'' @ get_request_line h @ ''>''"

definition server_on_data :: "renv \<Rightarrow> Context Connection \<Rightarrow> DealsServer \<Rightarrow> (Context Connection \<times> DealsServer) option" where
  "server_on_data env conn srv =
     (if quit_request srv
      then Some (snd (answer_with (HttpResponse_body 503 ''Service unavailable'' (''Service unavailable'' @ [LF])) (conn, srv)))
      else let conn = conn\<lparr>conn_context := (conn_context conn)\<lparr>http := HttpParser_write (http (conn_context conn)) (get_data conn)\<rparr>\<rparr>;
               h = http (conn_context conn)
           in if is_bad_request h then Some (snd (terminateWithError (bad_format h) InternalError (conn, srv)))
              else if \<not> is_request_complete h then Some (conn, srv)
              else case handle_request env (conn, srv) of
                     (Inr _, st) \<Rightarrow> Some st
                   | (Inl (Error msg code), st) \<Rightarrow> Some (snd (terminateWithError msg code st))
                   | (Inl (StdException w), st) \<Rightarrow>
                       if kills (StdException w) then None else Some (snd (terminateWithError broken InternalError st)))"

definition server_on_connect :: "Context Connection \<Rightarrow> Context Connection" where
  "server_on_connect conn = conn"

section \<open>The process\<close>

text \<open>
  A state of the process: the server and the global flag, or the status it has exited with;
  \<open>Killed\<close> when the system has ended it.
\<close>

type_synonym deals_tcp = "(Context, DealsServer) TCPServer"

datatype process_state = Running (got_quit: bool) (server: deals_tcp) | Exited int | Killed

definition signalHandler :: "bool \<Rightarrow> deals_tcp \<Rightarrow> process_state" where
  "signalHandler gotQuitSignal srv = (if gotQuitSignal then Exited (-1) else Running True srv)"

definition DealsServer_process :: "renv net \<Rightarrow> bool \<Rightarrow> deals_tcp \<Rightarrow> process_state" where
  "DealsServer_process net gotQuitSignal srv =
     (case TCPServer_process net \<lparr>http = HttpParser_init\<rparr> server_on_connect server_on_data srv of
        None \<Rightarrow> Killed
      | Some (n, srv) \<Rightarrow>
          let srv = (if gotQuitSignal then srv\<lparr>app := (app srv)\<lparr>quit_request := True\<rparr>\<rparr> else srv)
          in if quit_request (app srv) \<and> n = 0 then Exited 0 else Running False srv)"

end
