(* ===== verification/ResultFormat.thy ===== *)
theory ResultFormat
  imports Server
begin

text \<open>
  The format of search results, \<^verbatim>\<open>DealsServer::writeTopResult\<close>, and the client's way back to the
  data of the deals.
\<close>

text \<open>
  A client reads the answer of a search as the documentation describes: the number before the
  first semicolon is the length of the size information, the other numbers in it are the lengths
  of the data blocks that follow.
\<close>

fun sizes_in :: "string \<Rightarrow> string \<Rightarrow> nat list" where
  "sizes_in acc [] = []"
| "sizes_in acc (c # cs) = (if c = CHR '';'' then digits_value acc # sizes_in [] cs else sizes_in (acc @ [c]) cs)"

fun cut_blocks :: "nat list \<Rightarrow> string \<Rightarrow> string list" where
  "cut_blocks [] s = []"
| "cut_blocks (n # ns) s = take n s # cut_blocks ns (drop n s)"

definition decode_top :: "string \<Rightarrow> string list" where
  "decode_top body =
     (let n = digits_value (takeWhile (\<lambda>c. c \<noteq> CHR '';'') body)
      in cut_blocks (tl (sizes_in [] (take n body))) (drop n body))"

lemma to_string_no_semicolon: "CHR '';'' \<notin> set (to_string n)"
  using to_string_digits [of n] by (auto simp: is_digit_def in_range_def)

lemma small_power: "k + 2 \<le> 9 * (10 :: nat) ^ k"
  by (induction k) simp_all

text \<open>The announced length counts its own digits.\<close>

lemma size_info_length: "length (top_size_info ds) = digits_value (takeWhile (\<lambda>c. c \<noteq> CHR '';'') (top_size_info ds))"
proof -
  define L where "L = length (top_sizes ds)"
  define k where "k = length (to_string L)"
  define m where "m = (if length (to_string (L + k + 1)) \<noteq> k then k + 1 else k)"
  have info: "top_size_info ds = to_string (L + m + 1) @ CHR '';'' # top_sizes ds"
    by (simp add: top_size_info_def L_def k_def m_def Let_def)
  have k0: "0 < k" by (simp add: k_def)
  have Lk: "L < 10 ^ k" using length_to_string [OF k0, of L] by (simp add: k_def)
  have m: "length (to_string (L + m + 1)) = m"
  proof (cases "length (to_string (L + k + 1)) = k")
    case True
    then show ?thesis by (simp add: m_def)
  next
    case False
    have "\<not> length (to_string (L + k + 1)) \<le> k"
    proof
      assume le: "length (to_string (L + k + 1)) \<le> k"
      with False have lt: "length (to_string (L + k + 1)) \<le> k - 1" by simp
      then have "0 < k - 1" using to_string_nonempty [of "L + k + 1"] by (metis length_greater_0_conv less_le_trans)
      with lt have "L + k + 1 < 10 ^ (k - 1)" using length_to_string by blast
      then have "L < 10 ^ (k - 1)" by linarith
      then have "k \<le> k - 1" using length_to_string [OF \<open>0 < k - 1\<close>, of L] unfolding k_def [symmetric] by blast
      with k0 show False by linarith
    qed
    then have "10 ^ k \<le> L + k + 1" using length_to_string [OF k0, of "L + k + 1"] by simp
    then have "\<not> length (to_string (L + (k + 1) + 1)) \<le> k" using length_to_string [OF k0, of "L + (k + 1) + 1"] by simp
    moreover have "L + (k + 1) + 1 < 10 ^ (k + 1)" using Lk small_power [of k] by simp
    then have "length (to_string (L + (k + 1) + 1)) \<le> k + 1" using length_to_string [of "k + 1" "L + (k + 1) + 1"] by (simp del: power_Suc)
    ultimately show ?thesis using False by (simp add: m_def)
  qed
  have "takeWhile (\<lambda>c. c \<noteq> CHR '';'') (top_size_info ds) = to_string (L + m + 1)"
    unfolding info by (subst takeWhile_append2) (use to_string_no_semicolon in auto)
  then have "digits_value (takeWhile (\<lambda>c. c \<noteq> CHR '';'') (top_size_info ds)) = L + m + 1" by simp
  moreover have "length (top_size_info ds) = m + 1 + L" unfolding info length_append m by (simp add: L_def)
  ultimately show ?thesis by simp
qed

lemma sizes_in_number: "CHR '';'' \<notin> set s \<Longrightarrow> sizes_in acc (s @ CHR '';'' # r) = digits_value (acc @ s) # sizes_in [] r"
  by (induction s arbitrary: acc) auto

lemma sizes_in_sizes: "sizes_in [] (top_sizes ds) = map length ds"
proof -
  have "sizes_in [] (concat (map (\<lambda>d. to_string (length d) @ '';'') ds)) = map length ds"
    by (induction ds) (simp_all add: sizes_in_number to_string_no_semicolon)
  then show ?thesis by (simp add: top_sizes_def foldl_append_map)
qed

lemma cut_blocks_concat: "cut_blocks (map length ds) (concat ds) = ds"
  by (induction ds) simp_all

lemma decode_top_response: "decode_top (top_response ds) = ds"
proof -
  let ?i = "top_size_info ds"
  have r: "top_response ds = ?i @ concat ds" using foldl_append_map [of "\<lambda>x. x" ?i ds] by (simp add: top_response_def)
  obtain N where i: "?i = to_string N @ CHR '';'' # top_sizes ds" by (auto simp: top_size_info_def Let_def)
  have t: "takeWhile (\<lambda>c. c \<noteq> CHR '';'') (?i @ x) = to_string N" for x
    unfolding i append_assoc by (subst takeWhile_append2) (use to_string_no_semicolon in auto)
  have "digits_value (takeWhile (\<lambda>c. c \<noteq> CHR '';'') (top_response ds)) = length ?i"
    using size_info_length [of ds] t [of "[]"] t [of "concat ds"] by (simp add: r)
  then have "decode_top (top_response ds) = cut_blocks (tl (sizes_in [] ?i)) (concat ds)" by (simp add: decode_top_def r)
  also have "sizes_in [] ?i = N # map length ds" unfolding i
    by (simp add: sizes_in_number to_string_no_semicolon sizes_in_sizes)
  finally show ?thesis by (simp add: cut_blocks_concat)
qed

lemma content_result_parts:
  assumes "CR \<notin> set ct"
  shows "\<exists>pos. find_sub header_end (HttpResponse_string (content_result ct body)) = Some pos
    \<and> split_on crlf (take pos (HttpResponse_string (content_result ct body))) =
        [status_line 200 ''OK'', ''Content-Type: '' @ ct, ''Content-Length: '' @ to_string (length body)]
    \<and> drop (pos + 4) (HttpResponse_string (content_result ct body)) = body"
proof -
  let ?hs = "[(''Content-Type'', ct), (''Content-Length'', to_string (length body))]"
  define ls where "ls = status_line 200 ''OK'' # map render_header ?hs"
  define j where "j = join crlf ls"
  have s: "HttpResponse_string (content_result ct body) = j @ header_end @ body"
    using response_string [where bs = "[body]" and hs = ?hs and code = 200 and reason = "''OK''"]
    by (simp add: content_result_def ls_def j_def)
  have nb: "\<forall>l \<in> set ls. CR \<notin> set l \<and> l \<noteq> []"
    using assms to_string_no_CR by (auto simp: status_line_def render_header_def ls_def)
  have f: "find_sub header_end (j @ header_end @ body) = Some (length j)"
    unfolding j_def by (rule find_header_end_join [OF nb]) (simp add: ls_def)
  have p: "split_on crlf j = ls" unfolding j_def by (rule split_on_join_crlf [OF nb])
  have l: "ls = [status_line 200 ''OK'', ''Content-Type: '' @ ct, ''Content-Length: '' @ to_string (length body)]"
    by (simp add: ls_def render_header_def)
  have "take (length j) (j @ header_end @ body) = j" "drop (length j + 4) (j @ header_end @ body) = body"
    by (simp_all add: header_end_def)
  with f p show ?thesis unfolding s l [symmetric] by auto
qed

lemma writeTopResult_decoded:
  "\<exists>s. writeTopResult datas (conn, srv) = (Inr (), (conn_close_with s conn, srv)) \<and>
     (if datas = [] then s = HttpResponse_string (empty_result ''Empty result'')
      else \<exists>pos. find_sub header_end s = Some pos
        \<and> split_on crlf (take pos s) = [status_line 200 ''OK'', ''Content-Type: application/octet-stream'',
             ''Content-Length: '' @ to_string (length (drop (pos + 4) s))]
        \<and> decode_top (drop (pos + 4) s) = datas)"
proof (cases "datas = []")
  case True
  then show ?thesis by (simp add: writeTopResult_def answer_with_def)
next
  case False
  let ?s = "HttpResponse_string (content_result ''application/octet-stream'' (top_response datas))"
  from content_result_parts [of "''application/octet-stream''" "top_response datas"] obtain pos where
    "find_sub header_end ?s = Some pos" "split_on crlf (take pos ?s) = [status_line 200 ''OK'', ''Content-Type: application/octet-stream'',
       ''Content-Length: '' @ to_string (length (top_response datas))]" "drop (pos + 4) ?s = top_response datas"
    by auto
  with False show ?thesis
    by (intro exI [of _ ?s]) (simp add: writeTopResult_def answer_with_def decode_top_response del: length_drop)
qed

lemma writeTopResult_decodes:
  obtains s where "writeTopResult datas (conn, srv) = (Inr (), (conn_close_with s conn, srv))"
    "if datas = [] then s = HttpResponse_string (empty_result ''Empty result'')
     else \<exists>pos. find_sub header_end s = Some pos \<and> decode_top (drop (pos + 4) s) = datas"
  using writeTopResult_decoded [of datas conn srv] by (auto split: if_splits)

text \<open>
  C17. The answer to a search can be decoded: a search without results is answered with an empty
  204 response; otherwise the response has a header with the exact length of its body, and a
  client that reads the announced length of the size information, the sizes and the blocks gets
  the data strings back, in order, whatever bytes they contain.
\<close>

theorem top_answer_decodes:
  "\<exists>s. writeTopResult datas (conn, srv) = (Inr (), (conn_close_with s conn, srv)) \<and>
     (if datas = [] then s = HttpResponse_string (empty_result ''Empty result'')
      else \<exists>pos. find_sub header_end s = Some pos
        \<and> split_on crlf (take pos s) = [status_line 200 ''OK'', ''Content-Type: application/octet-stream'',
             ''Content-Length: '' @ to_string (length (drop (pos + 4) s))]
        \<and> decode_top (drop (pos + 4) s) = datas)"
  by (rule writeTopResult_decoded)

text \<open>
  The examples in the comment of \<^verbatim>\<open>writeTopResult\<close> and in the documentation announce 11 and 17 for
  these sizes; the code announces the 17 and 9 bytes that the size information has.
\<close>

theorem documented_examples:
  assumes "map length ds = [121, 121, 45, 21]" "map length ds' = [121, 45]"
  shows "top_size_info ds = ''17;121;121;45;21;''" "top_size_info ds' = ''9;121;45;''"
proof -
  have n: "to_string 121 = ''121''" "to_string 45 = ''45''" "to_string 21 = ''21''" "to_string 14 = ''14''" "to_string 17 = ''17''"
    "to_string 7 = ''7''" "to_string 9 = ''9''" by code_simp+
  have sizes: "top_sizes xs = concat (map (\<lambda>n. to_string n @ '';'') (map length xs))" for xs
    by (simp add: top_sizes_def foldl_append_map o_def)
  have t: "top_sizes ds = ''121;121;45;21;''" "top_sizes ds' = ''121;45;''" by (simp_all add: sizes assms n)
  have l: "length (top_sizes ds) = 14" "length (top_sizes ds') = 7" by (simp_all add: t)
  show "top_size_info ds = ''17;121;121;45;21;''" "top_size_info ds' = ''9;121;45;''"
    by (simp_all add: top_size_info_def Let_def l n) (simp_all add: t)
qed

end
