(* ===== verification/ServerRuns.thy ===== *)
theory ServerRuns
  imports ResultFormat
begin

text \<open>
  How the server treats requests and connections: every request is answered once, and the
  descriptors, time limits and the shutdown over all runs of the process.
\<close>

section \<open>Every request is answered once\<close>

definition silent :: "'a server_op \<Rightarrow> bool" where
  "silent m \<longleftrightarrow> (\<forall>c srv. fst (snd (m (c, srv))) = c)"

definition success :: "HttpResponse \<Rightarrow> bool" where
  "success resp \<longleftrightarrow> status_code resp \<in> {200, 204, 404}"

definition answers :: "unit server_op \<Rightarrow> bool" where
  "answers m \<longleftrightarrow> (\<forall>c srv r c' srv'. m (c, srv) = (r, (c', srv')) \<longrightarrow>
     (case r of Inl e \<Rightarrow> c' = c
      | Inr _ \<Rightarrow> \<exists>resp. success resp \<and> c' = conn_close_with (HttpResponse_string resp) c))"

named_theorems answer_rules

lemma silent_lifts [answer_rules]: "silent (on_db m)" "silent (on_db_dst n)" "silent (of_result r)" "silent (ret x)" "silent (throw e)" "silent quit" "silent the_connection"
  by (simp_all add: silent_def on_db_def on_db_dst_def of_result_def ret_def throw_def quit_def the_connection_def split: prod.splits)

lemma silent_sbind [answer_rules]: "silent m \<Longrightarrow> (\<And>x. silent (f x)) \<Longrightarrow> silent (sbind m f)"
  by (auto simp: silent_def sbind_def split: prod.splits sum.splits) (metis fst_conv snd_conv)+

lemma answers_sbind [answer_rules]:
  assumes "silent m" "\<And>x. answers (f x)"
  shows "answers (sbind m f)"
  unfolding answers_def
proof (intro allI impI)
  fix c srv r c' srv' assume e: "sbind m f (c, srv) = (r, (c', srv'))"
  obtain r1 c1 s1 where m: "m (c, srv) = (r1, (c1, s1))" by (cases "m (c, srv)") auto
  have c1: "c1 = c" using assms(1) m unfolding silent_def by (metis fst_conv snd_conv)
  show "case r of Inl e \<Rightarrow> c' = c | Inr _ \<Rightarrow> \<exists>resp. success resp \<and> c' = conn_close_with (HttpResponse_string resp) c"
  proof (cases r1)
    case (Inl e1)
    with e m c1 show ?thesis by (auto simp: sbind_def)
  next
    case (Inr x)
    then have "f x (c, srv') = f x (c, srv')" "f x (c, s1) = (r, (c', srv'))" using e m c1 by (simp_all add: sbind_def)
    with assms(2) [of x] show ?thesis unfolding answers_def by blast
  qed
qed

lemma answers_throw [answer_rules]: "answers (throw e)"
  by (simp add: answers_def throw_def)

lemma answers_with [answer_rules]: "success resp \<Longrightarrow> answers (answer_with resp)"
  by (auto simp: answers_def answer_with_def)

lemma success_results [answer_rules]:
  "success (empty_result reason)" "success (content_result ct body)" "success (HttpResponse_body 200 reason body)"
  "success (HttpResponse_body 404 reason body)"
  by (simp_all add: success_def empty_result_def content_result_def HttpResponse_new_def HttpResponse_body_def add_header_def HttpResponse_write_def)

lemma answers_if [answer_rules]: "(b \<Longrightarrow> answers m) \<Longrightarrow> (\<not> b \<Longrightarrow> answers n) \<Longrightarrow> answers (if b then m else n)"
  and silent_if [answer_rules]: "(b \<Longrightarrow> silent p) \<Longrightarrow> (\<not> b \<Longrightarrow> silent q) \<Longrightarrow> silent (if b then p else q)"
  by simp_all

lemma write_answers [answer_rules]: "answers (writeTopResult result)" "answers (write_report text)" "answers (reply msg)"
  unfolding writeTopResult_def write_report_def reply_def by (intro answer_rules)+

lemma silent_locale_destinations [answer_rules]: "silent (locale_destinations env rq)"
  unfolding locale_destinations_def by (intro answer_rules)

lemma getTop_answers [answer_rules]: "answers (getTop env)"
  unfolding getTop_def by (intro answer_rules)

lemma reports_answer [answer_rules]: "answers (server_getUniqueRoutes env)" "answers (server_getStats env)"
  unfolding server_getUniqueRoutes_def server_getStats_def by (intro answer_rules)+

lemma getDestiantionsTop_answers [answer_rules]: "answers (getDestiantionsTop env)"
  unfolding getDestiantionsTop_def Let_def by (intro answer_rules)

lemma addDeal_answers [answer_rules]: "answers (server_addDeal env)"
  unfolding server_addDeal_def Let_def by (intro answer_rules)

lemma handle_request_answers: "answers (handle_request env)"
  unfolding handle_request_def Let_def by (intro answer_rules)

definition received :: "Context Connection \<Rightarrow> HttpParser" where
  "received conn = HttpParser_write (http (conn_context conn)) (get_data conn)"

definition unavailable :: HttpResponse where
  "unavailable = HttpResponse_body 503 ''Service unavailable'' (''Service unavailable'' @ [LF])"

definition with_http :: "HttpParser \<Rightarrow> Context Connection \<Rightarrow> Context Connection" where
  "with_http h conn = conn\<lparr>conn_context := (conn_context conn)\<lparr>http := h\<rparr>\<rparr>"

lemma with_http_fields [simp]:
  "data_out (with_http h c) = data_out c" "connection_alive (with_http h c) = connection_alive c" "sockfd (with_http h c) = sockfd c"
  "created_time (with_http h c) = created_time c" "http (conn_context (with_http h c)) = h"
  by (simp_all add: with_http_def)

lemma terminate_answers:
  "\<exists>resp. status_code resp \<in> {400, 500} \<and> terminateWithError msg code (c, srv) = (Inr (), (conn_close_with (HttpResponse_string resp) c, srv))"
proof -
  have "status_code (HttpResponse_body 400 r b) \<in> {400, 500}" "status_code (HttpResponse_body 500 r b) \<in> {400, 500}" for r b
    by (simp_all add: HttpResponse_body_def)
  then show ?thesis unfolding terminateWithError_def answer_with_def by (cases "code = BadParameter") (simp_all, blast+)
qed

lemma server_on_data_eq:
  assumes "\<not> quit_request srv"
  shows "server_on_data env conn srv = (let c = with_http (received conn) conn
     in if is_bad_request (received conn) then Some (snd (terminateWithError (bad_format (received conn)) InternalError (c, srv)))
        else if \<not> is_request_complete (received conn) then Some (c, srv)
        else case handle_request env (c, srv) of
               (Inr _, st) \<Rightarrow> Some st
             | (Inl (Error msg code), st) \<Rightarrow> Some (snd (terminateWithError msg code st))
             | (Inl (StdException w), st) \<Rightarrow> if kills (StdException w) then None else Some (snd (terminateWithError broken InternalError st)))"
  using assms by (simp add: server_on_data_def received_def with_http_def Let_def)

text \<open>The outcome of \<^verbatim>\<open>on_data\<close>: at most one answer, after which the connection is closed.\<close>

lemma server_on_data_outcome:
  assumes "server_on_data env conn srv = Some (conn', srv')"
  shows "if quit_request srv then conn' = conn_close_with (HttpResponse_string unavailable) conn \<and> srv' = srv
    else if is_bad_request (received conn) \<or> is_request_complete (received conn)
    then \<exists>resp. status_code resp \<in> {200, 204, 400, 404, 500} \<and>
           conn' = conn_close_with (HttpResponse_string resp) (with_http (received conn) conn)
    else conn' = with_http (received conn) conn \<and> srv' = srv"
proof (cases "quit_request srv")
  case True
  with assms show ?thesis by (simp add: server_on_data_def answer_with_def unavailable_def)
next
  case q: False
  let ?c = "with_http (received conn) conn"
  note eq = server_on_data_eq [OF q, unfolded Let_def]
  have t: "\<exists>resp. status_code resp \<in> {200, 204, 400, 404, 500} \<and> conn' = conn_close_with (HttpResponse_string resp) ?c"
    if "snd (terminateWithError msg code (?c, s)) = (conn', srv')" for msg code s
  proof -
    obtain resp where "status_code resp \<in> {400, 500}"
      "terminateWithError msg code (?c, s) = (Inr (), (conn_close_with (HttpResponse_string resp) ?c, s))"
      using terminate_answers by blast
    with that show ?thesis by (intro exI [of _ resp]) auto
  qed
  consider "is_bad_request (received conn)" | "\<not> is_bad_request (received conn)" "\<not> is_request_complete (received conn)"
    | "\<not> is_bad_request (received conn)" "is_request_complete (received conn)" by blast
  then show ?thesis
  proof cases
    case 1
    then show ?thesis using t q assms unfolding eq by simp
  next
    case 2
    then show ?thesis using q assms unfolding eq by simp
  next
    case 3
    obtain r c1 s1 where h: "handle_request env (?c, srv) = (r, (c1, s1))" by (cases "handle_request env (?c, srv)") auto
    have a: "case r of Inl e \<Rightarrow> c1 = ?c | Inr _ \<Rightarrow> \<exists>resp. success resp \<and> c1 = conn_close_with (HttpResponse_string resp) ?c"
      using handle_request_answers [of env] h unfolding answers_def by blast
    have "\<exists>resp. status_code resp \<in> {200, 204, 400, 404, 500} \<and> conn' = conn_close_with (HttpResponse_string resp) ?c"
    proof (cases r)
      case (Inr u)
      then show ?thesis using a assms 3 unfolding eq h by (auto simp: success_def)
    next
      case (Inl e)
      then have "c1 = ?c" using a by simp
      then show ?thesis using t assms 3 Inl unfolding eq h by (cases e) (auto split: if_splits)
    qed
    then show ?thesis using q 3 by simp
  qed
qed

lemma request_answered_once:
  assumes "server_on_data env conn srv = Some (conn', srv')"
  shows "if quit_request srv
    then data_out conn' = data_out conn @ HttpResponse_string unavailable \<and> \<not> connection_alive conn' \<and> srv' = srv
    else if is_bad_request (received conn) \<or> is_request_complete (received conn)
    then \<not> connection_alive conn' \<and>
         (\<exists>resp. status_code resp \<in> {200, 204, 400, 404, 500} \<and> data_out conn' = data_out conn @ HttpResponse_string resp)
    else data_out conn' = data_out conn \<and> connection_alive conn' = connection_alive conn \<and>
         http (conn_context conn') = received conn \<and> srv' = srv"
  using server_on_data_outcome [OF assms] by (auto simp: conn_close_with_def split: if_splits)

interpretation deals: connection_handler server_on_data server_on_connect
proof
  fix e c s c' s'
  assume o: "server_on_data e c s = Some (c', s')"
  from server_on_data_outcome [OF o] show "sockfd c' = sockfd c \<and> created_time c' = created_time c"
    by (auto simp: conn_close_with_def split: if_splits)
  from server_on_data_outcome [OF o] show "connection_alive c' \<Longrightarrow> connection_alive c"
    by (auto simp: conn_close_with_def split: if_splits)
qed (simp add: server_on_connect_def)

section \<open>Runs of the process\<close>

text \<open>Turns of the event loop, each with a network of \<open>N\<close>, and signals.\<close>

inductive server_step :: "renv net set \<Rightarrow> process_state \<Rightarrow> process_state \<Rightarrow> bool" for N where
  tick: "net \<in> N \<Longrightarrow> accept_ok net srv \<Longrightarrow> server_step N (Running g srv) (DealsServer_process net g srv)"
| signal: "server_step N (Running g srv) (signalHandler g srv)"

inductive_cases server_stepE: "server_step N st st'"

abbreviation new_context :: Context where "new_context \<equiv> \<lparr>http = HttpParser_init\<rparr>"

lemma tcp_ok_app [simp]: "tcp_ok (srv\<lparr>app := a\<rparr>) = tcp_ok srv"
  by (simp add: tcp_ok_def)

lemma DealsServer_process_Running:
  assumes "DealsServer_process net g srv = Running g' srv'"
  obtains n srv1 where "TCPServer_process net new_context server_on_connect server_on_data srv = Some (n, srv1)"
    "connections srv' = connections srv1" "tcp_ok srv' = tcp_ok srv1" "\<not> (quit_request (app srv') \<and> n = 0)"
proof (cases "TCPServer_process net new_context server_on_connect server_on_data srv")
  case None
  with assms show ?thesis by (simp add: DealsServer_process_def)
next
  case (Some p)
  obtain n srv1 where p: "p = (n, srv1)" by (cases p)
  show ?thesis by (rule that [OF Some [unfolded p]]) (use assms Some p in \<open>auto simp: DealsServer_process_def Let_def split: if_splits\<close>)
qed

lemma server_step_ok:
  assumes "server_step N st st'" "st = Running g srv" "tcp_ok srv" "st' = Running g' srv'"
  shows "tcp_ok srv'"
  using assms
proof cases
  case (tick net srv0 g0)
  then have "accept_ok net srv" "DealsServer_process net g srv = Running g' srv'" using assms(2,4) by simp_all
  then show ?thesis using deals.process_ok(1) [OF assms(3)] by (elim DealsServer_process_Running) blast
next
  case signal
  then show ?thesis using assms by (auto simp: signalHandler_def split: if_splits)
qed

lemma stopped_stays: "(server_step N)\<^sup>*\<^sup>* st st' \<Longrightarrow> st' = Running g srv \<Longrightarrow> \<exists>g0 srv0. st = Running g0 srv0"
  by (induction arbitrary: g srv rule: rtranclp_induct) (auto elim: server_stepE)

lemma server_run_ok:
  assumes "(server_step N)\<^sup>*\<^sup>* (Running g0 srv0) st" "tcp_ok srv0" "st = Running g srv"
  shows "tcp_ok srv"
  using assms
proof (induction arbitrary: g srv rule: rtranclp_induct)
  case (step st st')
  obtain g1 srv1 where st: "st = Running g1 srv1" using step.hyps(2) by (auto elim: server_stepE)
  from server_step_ok [OF step.hyps(2) st step.IH [OF step.prems(1) st] step.prems(2)] show ?case .
qed simp

text \<open>
  C19. In every run of the process the open descriptors are the listening socket and the sockets of
  the connections, each belonging to one connection.  After every turn of the event loop all
  connections that are kept are in use, and one with nothing to send is new or was created at most
  10 seconds and active at most 2 seconds before the turn.
\<close>

theorem server_sockets:
  assumes "(server_step N)\<^sup>*\<^sup>* (Running g0 srv0) (Running g srv)" and "tcp_ok srv0"
    and "accept_ok net srv" and "DealsServer_process net g srv = Running g' srv'"
  shows "tcp_ok srv \<and> tcp_ok srv' \<and> (\<forall>c' \<in> set (connections srv'). is_alive c' \<and> (data_out c' = [] \<longrightarrow>
    c' = TCPConnection_new (net_accept_time net) (net_accept net) new_context \<or>
    (\<exists>c \<in> set (connections srv). sockfd c' = sockfd c \<and> created_time c' = created_time c \<and>
       net_time net - created_time c \<le> 10 \<and> net_time net - last_beat_time c \<le> 2)))"
proof -
  have ok: "tcp_ok srv" by (rule server_run_ok [OF assms(1,2) refl])
  obtain n srv1 where p: "TCPServer_process net new_context server_on_connect server_on_data srv = Some (n, srv1)"
    "connections srv' = connections srv1" "tcp_ok srv' = tcp_ok srv1"
    by (rule DealsServer_process_Running [OF assms(4)]) (rule that)
  from deals.process_ok [OF ok assms(3) p(1)] deals.process_timeouts [OF p(1)] ok show ?thesis
    unfolding p(2,3) MAX_CONNECTION_LIFETIME_SEC_def MAX_CONNECTION_IDLE_TIME_SEC_def server_on_connect_def by blast
qed

text \<open>
  C20. The process ends normally only when a shutdown was requested, by a signal or by a client, and
  no connection is left, so no answer that waits to be sent is lost; it ends with an error only
  when a second signal arrives before the first one was noticed.
\<close>

theorem graceful_exit:
  assumes "server_step N (Running g srv) (Exited n)" and "length (connections srv) < 65535"
  shows "if n = 0
    then \<exists>net srv'. TCPServer_process net new_context server_on_connect server_on_data srv = Some (0, srv')
           \<and> (g \<or> quit_request (app srv')) \<and> connections srv' = []
    else n = -1 \<and> g"
  using assms(1)
proof cases
  case (tick net)
  obtain m srv' where p: "TCPServer_process net new_context server_on_connect server_on_data srv = Some (m, srv')"
    and n: "n = 0" "m = 0" "g \<or> quit_request (app srv')"
    using tick by (auto simp: DealsServer_process_def Let_def split: option.splits if_splits)
  obtain cs s1 b where r: "list_all2 deals.continues (map (check_lifetime (net_time net)) (connections srv)) cs"
    "srv' = get_alive_connections (if b then accept_new_connection net new_context server_on_connect (srv\<lparr>connections := cs, app := s1\<rparr>)
                                   else srv\<lparr>connections := cs, app := s1\<rparr>)"
    "m = word_of_nat (length (connections srv'))"
    by (rule deals.process_result [OF p]) (rule that)
  have "length cs = length (connections srv)" using list_all2_lengthD [OF r(1)] by simp
  then have "length (connections srv') \<le> length (connections srv) + 1" unfolding r(2)
    by (auto simp: get_alive_connections_eq accept_new_connection_def Let_def intro: order_trans [OF length_filter_le])
  then have "unat m = length (connections srv')" using assms(2) unfolding r(3) by (simp add: unat_of_nat)
  then have "connections srv' = []" using n(2) by simp
  then show ?thesis using p n by auto
next
  case signal
  then show ?thesis by (auto simp: signalHandler_def split: if_splits)
qed

section \<open>Examples\<close>

text \<open>A connection that has received a text, a server on the sample databases, and a quiet network.\<close>

definition ping_text :: string where
  "ping_text = ''GET /ping HTTP/1.0'' @ header_end"

definition sample_conn :: "string \<Rightarrow> Context Connection" where
  "sample_conn text = (TCPConnection_new 86500 5 new_context)\<lparr>data_in := text\<rparr>"

lemma received_sample: "received (sample_conn text) = HttpParser_write HttpParser_init text"
  by (simp add: received_def sample_conn_def TCPConnection_new_def get_data_def)

lemma ping_parsed:
  "is_bad_request (HttpParser_write HttpParser_init ping_text) = False"
  "is_request_complete (HttpParser_write HttpParser_init ping_text) = True"
  "req_method (request (HttpParser_write HttpParser_init ping_text)) = ''GET''"
  "path (query (request (HttpParser_write HttpParser_init ping_text))) = ''/ping''"
  by code_simp+

definition sample_env :: renv where
  "sample_env = \<lparr>r_os = healthy_os, r_oob = (\<lambda>_. 0), r_clock = (\<lambda>_. 86500), r_hist_order = rev, r_route_order = rev, r_dst_order = rev,
     r_raw_cheapest = SearchQuery.extend raw_query (SimplyCheapest.fields [] [] []),
     r_raw_country = SearchQuery.extend raw_query (CheapestByCountry.fields [] [] []),
     r_raw_day = SearchQuery.extend raw_query (CheapestByDay.fields [] [] [] False), r_raw_top = raw_top_query\<rparr>"

definition sample_server :: DealsServer where
  "sample_server = \<lparr>srv_db = sample_db, srv_dst = sample_dst_db, quit_request = False\<rparr>"

definition sample_tcp :: "bool \<Rightarrow> Context Connection list \<Rightarrow> deals_tcp" where
  "sample_tcp q cs = \<lparr>connections = cs, srv_sockfd = 3, open_fds = insert 3 (sockfd ` set cs),
     app = sample_server\<lparr>quit_request := q\<rparr>\<rparr>"

definition quiet_net :: "renv net" where
  "quiet_net = \<lparr>net_time = 86502, net_poll = (\<lambda>_. PollTimeout), net_accept = -1, net_accept_time = 86502\<rparr>"

theorem server_sockets_witness:
  "\<exists>srv'. DealsServer_process quiet_net False (sample_tcp False [sample_conn ping_text]) = Running False srv'
     \<and> tcp_ok (sample_tcp False [sample_conn ping_text]) \<and> tcp_ok srv'"
proof -
  let ?srv = "sample_tcp False [sample_conn ping_text]"
  have c: "check_lifetime 86502 (sample_conn ping_text) = sample_conn ping_text" "is_alive (sample_conn ping_text)" "sockfd (sample_conn ping_text) = 5"
    by (simp_all add: check_lifetime_def sample_conn_def TCPConnection_new_def MAX_CONNECTION_LIFETIME_SEC_def MAX_CONNECTION_IDLE_TIME_SEC_def
        is_alive_def has_something_to_send_def)
  have ok: "tcp_ok ?srv" "accept_ok quiet_net ?srv" by (simp_all add: tcp_ok_def accept_ok_def quiet_net_def sample_tcp_def c)
  have none: "{c. c = sample_conn ping_text \<and> \<not> is_alive c} = {}" using c(2) by auto
  have "DealsServer_process quiet_net False ?srv = Running False ?srv"
    by (simp add: none DealsServer_process_def TCPServer_process_def quiet_net_def sample_tcp_def c get_alive_connections_eq Let_def)
  from server_sockets [OF rtranclp.rtrancl_refl ok this] this show ?thesis by blast
qed

theorem graceful_exit_witness:
  "\<exists>net srv'. TCPServer_process net new_context server_on_connect server_on_data (sample_tcp True []) = Some (0, srv') \<and> connections srv' = []"
proof -
  have "DealsServer_process quiet_net False (sample_tcp True []) = Exited 0"
    by (simp add: DealsServer_process_def TCPServer_process_def quiet_net_def sample_tcp_def get_alive_connections_eq Let_def)
  moreover have "accept_ok quiet_net (sample_tcp True [])" by (simp add: accept_ok_def quiet_net_def)
  ultimately have "server_step UNIV (Running False (sample_tcp True [])) (Exited 0)" using server_step.tick [OF UNIV_I] by metis
  moreover have "length (connections (sample_tcp True [])) < 65535" by (simp add: sample_tcp_def)
  ultimately show ?thesis using graceful_exit [of UNIV False "sample_tcp True []" 0] by auto
qed

end
