(* ===== verification/RecordTypes.thy ===== *)
theory RecordTypes
  imports ServerRuns MemorySafety
begin

text \<open>
  The shape of the records in the shared memory: what every process may rely on when it reads a
  record that another one has written.  The parameter classes of \<^verbatim>\<open>types.cpp\<close> admit only such values,
  and \<^verbatim>\<open>deals_server.cpp\<close> checks the rest before it stores them.
\<close>

section \<open>Well-formed records\<close>

text \<open>The code of three characters none of which is a lower-case letter.\<close>

definition place_code :: "u32 \<Rightarrow> bool" where
  "place_code c \<longleftrightarrow> toUpperCase (code_to_origin c) = code_to_origin c \<and> origin_to_code (code_to_origin c) = c"

text \<open>The bit of one weekday.\<close>

definition weekday_bit :: "u8 \<Rightarrow> bool" where
  "weekday_bit m \<longleftrightarrow> m \<in> set (map (\<lambda>k. push_bit k 1) [0..<7])"

definition listed_country :: "u8 \<Rightarrow> bool" where
  "listed_country c \<longleftrightarrow> unat c < length COUNTRIES"

text \<open>The place a deal names lies inside a page of \<open>n\<close> elements.\<close>

definition in_page :: "u32 \<Rightarrow> DealInfo \<Rightarrow> bool" where
  "in_page n d \<longleftrightarrow> unat (d_index d) + unat (d_size d) \<le> unat n"

text \<open>An element of the index of deals that is not unused memory.\<close>

definition deal_typed :: "DealInfo \<Rightarrow> bool" where
  "deal_typed d \<longleftrightarrow> place_code (d_origin d) \<and> place_code (d_destination d) \<and> d_origin d \<noteq> d_destination d \<and>
     listed_country (d_destination_country d) \<and> weekday_bit (d_departure_day_of_week d) \<and> weekday_bit (d_return_day_of_week d) \<and>
     (d_return_date d = 0 \<or> d_departure_date d \<le> d_return_date d) \<and> \<not> d_overriden d \<and>
     length (d_page_name d) = MEMPAGE_NAME_MAX_LEN \<and> in_page DEALDATA_ELEMENTS d"

definition deal_element :: "DealInfo \<Rightarrow> bool" where
  "deal_element d \<longleftrightarrow> d = deal_zero \<or> deal_typed d"

definition dst_element :: "DstRecord \<Rightarrow> bool" where
  "dst_element r \<longleftrightarrow> r = dst_zero \<or> listed_country (i_locale r) \<and> place_code (i_destination r)"

lemma deal_element_in_page: "deal_element d \<Longrightarrow> in_page DEALDATA_ELEMENTS d"
  by (auto simp: deal_element_def deal_typed_def in_page_def deal_zero_def)

lemma element_zero [simp]: "deal_element deal_zero" "dst_element dst_zero"
  by (simp_all add: deal_element_def dst_element_def)

section \<open>Parameters\<close>

lemma Required_of_source:
  assumes "Required_of ctor ps name = Inr b"
  obtains s where "ctor s = Inr b" "\<not> isUndefined b"
  using assms by (auto simp: Required_of_def require_defined_def rbind_eq_Inr split: sum.splits if_splits)

lemma toUpperCase_idem [simp]: "toUpperCase (toUpperCase s) = toUpperCase s"
  by (simp add: toUpperCase_def)

lemma required_place:
  assumes "Required_of IATACode_of_string ps name = Inr c"
  shows "place_code (iata_code c)" "\<not> isUndefined c"
proof -
  obtain s where s: "IATACode_of_string s = Inr c" "\<not> isUndefined c" by (rule Required_of_source [OF assms])
  then show "\<not> isUndefined c" by simp
  have "length s = 3" "iata_code c = origin_to_code (toUpperCase s)"
    using s by (auto simp: IATACode_of_string_def isUndefined_def split: if_splits)
  then show "place_code (iata_code c)" using origin_roundtrip [of "toUpperCase s"] by (simp add: place_code_def) (simp add: toUpperCase_def)
qed

lemma required_country:
  assumes "Required_of CountryCode_of_string ps name = Inr c"
  shows "listed_country (country_code c)"
proof -
  obtain s where s: "CountryCode_of_string s = Inr c" "\<not> isUndefined c" by (rule Required_of_source [OF assms])
  then have "length s = 2" "country_to_code (toUpperCase s) = Inr (country_code c)"
    by (auto simp: CountryCode_of_string_def isUndefined_def rbind_eq_Inr split: if_splits)
  then have "length (toUpperCase s) = 2" "country_to_code (toUpperCase s) = Inr (country_code c)" by (simp_all add: toUpperCase_def)
  from country_to_code_sound [OF this(2,1)] show ?thesis unfolding listed_country_def COUNTRIES_length by blast
qed

lemma weekday_bit_of_date: "get_bitmask (Weekdays_of_Date oob date) = Inr m \<Longrightarrow> weekday_bit m"
proof -
  let ?d = "Date_day_of_week oob date"
  assume m: "get_bitmask (Weekdays_of_Date oob date) = Inr m"
  have "uint ?d < 7" by (simp add: Date_day_of_week_def uint_day_of_week Let_def)
  then have "unat ?d < 7" unfolding uint_nat by linarith
  then show "weekday_bit m" using m by (auto simp: get_bitmask_def Weekdays_of_Date_def weekday_bit_def)
qed

section \<open>The records that are stored\<close>

lemma deal_info_typed:
  assumes "deal_info oob ts org dst country dep retd direct price ee = Inr info"
    and "place_code (iata_code org)" "place_code (iata_code dst)" "\<not> IATACode_eq org dst" "listed_country (country_code country)"
    and "isDefined retd \<Longrightarrow> \<not> Date_gt dep retd" and "unat (ee_index ee) + unat (ee_size ee) \<le> unat DEALDATA_ELEMENTS"
  shows "deal_typed info"
proof -
  have bits: "weekday_bit (d_departure_day_of_week info)" "weekday_bit (d_return_day_of_week info)"
    using assms(1) unfolding deal_info_def Let_def rbind_eq_Inr by (auto dest!: weekday_bit_of_date)
  have f: "d_origin info = iata_code org" "d_destination info = iata_code dst" "d_destination_country info = country_code country"
    "\<not> isUndefined org" "\<not> isUndefined dst" "d_departure_date info = date_code dep" "\<not> isUndefined dep"
    "d_return_date info = (if isUndefined retd then 0 else date_code retd)" "\<not> d_overriden info"
    "d_page_name info = strncpy MEMPAGE_NAME_MAX_LEN (ee_page_name ee)" "d_index info = ee_index ee" "d_size info = ee_size ee"
    using assms(1) unfolding deal_info_def Let_def rbind_eq_Inr
    by (auto simp: IATACode_get_code_def CountryCode_get_code_def Date_get_code_def isUndefined_def rbind_eq_Inr split: if_splits)
  have "iata_code org \<noteq> iata_code dst" using assms(4) f(4,5) by (simp add: IATACode_eq_def)
  moreover have "d_return_date info = 0 \<or> d_departure_date info \<le> d_return_date info"
    using assms(6) f(6-8) by (auto simp: Date_gt_def date_rel_def isDefined_def isUndefined_def not_less)
  moreover have "length (d_page_name info) = MEMPAGE_NAME_MAX_LEN" by (simp add: f strncpy_def)
  ultimately show ?thesis using assms(2,3,5,7) bits f by (simp add: deal_typed_def in_page_def)
qed

lemma dst_record_typed:
  assumes "dst_record loc dst dep = Inr r" "listed_country (country_code loc)" "place_code (iata_code dst)"
  shows "dst_element r"
  using assms unfolding dst_record_def rbind_eq_Inr
  by (auto simp: dst_element_def CountryCode_get_code_def IATACode_get_code_def split: if_splits)

end
