(* ===== verification/ServerSafety.thy ===== *)
theory ServerSafety
  imports RecordTypes
begin

text \<open>
  Memory safety of the whole server: no handler reads outside its memory, from the parsing of the
  parameters down to the pages of the tables.  Whatever the requests contain, whatever the system
  calls answer and whatever the clock shows, every request is answered and the process lives on.
\<close>

section \<open>Operations that stay inside their memory\<close>

subsection \<open>Parameters\<close>

lemma nosegv_stol [nosegv_rules]: "nosegv (stol s)"
  by (simp add: nosegv_def stol_def strtol_def kills_def segv_def sigfpe_def Let_def)

lemma nosegv_getters [nosegv_rules]:
  "nosegv (IATACode_get_code c)" "nosegv (CountryCode_get_code k)" "nosegv (Date_get_code d)" "nosegv (get_bitmask w)"
  "nosegv (get_value n)" "nosegv (isTrue b)"
  unfolding IATACode_get_code_def CountryCode_get_code_def Date_get_code_def date_not_defined_def get_bitmask_def get_value_def isTrue_def
  by (intro nosegv_rules)+

lemma nosegv_insert_codes [nosegv_rules]: "(\<And>s. nosegv (ctor s)) \<Longrightarrow> nosegv (insert_codes ctor eq codes ts)"
  by (induction ts arbitrary: codes) (simp_all add: nosegv_rules)

lemma nosegv_weekdays [nosegv_rules]: "nosegv (weekdays_bitmask_loop s acc ds)"
  by (induction ds arbitrary: acc) (simp_all add: nosegv_rules Let_def)

lemma nosegv_country [nosegv_rules]: "nosegv (country_to_code_loop s x cs)"
  by (induction cs arbitrary: x) (simp_all add: nosegv_rules)

lemma nosegv_date_to_int [nosegv_rules]: "nosegv (date_to_int s)"
  by (auto simp: date_to_int_def wrong_date_def Let_def nosegv_rules split: sum.splits)

lemma nosegv_constructors [nosegv_rules]:
  "nosegv (IATACode_of_string s)" "nosegv (CountryCode_of_string s)" "nosegv (Date_of_string s)"
  "nosegv (Number_of_string s)" "nosegv (Boolean_of_string s)" "nosegv (Weekdays_of_string s)"
  unfolding IATACode_of_string_def CountryCode_of_string_def country_to_code_def Date_of_string_def Number_of_string_def Boolean_of_string_def
    Weekdays_of_string_def weekdays_bitmask_def Let_def
  by (intro nosegv_rules)+

lemma nosegv_lists [nosegv_rules]: "nosegv (IATACodes_of_string s)" "nosegv (CountryCodes_of_string s)"
  unfolding IATACodes_of_string_def CountryCodes_of_string_def by (intro nosegv_rules)+

lemma nosegv_bad_parameter: "nosegv r \<Longrightarrow> r = Inl e \<Longrightarrow> nosegv (Inl (bad_parameter n sep e))"
  by (cases e) (auto simp: bad_parameter_def nosegv_def)

lemma nosegv_optional [nosegv_rules]:
  assumes "\<And>s. nosegv (ctor s)"
  shows "nosegv (Optional_of ctor ps name)"
  using nosegv_bad_parameter [OF assms [of "ObjectMap_at ps name"]] by (auto simp: Optional_of_def nosegv_rules split: sum.splits)

lemma nosegv_optional_value [nosegv_rules]: "(\<And>s. nosegv (ctor s)) \<Longrightarrow> nosegv (optional ctor ps name)"
  unfolding optional_def by (intro nosegv_rules)

lemma nosegv_required [nosegv_rules]:
  assumes "\<And>s. nosegv (ctor s)"
  shows "nosegv (Required_of ctor ps name)" "nosegv (Required_of_Optional ctor p)"
proof -
  have r: "nosegv (require_defined ctor s)" for s unfolding require_defined_def by (intro nosegv_rules assms)
  show "nosegv (Required_of ctor ps name)"
    using nosegv_bad_parameter [OF r [of "ObjectMap_at ps name"]] by (auto simp: Required_of_def nosegv_rules split: sum.splits)
  show "nosegv (Required_of_Optional ctor p)"
    using nosegv_bad_parameter [OF r [of "parameter_value p"]] by (auto simp: Required_of_Optional_def nosegv_rules split: sum.splits)
qed

lemma nosegv_top_request [nosegv_rules]: "nosegv (read_top_request ps)"
  unfolding read_top_request_def by (intro nosegv_rules)

lemma nosegv_add_codes [nosegv_rules]: "nosegv (add_codes codes ds)"
proof (induction ds arbitrary: codes)
  case (Cons d ds)
  then show ?case by (auto simp: IATACodes_add_code_def IATACode_of_dbcode_def intro!: nosegv_rules)
qed (simp add: nosegv_rules)

lemma nosegv_fill_query [nosegv_rules]:
  fixes q :: "'x query"
  shows "nosegv (fill_query now p q)"
  using fill_query_error [of now p q] by (auto simp: nosegv_def)

lemma safe_result [safe_rules]:
  "nosegv r \<Longrightarrow> (\<And>x. safe_op I P (f x) Q) \<Longrightarrow> safe_op I P (\<lambda>s. case r of Inl e \<Rightarrow> (Inl e, s) | Inr x \<Rightarrow> f x s) Q"
  by (cases r) (simp_all add: safe_op_def nosegv_def)

subsection \<open>Deals and their data\<close>

lemma safe_read_deal:
  assumes "os_fit psz os" "in_page n d"
  shows "safe_op (mem_safe psz E pages n) any (read_deal os d) anything"
proof -
  have g: "safe_op (mem_safe psz E pages n) any (get_element_data os ee) (\<lambda>xs _. unat n - unat (ee_index ee) \<le> length xs)" for ee
    unfolding get_element_data_def
    by (rule safe_sbind [OF safe_getPageByName [OF assms(1)]], rule safe_returns) (auto dest: usable_elements(1) intro: diff_le_mono)
  have "unat (d_size d) \<le> length xs" if "unat n - unat (d_index d) \<le> length xs" for xs :: "char list"
    using assms(2) that unfolding in_page_def by linarith
  then show ?thesis unfolding read_deal_def
    by (intro safe_sbind [OF g]) (auto intro!: safe_returns)
qed

lemma safe_fill_deals [safe_rules]:
  "os_fit psz os \<Longrightarrow> \<forall>d \<in> set ds. in_page n d \<Longrightarrow> safe_op (mem_safe psz E pages n) any (fill_deals_with_data os ds) anything"
proof (induction ds)
  case (Cons d ds)
  then show ?case unfolding fill_deals_with_data.simps by (intro safe_then safe_read_deal safe_ret) simp_all
qed (simp add: safe_op_def nosegv_rules)

subsection \<open>Searches\<close>

context deal_aggregation
begin

text \<open>An execution stays inside its memory and selects among the deals of the table.\<close>

lemma safe_execute:
  fixes E :: "DealInfo \<Rightarrow> bool"
  assumes "os_fit psz os" "nosegv (pre_search q)" "iteration_order iter"
    and fresh: "\<And>(t :: DealInfo Table) q0. pre_search q = Inr q0 \<Longrightarrow> hist (search_time ts t q0) = [] \<and> grouped (search_time ts t q0) = [] \<and> pending (search_time ts t q0) = []"
  shows "safe_op (mem_safe psz E pages n) any (execute os ts time0 now pre_search process_deal (post_search iter) get_result q)
    (\<lambda>res _. \<forall>d \<in> set res. E d)"
proof (cases "pre_search q")
  case (Inl e)
  with assms(2) show ?thesis by (simp add: safe_op_def execute_def nosegv_def)
next
  case (Inr q0)
  let ?finish = "\<lambda>q. let q = post_search iter q; result = get_result q
     in ret (if length result > unat (filter_result_limit q) then take (unat (filter_result_limit q)) result else result)"
  have fin: "safe_op (mem_safe psz E pages n) (\<lambda>_. folded E (process_element process_deal) (search_time ts t q0) q1) (?finish q1) (\<lambda>res _. \<forall>d \<in> set res. E d)"
    for t :: "DealInfo Table" and q1
  proof (rule safe_returns)
    fix u :: "DealInfo Table" assume u: "mem_safe psz E pages n u" and "folded E (process_element process_deal) (search_time ts t q0) q1"
    then obtain es where es: "\<forall>e \<in> set es. E e" "q1 = run (search_time ts t q0) es" by (auto simp: folded_def)
    let ?q = "search_time ts t q0"
    obtain ks where ks: "set ks = key ?q ` set (filter (matches ?q) es)"
      "get_result (post_search iter q1) = std_sort (lt ?q) (map (\<lambda>k. group_result (group (key ?q) (filter (matches ?q) es) k)) ks)"
      by (rule run_result [of ?q iter es]) (use fresh [OF Inr, of t] assms(3) that es(2) in auto)
    have "set (get_result (post_search iter q1)) \<subseteq> set es"
      unfolding ks(2) using group_result_in_group [of _ "key ?q" "filter (matches ?q) es"] ks(1) by auto
    with es(1) u show "\<exists>res t'. ?finish q1 u = (Inr res, t') \<and> mem_safe psz E pages n t' \<and> (\<forall>d \<in> set res. E d)"
      by (auto simp: Let_def dest!: in_set_takeD)
  qed
  have "execute os ts time0 now pre_search process_deal (post_search iter) get_result q =
      (\<lambda>t. sbind (processRecords os time0 now (process_element process_deal) (search_time ts t q0)) ?finish t)"
    using Inr by (simp add: fun_eq_iff execute_def search_time_def)
  moreover have "safe_op (mem_safe psz E pages n) any (\<lambda>t. sbind (processRecords os time0 now (process_element process_deal) (search_time ts t q0)) ?finish t)
    (\<lambda>res _. \<forall>d \<in> set res. E d)"
    by (rule safe_state [where m = "\<lambda>t. sbind (processRecords os time0 now (process_element process_deal) (search_time ts t q0)) ?finish"],
        rule safe_sbind [OF safe_processRecords [OF assms(1)] fin])
  ultimately show ?thesis by simp
qed

end

lemma nosegv_pre_search [nosegv_rules]:
  "nosegv (SimplyCheapest_pre_search q)" "nosegv (CheapestByCountry_pre_search c)" "nosegv (CheapestByDay_pre_search d)"
  unfolding SimplyCheapest_pre_search_def CheapestByCountry_pre_search_def CheapestByDay_pre_search_def checkInputParams_def Let_def
  by (intro nosegv_rules)+

lemma safe_SimplyCheapest:
  assumes "os_fit psz os" "iteration_order iter" "fill_query now0 p (SimplyCheapest_new raw) = Inr q"
  shows "safe_op (mem_safe psz E pages n) any (SimplyCheapest_execute os ts time0 now iter q) (\<lambda>res _. \<forall>d \<in> set res. E d)"
proof -
  have f: "DealsCheapest.grouped_destinations q = [] \<and> grouped_destinations_hist q = [] \<and> sc_exec_result q = []"
    using cheapest_members [OF fill_query_more(1) [OF assms(3)]] by (simp add: SimplyCheapest_new_def)
  show ?thesis unfolding SimplyCheapest_execute_def
    by (rule cheapest.safe_execute [OF assms(1) nosegv_pre_search(1) assms(2)])
      (use f in \<open>auto simp: SimplyCheapest_pre_search_def search_time_def split: if_splits\<close>)
qed

lemma safe_CheapestByCountry:
  assumes "os_fit psz os" "iteration_order iter" "fill_query now0 p (CheapestByCountry_new raw) = Inr q"
  shows "safe_op (mem_safe psz E pages n) any (CheapestByCountry_execute os ts time0 now iter q) (\<lambda>res _. \<forall>d \<in> set res. E d)"
proof -
  have f: "grouped_by_country q = [] \<and> grouped_by_country_hist q = [] \<and> cc_exec_result q = []"
    using country_members [OF fill_query_more(1) [OF assms(3)]] by (simp add: CheapestByCountry_new_def)
  show ?thesis unfolding CheapestByCountry_execute_def
    by (rule by_country.safe_execute [OF assms(1) nosegv_pre_search(2) assms(2)])
      (use f in \<open>auto simp: CheapestByCountry_pre_search_def search_time_def Let_def split: if_splits\<close>)
qed

lemma safe_CheapestByDay:
  assumes "os_fit psz os" "iteration_order iter" "fill_query now0 p (CheapestByDay_new raw) = Inr q"
  shows "safe_op (mem_safe psz E pages n) any (CheapestByDay_execute os ts time0 now iter q) (\<lambda>res _. \<forall>d \<in> set res. E d)"
proof -
  have f: "grouped_by_date q = [] \<and> grouped_by_date_hist q = [] \<and> cd_exec_result q = []"
    using day_members [OF fill_query_more(1) [OF assms(3)]] by (simp add: CheapestByDay_new_def)
  have "grouped_by_date_hist (search_time ts t q0) = [] \<and> grouped_by_date (search_time ts t q0) = [] \<and>
      cd_exec_result (search_time ts t q0) = []" if pre: "CheapestByDay_pre_search q = Inr q0" for q0 and t :: "DealInfo Table"
  proof -
    obtain k b where "q0 = q\<lparr>filter_result_limit := k, group_by_return_date := b\<rparr>" by (rule pre_search_kept [OF pre]) (rule that)
    then show ?thesis using f by (simp add: search_time_def)
  qed
  then show ?thesis unfolding CheapestByDay_execute_def
    by (rule by_date.safe_execute [OF assms(1) nosegv_pre_search(3) assms(2)])
qed

section \<open>The databases\<close>

text \<open>
  The invariant of the deals database: both tables are safe, and every element of the index,
  visible or not, is zero or well formed; in particular it points into a page of the data table.
\<close>

definition db_safe :: "nat \<Rightarrow> DealsDatabase \<Rightarrow> bool" where
  "db_safe psz db \<longleftrightarrow> mem_safe psz deal_element (unat DEALINFO_PAGES) DEALINFO_ELEMENTS (db_index db) \<and>
     mem_safe psz any (unat DEALDATA_PAGES) DEALDATA_ELEMENTS (db_data db)"

definition dst_safe :: "nat \<Rightarrow> TopDstDatabase \<Rightarrow> bool" where
  "dst_safe psz db \<longleftrightarrow> mem_safe psz dst_element (unat TOPDST_PAGES) TOPDST_ELEMENTS (dst_index db)"

lemma safe_on_index [safe_rules]:
  assumes "safe_op (mem_safe psz deal_element (unat DEALINFO_PAGES) DEALINFO_ELEMENTS) any m (\<lambda>x _. Q x)"
  shows "safe_op (db_safe psz) any (on_index m) (\<lambda>x _. Q x)"
proof (rule safe_opI)
  fix db r db' assume db: "db_safe psz db" and run: "on_index m db = (r, db')"
  obtain t where m: "m ((db_index db)\<lparr>global_expire_at := db_context db\<rparr>) = (r, t)" "db' = db\<lparr>db_index := t, db_context := global_expire_at t\<rparr>"
    using run by (auto simp: on_index_def split: prod.splits)
  have "mem_safe psz deal_element (unat DEALINFO_PAGES) DEALINFO_ELEMENTS ((db_index db)\<lparr>global_expire_at := db_context db\<rparr>)"
    using db by (simp add: db_safe_def)
  from safe_opD [OF assms this TrueI m(1)] db m(2) show "nosegv r \<and> db_safe psz db' \<and> (\<forall>x. r = Inr x \<longrightarrow> Q x)"
    by (auto simp: db_safe_def)
qed

lemma safe_on_data [safe_rules]:
  assumes "safe_op (mem_safe psz any (unat DEALDATA_PAGES) DEALDATA_ELEMENTS) any m (\<lambda>x _. Q x)"
  shows "safe_op (db_safe psz) any (on_data m) (\<lambda>x _. Q x)"
proof (rule safe_opI)
  fix db r db' assume db: "db_safe psz db" and run: "on_data m db = (r, db')"
  obtain t where m: "m ((db_data db)\<lparr>global_expire_at := db_context db\<rparr>) = (r, t)" "db' = db\<lparr>db_data := t, db_context := global_expire_at t\<rparr>"
    using run by (auto simp: on_data_def split: prod.splits)
  have "mem_safe psz any (unat DEALDATA_PAGES) DEALDATA_ELEMENTS ((db_data db)\<lparr>global_expire_at := db_context db\<rparr>)"
    using db by (simp add: db_safe_def)
  from safe_opD [OF assms this TrueI m(1)] db m(2) show "nosegv r \<and> db_safe psz db' \<and> (\<forall>x. r = Inr x \<longrightarrow> Q x)"
    by (auto simp: db_safe_def)
qed

lemma safe_on_dst_index [safe_rules]:
  assumes "safe_op (mem_safe psz dst_element (unat TOPDST_PAGES) TOPDST_ELEMENTS) any m (\<lambda>x _. Q x)"
  shows "safe_op (dst_safe psz) any (on_dst_index m) (\<lambda>x _. Q x)"
proof (rule safe_opI)
  fix db r db' assume db: "dst_safe psz db" and run: "on_dst_index m db = (r, db')"
  obtain t where m: "m (dst_index db) = (r, t)" "db' = db\<lparr>dst_index := t\<rparr>" using run by (auto simp: on_dst_index_def split: prod.splits)
  from safe_opD [OF assms db [unfolded dst_safe_def] TrueI m(1)] m(2) show "nosegv r \<and> dst_safe psz db' \<and> (\<forall>x. r = Inr x \<longrightarrow> Q x)"
    by (auto simp: dst_safe_def)
qed

lemma safe_searchFor:
  assumes "os_fit psz os"
    and "\<And>q. fill_query now p q0 = Inr q \<Longrightarrow>
      safe_op (mem_safe psz deal_element (unat DEALINFO_PAGES) DEALINFO_ELEMENTS) any (run q) (\<lambda>res _. \<forall>d \<in> set res. deal_element d)"
  shows "safe_op (db_safe psz) any (searchFor os now run q0 p) anything"
proof (cases "fill_query now p q0")
  case (Inl e)
  then show ?thesis using nosegv_fill_query [of now p q0] by (simp add: searchFor_def safe_op_def nosegv_def)
next
  case (Inr q)
  have data: "safe_op (db_safe psz) (\<lambda>_. \<forall>d \<in> set ds. deal_element d) (on_data (fill_deals_with_data os ds)) anything" for ds
    by (rule safe_pure, rule safe_on_data, rule safe_fill_deals [OF assms(1)]) (simp add: deal_element_in_page)
  from safe_sbind [OF safe_on_index [OF assms(2) [OF Inr]] data] show ?thesis
    using Inr by (simp add: safe_op_def searchFor_def)
qed

lemma nosegv_deal_info [nosegv_rules]: "nosegv (deal_info oob ts org dst country dep retd direct price ee)"
  unfolding deal_info_def Let_def by (intro nosegv_rules) (auto intro!: nosegv_rules split: prod.splits)

lemma safe_addDeal:
  assumes "os_fit psz os" and "place_code (iata_code org)" "place_code (iata_code dst)" "\<not> IATACode_eq org dst"
    "listed_country (country_code country)" "isDefined retd \<Longrightarrow> \<not> Date_gt dep retd"
  shows "safe_op (db_safe psz) any (addDeal os oob td0 td ts ti0 ti org dst country dep retd direct price data) anything"
proof -
  let ?n = "word_of_nat (length data) :: u32"
  have d: "safe_op (db_safe psz) any (on_data (addRecord os td0 td data ?n 0)) (\<lambda>ee _. unat (ee_index ee) + unat (ee_size ee) \<le> unat DEALDATA_ELEMENTS)"
    by (rule safe_on_data, rule safe_addRecord [OF assms(1)]) (simp_all add: unat_of_nat)
  have i: "safe_op (db_safe psz) (\<lambda>_. unat (ee_index ee) + unat (ee_size ee) \<le> unat DEALDATA_ELEMENTS)
     (\<lambda>db. case deal_info oob ts org dst country dep retd direct price ee of Inl e \<Rightarrow> (Inl e, db)
       | Inr info \<Rightarrow> sbind (on_index (addRecord os ti0 ti [info] 1 0)) (\<lambda>_. ret ()) db) anything" for ee
  proof (rule safe_pure)
    assume fit: "unat (ee_index ee) + unat (ee_size ee) \<le> unat DEALDATA_ELEMENTS"
    show "safe_op (db_safe psz) any (\<lambda>db. case deal_info oob ts org dst country dep retd direct price ee of Inl e \<Rightarrow> (Inl e, db)
       | Inr info \<Rightarrow> sbind (on_index (addRecord os ti0 ti [info] 1 0)) (\<lambda>_. ret ()) db) anything"
    proof (cases "deal_info oob ts org dst country dep retd direct price ee")
      case (Inl e)
      then show ?thesis using nosegv_deal_info [of oob ts org dst country dep retd direct price ee] by (simp add: safe_op_def nosegv_def)
    next
      case (Inr info)
      have "deal_element info" using deal_info_typed [OF Inr assms(2-6) fit] by (simp add: deal_element_def)
      then have a: "safe_op (db_safe psz) any (on_index (addRecord os ti0 ti [info] 1 0)) anything"
        by (intro safe_on_index safe_any [OF safe_addRecord [OF assms(1)]]) simp_all
      have "safe_op (db_safe psz) any (sbind (on_index (addRecord os ti0 ti [info] 1 0)) (\<lambda>_. ret ())) anything"
        by (intro safe_then a safe_ret)
      then show ?thesis using Inr by simp
    qed
  qed
  from safe_sbind [OF d i] show ?thesis unfolding addDeal_def Let_def .
qed

lemma safe_reports [safe_rules]:
  assumes "os_fit psz os"
  shows "safe_op (db_safe psz) any (getUniqueRoutesDeals os time0 now iter) anything" "safe_op (db_safe psz) any (getStats os time0 now) anything"
    "safe_op (db_safe psz) any (DealsDatabase_truncate os) anything"
  unfolding getUniqueRoutesDeals_def getUniqueRoutesRoutine_def getStats_def getStatsRoutine_def DealsDatabase_truncate_def
  by (intro safe_on_index safe_on_data safe_then safe_any [OF safe_processRecords [OF assms]] safe_ret safe_cleanup [OF assms])+

lemma safe_addDestination:
  assumes "os_fit psz os" and "listed_country (country_code loc)" "place_code (iata_code dst)"
  shows "safe_op (dst_safe psz) any (addDestination os t0 now loc dst dep) anything"
proof (cases "dst_record loc dst dep")
  case (Inl e)
  have "nosegv (dst_record loc dst dep)" unfolding dst_record_def by (intro nosegv_rules)
  then show ?thesis using Inl by (simp add: safe_op_def addDestination_def nosegv_def)
next
  case (Inr r)
  have a: "safe_op (dst_safe psz) any (on_dst_index (addRecord os t0 now [r] 1 0)) anything"
    using dst_record_typed [OF Inr assms(2,3)]
    by (intro safe_on_dst_index safe_any [OF safe_addRecord [OF assms(1)]]) simp_all
  have "safe_op (dst_safe psz) any (sbind (on_dst_index (addRecord os t0 now [r] 1 0)) (\<lambda>_. ret ())) anything"
    by (intro safe_then a safe_ret)
  then show ?thesis using Inr by (simp add: safe_op_def addDestination_def)
qed

lemma safe_dst_truncate [safe_rules]:
  "os_fit psz os \<Longrightarrow> safe_op (dst_safe psz) any (TopDstDatabase_truncate os) anything"
  unfolding TopDstDatabase_truncate_def by (intro safe_on_dst_index safe_cleanup)

lemma safe_getLocaleTop [safe_rules]:
  assumes "os_fit psz os"
  shows "safe_op (dst_safe psz) any (getLocaleTop os tc time0 now ts iter raw loc f t lim) anything"
proof -
  have c: "safe_op (dst_safe psz) any (getCachedResult tc loc f t lim) anything"
    using nosegv_getters(2) [of loc] nosegv_getters(5) [of lim]
    by (auto simp: safe_op_def getCachedResult_def nosegv_def dst_safe_def Let_def segv_def split: sum.splits option.splits)
  have s: "safe_op (dst_safe psz) any (saveResultToCache ts loc f t res) anything" for res
    using nosegv_getters(2) [of loc] by (auto simp: safe_op_def saveResultToCache_def nosegv_def dst_safe_def Let_def segv_def split: sum.splits)
  have fq: "nosegv (fill_dst_query loc f t lim q)" for q :: TopDstSearchQuery
    unfolding fill_dst_query_def locale_filter_eq departure_dates_eq result_limit_eq by (intro nosegv_rules)
  have e: "safe_op (dst_safe psz) any (on_dst_index (TopDst_exec os time0 now iter q)) anything" for q
    unfolding TopDst_exec_def Let_def by (intro safe_on_dst_index safe_then safe_any [OF safe_processRecords [OF assms]] safe_ret)
  show ?thesis unfolding getLocaleTop_def by (intro safe_then c safe_if safe_ret safe_result fq e s)
qed

section \<open>The server\<close>

definition server_safe :: "nat \<Rightarrow> DealsServer \<Rightarrow> bool" where
  "server_safe psz srv \<longleftrightarrow> db_safe psz (srv_db srv) \<and> dst_safe psz (srv_dst srv)"

text \<open>
  What a request relies on outside the program: the size of a memory page does not change, the file
  system of the shared memory reports how many blocks it has, and iterating over a hash map visits its entries in some order.
\<close>

definition env_ok :: "nat \<Rightarrow> renv \<Rightarrow> bool" where
  "env_ok psz env \<longleftrightarrow> os_fit psz (r_os env) \<and> iteration_order (r_hist_order env)"

abbreviation handler_safe :: "nat \<Rightarrow> 'a server_op \<Rightarrow> bool" where
  "handler_safe psz m \<equiv> safe_op (\<lambda>st. server_safe psz (snd st)) any m anything"

lemma safe_on_db [safe_rules]:
  assumes "safe_op (db_safe psz) any m anything"
  shows "handler_safe psz (on_db m)"
proof (rule safe_opI)
  fix st :: "Context Connection \<times> DealsServer" and r st' assume s: "server_safe psz (snd st)" and run: "on_db m st = (r, st')"
  obtain db where m: "m (srv_db (snd st)) = (r, db)" "st' = (fst st, (snd st)\<lparr>srv_db := db\<rparr>)"
    using run by (cases st) (auto simp: on_db_def split: prod.splits)
  from safe_opD [OF assms _ TrueI m(1)] s m(2) show "nosegv r \<and> server_safe psz (snd st') \<and> (\<forall>x. r = Inr x \<longrightarrow> True)"
    by (simp add: server_safe_def)
qed

lemma safe_on_db_dst [safe_rules]:
  assumes "safe_op (dst_safe psz) any m anything"
  shows "handler_safe psz (on_db_dst m)"
proof (rule safe_opI)
  fix st :: "Context Connection \<times> DealsServer" and r st' assume s: "server_safe psz (snd st)" and run: "on_db_dst m st = (r, st')"
  obtain db where m: "m (srv_dst (snd st)) = (r, db)" "st' = (fst st, (snd st)\<lparr>srv_dst := db\<rparr>)"
    using run by (cases st) (auto simp: on_db_dst_def split: prod.splits)
  from safe_opD [OF assms _ TrueI m(1)] s m(2) show "nosegv r \<and> server_safe psz (snd st') \<and> (\<forall>x. r = Inr x \<longrightarrow> True)"
    by (simp add: server_safe_def)
qed

lemma safe_of_result [safe_rules]: "nosegv r \<Longrightarrow> handler_safe psz (of_result r)"
  by (simp add: safe_op_def of_result_def)

lemma safe_answers [safe_rules]:
  "handler_safe psz the_connection" "handler_safe psz (answer_with resp)" "handler_safe psz quit"
  by (auto simp: safe_op_def the_connection_def answer_with_def quit_def server_safe_def nosegv_rules split: prod.splits)

lemma safe_writes [safe_rules]:
  "handler_safe psz (writeTopResult ds)" "handler_safe psz (write_report text)" "handler_safe psz (reply msg)"
  unfolding writeTopResult_def write_report_def reply_def by (intro safe_rules)+

lemma safe_run_search:
  assumes "env_ok psz env"
  shows "safe_op (db_safe psz) any (run_search env rq p) anything"
proof -
  have e: "os_fit psz (r_os env)" "iteration_order (r_hist_order env)" using assms by (simp_all add: env_ok_def)
  show ?thesis unfolding run_search_def Let_def
    by (intro safe_if safe_searchFor [OF e(1)] safe_SimplyCheapest [OF e] safe_CheapestByCountry [OF e] safe_CheapestByDay [OF e])
qed

text \<open>Every handler, by the structure of its code.\<close>

lemma safe_bind_result:
  "nosegv r \<Longrightarrow> (\<And>x. r = Inr x \<Longrightarrow> handler_safe psz (f x)) \<Longrightarrow> handler_safe psz (sbind (of_result r) f)"
  by (cases r) (auto simp: safe_op_def of_result_def sbind_def nosegv_def)

lemma addDeal_handler_safe:
  assumes "env_ok psz env"
  shows "handler_safe psz (server_addDeal env)"
proof -
  have p: "os_fit psz (r_os env)" using assms by (simp add: env_ok_def)
  have store: "handler_safe psz
      (if IATACode_eq org dst then throw (Error (''Error origin = destination'' @ [LF]) BadParameter)
       else if isDefined retd \<and> Date_gt dep retd then throw (Error (''departure date > return date'' @ [LF]) BadParameter)
       else sbind (on_db (addDeal (r_os env) (r_oob env) (r_clock env 0) (r_clock env 1) (r_clock env 2) (r_clock env 3) (r_clock env 4) org dst
           country dep retd direct price data)) (\<lambda>_.
         sbind (on_db_dst (addDestination (r_os env) (r_clock env 5) (r_clock env 6) loc dst dep)) (\<lambda>_.
         answer_with (HttpResponse_body 200 ''OK'' (''Well done'' @ [LF])))))"
    if "Required_of IATACode_of_string ps n1 = Inr org" "Required_of IATACode_of_string ps n2 = Inr dst"
      "Required_of CountryCode_of_string ps n3 = Inr country" "Required_of CountryCode_of_string ps n4 = Inr loc"
    for ps n1 n2 n3 n4 org dst country loc dep retd direct price data
  proof (rule safe_if [OF safe_throw], rule safe_if [OF safe_throw])
    assume ne: "\<not> IATACode_eq org dst" "\<not> (isDefined retd \<and> Date_gt dep retd)"
    note codes = required_place(1) [OF that(1)] required_place(1) [OF that(2)] required_country [OF that(3)] required_country [OF that(4)]
    have a: "safe_op (db_safe psz) any (addDeal (r_os env) (r_oob env) (r_clock env 0) (r_clock env 1) (r_clock env 2) (r_clock env 3)
        (r_clock env 4) org dst country dep retd direct price data) anything"
      by (rule safe_addDeal [OF p codes(1,2) ne(1) codes(3)]) (use ne(2) in blast)
    show "handler_safe psz (sbind (on_db (addDeal (r_os env) (r_oob env) (r_clock env 0) (r_clock env 1) (r_clock env 2) (r_clock env 3)
        (r_clock env 4) org dst country dep retd direct price data)) (\<lambda>_.
         sbind (on_db_dst (addDestination (r_os env) (r_clock env 5) (r_clock env 6) loc dst dep)) (\<lambda>_.
         answer_with (HttpResponse_body 200 ''OK'' (''Well done'' @ [LF])))))"
      by (intro safe_then safe_on_db [OF a] safe_on_db_dst [OF safe_addDestination [OF p codes(4,2)]] safe_answers)
  qed
  show ?thesis unfolding server_addDeal_def Let_def
    by (intro safe_then safe_answers safe_bind_result nosegv_rules store)
qed

lemma handle_request_safe:
  assumes "env_ok psz env"
  shows "handler_safe psz (handle_request env)"
proof -
  have p: "os_fit psz (r_os env)" using assms by (simp add: env_ok_def)
  note db = safe_on_db [OF safe_run_search [OF assms]] safe_on_db [OF safe_reports(1) [OF p]]
    safe_on_db [OF safe_reports(2) [OF p]] safe_on_db [OF safe_reports(3) [OF p]] safe_on_db_dst [OF safe_dst_truncate [OF p]]
    safe_on_db_dst [OF safe_getLocaleTop [OF p]]
  note steps = safe_then safe_if safe_of_result safe_answers safe_writes safe_throw safe_ret db
  have "handler_safe psz (locale_destinations env rq)" for rq
    unfolding locale_destinations_def by (intro steps nosegv_rules)
  then have "handler_safe psz (getTop env)" unfolding getTop_def by (intro steps nosegv_rules)
  moreover have "handler_safe psz (server_getUniqueRoutes env)" "handler_safe psz (server_getStats env)"
    unfolding server_getUniqueRoutes_def server_getStats_def by (intro steps)+
  moreover have "handler_safe psz (getDestiantionsTop env)"
    unfolding getDestiantionsTop_def Let_def by (intro steps nosegv_rules)
  moreover have "handler_safe psz (server_addDeal env)" by (rule addDeal_handler_safe [OF assms])
  ultimately show ?thesis unfolding handle_request_def Let_def by (intro steps)
qed

lemma terminate_keeps: "srv_db (snd (snd (terminateWithError msg code st))) = srv_db (snd st)"
    "srv_dst (snd (snd (terminateWithError msg code st))) = srv_dst (snd st)"
  by (cases st; simp add: terminateWithError_def answer_with_def)+

lemma server_on_data_safe:
  assumes "env_ok psz env" "server_safe psz srv"
  shows "\<exists>conn' srv'. server_on_data env conn srv = Some (conn', srv') \<and> server_safe psz srv'"
proof (cases "quit_request srv")
  case True
  then show ?thesis using assms(2) by (simp add: server_on_data_def answer_with_def)
next
  case False
  let ?c = "with_http (received conn) conn"
  have tm: "server_safe psz (snd (snd (terminateWithError msg code st)))" if "server_safe psz (snd st)" for msg code st
    using that terminate_keeps [of msg code st] by (simp add: server_safe_def)
  obtain r st where h: "handle_request env (?c, srv) = (r, st)" by (cases "handle_request env (?c, srv)") (rule that)
  have hs: "nosegv r" "server_safe psz (snd st)" using safe_opD(1,2) [OF handle_request_safe [OF assms(1)] _ TrueI h] assms(2) by simp_all
  have ex: "\<exists>conn' srv'. x = (conn', srv') \<and> server_safe psz srv'" if "server_safe psz (snd x)" for x :: "Context Connection \<times> DealsServer"
    using that by (cases x) simp
  show ?thesis unfolding server_on_data_eq [OF False] Let_def h
    using hs assms(2) ex [OF tm] ex [of st] by (auto simp: nosegv_def split: sum.splits exn.splits)
qed

interpretation survives: surviving_handler server_on_data "env_ok psz" "server_safe psz" for psz
  by unfold_locales (rule server_on_data_safe)

section \<open>Start\<close>

lemmas table_parameters = DEALINFO_SIZE_def DEALINFO_PAGES_def DEALINFO_ELEMENTS_def DEALDATA_PAGES_def DEALDATA_ELEMENTS_def
  DSTINFO_SIZE_def TOPDST_PAGES_def TOPDST_ELEMENTS_def PAGE_INFORMATION_SIZE_def INDEX_ELEMENT_SIZE_def

lemma on_indexes_Inr:
  assumes "on_indexes m st = (Inr x, st')"
  obtains ix' s' where "m (fst (snd st), snd (snd st)) = (Inr x, (ix', s'))" "fst (snd st') = ix'"
  using assms by (auto simp: on_indexes_def split: prod.splits)

lemma on_contexts_index: "on_contexts m st = (r, st') \<Longrightarrow> fst (snd st') = fst (snd st)"
  by (auto simp: on_contexts_def split: prod.splits)

lemma DealsDatabase_new_safe:
  assumes "DealsDatabase_new os empty_store empty_store st = (Inr db, st')" "unused_indexes (fst (snd st))"
    and p: "0 < sc_page_size os" "sc_page_size os \<le> 2 ^ 30"
  shows "db_safe (sc_page_size os) db" "unused_indexes (fst (snd st'))"
proof -
  obtain ctx st1 ix st2 dt where run: "on_contexts (SharedContext_new os DEALS_DB_NAME) st = (Inr ctx, st1)"
    "on_indexes (Table_new os DEALINFO_SIZE deal_zero DEALINFO_TABLENAME DEALINFO_PAGES DEALINFO_ELEMENTS DEALS_EXPIRES
       (ctx_global_expire_at ctx) empty_store) st1 = (Inr ix, st2)"
    "on_indexes (Table_new os 1 NUL DEALDATA_TABLENAME DEALDATA_PAGES DEALDATA_ELEMENTS DEALS_EXPIRES
       (ctx_global_expire_at ctx) empty_store) st2 = (Inr dt, st')"
    and db: "db_index db = ix" "db_data db = dt"
    using assms(1) unfolding DealsDatabase_new_def by (auto elim!: sbind_InrE)
  have u1: "unused_indexes (fst (snd st1))" using on_contexts_index [OF run(1)] assms(2) by simp
  obtain ix2 s2 where t2: "Table_new os DEALINFO_SIZE deal_zero DEALINFO_TABLENAME DEALINFO_PAGES DEALINFO_ELEMENTS DEALS_EXPIRES
       (ctx_global_expire_at ctx) empty_store (fst (snd st1), snd (snd st1)) = (Inr ix, (ix2, s2))" "fst (snd st2) = ix2"
    by (rule on_indexes_Inr [OF run(2)]) (rule that)
  have i: "unused_indexes ix2" "mem_safe (sc_page_size os) deal_element (unat DEALINFO_PAGES) DEALINFO_ELEMENTS ix"
    by (rule fresh_table_safe [OF t2(1) u1, where E = deal_element]; use p in \<open>simp add: table_parameters\<close>)+
  obtain ix3 s3 where t3: "Table_new os 1 NUL DEALDATA_TABLENAME DEALDATA_PAGES DEALDATA_ELEMENTS DEALS_EXPIRES
       (ctx_global_expire_at ctx) empty_store (fst (snd st2), snd (snd st2)) = (Inr dt, (ix3, s3))" "fst (snd st') = ix3"
    by (rule on_indexes_Inr [OF run(3)]) (rule that)
  have u2: "unused_indexes (fst (snd st2))" using i(1) t2(2) by simp
  have d: "unused_indexes ix3" "mem_safe (sc_page_size os) any (unat DEALDATA_PAGES) DEALDATA_ELEMENTS dt"
    by (rule fresh_table_safe [OF t3(1) u2, where E = any]; use p in \<open>simp add: table_parameters\<close>)+
  show "db_safe (sc_page_size os) db" "unused_indexes (fst (snd st'))" using i(2) d db t3(2) by (simp_all add: db_safe_def)
qed

lemma TopDstDatabase_new_safe:
  assumes "TopDstDatabase_new os empty_store st = (Inr db, st')" "unused_indexes (fst (snd st))"
    and p: "0 < sc_page_size os" "sc_page_size os \<le> 2 ^ 30"
  shows "dst_safe (sc_page_size os) db"
proof -
  obtain ctx st1 t where run: "on_contexts (SharedContext_new os TOPDST_TABLENAME) st = (Inr ctx, st1)"
    "on_indexes (Table_new os DSTINFO_SIZE dst_zero TOPDST_TABLENAME TOPDST_PAGES TOPDST_ELEMENTS TOPDST_EXPIRES
       (ctx_global_expire_at ctx) empty_store) st1 = (Inr t, st')" and db: "dst_index db = t"
    using assms(1) unfolding TopDstDatabase_new_def by (auto elim!: sbind_InrE)
  have u1: "unused_indexes (fst (snd st1))" using on_contexts_index [OF run(1)] assms(2) by simp
  obtain ix2 s2 where t2: "Table_new os DSTINFO_SIZE dst_zero TOPDST_TABLENAME TOPDST_PAGES TOPDST_ELEMENTS TOPDST_EXPIRES
       (ctx_global_expire_at ctx) empty_store (fst (snd st1), snd (snd st1)) = (Inr t, (ix2, s2))"
    by (rule on_indexes_Inr [OF run(2)]) (rule that)
  have "mem_safe (sc_page_size os) dst_element (unat TOPDST_PAGES) TOPDST_ELEMENTS t"
    by (rule fresh_table_safe(2) [OF t2 u1, where E = dst_element]; use p in \<open>simp add: table_parameters\<close>)
  then show ?thesis using db by (simp add: dst_safe_def)
qed

text \<open>A server that starts on an empty shared memory.\<close>

abbreviation starts :: "os \<Rightarrow> DealsServer \<Rightarrow> bool" where
  "starts os srv \<equiv> (\<exists>mem. DealsServer_new os empty_store empty_store empty_store (empty_store, empty_store, Map.empty) = (Inr srv, mem))"

lemma starts_safe:
  assumes "starts os srv" "0 < sc_page_size os" "sc_page_size os \<le> 2 ^ 30"
  shows "server_safe (sc_page_size os) srv"
proof -
  obtain db st1 dst mem where run: "DealsDatabase_new os empty_store empty_store (empty_store, empty_store, Map.empty) = (Inr db, st1)"
    "TopDstDatabase_new os empty_store st1 = (Inr dst, mem)" "srv_db srv = db" "srv_dst srv = dst"
    using assms(1) unfolding DealsServer_new_def by (auto elim!: sbind_InrE)
  have "unused_indexes (fst (snd (empty_store :: DBContext shm, empty_store, Map.empty :: sem_table)))" by (simp add: unused_indexes_def)
  note d = DealsDatabase_new_safe [OF run(1) this assms(2,3)]
  from d(1) TopDstDatabase_new_safe [OF run(2) d(2) assms(2,3)] run(3,4) show ?thesis by (simp add: server_safe_def)
qed

section \<open>Every request of every run is answered\<close>

lemma run_safe:
  assumes "(server_step N)\<^sup>*\<^sup>* st0 st" "\<forall>net \<in> N. net_ok (env_ok psz) net"
    and "st0 = Running g0 srv0" "server_safe psz (app srv0)"
  shows "st \<noteq> Killed \<and> (\<forall>g srv. st = Running g srv \<longrightarrow> server_safe psz (app srv))"
  using assms(1)
proof (induction rule: rtranclp_induct)
  case base
  show ?case using assms(3,4) by simp
next
  case (step st st')
  from step.hyps(2) show ?case
  proof cases
    case (tick net srv g)
    have n: "net_ok (env_ok psz) net" "server_safe psz (app srv)" using assms(2) tick step.IH by auto
    from survives.process_returns [OF n, of new_context server_on_connect]
    obtain k srv' where "TCPServer_process net new_context server_on_connect server_on_data srv = Some (k, srv')" "server_safe psz (app srv')" by blast
    then show ?thesis using tick by (auto simp: DealsServer_process_def Let_def server_safe_def)
  next
    case (signal g srv)
    then show ?thesis using step.IH by (auto simp: signalHandler_def)
  qed
qed

text \<open>
  C14. Each call of \<^verbatim>\<open>on_data\<close> answers as it should, in every state that a process which started on an
  empty shared memory can reach with the assumptions on its surroundings that \<open>net_ok\<close> and \<open>env_ok\<close> name.
  The call returns, whatever the bytes are, whichever system calls failed before or fail now and
  whatever the clock shows.  When the bytes received so far are a complete or a malformed request, the
  call appends one response to what is to be sent and closes the connection; otherwise it appends
  nothing and the connection stays open; a server that is shutting down answers 503 and does nothing else.
  This is about one call: a connection that is closed but still has something to send is polled again,
  and when it has input, the next call appends an answer of its own.
\<close>

theorem request_answered:
  assumes "starts os srv0" and "0 < sc_page_size os" and "sc_page_size os \<le> 2 ^ 30"
    and "app tcp0 = srv0" and "\<forall>net \<in> N. net_ok (env_ok (sc_page_size os)) net"
    and "(server_step N)\<^sup>*\<^sup>* (Running g0 tcp0) (Running g tcp)"
    and "env_ok (sc_page_size os) env"
  shows "\<exists>conn' srv'. server_on_data env conn (app tcp) = Some (conn', srv') \<and>
    (if quit_request (app tcp)
     then data_out conn' = data_out conn @ HttpResponse_string unavailable \<and> \<not> connection_alive conn' \<and> srv' = app tcp
     else if is_bad_request (received conn) \<or> is_request_complete (received conn)
     then \<not> connection_alive conn' \<and>
          (\<exists>resp. status_code resp \<in> {200, 204, 400, 404, 500} \<and> data_out conn' = data_out conn @ HttpResponse_string resp)
     else data_out conn' = data_out conn \<and> connection_alive conn' = connection_alive conn \<and>
          http (conn_context conn') = received conn \<and> srv' = app tcp)"
proof -
  have "server_safe (sc_page_size os) (app tcp)"
    using run_safe [OF assms(6,5) refl] starts_safe [OF assms(1-3)] assms(4) by simp
  from server_on_data_safe [OF assms(7) this, of conn] obtain conn' srv' where r: "server_on_data env conn (app tcp) = Some (conn', srv')" by blast
  from request_answered_once [OF r] r show ?thesis by blast
qed

text \<open>
  C15. A process that starts on an empty shared memory is never killed by an access outside its
  memory: whatever requests arrive, in whatever chunks and on however many connections,
  whichever system calls fail and whatever the clock shows, every turn of the event loop and every signal
  leads to a running process or to a regular exit.  Assumed of its surroundings (\<open>net_ok\<close>, \<open>env_ok\<close>): the bytes
  that wait on a socket fit into the stack, no peer is gone when it is written to, and the
  file system of the shared memory reports a size; without one of these the code does get killed.
\<close>

theorem server_never_killed:
  assumes "starts os srv0" and "0 < sc_page_size os" and "sc_page_size os \<le> 2 ^ 30"
    and "app tcp0 = srv0" and "\<forall>net \<in> N. net_ok (env_ok (sc_page_size os)) net"
    and "(server_step N)\<^sup>*\<^sup>* (Running g0 tcp0) st"
  shows "st \<noteq> Killed"
  using run_safe [OF assms(6,5) refl] starts_safe [OF assms(1-3)] assms(4) by simp

text \<open>
  C16. The records in the shared memory are well typed.  In every state that a process which started
  on an empty shared memory can reach, every element of every page of the index of deals is zero
  or a deal with upper-case three-letter codes of two different places, a country of the list, one
  weekday each, a return not before the departure, and a place inside a page of the data table;
  every element of the destinations is zero or has a listed locale and the code of a place.
\<close>

theorem stored_records_typed:
  assumes "starts os srv0" and "0 < sc_page_size os" and "sc_page_size os \<le> 2 ^ 30"
    and "app tcp0 = srv0" and "\<forall>net \<in> N. net_ok (env_ok (sc_page_size os)) net"
    and "(server_step N)\<^sup>*\<^sup>* (Running g0 tcp0) (Running g tcp)"
  shows "(\<forall>ob \<in> set (objects (data_shm (db_index (srv_db (app tcp))))). \<forall>d \<in> set (elements ob). d = deal_zero \<or> deal_typed d) \<and>
    (\<forall>ob \<in> set (objects (data_shm (dst_index (srv_dst (app tcp))))). \<forall>r \<in> set (elements ob).
       r = dst_zero \<or> listed_country (i_locale r) \<and> place_code (i_destination r))"
proof -
  have "server_safe (sc_page_size os) (app tcp)"
    using run_safe [OF assms(6,5) refl] starts_safe [OF assms(1-3)] assms(4) by simp
  then show ?thesis by (simp add: server_safe_def db_safe_def dst_safe_def mem_safe_def deal_element_def dst_element_def)
qed

subsection \<open>Examples\<close>

lemma healthy_calls: "sem_ok healthy_os n" "open_ok healthy_os n" "trunc_ok healthy_os n" "map_ok healthy_os n"
  by (simp_all add: healthy_os_def)

lemma context_created:
  assumes "sm (name @ ''Context'') = None" "names d (name @ ''Context'') = None" "length name \<le> 7"
  shows "\<exists>c d'. SharedContext_new healthy_os name (d, sm) = (Inr c, (d', sm(name @ ''Context'' \<mapsto> 1))) \<and> names d' = (names d)(name @ ''Context'' \<mapsto> length (objects d))"
proof -
  have "length (name @ ''Context'') \<le> 14" using assms(3) by simp
  from page_created [OF healthy_calls healthy_mem(1) _ this _ assms(2), of sm DBCONTEXT_SIZE context_zero 1] assms(1)
  show ?thesis unfolding SharedContext_new_def sbind_def by simp
qed

lemma healthy_starts: "\<exists>srv. starts healthy_os srv \<and> \<not> quit_request srv"
proof -
  note names_defs = DEALS_DB_NAME_def DEALINFO_TABLENAME_def DEALDATA_TABLENAME_def TOPDST_TABLENAME_def
  note table = table_created [OF healthy_calls healthy_mem(1)]
  let ?s1 = "[DEALS_DB_NAME @ ''Context'' \<mapsto> 1] :: sem_table"
  let ?s3 = "?s1(DEALINFO_TABLENAME \<mapsto> 1, DEALDATA_TABLENAME \<mapsto> 1)"
  obtain c1 d1 where c1: "SharedContext_new healthy_os DEALS_DB_NAME (empty_store, Map.empty) = (Inr c1, (d1, ?s1))"
    "names d1 = [DEALS_DB_NAME @ ''Context'' \<mapsto> 0]"
    using context_created [of Map.empty DEALS_DB_NAME empty_store] by (auto simp: DEALS_DB_NAME_def)
  obtain t1 o1 where t1: "Table_new healthy_os DEALINFO_SIZE deal_zero DEALINFO_TABLENAME DEALINFO_PAGES DEALINFO_ELEMENTS DEALS_EXPIRES
      (ctx_global_expire_at c1) empty_store (empty_store, ?s1) =
      (Inr t1, (\<lparr>names = [DEALINFO_TABLENAME \<mapsto> 0], objects = [o1]\<rparr>, ?s1(DEALINFO_TABLENAME \<mapsto> 1)))"
    using table [of DEALINFO_TABLENAME ?s1 empty_store DEALINFO_SIZE deal_zero] by (fastforce simp: names_defs)
  obtain t2 o2 where t2: "Table_new healthy_os 1 NUL DEALDATA_TABLENAME DEALDATA_PAGES DEALDATA_ELEMENTS DEALS_EXPIRES
      (ctx_global_expire_at c1) empty_store (\<lparr>names = [DEALINFO_TABLENAME \<mapsto> 0], objects = [o1]\<rparr>, ?s1(DEALINFO_TABLENAME \<mapsto> 1)) =
      (Inr t2, (\<lparr>names = [DEALINFO_TABLENAME \<mapsto> 0, DEALDATA_TABLENAME \<mapsto> 1], objects = [o1, o2]\<rparr>, ?s3))"
    using table [of DEALDATA_TABLENAME "?s1(DEALINFO_TABLENAME \<mapsto> 1)" "\<lparr>names = [DEALINFO_TABLENAME \<mapsto> 0], objects = [o1]\<rparr>" 1 NUL]
    by (fastforce simp: names_defs)
  obtain c2 d2 where c2: "SharedContext_new healthy_os TOPDST_TABLENAME (d1, ?s3) = (Inr c2, (d2, ?s3(TOPDST_TABLENAME @ ''Context'' \<mapsto> 1)))"
    using context_created [of ?s3 TOPDST_TABLENAME d1] c1(2) by (auto simp: names_defs)
  obtain t3 st3 where t3: "Table_new healthy_os DSTINFO_SIZE dst_zero TOPDST_TABLENAME TOPDST_PAGES TOPDST_ELEMENTS TOPDST_EXPIRES
      (ctx_global_expire_at c2) empty_store (\<lparr>names = [DEALINFO_TABLENAME \<mapsto> 0, DEALDATA_TABLENAME \<mapsto> 1], objects = [o1, o2]\<rparr>,
        ?s3(TOPDST_TABLENAME @ ''Context'' \<mapsto> 1)) = (Inr t3, st3)"
    using table [of TOPDST_TABLENAME "?s3(TOPDST_TABLENAME @ ''Context'' \<mapsto> 1)"
      "\<lparr>names = [DEALINFO_TABLENAME \<mapsto> 0, DEALDATA_TABLENAME \<mapsto> 1], objects = [o1, o2]\<rparr>" DSTINFO_SIZE dst_zero] by (fastforce simp: names_defs)
  let ?db = "\<lparr>db_context = ctx_global_expire_at c1, db_index = t1, db_data = t2\<rparr>"
  let ?dst = "\<lparr>dst_index = t3, result_cache_by_locale = []\<rparr>"
  have "DealsServer_new healthy_os empty_store empty_store empty_store (empty_store, empty_store, Map.empty)
      = (Inr \<lparr>srv_db = ?db, srv_dst = ?dst, quit_request = False\<rparr>, (d2, st3))"
    unfolding DealsServer_new_def DealsDatabase_new_def TopDstDatabase_new_def sbind_def on_contexts_def on_indexes_def
    by (simp only: c1(1) t1 t2 c2 t3 prod.case sum.case op_simps)
  then show ?thesis by (metis DealsServer.select_convs(3))
qed

lemma sample_env_ok: "env_ok 4096 sample_env"
  by (simp add: env_ok_def os_fit_def sample_env_def healthy_os_def iteration_order_def)

text \<open>A network that delivers the same request on every connection.\<close>

definition busy_net :: "string \<Rightarrow> renv net" where
  "busy_net text = \<lparr>net_time = 86502, net_poll = (\<lambda>_. PollReady (\<lambda>i. \<lparr>ev_hup = False, ev_in = (i \<noteq> 0), ev_out = False,
     ev_stack = length text, ev_fionread = Some (length text), ev_received = Some text, ev_read_time = 86502, ev_sigpipe = False, ev_send = 0, ev_write_time = 86502, ev_env = sample_env\<rparr>)),
     net_accept = -1, net_accept_time = 86502\<rparr>"

lemma busy_net_ok: "net_ok (env_ok 4096) (busy_net text)"
  by (simp add: net_ok_def event_ok_def busy_net_def sample_env_ok)

definition serving :: "DealsServer \<Rightarrow> deals_tcp" where
  "serving srv = \<lparr>connections = [sample_conn []], srv_sockfd = 3, open_fds = {3, 5}, app = srv\<rparr>"

theorem request_answered_witness:
  "\<exists>srv. starts healthy_os srv \<and> (\<exists>conn' srv'. server_on_data sample_env (sample_conn ping_text) srv = Some (conn', srv')
     \<and> \<not> connection_alive conn' \<and>
       (\<exists>resp. status_code resp \<in> {200, 204, 400, 404, 500} \<and> data_out conn' = data_out (sample_conn ping_text) @ HttpResponse_string resp))"
proof -
  obtain srv where srv: "starts healthy_os srv" "\<not> quit_request srv" using healthy_starts by blast
  have p: "sc_page_size healthy_os = 4096" by (simp add: healthy_os_def)
  have n: "\<forall>net \<in> {busy_net ping_text}. net_ok (env_ok (sc_page_size healthy_os)) net" using busy_net_ok p by simp
  have a: "app (serving srv) = srv" by (simp add: serving_def)
  from request_answered [OF srv(1) _ _ a n rtranclp.rtrancl_refl, where env = sample_env and conn = "sample_conn ping_text"] sample_env_ok p srv(2)
  have "\<exists>conn' srv'. server_on_data sample_env (sample_conn ping_text) srv = Some (conn', srv')
     \<and> \<not> connection_alive conn' \<and>
       (\<exists>resp. status_code resp \<in> {200, 204, 400, 404, 500} \<and> data_out conn' = data_out (sample_conn ping_text) @ HttpResponse_string resp)"
    by (simp only: a received_sample ping_parsed if_False simp_thms if_True) (simp add: p)
  with srv(1) show ?thesis by blast
qed

theorem server_never_killed_witness:
  "\<exists>srv. starts healthy_os srv \<and> DealsServer_process (busy_net ping_text) False (serving srv) \<noteq> Killed"
proof -
  obtain srv where srv: "starts healthy_os srv" using healthy_starts by blast
  have p: "sc_page_size healthy_os = 4096" by (simp add: healthy_os_def)
  have n: "\<forall>net \<in> {busy_net ping_text}. net_ok (env_ok (sc_page_size healthy_os)) net" using busy_net_ok p by simp
  have a: "app (serving srv) = srv" by (simp add: serving_def)
  have "accept_ok (busy_net ping_text) (serving srv)" by (simp add: accept_ok_def busy_net_def)
  then have "server_step {busy_net ping_text} (Running False (serving srv)) (DealsServer_process (busy_net ping_text) False (serving srv))"
    by (intro server_step.tick) simp_all
  from server_never_killed [OF srv _ _ a n r_into_rtranclp [of "server_step {busy_net ping_text}", OF this]] p srv show ?thesis by auto
qed

theorem stored_records_typed_witness:
  "\<exists>srv. starts healthy_os srv \<and>
    (\<forall>ob \<in> set (objects (data_shm (db_index (srv_db srv)))). \<forall>d \<in> set (elements ob). d = deal_zero \<or> deal_typed d)"
proof -
  obtain srv where srv: "starts healthy_os srv" using healthy_starts by blast
  have p: "sc_page_size healthy_os = 4096" by (simp add: healthy_os_def)
  have n: "\<forall>net \<in> {busy_net ping_text}. net_ok (env_ok (sc_page_size healthy_os)) net" using busy_net_ok p by simp
  have a: "app (serving srv) = srv" by (simp add: serving_def)
  from stored_records_typed [OF srv _ _ a n rtranclp.rtrancl_refl] p srv show ?thesis by (auto simp: a)
qed

end
