(* ===== verification/DealsHistory.thy ===== *)
theory DealsHistory
  imports SearchFilters
begin

text \<open>
  The database of deals over a run: the deals that were posted, in an abstract store, and what the
  two tables hold of them.  Every operation implements the one of the store, so that a
  search answers from the posts, whatever pages were taken, expired or recycled in between.
\<close>

section \<open>Posts\<close>

record post =
  ps_origin :: IATACode
  ps_destination :: IATACode
  ps_country :: CountryCode
  ps_departure :: Date
  ps_return :: Date
  ps_direct :: Boolean
  ps_price :: Number
  ps_data :: string

text \<open>The store: the posts since the last clearing, each with its time.\<close>

type_synonym store = "(u32 \<times> post) list"

abbreviation post_info :: "(int \<Rightarrow> u8) \<Rightarrow> u32 \<Rightarrow> post \<Rightarrow> ElementExtractor \<Rightarrow> DealInfo result" where
  "post_info oob t p \<equiv> deal_info oob t (ps_origin p) (ps_destination p) (ps_country p) (ps_departure p) (ps_return p) (ps_direct p) (ps_price p)"

abbreviation post_deal :: "os \<Rightarrow> (int \<Rightarrow> u8) \<Rightarrow> u32 \<Rightarrow> post \<Rightarrow> (DealsDatabase, unit) op" where
  "post_deal os oob now p \<equiv> addDeal os oob now now now now now (ps_origin p) (ps_destination p) (ps_country p) (ps_departure p) (ps_return p)
     (ps_direct p) (ps_price p) (ps_data p)"

text \<open>\<open>d\<close> is the record of the post, at some place of the data table.\<close>

definition filed :: "(int \<Rightarrow> u8) \<Rightarrow> u32 \<times> post \<Rightarrow> DealInfo \<Rightarrow> bool" where
  "filed oob e d \<longleftrightarrow> (\<exists>pos. post_info oob (fst e) (snd e) pos = Inr d)"

lemma filed_time: "filed oob e d \<Longrightarrow> deal_end d = unat (fst e) + unat DEALS_EXPIRES"
  by (auto simp: filed_def deal_end_def dest: deal_info_fields(1))

text \<open>All records of a post differ only in the place of the data.\<close>

definition placeless :: "DealInfo \<Rightarrow> DealInfo" where
  "placeless d = d\<lparr>d_page_name := [], d_index := 0, d_size := 0\<rparr>"

lemma filed_same: "filed oob e d \<Longrightarrow> filed oob e d' \<Longrightarrow> placeless d = placeless d'"
  by (auto simp: filed_def deal_info_def placeless_def rbind_eq_Inr Let_def split: if_splits)

lemma placeless_same:
  assumes "placeless d = placeless d'"
  shows "outdated now g d = outdated now g d'" "wanted now p d = wanted now p d'" "d_destination d = d_destination d'" "d_price d = d_price d'"
proof -
  have "d' = d\<lparr>d_page_name := d_page_name d', d_index := d_index d', d_size := d_size d'\<rparr>"
    using assms by (cases d; cases d') (simp add: placeless_def)
  then obtain n i s where d': "d' = d\<lparr>d_page_name := n, d_index := i, d_size := s\<rparr>" by blast
  show "outdated now g d = outdated now g d'" "wanted now p d = wanted now p d'" "d_destination d = d_destination d'" "d_price d = d_price d'"
    by (simp_all add: d' outdated_def deal_end_def wanted_def)
qed

section \<open>The tables represent the store\<close>

definition listed :: "DealsDatabase \<Rightarrow> DealInfo \<Rightarrow> bool" where
  "listed db d \<longleftrightarrow> on_page (db_index db) (deal_end d) (\<lambda>i xs. d \<in> set xs)"

definition both_tended :: "nat \<Rightarrow> u32 \<Rightarrow> DealsDatabase \<Rightarrow> bool" where
  "both_tended psz now db \<longleftrightarrow> tended psz now (db_index db) \<and> tended psz now (db_data db) \<and>
     record_expire_seconds (db_index db) = DEALS_EXPIRES \<and> record_expire_seconds (db_data db) = DEALS_EXPIRES"

text \<open>
  Every record of the index is that of a post, whose data the data table holds; and every post is
  listed in the index.  Outdated deals are excepted: those a search does not return any more.
\<close>

definition represents :: "(int \<Rightarrow> u8) \<Rightarrow> nat \<Rightarrow> u32 \<Rightarrow> store \<Rightarrow> DealsDatabase \<Rightarrow> bool" where
  "represents oob psz now H db \<longleftrightarrow> both_tended psz now db \<and>
     (\<forall>d \<in> records (db_index db). \<exists>e \<in> set H. filed oob e d \<and> (outdated now (db_context db) d \<or> holds (db_data db) d (ps_data (snd e)))) \<and>
     (\<forall>e \<in> set H. \<exists>d. filed oob e d \<and> (outdated now (db_context db) d \<or> listed db d))"

text \<open>The system calls succeed, a day has passed on the clock, and another one still fits it.\<close>

definition works :: "nat \<Rightarrow> u32 \<Rightarrow> os \<Rightarrow> bool" where
  "works psz now os \<longleftrightarrow> all_ok os \<and> sc_page_size os = psz \<and> DEALS_EXPIRES \<le> now \<and> unat now + unat DEALS_EXPIRES + 60 < 2 ^ 32"

text \<open>
  What an operation has to show: both tables stay in service, nothing is lost before its time,
  and the index gets only records of new posts, with their data.
\<close>

lemma represents_step:
  assumes h: "represents oob psz now0 H db" "now0 \<le> now" and b: "both_tended psz now db'" and c: "db_context db \<le> db_context db'"
    and H: "set H \<subseteq> set H'"
    and old: "\<And>d s. holds (db_data db) d s \<Longrightarrow> holds (db_data db') d s \<or> outdated now (db_context db') d"
    and list: "\<And>d. listed db d \<Longrightarrow> listed db' d \<or> outdated now (db_context db') d"
    and recs: "\<And>d. d \<in> records (db_index db') \<Longrightarrow> d \<in> records (db_index db) \<or> (\<exists>e \<in> set H'. filed oob e d \<and> holds (db_data db') d (ps_data (snd e)))"
    and new: "\<And>e. e \<in> set H' \<Longrightarrow> e \<in> set H \<or> (\<exists>d. filed oob e d \<and> listed db' d)"
  shows "represents oob psz now H' db'"
  unfolding represents_def
proof (intro conjI ballI)
  show "both_tended psz now db'" by (rule b)
  note mono = outdated_mono [OF _ h(2) c]
  show "\<exists>e \<in> set H'. filed oob e d \<and> (outdated now (db_context db') d \<or> holds (db_data db') d (ps_data (snd e)))" if d: "d \<in> records (db_index db')" for d
    using recs [OF d]
  proof
    assume "d \<in> records (db_index db)"
    then obtain e where e: "e \<in> set H" "filed oob e d" "outdated now0 (db_context db) d \<or> holds (db_data db) d (ps_data (snd e))"
      using h(1) by (auto simp: represents_def)
    then have "outdated now (db_context db') d \<or> holds (db_data db') d (ps_data (snd e))" using mono old by blast
    then show ?thesis using e(1,2) H by auto
  qed blast
  show "\<exists>d. filed oob e d \<and> (outdated now (db_context db') d \<or> listed db' d)" if e: "e \<in> set H'" for e
    using new [OF e]
  proof
    assume "e \<in> set H"
    then obtain d where "filed oob e d" "outdated now0 (db_context db) d \<or> listed db d" using h(1) by (auto simp: represents_def)
    then show ?thesis using mono list by blast
  qed blast
qed

lemma represents_later: "represents oob psz now0 H db \<Longrightarrow> now0 \<le> now \<Longrightarrow> represents oob psz now H db"
  by (rule represents_step) (auto simp: represents_def both_tended_def intro: tended_later)

text \<open>The context that the two tables share.\<close>

lemma tended_context [simp]:
  "tended psz now (t\<lparr>global_expire_at := g\<rparr>) = tended psz now t" "records (t\<lparr>global_expire_at := g\<rparr>) = records t"
  "on_page (t\<lparr>global_expire_at := g\<rparr>) = on_page t" "in_time now (t\<lparr>global_expire_at := g\<rparr>) = in_time now t"
  by (simp_all add: tended_def records_def on_page_def in_time_def fun_eq_iff)

lemma works_in_time: "works psz now os \<Longrightarrow> record_expire_seconds t = DEALS_EXPIRES \<Longrightarrow> in_time now t"
  by (simp add: works_def in_time_def)

lemma lifetime_pos: "record_expire_seconds t = DEALS_EXPIRES \<Longrightarrow> 0 < record_expire_seconds t"
  by (simp add: DEALS_EXPIRES_def)

section \<open>Posting\<close>

lemma data_insertion:
  assumes h: "represents oob psz now0 H db" "now0 \<le> now" and w: "works psz now os" and rc: "recyclable os (db_data db)"
    and len: "unat c \<le> length recs" and run: "addRecord os now now recs c 0 (data_table db) = (r, t)"
  shows "represents oob psz now H (db\<lparr>db_data := t, db_context := global_expire_at t\<rparr>)"
proof (rule represents_step [OF h])
  let ?t = "data_table db"
  have tn: "tended psz now (db_index db)" "tended psz now ?t" and ex: "record_expire_seconds (db_index db) = DEALS_EXPIRES" "record_expire_seconds ?t = DEALS_EXPIRES"
    using represents_later [OF h] by (simp_all add: represents_def both_tended_def)
  have ok: "all_ok os" "sc_page_size os = psz" using w by (simp_all add: works_def)
  note a = add_any [OF tn(2) ok _ works_in_time [OF w ex(2)] lifetime_pos [OF ex(2)] len run, simplified, OF rc]
  show "both_tended psz now (db\<lparr>db_data := t, db_context := global_expire_at t\<rparr>)"
    using a(1,2) tn(1) ex by (simp add: both_tended_def same_consts_def)
  show "db_context db \<le> db_context (db\<lparr>db_data := t, db_context := global_expire_at t\<rparr>)" using a(3) by simp
  show "holds (db_data (db\<lparr>db_data := t, db_context := global_expire_at t\<rparr>)) d s \<or>
      outdated now (db_context (db\<lparr>db_data := t, db_context := global_expire_at t\<rparr>)) d" if "holds (db_data db) d s" for d s
    using holds_kept [of ?t t now "global_expire_at t", OF _ a(4)] a(2) that by simp
qed (auto simp: listed_def)

lemma index_insertion:
  assumes h: "represents oob psz now H db" and w: "works psz now os" and rc: "recyclable os (db_index db)"
    and run: "addRecord os now now [info] 1 0 (index_table db) = (r, t)"
    and i: "filed oob (now, p) info" "holds (db_data db) info (ps_data p)"
  shows "represents oob psz now (case r of Inl e \<Rightarrow> H | Inr ee \<Rightarrow> H @ [(now, p)]) (db\<lparr>db_index := t, db_context := global_expire_at t\<rparr>)"
proof (rule represents_step [OF h order_refl])
  let ?t = "index_table db" and ?db = "db\<lparr>db_index := t, db_context := global_expire_at t\<rparr>"
  have tn: "tended psz now ?t" "tended psz now (db_data db)" and ex: "record_expire_seconds ?t = DEALS_EXPIRES" "record_expire_seconds (db_data db) = DEALS_EXPIRES"
    using h by (simp_all add: represents_def both_tended_def)
  have ok: "all_ok os" "sc_page_size os = psz" using w by (simp_all add: works_def)
  have len: "unat (1 :: u32) \<le> length [info]" by simp
  note fit = works_in_time [OF w ex(1)] and life = lifetime_pos [OF ex(1)]
  note a = add_any [OF tn(1) ok _ fit life len run, simplified, OF rc]
  show "both_tended psz now ?db" using a(1,2) tn(2) ex by (simp add: both_tended_def same_consts_def)
  show "db_context db \<le> db_context ?db" using a(3) by simp
  show "listed ?db d \<or> outdated now (db_context ?db) d" if "listed db d" for d
    using a(4) [of "deal_end d" "\<lambda>i xs. d \<in> set xs"] that by (simp add: listed_def outdated_over deal_end_pos)
  show "set H \<subseteq> set (case r of Inl e \<Rightarrow> H | Inr ee \<Rightarrow> H @ [(now, p)])" by (auto split: sum.split)
  show "d \<in> records (db_index db) \<or> (\<exists>e \<in> set (case r of Inl e \<Rightarrow> H | Inr ee \<Rightarrow> H @ [(now, p)]). filed oob e d \<and> holds (db_data ?db) d (ps_data (snd e)))"
    if d: "d \<in> records (db_index ?db)" for d
  proof (cases r)
    case (Inl e)
    then show ?thesis using add_refused(4) [OF tn(1) ok _ fit life len run [unfolded Inl], simplified, OF rc] d by auto
  next
    case (Inr ee)
    then show ?thesis using add_tended(4) [OF tn(1) ok _ fit life len run [unfolded Inr], simplified, OF rc] d i by auto
  qed
  show "e \<in> set H \<or> (\<exists>d. filed oob e d \<and> listed ?db d)" if e: "e \<in> set (case r of Inl e \<Rightarrow> H | Inr ee \<Rightarrow> H @ [(now, p)])" for e
  proof (cases r)
    case (Inl x)
    then show ?thesis using e by simp
  next
    case (Inr ee)
    have de: "deal_end info = unat now + unat (record_expire_seconds ?t)" using filed_time [OF i(1)] ex(1) by simp
    have "on_page t (deal_end info) (\<lambda>i xs. \<exists>ys. xs = ys @ take (unat (1 :: u32)) [info])"
      using add_tended(5) [OF tn(1) ok _ fit life len run [unfolded Inr], simplified, OF rc] unfolding de by simp
    then have "listed ?db info" by (fastforce simp: listed_def on_page_def)
    then show ?thesis using Inr e i(1) by auto
  qed
qed auto

lemma post_represents:
  assumes h: "represents oob psz now0 H db" "now0 \<le> now" and w: "works psz now os" and rc: "recyclable os (db_index db)" "recyclable os (db_data db)"
    and len: "length (ps_data p) < 2 ^ 32" and run: "post_deal os oob now p db = (r, db')"
  shows "represents oob psz now (if r = Inr () then H @ [(now, p)] else H) db'"
proof -
  let ?c = "word_of_nat (length (ps_data p)) :: u32"
  have c: "unat ?c \<le> length (ps_data p)" using len by (simp add: unat_of_nat)
  obtain rd t where a: "addRecord os now now (ps_data p) ?c 0 (data_table db) = (rd, t)" by fastforce
  let ?db = "db\<lparr>db_data := t, db_context := global_expire_at t\<rparr>"
  have h1: "represents oob psz now H ?db" by (rule data_insertion [OF h w rc(2) c a])
  show ?thesis
  proof (cases "\<exists>ee info. rd = Inr ee \<and> post_info oob now p ee = Inr info")
    case False
    then have "db' = ?db \<and> r \<noteq> Inr ()"
      using run a by (cases rd) (auto simp: addDeal_def on_data_def sbind_def split: sum.splits)
    then show ?thesis using h1 by simp
  next
    case True
    then obtain ee info where rd: "rd = Inr ee" and i: "post_info oob now p ee = Inr info" by blast
    note a = a [unfolded rd]
    obtain ri t' where b: "addRecord os now now [info] 1 0 (index_table ?db) = (ri, t')" by fastforce
    have r: "r = (case ri of Inl e \<Rightarrow> Inl e | Inr _ \<Rightarrow> Inr ())" "db' = ?db\<lparr>db_index := t', db_context := global_expire_at t'\<rparr>"
      using run a i b by (auto simp: addDeal_def on_data_def on_index_def sbind_def ret_def split: sum.splits)
    have tn: "tended psz now (data_table db)" and ex: "record_expire_seconds (data_table db) = DEALS_EXPIRES"
      using represents_later [OF h] by (simp_all add: represents_def both_tended_def)
    have ok: "table_ok (sc_page_size os) (data_table db)" using tn w by (simp add: tended_def works_def)
    have df: "day_fits now" using w by (simp add: works_def day_fits_def)
    note inf = deal_info_fields [OF i]
    have "holds t info (ps_data p)"
      by (rule addRecord_holds_new [OF ok _ _ ex len a])
        (use rc(2) df inf addRecord_page_name [OF ok _ expiry_pos [OF ex df] c a] in \<open>simp_all add: day_fits_def\<close>)
    then have "represents oob psz now (case ri of Inl e \<Rightarrow> H | Inr ee \<Rightarrow> H @ [(now, p)]) db'"
      unfolding r(2) by (intro index_insertion [OF h1 w _ b]) (use rc(1) i in \<open>auto simp: filed_def\<close>)
    then show ?thesis using r(1) by (cases ri) simp_all
  qed
qed

section \<open>Searching\<close>

lemma read_deal_keeps: "all_ok os \<Longrightarrow> sc_page_size os = psz \<Longrightarrow> keeps (shape psz t0) (read_deal os d)"
  unfolding read_deal_def get_element_data_def by (intro keeps_sbind keeps_getPage) (auto simp: keeps_def)

lemma read_deal_neutral: "lock_neutral (read_deal os d)"
  unfolding read_deal_def get_element_data_def
  by (intro lock_neutral_sbind getPageByName_neutral) (auto simp: lock_neutral_def)

lemma fill_keeps: "all_ok os \<Longrightarrow> sc_page_size os = psz \<Longrightarrow> keeps (shape psz t0) (fill_deals_with_data os ds)"
  by (induction ds) (auto intro!: keeps_sbind read_deal_keeps)

lemma fill_neutral: "lock_neutral (fill_deals_with_data os ds)"
proof (induction ds)
  case (Cons d ds)
  show ?case unfolding fill_deals_with_data.simps
    by (intro lock_neutral_sbind read_deal_neutral Cons) (simp add: lock_neutral_def)
qed (simp add: lock_neutral_def)

lemma fill_tended:
  assumes t: "tended psz now t" and ok: "all_ok os" "sc_page_size os = psz" and h: "list_all2 (holds t) ds ss"
  obtains t' where "fill_deals_with_data os ds t = (Inr ss, t')" "tended psz now t'" "same_consts t t'" "global_expire_at t' = global_expire_at t"
    "\<And>d s. holds t d s \<Longrightarrow> holds t' d s"
proof -
  have tok: "table_ok (sc_page_size os) t" using t ok(2) by (simp add: tended_def)
  obtain t' where run: "fill_deals_with_data os ds t = (Inr ss, t')" and v: "view_inv (sc_page_size os) t t'" and tok': "table_ok (sc_page_size os) t'"
    using fill_deals_holds [OF tok tended_serviceable [OF t ok] h] by blast
  have rest: "same_rest t t'" using v by (simp add: view_inv_def)
  have "unat (expire_at (index_at t' i)) \<le> unat now + unat (record_expire_seconds t)" if "i < max_pages t" for i
    using same_rest_index [OF rest] t that by (simp add: tended_def)
  from tended_step [OF t fill_keeps [OF ok] lock_neutral_balanced [OF fill_neutral] run _ this] tok' ok(2)
  have "tended psz now t'" "same_consts t t'" by auto
  then show thesis using that [OF run] rest holds_view [OF v] by (simp add: same_rest_def)
qed

text \<open>What a read of the index does to the store: nothing.\<close>

lemma scan_represents:
  assumes h: "represents oob psz now0 H db" "now0 \<le> now" and w: "works psz now os"
    and run: "processRecords os now now f a (index_table db) = (r, t)"
  shows "represents oob psz now H (db\<lparr>db_index := t, db_context := global_expire_at t\<rparr>)"
proof (rule represents_step [OF h])
  let ?t = "index_table db" and ?db = "db\<lparr>db_index := t, db_context := global_expire_at t\<rparr>"
  have tn: "tended psz now ?t" "tended psz now (db_data db)" and ex: "record_expire_seconds ?t = DEALS_EXPIRES" "record_expire_seconds (db_data db) = DEALS_EXPIRES"
    using represents_later [OF h] by (simp_all add: represents_def both_tended_def)
  have ok: "all_ok os" "sc_page_size os = psz" using w by (simp_all add: works_def)
  note s = scan_tended [OF tn(1) ok works_in_time [OF w ex(1)] run, simplified]
  show "both_tended psz now ?db" using s(2,3) tn(2) ex by (simp add: both_tended_def same_consts_def)
  show "db_context db \<le> db_context ?db" using s(4) by simp
  show "listed ?db d \<or> outdated now (db_context ?db) d" if "listed db d" for d
    using s(6) [of "deal_end d" "\<lambda>i xs. d \<in> set xs"] s(4) that by (simp add: listed_def outdated_over deal_end_pos)
  show "d \<in> records (db_index db) \<or> (\<exists>e \<in> set H. filed oob e d \<and> holds (db_data ?db) d (ps_data (snd e)))" if "d \<in> records (db_index ?db)" for d
    using s(5) that by auto
qed auto

lemma fill_represents:
  assumes h: "represents oob psz now H db" and w: "works psz now os" and l: "list_all2 (holds (db_data db)) ds ss"
  obtains db' where "on_data (fill_deals_with_data os ds) db = (Inr ss, db')" "represents oob psz now H db'"
proof -
  have tn: "tended psz now (data_table db)" and ok: "all_ok os" "sc_page_size os = psz"
    using h w by (simp_all add: represents_def both_tended_def works_def)
  have "list_all2 (holds (data_table db)) ds ss" using l by simp
  from fill_tended [OF tn ok this] obtain t' where t': "fill_deals_with_data os ds (data_table db) = (Inr ss, t')" "tended psz now t'"
    "same_consts (data_table db) t'" "global_expire_at t' = db_context db" "\<And>d s. holds (db_data db) d s \<Longrightarrow> holds t' d s" by auto
  let ?db = "db\<lparr>db_data := t', db_context := global_expire_at t'\<rparr>"
  have "represents oob psz now H ?db"
    by (rule represents_step [OF h order_refl])
      (use h t'(2-5) in \<open>auto simp: represents_def both_tended_def same_consts_def listed_def\<close>)
  then show thesis using that t'(1) by (simp add: on_data_def)
qed

text \<open>
  The interface of a search: started from a fresh query object it either refuses the
  request without touching the table, or scans the table and selects some of the visible deals
  that match.
\<close>

locale deal_search =
  fixes run :: "os \<Rightarrow> u32 \<Rightarrow> 'i \<Rightarrow> 'x query \<Rightarrow> (DealInfo Table, DealInfo list) op" and start :: "'x query \<Rightarrow> 'x query" and orders :: "'i \<Rightarrow> bool"
    and refuses :: "'x query \<Rightarrow> bool"
  assumes new: "unfiltered (start raw)"
    and outcome: "\<And>now0. fill_query now0 p (start raw) = Inr q \<Longrightarrow> scannable os now now t \<Longrightarrow> orders iter \<Longrightarrow>
      if refuses q then \<exists>msg. run os now iter q t = (Inl (Error msg BadParameter), t)
      else \<exists>res f a. run os now iter q t = (Inr res, snd (processRecords os now now (f :: 'x query \<Rightarrow> DealInfo \<Rightarrow> 'x query) a t)) \<and>
         set res \<subseteq> set (filter (matches (search_time now t q)) (contents now t))"
begin

lemma search_outcome:
  assumes h: "represents oob psz now0 H db" "now0 \<le> now" and w: "works psz now os" and i: "orders iter"
    and s: "searchFor os now (run os now iter) (start raw) p db = (r, db')"
  shows "represents oob psz now H db'"
    "r = Inr datas \<Longrightarrow> \<exists>q ds t'. fill_query now p (start raw) = Inr q \<and> run os now iter q (index_table db) = (Inr ds, t') \<and>
       list_all2 (\<lambda>d s. wanted now p d \<and> \<not> outdated now (db_context db) d \<and> (\<exists>e \<in> set H. filed oob e d \<and> s = ps_data (snd e))) ds datas"
    "case fill_query now p (start raw) of Inl e \<Rightarrow> r = Inl e
     | Inr q \<Rightarrow> if refuses q then \<exists>msg. r = Inl (Error msg BadParameter) else \<exists>datas. r = Inr datas"
proof -
  note h1 = represents_later [OF h]
  have ok: "all_ok os" "sc_page_size os = psz" "DEALS_EXPIRES \<le> now" using w by (simp_all add: works_def)
  let ?t = "index_table db"
  have tn: "tended psz now ?t" and ex: "record_expire_seconds ?t = DEALS_EXPIRES" using h1 by (simp_all add: represents_def both_tended_def)
  have sc: "scannable os now now ?t"
    using tn tended_serviceable [OF tn ok(1,2)] tended_no_wrap [OF tn works_in_time [OF w ex]] ok(2) unfolding scannable_def by (simp add: tended_def)
  have goal: "represents oob psz now H db' \<and> (\<forall>datas. r = Inr datas \<longrightarrow> (\<exists>q ds t'. fill_query now p (start raw) = Inr q \<and>
      run os now iter q ?t = (Inr ds, t') \<and> list_all2 (\<lambda>d s. wanted now p d \<and> \<not> outdated now (db_context db) d \<and>
        (\<exists>e \<in> set H. filed oob e d \<and> s = ps_data (snd e))) ds datas)) \<and>
      (case fill_query now p (start raw) of Inl e \<Rightarrow> r = Inl e
       | Inr q \<Rightarrow> if refuses q then \<exists>msg. r = Inl (Error msg BadParameter) else \<exists>datas. r = Inr datas)"
  proof (cases "fill_query now p (start raw)")
    case (Inl e)
    then show ?thesis using s h1 by (auto simp: searchFor_def)
  next
    case (Inr q)
    show ?thesis
    proof (cases "refuses q")
      case True
      then have "\<exists>msg. run os now iter q ?t = (Inl (Error msg BadParameter), ?t)" using outcome [OF Inr sc i] by simp
      then have "db' = db\<lparr>db_index := ?t\<rparr> \<and> (\<exists>msg. r = Inl (Error msg BadParameter))" using s Inr by (auto simp: searchFor_def sbind_def on_index_def)
      then show ?thesis using h1 True Inr by (auto simp: represents_def both_tended_def listed_def)
    next
      case False
      then have "\<exists>res f a. run os now iter q ?t = (Inr res, snd (processRecords os now now (f :: 'x query \<Rightarrow> DealInfo \<Rightarrow> 'x query) a ?t)) \<and>
         set res \<subseteq> set (filter (matches (search_time now ?t q)) (contents now ?t))" using outcome [OF Inr sc i] by simp
      then obtain res rr t' and f :: "'x query \<Rightarrow> DealInfo \<Rightarrow> 'x query" and a where e: "run os now iter q ?t = (Inr res, t')"
        and pr: "processRecords os now now f a ?t = (rr, t')" and sub: "set res \<subseteq> set (filter (matches (search_time now ?t q)) (contents now ?t))"
        by (metis prod.collapse)
      let ?db = "db\<lparr>db_index := t', db_context := global_expire_at t'\<rparr>"
      have h2: "represents oob psz now H ?db" by (rule scan_represents [OF h w pr])
      have src: "wanted now p d \<and> \<not> outdated now (db_context db) d \<and> (\<exists>e \<in> set H. filed oob e d \<and> holds (db_data db) d (ps_data (snd e)))"
        if "d \<in> set res" for d
      proof -
        have m: "matches (search_time now ?t q) d" "d \<in> records (db_index db)" using sub that contents_records [of now ?t] by auto
        have "\<not> outdated now (db_context db) d" using matches_not_outdated [OF m(1) ok(3)] by simp
        moreover have "wanted now p d" using m(1) unfolding matches_wanted [OF Inr new] by blast
        ultimately show ?thesis using h1 m(2) by (auto simp: represents_def)
      qed
      from src have "\<forall>d \<in> set res. \<exists>e. e \<in> set H \<and> filed oob e d \<and> holds (db_data db) d (ps_data (snd e))" by blast
      then obtain e_of where eo: "\<And>d. d \<in> set res \<Longrightarrow> e_of d \<in> set H \<and> filed oob (e_of d) d \<and> holds (db_data db) d (ps_data (snd (e_of d)))"
        by metis
      have "list_all2 (holds (db_data ?db)) res (map (\<lambda>d. ps_data (snd (e_of d))) res)"
        by (simp add: list.rel_map) (rule list.rel_refl_strong, use eo in blast)
      from fill_represents [OF h2 w this] obtain db2 where fl: "on_data (fill_deals_with_data os res) ?db = (Inr (map (\<lambda>d. ps_data (snd (e_of d))) res), db2)"
        "represents oob psz now H db2" by blast
      have "searchFor os now (run os now iter) (start raw) p db = on_data (fill_deals_with_data os res) ?db"
        using Inr e by (simp add: searchFor_def sbind_def on_index_def)
      then have r: "r = Inr (map (\<lambda>d. ps_data (snd (e_of d))) res)" "db' = db2" using s fl(1) by simp_all
      have "list_all2 (\<lambda>d s. wanted now p d \<and> \<not> outdated now (db_context db) d \<and> (\<exists>e \<in> set H. filed oob e d \<and> s = ps_data (snd e)))
          res (map (\<lambda>d. ps_data (snd (e_of d))) res)"
        by (simp add: list.rel_map) (rule list.rel_refl_strong, use src eo in blast)
      then show ?thesis using r fl(2) Inr e False by auto
    qed
  qed
  then show "represents oob psz now H db'" by blast
  show "case fill_query now p (start raw) of Inl e \<Rightarrow> r = Inl e
     | Inr q \<Rightarrow> if refuses q then \<exists>msg. r = Inl (Error msg BadParameter) else \<exists>datas. r = Inr datas" using goal by blast
  show "\<exists>q ds t'. fill_query now p (start raw) = Inr q \<and> run os now iter q ?t = (Inr ds, t') \<and>
       list_all2 (\<lambda>d s. wanted now p d \<and> \<not> outdated now (db_context db) d \<and> (\<exists>e \<in> set H. filed oob e d \<and> s = ps_data (snd e))) ds datas"
    if "r = Inr datas" using goal that by blast
qed

end

section \<open>The searches of the server\<close>

lemma execute_state:
  "pre_search q = Inr q0 \<Longrightarrow> snd (execute os ts time0 now pre_search pd post_search get_result q t) =
     snd (processRecords os time0 now (process_element pd) (search_time ts t q0) t)"
  by (auto simp: execute_def search_time_def sbind_def ret_def Let_def split: prod.split sum.split)

lemma selected:
  fixes f :: "'p \<Rightarrow> 'e \<Rightarrow> 'p"
  assumes "run = (Inr (answer lt key n ds ks), t')" "keys_of key ds ks" "snd run = snd (processRecords os now now f a t)"
  shows "\<exists>res (f :: 'p \<Rightarrow> 'e \<Rightarrow> 'p) a. run = (Inr res, snd (processRecords os now now f a t)) \<and> set res \<subseteq> set ds"
  using assms answer_mem [OF assms(2)] by (intro exI [of _ "answer lt key n ds ks"] exI [of _ f] exI [of _ a]) auto

interpretation by_destination: deal_search "\<lambda>os now. SimplyCheapest_execute os now now now" SimplyCheapest_new iteration_order filter_all_combinations
proof
  show "unfiltered (SimplyCheapest_new raw)" for raw by (rule unfiltered_new)
  fix p raw q os now and t :: "DealInfo Table" and iter :: "(u32, DealInfo list) umap \<Rightarrow> (u32, DealInfo list) umap" and now0
  assume a: "fill_query now0 p (SimplyCheapest_new raw) = Inr q" "scannable os now now t" "iteration_order iter"
  let ?run = "SimplyCheapest_execute os now now now iter q t"
  show "if filter_all_combinations q then \<exists>msg. ?run = (Inl (Error msg BadParameter), t)
     else \<exists>res f a. ?run = (Inr res, snd (processRecords os now now (f :: SimplyCheapest \<Rightarrow> DealInfo \<Rightarrow> SimplyCheapest) a t)) \<and>
      set res \<subseteq> set (filter (matches (search_time now t q)) (contents now t))"
  proof (cases "filter_all_combinations q")
    case True
    then show ?thesis by (simp add: SimplyCheapest_execute_def SimplyCheapest_pre_search_def execute_def)
  next
    case False
    then have f: "SimplyCheapest_fresh q" using cheapest_members [OF fill_query_more(1) [OF a(1)]]
      by (simp add: SimplyCheapest_fresh_def SimplyCheapest_new_def)
    have "snd ?run = snd (processRecords os now now (process_element SimplyCheapest_process_deal) (search_time now t q) t)"
      unfolding SimplyCheapest_execute_def by (rule execute_state) (simp add: SimplyCheapest_pre_search_def False)
    note st = this
    have "\<exists>res f a. ?run = (Inr res, snd (processRecords os now now (f :: SimplyCheapest \<Rightarrow> DealInfo \<Rightarrow> SimplyCheapest) a t)) \<and>
      set res \<subseteq> set (filter (matches (search_time now t q)) (contents now t))"
      by (rule SimplyCheapest_answer [OF a(2,3) f, of now]) (rule selected [OF _ _ st])
    then show ?thesis using False by simp
  qed
qed

interpretation by_country: deal_search "\<lambda>os now. CheapestByCountry_execute os now now now" CheapestByCountry_new iteration_order filter_all_combinations
proof
  show "unfiltered (CheapestByCountry_new raw)" for raw by (rule unfiltered_new)
  fix p raw q os now and t :: "DealInfo Table" and iter :: "(u32, DealInfo list) umap \<Rightarrow> (u32, DealInfo list) umap" and now0
  assume a: "fill_query now0 p (CheapestByCountry_new raw) = Inr q" "scannable os now now t" "iteration_order iter"
  let ?run = "CheapestByCountry_execute os now now now iter q t"
  show "if filter_all_combinations q then \<exists>msg. ?run = (Inl (Error msg BadParameter), t)
     else \<exists>res f a. ?run = (Inr res, snd (processRecords os now now (f :: CheapestByCountry \<Rightarrow> DealInfo \<Rightarrow> CheapestByCountry) a t)) \<and>
      set res \<subseteq> set (filter (matches (search_time now t q)) (contents now t))"
  proof (cases "filter_all_combinations q")
    case True
    then show ?thesis by (simp add: CheapestByCountry_execute_def CheapestByCountry_pre_search_def execute_def Let_def)
  next
    case False
    let ?q0 = "if filter_destination_country q then q\<lparr>filter_result_limit := of_nat (card (destination_country_set q))\<rparr> else q"
    have q0: "CheapestByCountry_pre_search q = Inr ?q0" using False by (simp add: CheapestByCountry_pre_search_def Let_def)
    have f: "CheapestByCountry_fresh q" using country_members [OF fill_query_more(1) [OF a(1)]]
      False by (simp add: CheapestByCountry_fresh_def CheapestByCountry_new_def)
    have "snd ?run = snd (processRecords os now now (process_element CheapestByCountry_process_deal) (search_time now t ?q0) t)"
      unfolding CheapestByCountry_execute_def by (rule execute_state) (rule q0)
    note st = this
    have "\<exists>res f a. ?run = (Inr res, snd (processRecords os now now (f :: CheapestByCountry \<Rightarrow> DealInfo \<Rightarrow> CheapestByCountry) a t)) \<and>
      set res \<subseteq> set (filter (matches (search_time now t q)) (contents now t))"
      by (rule CheapestByCountry_answer [OF a(2,3) f, of now]) (rule selected [OF _ _ st])
    then show ?thesis using False by simp
  qed
qed

interpretation by_day: deal_search "\<lambda>os now. CheapestByDay_execute os now now now" CheapestByDay_new iteration_order "\<lambda>q. checkInputParams q \<noteq> Inr ()"
proof
  show "unfiltered (CheapestByDay_new raw)" for raw by (rule unfiltered_new)
  fix p raw q os now and t :: "DealInfo Table" and iter :: "(u32, DealInfo list) umap \<Rightarrow> (u32, DealInfo list) umap" and now0
  assume a: "fill_query now0 p (CheapestByDay_new raw) = Inr q" "scannable os now now t" "iteration_order iter"
  let ?run = "CheapestByDay_execute os now now now iter q t"
  show "if checkInputParams q \<noteq> Inr () then \<exists>msg. ?run = (Inl (Error msg BadParameter), t)
     else \<exists>res f a. ?run = (Inr res, snd (processRecords os now now (f :: CheapestByDay \<Rightarrow> DealInfo \<Rightarrow> CheapestByDay) a t)) \<and>
      set res \<subseteq> set (filter (matches (search_time now t q)) (contents now t))"
  proof (cases "checkInputParams q \<noteq> Inr ()")
    case True
    then obtain msg where "checkInputParams q = Inl (Error msg BadParameter)" by (auto simp: checkInputParams_def split: if_splits)
    then show ?thesis by (simp add: CheapestByDay_execute_def CheapestByDay_pre_search_def execute_def)
  next
    case False
    then obtain q0 where Inr: "CheapestByDay_pre_search q = Inr q0"
      by (cases "CheapestByDay_pre_search q") (auto simp: CheapestByDay_pre_search_def Let_def split: if_splits)
    then have f: "day_ready q q0" using day_members [OF fill_query_more(1) [OF a(1)]]
      by (simp add: day_ready_def CheapestByDay_new_def)
    have "snd ?run = snd (processRecords os now now (process_element CheapestByDay_process_deal) (search_time now t q0) t)"
      unfolding CheapestByDay_execute_def by (rule execute_state) (rule Inr)
    note st = this
    have "\<exists>res f a. ?run = (Inr res, snd (processRecords os now now (f :: CheapestByDay \<Rightarrow> DealInfo \<Rightarrow> CheapestByDay) a t)) \<and>
      set res \<subseteq> set (filter (matches (search_time now t q)) (contents now t))"
      by (rule CheapestByDay_answer [OF a(2,3) f, of now]) (rule selected [OF _ _ st])
    then show ?thesis using False by simp
  qed
qed

section \<open>Clearing and starting\<close>

lemma truncate_represents:
  assumes h: "represents oob psz now0 H db" "now0 \<le> now" and w: "works psz now os" and run: "DealsDatabase_truncate os db = (Inr (), db')"
  shows "represents oob psz now [] db'"
proof -
  have tn: "tended psz now (index_table db)" "tended psz now (data_table db)"
    and ex: "record_expire_seconds (index_table db) = DEALS_EXPIRES" "record_expire_seconds (data_table db) = DEALS_EXPIRES"
    using represents_later [OF h] by (simp_all add: represents_def both_tended_def)
  have ok: "all_ok os" "sc_page_size os = psz" using w by (simp_all add: works_def)
  obtain t t' where c: "cleanup os (data_table db) = (Inr (), t)" "cleanup os ((db_index db)\<lparr>global_expire_at := global_expire_at t\<rparr>) = (Inr (), t')"
    and db': "db' = \<lparr>db_context = global_expire_at t', db_index = t', db_data = t\<rparr>"
    using run by (cases db) (auto simp: DealsDatabase_truncate_def on_data_def on_index_def sbind_def split: prod.splits sum.splits)
  have tn': "tended psz now ((db_index db)\<lparr>global_expire_at := global_expire_at t\<rparr>)" using tn(1) by simp
  note d = cleanup_tended [OF tn(2) ok c(1)] and i = cleanup_tended [OF tn' ok c(2)]
  show ?thesis using d i ex by (simp add: represents_def both_tended_def db' same_consts_def)
qed

lemma read_only_represents:
  assumes h: "represents oob psz now0 H db" "now0 \<le> now" and w: "works psz now os"
    and run: "on_index (sbind (processRecords os now now f a) (\<lambda>x. ret (g x))) db = (r, db')"
  shows "represents oob psz now H db'"
proof -
  obtain rr t where p: "processRecords os now now f a (index_table db) = (rr, t)" by fastforce
  then have "db' = db\<lparr>db_index := t, db_context := global_expire_at t\<rparr>"
    using run by (auto simp: on_index_def sbind_def ret_def split: sum.splits)
  then show ?thesis using scan_represents [OF h w p] by simp
qed

lemma page_names_short: "length n \<le> 9 \<Longrightarrow> i < 10000 \<Longrightarrow> length (data_page_name n i) \<le> 14"
  using length_to_string [of 4 i] by (simp add: data_page_name_def)

lemma new_represents:
  assumes w: "works psz now os" and p: "0 < psz" "psz \<le> 2 ^ 30"
    and run: "DealsDatabase_new os empty_store empty_store (empty_store, empty_store, Map.empty) = (Inr db, st')"
  shows "represents oob psz now [] db" "index_at (db_index db) 0 = index_zero" "index_at (db_data db) 0 = index_zero"
    "max_elements_in_page (db_index db) = DEALINFO_ELEMENTS" "max_elements_in_page (db_data db) = DEALDATA_ELEMENTS"
proof -
  have ok: "all_ok os" "sc_page_size os = psz" using w by (simp_all add: works_def)
  have calls: "sem_ok os n" "open_ok os n" "trunc_ok os n" "map_ok os n" "isMemAvailable os" for n using ok by (simp_all add: all_ok_def)
  let ?n = "DEALS_DB_NAME @ ''Context''"
  note names = DEALINFO_TABLENAME_def DEALDATA_TABLENAME_def DEALS_DB_NAME_def
  note geo = names DEALINFO_SIZE_def DEALINFO_PAGES_def DEALINFO_ELEMENTS_def DEALDATA_PAGES_def DEALDATA_ELEMENTS_def
    PAGE_INFORMATION_SIZE_def INDEX_ELEMENT_SIZE_def
  obtain ctx st1 ix st2 dt where steps: "on_contexts (SharedContext_new os DEALS_DB_NAME) (empty_store, empty_store, Map.empty) = (Inr ctx, st1)"
    "on_indexes (Table_new os DEALINFO_SIZE deal_zero DEALINFO_TABLENAME DEALINFO_PAGES DEALINFO_ELEMENTS DEALS_EXPIRES
       (ctx_global_expire_at ctx) empty_store) st1 = (Inr ix, st2)"
    "on_indexes (Table_new os 1 NUL DEALDATA_TABLENAME DEALDATA_PAGES DEALDATA_ELEMENTS DEALS_EXPIRES
       (ctx_global_expire_at ctx) empty_store) st2 = (Inr dt, st')"
    and db: "db_index db = ix" "db_data db = dt"
    using run unfolding DealsDatabase_new_def by (auto elim!: sbind_InrE simp: ret_def)
  have "\<exists>c d'. SharedContext_new os DEALS_DB_NAME (empty_store, Map.empty) = (Inr c, (d', [?n \<mapsto> 1]))"
    using page_created [OF calls, of ?n Map.empty empty_store DBCONTEXT_SIZE context_zero 1]
    by (simp add: SharedContext_new_def sbind_def DEALS_DB_NAME_def)
  then obtain d' where st1: "st1 = (d', empty_store, [?n \<mapsto> 1])" using steps(1) by (auto simp: on_contexts_def split: prod.splits)
  obtain st2' where r1: "Table_new os DEALINFO_SIZE deal_zero DEALINFO_TABLENAME DEALINFO_PAGES DEALINFO_ELEMENTS DEALS_EXPIRES
       (ctx_global_expire_at ctx) empty_store (empty_store, [?n \<mapsto> 1]) = (Inr ix, st2')" and st2: "st2 = (d', st2')"
    using steps(2) unfolding st1 by (auto simp: on_indexes_def split: prod.splits)
  have fresh: "data_page_name m i \<noteq> ?n" "data_page_name m i \<noteq> DEALINFO_TABLENAME" if "m \<in> {DEALINFO_TABLENAME, DEALDATA_TABLENAME}" for m i
    using that by (auto simp: names data_page_name_def)
  note n1 = new_tended(1) [OF r1, where now = now] new_tended(2-) [OF r1]
  have i: "tended psz now ix" "records ix = {}" "record_expire_seconds ix = DEALS_EXPIRES"
    "st2' = (\<lparr>names = [DEALINFO_TABLENAME \<mapsto> 0], objects = [table_index ix]\<rparr>, [?n \<mapsto> 1, DEALINFO_TABLENAME \<mapsto> 1])"
    "max_elements_in_page ix = DEALINFO_ELEMENTS" "index_at ix 0 = index_zero"
    using n1 ok p fresh [of DEALINFO_TABLENAME] by (simp_all add: geo page_names_short sem_bounded_def SEM_VALUE_MAX_def)
  obtain st3' where r2: "Table_new os 1 NUL DEALDATA_TABLENAME DEALDATA_PAGES DEALDATA_ELEMENTS DEALS_EXPIRES
       (ctx_global_expire_at ctx) empty_store st2' = (Inr dt, st3')"
    using steps(3) unfolding st2 by (auto simp: on_indexes_def split: prod.splits)
  note n2 = new_tended(1) [OF r2 [unfolded i(4)], where now = now] new_tended(2-) [OF r2 [unfolded i(4)]]
  have d: "tended psz now dt" "record_expire_seconds dt = DEALS_EXPIRES" "max_elements_in_page dt = DEALDATA_ELEMENTS" "index_at dt 0 = index_zero"
    using n2 ok p fresh [of DEALDATA_TABLENAME] by (simp_all add: geo page_names_short sem_bounded_def SEM_VALUE_MAX_def)
  show "represents oob psz now [] db" using i d by (simp add: represents_def both_tended_def db)
  show "index_at (db_index db) 0 = index_zero" "index_at (db_data db) 0 = index_zero"
    "max_elements_in_page (db_index db) = DEALINFO_ELEMENTS" "max_elements_in_page (db_data db) = DEALDATA_ELEMENTS"
    using i d by (simp_all add: db)
qed

section \<open>Runs\<close>

text \<open>
  The runs of a database that starts on empty shared memory.  In each operation the system calls
  succeed and all readings of the clock are the same second, not before those of the
  operation before; memory may be low, except with an empty table.  A post that fails, for whatever
  reason, is not in the store.
\<close>

inductive deals_run :: "(int \<Rightarrow> u8) \<Rightarrow> nat \<Rightarrow> u32 \<Rightarrow> store \<Rightarrow> DealsDatabase \<Rightarrow> bool" for oob psz where
  created: "works psz now os \<Longrightarrow> 0 < psz \<Longrightarrow> psz \<le> 2 ^ 30 \<Longrightarrow>
    DealsDatabase_new os empty_store empty_store (empty_store, empty_store, Map.empty) = (Inr db, st) \<Longrightarrow> deals_run oob psz now [] db"
| posted: "deals_run oob psz now0 H db \<Longrightarrow> now0 \<le> now \<Longrightarrow> works psz now os \<Longrightarrow>
    recyclable os (db_index db) \<Longrightarrow> recyclable os (db_data db) \<Longrightarrow> length (ps_data p) < 2 ^ 32 \<Longrightarrow>
    post_deal os oob now p db = (r, db') \<Longrightarrow> deals_run oob psz now (if r = Inr () then H @ [(now, p)] else H) db'"
| cheapest: "deals_run oob psz now0 H db \<Longrightarrow> now0 \<le> now \<Longrightarrow> works psz now os \<Longrightarrow> iteration_order iter \<Longrightarrow>
    searchFor os now (SimplyCheapest_execute os now now now iter) (SimplyCheapest_new raw) sp db = (rs, db') \<Longrightarrow> deals_run oob psz now H db'"
| countries: "deals_run oob psz now0 H db \<Longrightarrow> now0 \<le> now \<Longrightarrow> works psz now os \<Longrightarrow> iteration_order iter \<Longrightarrow>
    searchFor os now (CheapestByCountry_execute os now now now iter) (CheapestByCountry_new rawc) sp db = (rs, db') \<Longrightarrow> deals_run oob psz now H db'"
| days: "deals_run oob psz now0 H db \<Longrightarrow> now0 \<le> now \<Longrightarrow> works psz now os \<Longrightarrow> iteration_order iter \<Longrightarrow>
    searchFor os now (CheapestByDay_execute os now now now iter) (CheapestByDay_new rawd) sp db = (rs, db') \<Longrightarrow> deals_run oob psz now H db'"
| routes: "deals_run oob psz now0 H db \<Longrightarrow> now0 \<le> now \<Longrightarrow> works psz now os \<Longrightarrow>
    getUniqueRoutesDeals os now now order db = (rr, db') \<Longrightarrow> deals_run oob psz now H db'"
| stats: "deals_run oob psz now0 H db \<Longrightarrow> now0 \<le> now \<Longrightarrow> works psz now os \<Longrightarrow>
    getStats os now now db = (rr, db') \<Longrightarrow> deals_run oob psz now H db'"
| cleared: "deals_run oob psz now0 H db \<Longrightarrow> now0 \<le> now \<Longrightarrow> works psz now os \<Longrightarrow>
    DealsDatabase_truncate os db = (Inr (), db') \<Longrightarrow> deals_run oob psz now [] db'"

lemma run_represents: "deals_run oob psz now H db \<Longrightarrow> represents oob psz now H db"
proof (induction rule: deals_run.induct)
  case (created now os db st)
  then show ?case by (rule new_represents(1))
next
  case (posted now0 H db now os p r db')
  from post_represents [OF posted.IH posted.hyps(2-7)] show ?case .
next
  case (cheapest now0 H db now os iter raw sp rs db')
  from by_destination.search_outcome(1) [OF cheapest.IH cheapest.hyps(2-5)] show ?case .
next
  case (countries now0 H db now os iter rawc sp rs db')
  from by_country.search_outcome(1) [OF countries.IH countries.hyps(2-5)] show ?case .
next
  case (days now0 H db now os iter rawd sp rs db')
  from by_day.search_outcome(1) [OF days.IH days.hyps(2-5)] show ?case .
next
  case (routes now0 H db now os order rr db')
  show ?case
    by (rule read_only_represents [OF routes.IH routes.hyps(2,3), where g = "UniqueProcessor_getStringResults order"])
      (use routes.hyps(4) in \<open>simp add: getUniqueRoutesDeals_def getUniqueRoutesRoutine_def\<close>)
next
  case (stats now0 H db now os rr db')
  show ?case
    by (rule read_only_represents [OF stats.IH stats.hyps(2,3), where g = StatsProcessor_getStringResults])
      (use stats.hyps(4) in \<open>simp add: getStats_def getStatsRoutine_def\<close>)
next
  case (cleared now0 H db now os db')
  from truncate_represents [OF cleared.IH cleared.hyps(2-4)] show ?case .
qed

lemma listed_contents: "listed db d \<Longrightarrow> \<not> outdated now (db_context db) d \<Longrightarrow> d \<in> set (contents now (index_table db))"
  using on_page_contents [of "index_table db" "deal_end d" d now] by (simp add: listed_def outdated_over)

lemma not_outdated_recent:
  assumes "\<not> outdated now g d" "DEALS_EXPIRES \<le> now"
  shows "max g now - DEALS_EXPIRES < d_timestamp d"
proof -
  have le: "DEALS_EXPIRES \<le> max g now" using assms(2) by (simp add: le_max_iff_disj)
  have "unat (max g now) < unat (d_timestamp d) + unat DEALS_EXPIRES"
    using assms(1) by (auto simp: outdated_def deal_end_def max_def)
  then show ?thesis using unat_diff_le [OF le] le by (simp add: word_less_nat_alt word_le_nat_alt)
qed

text \<open>The deals a search may return: the records of the posts it asked for, unless outdated.\<close>

definition candidate :: "(int \<Rightarrow> u8) \<Rightarrow> u32 \<Rightarrow> u32 \<Rightarrow> SearchParams \<Rightarrow> store \<Rightarrow> DealInfo \<Rightarrow> bool" where
  "candidate oob now g sp H d \<longleftrightarrow> (\<exists>e \<in> set H. filed oob e d) \<and> wanted now sp d \<and> \<not> outdated now g d"

text \<open>
  An answer of at most \<open>n\<close> of the candidates: one per destination, in ascending order
  of price.  None is missed: the destination of every candidate is in the answer, unless the limit cuts it.
  When no trip was posted twice at different prices or times, every candidate is answered by one that is
  not dearer: the one of its destination, or, when the limit cuts the answer, all of them.
\<close>

definition cheapest_of :: "(DealInfo \<Rightarrow> bool) \<Rightarrow> nat \<Rightarrow> DealInfo list \<Rightarrow> bool" where
  "cheapest_of C n ds \<longleftrightarrow> (\<forall>d \<in> set ds. C d) \<and> distinct (map d_destination ds) \<and> sorted (map d_price ds) \<and> length ds \<le> n
     \<and> (\<forall>d. C d \<longrightarrow> length ds = n \<or> d_destination d \<in> d_destination ` set ds)
     \<and> ((\<forall>d e. C d \<and> C e \<and> deal_equal d e \<longrightarrow> d_price d = d_price e \<and> d_timestamp d = d_timestamp e) \<and> (\<forall>d. C d \<longrightarrow> d_price d \<noteq> 0) \<longrightarrow>
        (\<forall>d. C d \<longrightarrow> (\<exists>r \<in> set ds. d_destination r = d_destination d \<and> d_price r \<le> d_price d) \<or>
           length ds = n \<and> (\<forall>r \<in> set ds. d_price r \<le> d_price d)))"

lemma answer_cheapest_of:
  assumes ks: "keys_of d_destination found ks" and c: "\<And>d. d \<in> set found \<Longrightarrow> C d"
    and f: "\<And>d. C d \<Longrightarrow> \<exists>d' \<in> set found. d_destination d' = d_destination d \<and> d_price d' = d_price d"
  shows "cheapest_of C n (answer (\<lambda>a b. d_price a < d_price b) d_destination n found ks)"
    (is "cheapest_of C n ?ds")
proof -
  note p = answer_by_price [OF ks, of n]
  have covers: "length ?ds = n \<or> d_destination d \<in> d_destination ` set ?ds" if C: "C d" for d
  proof -
    obtain d' where d': "d' \<in> set found" "d_destination d' = d_destination d" using f [OF C] by blast
    show ?thesis using answer_covers [OF ks price_weak_order d'(1), of n] group_result_in_group [of "d_destination d'" d_destination found] d'
      by (metis image_eqI)
  qed
  have best: "(\<exists>r \<in> set ?ds. d_destination r = d_destination d \<and> d_price r \<le> d_price d) \<or> length ?ds = n \<and> (\<forall>r \<in> set ?ds. d_price r \<le> d_price d)"
    if st: "\<forall>d e. C d \<and> C e \<and> deal_equal d e \<longrightarrow> d_price d = d_price e \<and> d_timestamp d = d_timestamp e" "\<forall>d. C d \<longrightarrow> d_price d \<noteq> 0"
      and C: "C d" for d
  proof -
    obtain d' where d': "d' \<in> set found" "d_destination d' = d_destination d" "d_price d' = d_price d" using f [OF C] by blast
    have "steady found" unfolding steady_def using st(1) c by blast
    then have "falling found" by (rule steady_falling)
    moreover have "\<forall>d \<in> set found. d_price d \<noteq> 0" using st(2) c by blast
    ultimately show ?thesis using answer_cheapest [OF ks _ _ d'(1) refl, of n] d'(2,3) by simp
  qed
  have "\<forall>d \<in> set ?ds. C d" "length ?ds \<le> n" using p(1,4) c by auto
  then show ?thesis unfolding cheapest_of_def using p(2,3) covers best by blast
qed

lemma cheapest_of_nonempty: "cheapest_of C n ds \<Longrightarrow> C d \<Longrightarrow> 0 < n \<Longrightarrow> ds \<noteq> []"
  unfolding cheapest_of_def by fastforce

lemma search_history:
  assumes "deals_run oob psz now0 H db" "now0 \<le> now" "works psz now os" "iteration_order iter"
    and "fill_query now sp (SimplyCheapest_new raw) = Inr q" "\<not> filter_all_combinations q"
  obtains ds datas db' where "searchFor os now (SimplyCheapest_execute os now now now iter) (SimplyCheapest_new raw) sp db = (Inr datas, db')"
    "list_all2 (\<lambda>d s. \<exists>e \<in> set H. filed oob e d \<and> s = ps_data (snd e)) ds datas"
    "cheapest_of (candidate oob now (db_context db) sp H) (unat (filter_result_limit q)) ds"
proof -
  let ?run = "SimplyCheapest_execute os now now now iter" and ?t = "index_table db" and ?C = "candidate oob now (db_context db) sp H"
  note h = run_represents [OF assms(1)]
  note h1 = represents_later [OF h assms(2)]
  have ok: "all_ok os" "sc_page_size os = psz" "DEALS_EXPIRES \<le> now" using assms(3) by (simp_all add: works_def)
  have tn: "tended psz now ?t" and ex: "record_expire_seconds ?t = DEALS_EXPIRES" using h1 by (simp_all add: represents_def both_tended_def)
  have sc: "scannable os now now ?t"
    using tn tended_serviceable [OF tn ok(1,2)] tended_no_wrap [OF tn works_in_time [OF assms(3) ex]] ok(2) unfolding scannable_def by (simp add: tended_def)
  have fresh: "SimplyCheapest_fresh q" using cheapest_members [OF fill_query_more(1) [OF assms(5)]] assms(6)
    by (simp add: SimplyCheapest_fresh_def SimplyCheapest_new_def)
  let ?found = "filter (matches (search_time now ?t q)) (contents now ?t)"
  obtain ks t' where a: "?run q ?t = (Inr (answer (\<lambda>a b. d_price a < d_price b) d_destination (unat (filter_result_limit q)) ?found ks), t')"
    and ks: "keys_of d_destination ?found ks"
    using SimplyCheapest_answer [OF sc assms(4) fresh, of now] by blast
  define ds where "ds = answer (\<lambda>a b. d_price a < d_price b) d_destination (unat (filter_result_limit q)) ?found ks"
  have g: "global_expire_at ?t = db_context db" by simp
  have mt: "matches (search_time now ?t q) d \<longleftrightarrow> max (db_context db) now - DEALS_EXPIRES < d_timestamp d \<and> wanted now sp d" for d
    by (rule matches_wanted [OF assms(5) unfiltered_new(1), of now ?t d, unfolded g])
  have found: "?C d \<and> (\<exists>s. holds (db_data db) d s)" if "d \<in> set ?found" for d
  proof -
    have m: "matches (search_time now ?t q) d" "d \<in> records (db_index db)" using that contents_records [of now ?t] by auto
    have o: "\<not> outdated now (db_context db) d" using matches_not_outdated [OF m(1) ok(3)] by simp
    then have "\<exists>e \<in> set H. filed oob e d \<and> holds (db_data db) d (ps_data (snd e))" using h1 m(2) by (auto simp: represents_def)
    then show ?thesis using o m(1) mt by (auto simp: candidate_def)
  qed
  have complete: "\<exists>d' \<in> set ?found. d_destination d' = d_destination d \<and> d_price d' = d_price d" if C: "?C d" for d
  proof -
    obtain e where e: "e \<in> set H" "filed oob e d" "wanted now sp d" "\<not> outdated now (db_context db) d" using C by (auto simp: candidate_def)
    obtain d' where d': "filed oob e d'" "outdated now (db_context db) d' \<or> listed db d'" using h1 e(1) by (auto simp: represents_def)
    note same = placeless_same [OF filed_same [OF d'(1) e(2)]]
    have "d' \<in> set (contents now ?t)" using d'(2) e(4) same(1) listed_contents by blast
    moreover have "matches (search_time now ?t q) d'" unfolding mt using not_outdated_recent [OF _ ok(3)] e(3,4) same(1,2) by blast
    ultimately show ?thesis using same(3,4) by auto
  qed
  have best: "cheapest_of ?C (unat (filter_result_limit q)) ds"
    unfolding ds_def by (rule answer_cheapest_of [OF ks]) (use found complete in blast)+
  have td: "tended psz now (db_data db)" using h1 by (simp add: represents_def both_tended_def)
  then have dok: "table_ok (sc_page_size os) (db_data db)" using ok(2) by (simp add: tended_def)
  have "\<exists>s. holds (db_data db) d s" if "d \<in> set ds" for d
    using answer_by_price(1) [OF ks, of "unat (filter_result_limit q)", folded ds_def] that found by blast
  from searchFor_reads [where p = sp and ?q0.0 = "SimplyCheapest_new raw" and now = now and run = ?run, OF assms(5) a [folded ds_def] dok
      tended_serviceable [OF td ok(1,2)] this]
  obtain datas db' where s: "searchFor os now ?run (SimplyCheapest_new raw) sp db = (Inr datas, db')" by auto
  from by_destination.search_outcome(2) [OF h assms(2,3,4) s refl] a [folded ds_def] assms(5)
  have "list_all2 (\<lambda>d s. wanted now sp d \<and> \<not> outdated now (db_context db) d \<and> (\<exists>e \<in> set H. filed oob e d \<and> s = ps_data (snd e))) ds datas" by auto
  then have "list_all2 (\<lambda>d s. \<exists>e \<in> set H. filed oob e d \<and> s = ps_data (snd e)) ds datas" by (rule list_all2_mono) blast
  then show thesis by (rule that [OF s _ best])
qed
text \<open>
  A post is accepted when it is complete, its data fit a page, and both tables have a page that
  is unused, expired or has room; and then, memory not being low, the shared context is unchanged.
\<close>

lemma post_runs:
  assumes "deals_run oob psz now0 H db" "now0 \<le> now" "works psz now os" "recyclable os (db_index db)" "recyclable os (db_data db)"
    and "\<forall>pos. \<exists>d. post_info oob now p pos = Inr d" "length (ps_data p) \<le> unat (max_elements_in_page (db_data db))"
    and "has_room now (word_of_nat (length (ps_data p))) (db_data db)" "has_room now 1 (db_index db)" "0 < max_elements_in_page (db_index db)"
  shows "\<exists>db'. post_deal os oob now p db = (Inr (), db') \<and> deals_run oob psz now (H @ [(now, p)]) db' \<and>
    (\<not> isMemLow os \<longrightarrow> db_context db' = db_context db)"
proof -
  let ?c = "word_of_nat (length (ps_data p)) :: u32"
  have len: "length (ps_data p) < 2 ^ 32" using assms(7) unsigned_less [of "max_elements_in_page (db_data db)", where ?'a = nat] by simp
  then have c: "unat ?c = length (ps_data p)" by (simp add: unat_of_nat)
  have h: "represents oob psz now H db" by (rule represents_later [OF run_represents [OF assms(1)] assms(2)])
  have ok: "all_ok os" "sc_page_size os = psz" using assms(3) by (simp_all add: works_def)
  have tn: "tended psz now (data_table db)" "record_expire_seconds (data_table db) = DEALS_EXPIRES" "tended psz now (db_index db)"
    "record_expire_seconds (db_index db) = DEALS_EXPIRES"
    using h by (simp_all add: represents_def both_tended_def)
  have df: "day_fits now" using assms(3) by (simp add: works_def day_fits_def)
  have room: "has_room now c (t\<lparr>global_expire_at := g\<rparr>) = has_room now c t" for c g and t :: "'e Table" by (simp add: has_room_def)
  have q: "table_ok (sc_page_size os) (data_table db)" "lock_named (data_table db)" using tn(1) ok(2) by (simp_all add: tended_def)
  obtain ee t where a: "addRecord os now now (ps_data p) ?c 0 (data_table db) = (Inr ee, t)"
    using addRecord_total [OF q(1) tended_serviceable [OF tn(1) ok] q(2) _ expiry_pos [OF tn(2) df], of ?c "ps_data p" now] assms(5,7,8) c
    by (auto simp: room word_le_nat_alt)
  obtain info where i: "post_info oob now p ee = Inr info" using assms(6) by blast
  let ?i = "(db_index db)\<lparr>global_expire_at := global_expire_at t\<rparr>"
  have ti: "tended psz now ?i" "record_expire_seconds ?i = DEALS_EXPIRES" using tn(3,4) by simp_all
  have q': "table_ok (sc_page_size os) ?i" "lock_named ?i" using ti(1) ok(2) by (simp_all add: tended_def)
  have "1 \<le> max_elements_in_page ?i" using assms(10) by (simp add: word_le_nat_alt word_less_nat_alt)
  then obtain ee' t' where b: "addRecord os now now [info] 1 0 ?i = (Inr ee', t')"
    using addRecord_total [OF q'(1) tended_serviceable [OF ti(1) ok] q'(2) _ expiry_pos [OF ti(2) df], of 1 "[info]" now] assms(4,9) by (auto simp: room)
  let ?db = "\<lparr>db_context = global_expire_at t', db_index = t', db_data = t\<rparr>"
  have r: "post_deal os oob now p db = (Inr (), ?db)"
    using a i b by (cases db) (simp add: addDeal_def on_data_def on_index_def sbind_def ret_def)
  have "global_expire_at t' = db_context db" if "\<not> isMemLow os"
    using addRecord_context(2) [OF q(1) _ expiry_pos [OF tn(2) df] _ a that] addRecord_context(2) [OF q'(1) _ expiry_pos [OF ti(2) df] _ b that]
      assms(4,5) c by simp
  moreover have "deals_run oob psz now (H @ [(now, p)]) ?db" using deals_run.posted [OF assms(1-5) len r] by simp
  ultimately show ?thesis using r by auto
qed

subsection \<open>An example\<close>

definition sample_post :: post where
  "sample_post = \<lparr>ps_origin = \<lparr>paramter_undefined = False, iata_code = 7\<rparr>, ps_destination = \<lparr>paramter_undefined = False, iata_code = 2\<rparr>,
     ps_country = \<lparr>paramter_undefined = False, country_code = 5\<rparr>, ps_departure = sample_date 20170110, ps_return = undefined_date,
     ps_direct = \<lparr>paramter_undefined = False, bool_value = True\<rparr>, ps_price = \<lparr>paramter_undefined = False, num_value = 90\<rparr>, ps_data = ''xy''\<rparr>"

lemma sample_post_info: "\<forall>pos. \<exists>d. post_info (\<lambda>_. 0) now sample_post pos = Inr d"
  by (simp add: sample_post_def undefined_date_def deal_info_def IATACode_get_code_def CountryCode_get_code_def Date_get_code_def isTrue_def get_bitmask_def
      Weekdays_of_Date_def get_value_def isUndefined_def sample_date_def Let_def)

lemma sample_filed: "filed (\<lambda>_. 0) (now, sample_post) d \<Longrightarrow> d_timestamp d = now \<and> d_origin d = 7 \<and> d_destination d = 2"
  by (auto simp: filed_def sample_post_def deal_info_def rbind_eq_Inr IATACode_get_code_def Let_def isUndefined_def split: if_splits)

lemma healthy_works: "DEALS_EXPIRES \<le> now \<Longrightarrow> now \<le> 1000000 \<Longrightarrow> works 4096 now healthy_os"
  using healthy_mem(1) by (simp add: works_def all_ok_def word_le_nat_alt DEALS_EXPIRES_def) (simp add: healthy_os_def)

lemma sample_works: "works 4096 90000 healthy_os"
  by (rule healthy_works) (simp_all add: DEALS_EXPIRES_def)

lemma new_database:
  obtains db st where "DealsDatabase_new healthy_os empty_store empty_store (empty_store, empty_store, Map.empty) = (Inr db, st)" "db_context db = 0"
proof -
  have calls: "sem_ok healthy_os n" "open_ok healthy_os n" "trunc_ok healthy_os n" "map_ok healthy_os n" for n by (simp_all add: healthy_os_def)
  let ?n = "DEALS_DB_NAME @ ''Context''" 
  note names = DEALINFO_TABLENAME_def DEALDATA_TABLENAME_def DEALS_DB_NAME_def
  have sz: "page_bytes (sc_page_size healthy_os) DBCONTEXT_SIZE 1 = 4096"
    by (simp add: healthy_os_def page_bytes_def DBCONTEXT_SIZE_def PAGE_INFORMATION_SIZE_def)
  have "elem_capacity DBCONTEXT_SIZE 4096 = 4" by (simp add: elem_capacity_def DBCONTEXT_SIZE_def PAGE_INFORMATION_SIZE_def)
  then obtain d where c: "SharedContext_new healthy_os DEALS_DB_NAME (empty_store, Map.empty) = (Inr context_zero, (d, [?n \<mapsto> 1]))"
    using page_created [OF calls healthy_mem(1), of ?n Map.empty empty_store DBCONTEXT_SIZE context_zero 1] sz
    by (simp add: SharedContext_new_def sbind_def zero_object_def DEALS_DB_NAME_def)
  obtain t1 o1 where t1: "Table_new healthy_os DEALINFO_SIZE deal_zero DEALINFO_TABLENAME DEALINFO_PAGES DEALINFO_ELEMENTS DEALS_EXPIRES
      0 empty_store (empty_store, [?n \<mapsto> 1]) = (Inr t1, (\<lparr>names = [DEALINFO_TABLENAME \<mapsto> 0], objects = [o1]\<rparr>, [?n \<mapsto> 1, DEALINFO_TABLENAME \<mapsto> 1]))"
    using table_created [OF calls healthy_mem(1), of DEALINFO_TABLENAME "[?n \<mapsto> 1]" empty_store DEALINFO_SIZE deal_zero] by (fastforce simp: names)
  obtain t2 st2 where t2: "Table_new healthy_os 1 NUL DEALDATA_TABLENAME DEALDATA_PAGES DEALDATA_ELEMENTS DEALS_EXPIRES
      0 empty_store (\<lparr>names = [DEALINFO_TABLENAME \<mapsto> 0], objects = [o1]\<rparr>, [?n \<mapsto> 1, DEALINFO_TABLENAME \<mapsto> 1]) = (Inr t2, st2)"
    using table_created [OF calls healthy_mem(1), of DEALDATA_TABLENAME "[?n \<mapsto> 1, DEALINFO_TABLENAME \<mapsto> 1]"
        "\<lparr>names = [DEALINFO_TABLENAME \<mapsto> 0], objects = [o1]\<rparr>" 1 NUL] by (fastforce simp: names)
  have z: "ctx_global_expire_at context_zero = 0" by (simp add: context_zero_def)
  show thesis
    by (rule that [of "\<lparr>db_context = 0, db_index = t1, db_data = t2\<rparr>" "(d, st2)"],
        simp only: DealsDatabase_new_def sbind_def on_contexts_def on_indexes_def c t1 t2 z prod.case sum.case op_simps) simp
qed

lemma sample_data: "ps_data sample_post = ''xy''"
  by (simp add: sample_post_def)

lemma empty_database:
  obtains db where "deals_run (\<lambda>_. 0) 4096 90000 [] db" "db_context db = 0" "recyclable healthy_os (db_index db)" "recyclable healthy_os (db_data db)"
    "length ''xy'' \<le> unat (max_elements_in_page (db_data db))"
    "has_room 90000 (word_of_nat (length ''xy'')) (db_data db)" "has_room 90000 1 (db_index db)"
    "0 < max_elements_in_page (db_index db)"
proof -
  obtain db st where n: "DealsDatabase_new healthy_os empty_store empty_store (empty_store, empty_store, Map.empty) = (Inr db, st)" and c: "db_context db = 0"
    by (rule new_database)
  have p: "(0 :: nat) < 4096" "(4096 :: nat) \<le> 2 ^ 30" by simp_all
  note nr = new_represents(1) [OF sample_works p n, of "\<lambda>_. 0"] new_represents(2-) [OF sample_works p n]
  have mp: "0 < max_pages (db_index db)" "0 < max_pages (db_data db)" using nr(1) by (simp_all add: represents_def both_tended_def tended_def)
  show thesis
    by (rule that [OF deals_run.created [OF sample_works p n] c])
      (use mp nr healthy_mem(2) in \<open>auto simp: recyclable_def has_room_def index_zero_def sample_post_def DEALDATA_ELEMENTS_def DEALINFO_ELEMENTS_def\<close>)
qed

lemma posted_database:
  assumes "\<forall>pos. \<exists>d. post_info (\<lambda>_. 0) 90000 p pos = Inr d" "ps_data p = ''xy''"
  shows "\<exists>db. deals_run (\<lambda>_. 0) 4096 90000 [(90000, p)] db \<and> db_context db = 0"
proof -
  obtain db where d: "deals_run (\<lambda>_. 0) 4096 90000 [] db" "db_context db = 0" "recyclable healthy_os (db_index db)" "recyclable healthy_os (db_data db)"
    "length ''xy'' \<le> unat (max_elements_in_page (db_data db))" "has_room 90000 (word_of_nat (length ''xy'')) (db_data db)" "has_room 90000 1 (db_index db)"
    "0 < max_elements_in_page (db_index db)" by (rule empty_database)
  from post_runs [OF d(1) order_refl sample_works d(3,4) assms(1) d(5-8) [folded assms(2)]] d(2) healthy_mem(2) show ?thesis by auto
qed

end
