(* ===== verification/ServerHistory.thy ===== *)
theory ServerHistory
  imports ServerSafety DealsHistory
begin

text \<open>
  What requests make of the store: a post appends to it, a clearing empties it, every other
  request leaves it, whatever the request contains; and a complete post that fits is accepted.
\<close>

section \<open>The store behind the server\<close>

definition stores :: "(int \<Rightarrow> u8) \<Rightarrow> nat \<Rightarrow> u32 \<Rightarrow> store \<Rightarrow> Context Connection \<times> DealsServer \<Rightarrow> bool" where
  "stores oob psz now H st \<longleftrightarrow> (\<exists>t \<le> now. deals_run oob psz t H (srv_db (snd st)))"

text \<open>The system calls of the request succeed, within one second of the clock.\<close>

definition env_works :: "(int \<Rightarrow> u8) \<Rightarrow> nat \<Rightarrow> u32 \<Rightarrow> renv \<Rightarrow> bool" where
  "env_works oob psz now env \<longleftrightarrow> works psz now (r_os env) \<and> r_clock env = (\<lambda>_. now) \<and> r_oob env = oob \<and> iteration_order (r_hist_order env)"

named_theorems store_rules

declare keeps_sbind [store_rules] keeps_ret [store_rules] keeps_throw [store_rules]

lemma stores_basic [store_rules]:
  "keeps (stores oob psz now H) (of_result r)" "keeps (stores oob psz now H) the_connection" "keeps (stores oob psz now H) (answer_with resp)"
  "keeps (stores oob psz now H) quit" "keeps (stores oob psz now H) (on_db_dst m)"
  by (auto simp: keeps_def stores_def of_result_def the_connection_def answer_with_def quit_def on_db_dst_def split: prod.splits)

lemma keeps_if [store_rules]: "(b \<Longrightarrow> keeps P m) \<Longrightarrow> (\<not> b \<Longrightarrow> keeps P n) \<Longrightarrow> keeps P (if b then m else n)"
  by simp

lemma stores_writes [store_rules]:
  "keeps (stores oob psz now H) (writeTopResult ds)" "keeps (stores oob psz now H) (write_report s)" "keeps (stores oob psz now H) (reply s)"
  unfolding writeTopResult_def write_report_def reply_def by (intro store_rules)+

lemma stores_on_db:
  assumes "\<And>t db r db'. deals_run oob psz t H db \<Longrightarrow> t \<le> now \<Longrightarrow> m db = (r, db') \<Longrightarrow> deals_run oob psz now H db'"
  shows "keeps (stores oob psz now H) (on_db m)"
  unfolding keeps_def
proof (intro allI impI)
  fix st :: "Context Connection \<times> DealsServer" assume "stores oob psz now H st"
  then obtain t where t: "t \<le> now" "deals_run oob psz t H (srv_db (snd st))" by (auto simp: stores_def)
  obtain r db' where m: "m (srv_db (snd st)) = (r, db')" by fastforce
  show "stores oob psz now H (snd (on_db m st))"
    using assms [OF t(2,1) m] m by (cases st) (auto simp: stores_def on_db_def)
qed

lemma run_search_stores:
  assumes "env_works oob psz now env"
  shows "keeps (stores oob psz now H) (on_db (run_search env rq p))"
proof (rule stores_on_db)
  have e: "works psz now (r_os env)" "r_clock env = (\<lambda>_. now)" "iteration_order (r_hist_order env)" using assms by (simp_all add: env_works_def)
  fix t db r db' assume d: "deals_run oob psz t H db" "t \<le> now" and "run_search env rq p db = (r, db')"
  then show "deals_run oob psz now H db'"
    using deals_run.days [OF d e(1,3)] deals_run.countries [OF d e(1,3)] deals_run.cheapest [OF d e(1,3)]
    by (auto simp: run_search_def e(2) Let_def split: if_splits)
qed

text \<open>Searches and reports leave the store as it is.\<close>

lemma reads_store:
  assumes "env_works oob psz now env"
  shows "keeps (stores oob psz now H) (getTop env)" "keeps (stores oob psz now H) (server_getUniqueRoutes env)"
    "keeps (stores oob psz now H) (server_getStats env)" "keeps (stores oob psz now H) (getDestiantionsTop env)"
proof -
  have e: "works psz now (r_os env)" "r_clock env = (\<lambda>_. now)" using assms by (simp_all add: env_works_def)
  have "keeps (stores oob psz now H) (locale_destinations env rq)" for rq
    unfolding locale_destinations_def by (intro store_rules)
  then show "keeps (stores oob psz now H) (getTop env)" unfolding getTop_def by (intro store_rules run_search_stores [OF assms])
  have "keeps (stores oob psz now H) (on_db (getUniqueRoutesDeals (r_os env) now now (r_route_order env)))"
    by (rule stores_on_db) (rule deals_run.routes [OF _ _ e(1)])
  then show "keeps (stores oob psz now H) (server_getUniqueRoutes env)"
    unfolding server_getUniqueRoutes_def e(2) by (intro store_rules)
  have "keeps (stores oob psz now H) (on_db (getStats (r_os env) now now))"
    by (rule stores_on_db) (rule deals_run.stats [OF _ _ e(1)])
  then show "keeps (stores oob psz now H) (server_getStats env)" unfolding server_getStats_def e(2) by (intro store_rules)
  show "keeps (stores oob psz now H) (getDestiantionsTop env)" unfolding getDestiantionsTop_def Let_def by (intro store_rules)
qed

section \<open>Clearing\<close>

lemma truncate_total:
  assumes "both_tended psz now db" "works psz now os"
  shows "\<exists>db'. DealsDatabase_truncate os db = (Inr (), db')"
proof -
  have ok: "all_ok os" "sc_page_size os = psz" using assms(2) by (simp_all add: works_def)
  have tn: "tended psz now (data_table db)" "tended psz now ((db_index db)\<lparr>global_expire_at := g\<rparr>)" for g using assms(1) by (simp_all add: both_tended_def)
  obtain t where t: "cleanup os (data_table db) = (Inr (), t)" using cleanup_total [OF tn(1) ok] by blast
  obtain t' where "cleanup os ((db_index db)\<lparr>global_expire_at := global_expire_at t\<rparr>) = (Inr (), t')" using cleanup_total [OF tn(2) ok] by blast
  then show ?thesis using t by (cases db) (simp add: DealsDatabase_truncate_def on_data_def on_index_def sbind_def)
qed

lemma clear_stores:
  assumes "stores oob psz now H st" "works psz now (r_os env)" "keeps (stores oob psz now []) m"
  shows "stores oob psz now [] (snd (sbind (on_db (DealsDatabase_truncate (r_os env))) (\<lambda>_. m) st))"
proof -
  obtain t where t: "t \<le> now" "deals_run oob psz t H (srv_db (snd st))" using assms(1) by (auto simp: stores_def)
  have "both_tended psz now (srv_db (snd st))" using represents_later [OF run_represents [OF t(2)] t(1)] by (simp add: represents_def)
  then obtain db' where d: "DealsDatabase_truncate (r_os env) (srv_db (snd st)) = (Inr (), db')" using truncate_total assms(2) by blast
  let ?st = "(fst st, (snd st)\<lparr>srv_db := db'\<rparr>)"
  have "stores oob psz now [] ?st" using deals_run.cleared [OF t(2,1) assms(2) d] by (auto simp: stores_def)
  then have "stores oob psz now [] (snd (m ?st))" using assms(3) by (simp add: keeps_def)
  moreover have "sbind (on_db (DealsDatabase_truncate (r_os env))) (\<lambda>_. m) st = m ?st" using d by (cases st) (simp add: sbind_def on_db_def)
  ultimately show ?thesis by simp
qed

section \<open>Posting\<close>

definition asks :: "Context Connection \<Rightarrow> string \<Rightarrow> string \<Rightarrow> bool" where
  "asks conn meth p \<longleftrightarrow> \<not> is_bad_request (received conn) \<and> is_request_complete (received conn) \<and>
     req_method (request (received conn)) = meth \<and> path (query (request (received conn))) = p"

text \<open>The post that a request describes.\<close>

definition describes :: "HttpParser \<Rightarrow> post \<Rightarrow> bool" where
  "describes h p \<longleftrightarrow> (let ps = params (query (request h)) in
     optional Date_of_string ps ''return_date'' = Inr (ps_return p) \<and> Required_of Date_of_string ps ''departure_date'' = Inr (ps_departure p) \<and>
     Required_of Number_of_string ps ''price'' = Inr (ps_price p) \<and>
     Required_of CountryCode_of_string ps ''destination_country'' = Inr (ps_country p) \<and>
     Required_of IATACode_of_string ps ''origin'' = Inr (ps_origin p) \<and> Required_of IATACode_of_string ps ''destination'' = Inr (ps_destination p) \<and>
     Required_of Boolean_of_string ps ''direct_flight'' = Inr (ps_direct p) \<and> ps_data p = get_body h)"

text \<open>
  What an operation makes of the store: nothing, when it fails before the post, or the new post; and
  then it returns, provided that \<open>T\<close>.
\<close>

definition may_post :: "bool \<Rightarrow> (int \<Rightarrow> u8) \<Rightarrow> nat \<Rightarrow> u32 \<Rightarrow> store \<Rightarrow> HttpParser \<Rightarrow> 'a result \<times> Context Connection \<times> DealsServer \<Rightarrow> bool" where
  "may_post T oob psz now H h out \<longleftrightarrow> (case out of (r, st) \<Rightarrow>
     (\<exists>e. r = Inl e) \<and> stores oob psz now H st \<or> (\<exists>p. describes h p \<and> stores oob psz now (H @ [(now, p)]) st \<and> (T \<longrightarrow> (\<exists>x. r = Inr x))))"

lemma may_post_result:
  assumes "stores oob psz now H st" "\<And>x. r = Inr x \<Longrightarrow> may_post T oob psz now H h (f x st)"
  shows "may_post T oob psz now H h (sbind (of_result r) f st)"
  using assms by (cases r) (auto simp: sbind_def of_result_def may_post_def)

lemma may_post_if: "(b \<Longrightarrow> may_post T oob psz now H h (m st)) \<Longrightarrow> (\<not> b \<Longrightarrow> may_post T oob psz now H h (n st)) \<Longrightarrow>
    may_post T oob psz now H h ((if b then m else n) st)"
  by simp

lemma may_post_throw: "stores oob psz now H st \<Longrightarrow> may_post T oob psz now H h (throw e st)"
  by (simp add: may_post_def throw_def)

lemma post_stores:
  assumes s: "stores oob psz now H st" and e: "env_works oob psz now env"
    and rc: "recyclable (r_os env) (db_index (srv_db (snd st)))" "recyclable (r_os env) (db_data (srv_db (snd st)))"
    and len: "length (ps_data p) < 2 ^ 32" and p: "describes h p" and k: "\<And>H. keeps (stores oob psz now H) m"
    and total: "\<And>db. T \<Longrightarrow> \<exists>x. fst (m (fst st, (snd st)\<lparr>srv_db := db\<rparr>)) = Inr x"
  shows "may_post T oob psz now H h (sbind (on_db (post_deal (r_os env) oob now p)) (\<lambda>_. m) st)"
proof -
  obtain t where t: "t \<le> now" "deals_run oob psz t H (srv_db (snd st))" using s by (auto simp: stores_def)
  obtain r db' where d: "post_deal (r_os env) oob now p (srv_db (snd st)) = (r, db')" by fastforce
  let ?st = "(fst st, (snd st)\<lparr>srv_db := db'\<rparr>)" and ?H = "if r = Inr () then H @ [(now, p)] else H"
  have w: "works psz now (r_os env)" using e by (simp add: env_works_def)
  have st: "stores oob psz now ?H ?st" using deals_run.posted [OF t(2,1) w rc len d] by (auto simp: stores_def)
  have run: "sbind (on_db (post_deal (r_os env) oob now p)) (\<lambda>_. m) st = (case r of Inl x \<Rightarrow> (Inl x, ?st) | Inr _ \<Rightarrow> m ?st)"
    using d by (cases st; cases r) (simp_all add: sbind_def on_db_def)
  show ?thesis
  proof (cases r)
    case (Inl x)
    then show ?thesis using st run by (simp add: may_post_def)
  next
    case (Inr u)
    then have "stores oob psz now (H @ [(now, p)]) (snd (m ?st))" using st k [of "H @ [(now, p)]"] by (simp add: keeps_def)
    moreover have "T \<Longrightarrow> \<exists>x. fst (m ?st) = Inr x" by (rule total)
    ultimately show ?thesis using run Inr p by (auto simp: may_post_def split: prod.splits)
  qed
qed

text \<open>One more record fits the table.\<close>

definition takes_one :: "os \<Rightarrow> u32 \<Rightarrow> 'e Table \<Rightarrow> bool" where
  "takes_one os now t \<longleftrightarrow> table_ok (sc_page_size os) t \<and> serviceable os t \<and> lock_named t \<and> recyclable os t \<and> has_room now 1 t \<and>
     1 \<le> max_elements_in_page t \<and> 0 < expiry t now 0"

lemma addDestination_total:
  assumes "takes_one os now (dst_index db)" "\<not> isUndefined loc" "\<not> isUndefined dst" "\<not> isUndefined dep"
  shows "\<exists>db'. addDestination os now now loc dst dep db = (Inr (), db')"
proof -
  obtain info where i: "dst_record loc dst dep = Inr info"
    using assms(2-4) by (simp add: dst_record_def isUndefined_def CountryCode_get_code_def IATACode_get_code_def Date_get_code_def)
  obtain ee t where "addRecord os now now [info] 1 0 (dst_index db) = (Inr ee, t)"
    using addRecord_total [of os "dst_index db" now 0 1 "[info]" now] assms(1) by (auto simp: takes_one_def)
  then show ?thesis using i by (simp add: addDestination_def on_dst_index_def sbind_def ret_def)
qed

lemma addDeal_stores:
  assumes s: "stores oob psz now H st" and e: "env_works oob psz now env" and h: "http (conn_context (fst st)) = h"
    and rc: "recyclable (r_os env) (db_index (srv_db (snd st)))" "recyclable (r_os env) (db_data (srv_db (snd st)))"
    and len: "length (get_body h) < 2 ^ 32" and dst: "T \<Longrightarrow> takes_one (r_os env) now (dst_index (srv_dst (snd st)))"
  shows "may_post T oob psz now H h (server_addDeal env st)"
proof -
  let ?ps = "params (query (request h))"
  have c: "r_clock env = (\<lambda>_. now)" "r_oob env = oob" using e by (simp_all add: env_works_def)
  have k: "keeps (stores oob psz now H') (sbind (on_db_dst m) (\<lambda>_. answer_with resp))" for m :: "(TopDstDatabase, unit) op" and resp H'
    by (intro store_rules)
  have leaf: "may_post T oob psz now H h ((if IATACode_eq org dst then throw (Error (''Error origin = destination'' @ [LF]) BadParameter)
           else if isDefined return_date \<and> Date_gt departure_date return_date
           then throw (Error (''departure date > return date'' @ [LF]) BadParameter)
           else sbind (on_db (addDeal (r_os env) (r_oob env) (r_clock env 0) (r_clock env 1) (r_clock env 2) (r_clock env 3) (r_clock env 4) org dst dst_country
                   departure_date return_date direct_flight price (get_body h))) (\<lambda>_.
                sbind (on_db_dst (addDestination (r_os env) (r_clock env 5) (r_clock env 6) loc dst departure_date)) (\<lambda>_.
                answer_with (HttpResponse_body 200 ''OK'' (''Well done'' @ [LF]))))) st)"
    if "optional Date_of_string ?ps ''return_date'' = Inr return_date" "Required_of Date_of_string ?ps ''departure_date'' = Inr departure_date"
      "Required_of Number_of_string ?ps ''price'' = Inr price" "Required_of CountryCode_of_string ?ps ''destination_country'' = Inr dst_country"
      "Required_of IATACode_of_string ?ps ''origin'' = Inr org" "Required_of IATACode_of_string ?ps ''destination'' = Inr dst"
      "Required_of Boolean_of_string ?ps ''direct_flight'' = Inr direct_flight" "Required_of CountryCode_of_string ?ps ''locale'' = Inr loc"
    for return_date departure_date price dst_country loc org dst direct_flight
  proof (intro may_post_if may_post_throw s)
    let ?p = "\<lparr>ps_origin = org, ps_destination = dst, ps_country = dst_country, ps_departure = departure_date, ps_return = return_date,
       ps_direct = direct_flight, ps_price = price, ps_data = get_body h\<rparr>"
    have d: "describes h ?p" using that by (simp add: describes_def)
    have u: "\<not> isUndefined loc" "\<not> isUndefined dst" "\<not> isUndefined departure_date"
      using that by (auto elim: Required_of_source)
    have "\<exists>x. fst (sbind (on_db_dst (addDestination (r_os env) (r_clock env 5) (r_clock env 6) loc dst departure_date)) (\<lambda>_.
        answer_with (HttpResponse_body 200 ''OK'' (''Well done'' @ [LF]))) (fst st, (snd st)\<lparr>srv_db := db\<rparr>)) = Inr x" if holds: T for db
    proof -
      obtain dd where "addDestination (r_os env) now now loc dst departure_date (srv_dst (snd st)) = (Inr (), dd)"
        using addDestination_total [OF assms(7) [OF holds]] u by blast
      then show ?thesis by (simp add: c sbind_def on_db_dst_def answer_with_def)
    qed
    from post_stores [OF s e rc _ d k this] show "may_post T oob psz now H h (sbind (on_db (addDeal (r_os env) (r_oob env) (r_clock env 0) (r_clock env 1)
        (r_clock env 2) (r_clock env 3) (r_clock env 4) org dst dst_country departure_date return_date direct_flight price (get_body h))) (\<lambda>_.
        sbind (on_db_dst (addDestination (r_os env) (r_clock env 5) (r_clock env 6) loc dst departure_date)) (\<lambda>_.
        answer_with (HttpResponse_body 200 ''OK'' (''Well done'' @ [LF])))) st)"
      using len by (simp add: c)
  qed
  have start: "sbind the_connection f st = f (fst st) st" for f :: "Context Connection \<Rightarrow> unit server_op"
    by (simp add: sbind_def the_connection_def)
  show ?thesis unfolding server_addDeal_def Let_def start request_params_def h
    by (intro may_post_result s leaf)
qed

lemma request_stores:
  assumes s: "stores oob psz now H (c, srv)" and e: "env_works oob psz now env" and h: "http (conn_context c) = h"
    and rc: "recyclable (r_os env) (db_index (srv_db srv))" "recyclable (r_os env) (db_data (srv_db srv))" and len: "length (get_body h) < 2 ^ 32"
    and dst: "T \<Longrightarrow> takes_one (r_os env) now (dst_index (srv_dst srv))"
  defines "meth \<equiv> req_method (request h)" and "p \<equiv> path (query (request h))"
  shows "if meth = ''GET'' \<and> p \<in> {''/deals/clear'', ''/clear''} then stores oob psz now [] (snd (handle_request env (c, srv)))
    else if meth = ''POST'' \<and> p = ''/deals/add'' then may_post T oob psz now H h (handle_request env (c, srv))
    else stores oob psz now H (snd (handle_request env (c, srv)))"
proof -
  have w: "works psz now (r_os env)" using e by (simp add: env_works_def)
  have k: "stores oob psz now H' (snd (m (c, srv)))" if "keeps (stores oob psz now H') m" "stores oob psz now H' (c, srv)" for m :: "unit server_op" and H'
    using that by (simp add: keeps_def)
  have cl: "stores oob psz now [] (snd (sbind (on_db (DealsDatabase_truncate (r_os env))) (\<lambda>_. m) (c, srv)))"
    if "keeps (stores oob psz now []) m" for m :: "unit server_op"
    by (rule clear_stores [OF s w that])
  have start: "handle_request env (c, srv) = (if meth = ''GET''
          then if p = ''/deals/top'' then getTop env
               else if p = ''/deals/uniqueRoutes'' then server_getUniqueRoutes env
               else if p = ''/deals/stats'' then server_getStats env
               else if p = ''/destinations/top'' then getDestiantionsTop env
               else if p = ''/deals/clear'' then sbind (on_db (DealsDatabase_truncate (r_os env))) (\<lambda>_. reply ''deals cleared'')
               else if p = ''/destinations/clear''
               then sbind (on_db_dst (TopDstDatabase_truncate (r_os env))) (\<lambda>_. reply ''destinations cleared'')
               else if p = ''/clear''
               then sbind (on_db (DealsDatabase_truncate (r_os env))) (\<lambda>_.
                    sbind (on_db_dst (TopDstDatabase_truncate (r_os env))) (\<lambda>_. reply ''ALL cleared''))
               else if p = ''/ping'' then reply ''pong''
               else if p = ''/quit'' then sbind quit (\<lambda>_. reply ''quiting...'')
               else answer_with (HttpResponse_body 404 ''Not Found'' (''Method unknown'' @ [LF]))
          else if meth = ''POST''
          then if p = ''/deals/add'' then server_addDeal env else answer_with (HttpResponse_body 404 ''Not Found'' (''Method unknown'' @ [LF]))
          else answer_with (HttpResponse_body 404 ''Not Found'' (''Method unknown'' @ [LF]))) (c, srv)"
    unfolding handle_request_def Let_def meth_def p_def by (simp add: sbind_def the_connection_def h)
  have other: "keeps (stores oob psz now H') (sbind (on_db_dst m) (\<lambda>_. reply x))" "keeps (stores oob psz now H') (sbind quit (\<lambda>_. reply x))"
    for m :: "(TopDstDatabase, unit) op" and x H'
    by (intro store_rules)+
  have gets: "stores oob psz now H (snd (getTop env (c, srv)))" "stores oob psz now H (snd (server_getUniqueRoutes env (c, srv)))"
    "stores oob psz now H (snd (server_getStats env (c, srv)))" "stores oob psz now H (snd (getDestiantionsTop env (c, srv)))"
    "stores oob psz now H (snd (answer_with resp (c, srv)))" "stores oob psz now H (snd (reply x (c, srv)))"
    "stores oob psz now H (snd (sbind quit (\<lambda>_. reply x) (c, srv)))" "stores oob psz now H (snd (sbind (on_db_dst m) (\<lambda>_. reply x) (c, srv)))"
    for resp x and m :: "(TopDstDatabase, unit) op"
    by (intro k s reads_store [OF e] store_rules other)+
  have add: "may_post T oob psz now H h (server_addDeal env (c, srv))"
    by (rule addDeal_stores [OF s e _ _ _ len]) (simp_all add: h rc dst)
  show ?thesis unfolding start using gets add cl [OF other(1)] cl [OF stores_writes(3)] by simp
qed

section \<open>Every request\<close>

definition well_done :: string where
  "well_done = HttpResponse_string (HttpResponse_body 200 ''OK'' (''Well done'' @ [LF]))"

lemma status_texts: "to_string 200 = ''200''" "to_string 400 = ''400''" "to_string 500 = ''500''"
  by code_simp+

lemma error_not_well_done:
  "data_out (fst (snd (terminateWithError msg code (c, srv)))) \<noteq> data_out c @ well_done"
  by (simp add: terminateWithError_def answer_with_def conn_close_with_def well_done_def HttpResponse_string_def HttpResponse_body_def status_texts)

lemma addDeal_says:
  assumes "server_addDeal env (c, srv) = (Inr u, (c', srv'))"
  shows "data_out c' = data_out c @ well_done"
  using assms unfolding server_addDeal_def
  by (auto simp: the_connection_def of_result_def on_db_def on_db_dst_def answer_with_def conn_close_with_def well_done_def throw_def Let_def
      elim!: sbind_InrE split: if_splits sum.splits prod.splits)

lemma request_step:
  assumes run: "deals_run oob psz now0 H (srv_db srv)" "now0 \<le> now" and e: "env_works oob psz now env"
    and rc: "recyclable (r_os env) (db_index (srv_db srv))" "recyclable (r_os env) (db_data (srv_db srv))"
    and len: "length (get_body (received conn)) < 2 ^ 32" and data: "server_on_data env conn srv = Some (conn', srv')"
  shows "if quit_request srv then srv' = srv
    else if asks conn ''GET'' ''/deals/clear'' \<or> asks conn ''GET'' ''/clear'' then stores oob psz now [] (conn', srv')
    else if asks conn ''POST'' ''/deals/add''
    then data_out conn' \<noteq> data_out conn @ well_done \<and> stores oob psz now H (conn', srv') \<or>
      (\<exists>p. describes (received conn) p \<and> stores oob psz now (H @ [(now, p)]) (conn', srv') \<and>
         (takes_one (r_os env) now (dst_index (srv_dst srv)) \<longrightarrow> data_out conn' = data_out conn @ well_done))
    else stores oob psz now H (conn', srv')"
proof (cases "quit_request srv")
  case True
  then show ?thesis using data by (simp add: server_on_data_def answer_with_def)
next
  case False
  let ?h = "received conn" and ?c = "with_http (received conn) conn"
  note eq = server_on_data_eq [OF False, unfolded Let_def]
  have s: "stores oob psz now H (c, srv)" for c using run by (auto simp: stores_def)
  show ?thesis
  proof (cases "is_bad_request ?h \<or> \<not> is_request_complete ?h")
    case True
    then have "srv_db srv' = srv_db srv"
      using data terminate_keeps(1) [of "bad_format ?h" InternalError "(?c, srv)"] unfolding eq by (auto split: if_splits)
    then have "stores oob psz now H (conn', srv')" using s by (simp add: stores_def)
    then show ?thesis using True False by (auto simp: asks_def)
  next
    case ready: False
    obtain r st where hr: "handle_request env (?c, srv) = (r, st)" by (rule that [OF prod.collapse [symmetric]])
    have out: "srv_db srv' = srv_db (snd st)" "r = Inl e \<Longrightarrow> data_out conn' \<noteq> data_out conn @ well_done"
      "r = Inr u \<Longrightarrow> conn' = fst st" for e u
    proof -
      have c: "r = Inl e \<Longrightarrow> fst st = ?c" for e
        using handle_request_answers [of env] hr unfolding answers_def by (cases st) fastforce
      have a: "(conn', srv') = (case r of Inl (Error msg code) \<Rightarrow> snd (terminateWithError msg code st)
          | Inl (StdException w) \<Rightarrow> snd (terminateWithError broken InternalError st) | Inr _ \<Rightarrow> st)"
        using data ready hr unfolding eq by (auto split: sum.splits exn.splits if_splits)
      show "conn' = fst st" if "r = Inr u" using a that by (cases st) simp
      show "srv_db srv' = srv_db (snd st)" using a terminate_keeps(1) [of _ _ st]
        by (cases r) (simp_all split: exn.splits, (metis snd_conv)+)
      show "data_out conn' \<noteq> data_out conn @ well_done" if "r = Inl e" for e
      proof -
        have "data_out (fst (snd (terminateWithError msg code st))) \<noteq> data_out conn @ well_done" for msg code
          using error_not_well_done [of msg code ?c "snd st"] c [OF that] by (metis prod.collapse with_http_fields(1))
        then show ?thesis using a that by (auto split: exn.splits simp: prod_eq_iff)
      qed
    qed
    have st: "stores oob psz now H' (conn', srv') \<longleftrightarrow> stores oob psz now H' st" for H' using out(1) by (simp add: stores_def)
    have m: "asks conn meth p \<longleftrightarrow> req_method (request ?h) = meth \<and> path (query (request ?h)) = p" for meth p
      using ready by (auto simp: asks_def)
    let ?T = "takes_one (r_os env) now (dst_index (srv_dst srv))"
    have hc: "http (conn_context ?c) = ?h" by simp
    have "if req_method (request ?h) = ''GET'' \<and> path (query (request ?h)) \<in> {''/deals/clear'', ''/clear''} then stores oob psz now [] st
      else if req_method (request ?h) = ''POST'' \<and> path (query (request ?h)) = ''/deals/add'' then may_post ?T oob psz now H ?h (r, st)
      else stores oob psz now H st"
      using request_stores [where T = ?T, OF s e hc rc len, unfolded hr snd_conv] .
    moreover have "data_out conn' = data_out conn @ well_done"
      if "r = Inr u" "req_method (request ?h) = ''POST''" "path (query (request ?h)) = ''/deals/add''" for u
    proof -
      have "server_addDeal env (?c, srv) = (Inr u, (fst st, snd st))"
        using hr that by (simp add: handle_request_def the_connection_def sbind_def Let_def)
      from addDeal_says [OF this] out(3) [OF that(1)] show ?thesis by simp
    qed
    ultimately show ?thesis using False out(2) unfolding m st by (auto simp: may_post_def split: if_splits)
  qed
qed

lemma described_info: "describes h p \<Longrightarrow> \<exists>d. post_info oob now p pos = Inr d"
proof -
  assume d: "describes h p"
  have "\<not> isUndefined (ps_departure p)" "\<not> isUndefined (ps_price p)" "\<not> isUndefined (ps_country p)" "\<not> isUndefined (ps_origin p)"
    "\<not> isUndefined (ps_destination p)" "\<not> isUndefined (ps_direct p)"
    using d unfolding describes_def Let_def by (auto elim: Required_of_source)
  then show ?thesis
    by (simp add: deal_info_def IATACode_get_code_def CountryCode_get_code_def Date_get_code_def isTrue_def get_bitmask_def
      Weekdays_of_Date_def get_value_def isUndefined_def Let_def)
qed

lemma post_request_served:
  assumes q: "asks conn ''POST'' ''/deals/add''" "\<not> quit_request srv" and p: "describes (received conn) p"
    and l: "Required_of CountryCode_of_string (params (query (request (received conn)))) ''locale'' = Inr loc"
    and v: "\<not> IATACode_eq (ps_origin p) (ps_destination p)" "\<not> (isDefined (ps_return p) \<and> Date_gt (ps_departure p) (ps_return p))"
    and run: "deals_run oob psz now0 H (srv_db srv)" "now0 \<le> now" and e: "env_works oob psz now env"
    and rc: "recyclable (r_os env) (db_index (srv_db srv))" "recyclable (r_os env) (db_data (srv_db srv))"
    and fit: "length (ps_data p) \<le> unat (max_elements_in_page (db_data (srv_db srv)))" "has_room now (word_of_nat (length (ps_data p))) (db_data (srv_db srv))"
      "has_room now 1 (db_index (srv_db srv))" "0 < max_elements_in_page (db_index (srv_db srv))"
    and dst: "takes_one (r_os env) now (dst_index (srv_dst srv))"
  shows "\<exists>conn' srv'. server_on_data env conn srv = Some (conn', srv') \<and> data_out conn' = data_out conn @ well_done \<and>
    deals_run oob psz now (H @ [(now, p)]) (srv_db srv')"
proof -
  let ?c = "with_http (received conn) conn"
  have w: "works psz now (r_os env)" "r_clock env = (\<lambda>_. now)" "r_oob env = oob" using e by (simp_all add: env_works_def)
  obtain db' where d: "post_deal (r_os env) oob now p (srv_db srv) = (Inr (), db')" "deals_run oob psz now (H @ [(now, p)]) db'"
    using post_runs [OF run w(1) rc _ fit] described_info [OF p] by blast
  note p' = p [unfolded describes_def Let_def]
  have def: "\<not> isUndefined loc" "\<not> isUndefined (ps_destination p)" "\<not> isUndefined (ps_departure p)"
    using l p' by (auto elim: Required_of_source)
  obtain dd where dd: "addDestination (r_os env) now now loc (ps_destination p) (ps_departure p) (srv_dst srv) = (Inr (), dd)"
    using addDestination_total [OF dst def] by blast
  let ?srv = "srv\<lparr>srv_db := db', srv_dst := dd\<rparr>"
  have body: "get_body (received conn) = ps_data p" using p' by simp
  have "server_addDeal env (?c, srv) = (Inr (), (conn_close_with well_done ?c, ?srv))"
    unfolding server_addDeal_def
    using p' l v d(1) dd body by (simp add: sbind_def the_connection_def request_params_def of_result_def on_db_def on_db_dst_def answer_with_def w(2,3) well_done_def)
  then have "handle_request env (?c, srv) = (Inr (), (conn_close_with well_done ?c, ?srv))"
    using q(1) by (simp add: handle_request_def the_connection_def sbind_def asks_def Let_def)
  then have "server_on_data env conn srv = Some (conn_close_with well_done ?c, ?srv)"
    using q by (simp add: server_on_data_eq asks_def Let_def)
  then show ?thesis using d(2) by (simp add: conn_close_with_def)
qed

text \<open>
  C2. Requests refine the store.  Whatever a client sends at any time after any run, a request leaves a
  database that is reached by a run from the store it should.  During a shutdown the store is left as it is.
  A clearing empties it.  A post leaves it, and then the client is not told \<^verbatim>\<open>Well done\<close>, or appends the
  post that the request describes; and then the client is told \<^verbatim>\<open>Well done\<close> whenever the table of
  destinations takes one more record.  Where it does not, the deal, which is stored first, stays although the client
  gets an error.  Any other request, malformed, incomplete or unknown ones included, leaves the store.
\<close>

theorem requests_refine_store:
  assumes "deals_run oob psz now0 H (srv_db srv)" and "now0 \<le> now" and "env_works oob psz now env"
    and "recyclable (r_os env) (db_index (srv_db srv))" and "recyclable (r_os env) (db_data (srv_db srv))"
    and "length (get_body (received conn)) < 2 ^ 32" and "server_on_data env conn srv = Some (conn', srv')"
  shows "\<exists>t H'. t \<le> now \<and> deals_run oob psz t H' (srv_db srv') \<and>
    (if quit_request srv then H' = H
     else if asks conn ''GET'' ''/deals/clear'' \<or> asks conn ''GET'' ''/clear'' then H' = []
     else if asks conn ''POST'' ''/deals/add''
     then H' = H \<and> data_out conn' \<noteq> data_out conn @ well_done \<or>
       (\<exists>p. describes (received conn) p \<and> H' = H @ [(now, p)] \<and>
          (takes_one (r_os env) now (dst_index (srv_dst srv)) \<longrightarrow> data_out conn' = data_out conn @ well_done))
     else H' = H)"
  using request_step [OF assms] assms(1,2) unfolding stores_def snd_conv by (auto split: if_splits)

text \<open>
  C4. A client that sends a complete valid post for which the tables have room is told \<^verbatim>\<open>Well done\<close>, and then
  the store has the post.
\<close>

theorem post_stored:
  assumes "asks conn ''POST'' ''/deals/add''" and "\<not> quit_request srv" and "describes (received conn) p"
    and "Required_of CountryCode_of_string (params (query (request (received conn)))) ''locale'' = Inr loc"
    and "\<not> IATACode_eq (ps_origin p) (ps_destination p)" and "\<not> (isDefined (ps_return p) \<and> Date_gt (ps_departure p) (ps_return p))"
    and "deals_run oob psz now0 H (srv_db srv)" and "now0 \<le> now" and "env_works oob psz now env"
    and "recyclable (r_os env) (db_index (srv_db srv))" and "recyclable (r_os env) (db_data (srv_db srv))"
    and "length (ps_data p) \<le> unat (max_elements_in_page (db_data (srv_db srv)))" and "has_room now (word_of_nat (length (ps_data p))) (db_data (srv_db srv))"
    and "has_room now 1 (db_index (srv_db srv))" and "0 < max_elements_in_page (db_index (srv_db srv))"
    and "takes_one (r_os env) now (dst_index (srv_dst srv))"
  shows "\<exists>conn' srv'. server_on_data env conn srv = Some (conn', srv') \<and> data_out conn' = data_out conn @ well_done \<and>
    deals_run oob psz now (H @ [(now, p)]) (srv_db srv')"
  by (rule post_request_served [OF assms])

definition post_text :: string where
  "post_text = ''POST /deals/add?origin=MOW&destination=LED&destination_country=RU&locale=RU&departure_date=2017-01-10&price=90&direct_flight=true HTTP/1.0''
     @ crlf @ ''Content-Length: 2'' @ header_end @ ''xy''"

definition post_params :: ObjectMap where
  "post_params = [\<lparr>obj_name = ''origin'', obj_value = ''MOW''\<rparr>, \<lparr>obj_name = ''destination'', obj_value = ''LED''\<rparr>,
     \<lparr>obj_name = ''destination_country'', obj_value = ''RU''\<rparr>, \<lparr>obj_name = ''locale'', obj_value = ''RU''\<rparr>,
     \<lparr>obj_name = ''departure_date'', obj_value = ''2017-01-10''\<rparr>, \<lparr>obj_name = ''price'', obj_value = ''90''\<rparr>,
     \<lparr>obj_name = ''direct_flight'', obj_value = ''true''\<rparr>]"

lemma post_parsed:
  "is_bad_request (HttpParser_write HttpParser_init post_text) = False"
  "is_request_complete (HttpParser_write HttpParser_init post_text) = True"
  "req_method (request (HttpParser_write HttpParser_init post_text)) = ''POST''"
  "path (query (request (HttpParser_write HttpParser_init post_text))) = ''/deals/add''"
  "params (query (request (HttpParser_write HttpParser_init post_text))) = post_params"
  "get_body (HttpParser_write HttpParser_init post_text) = ''xy''"
  by code_simp+

definition posted_deal :: post where
  "posted_deal = \<lparr>ps_origin = \<lparr>paramter_undefined = False, iata_code = origin_to_code ''MOW''\<rparr>,
     ps_destination = \<lparr>paramter_undefined = False, iata_code = origin_to_code ''LED''\<rparr>,
     ps_country = \<lparr>paramter_undefined = False, country_code = 184\<rparr>, ps_departure = sample_date 20170110, ps_return = undefined_date,
     ps_direct = \<lparr>paramter_undefined = False, bool_value = True\<rparr>, ps_price = \<lparr>paramter_undefined = False, num_value = 90\<rparr>, ps_data = ''xy''\<rparr>"

lemma post_texts: "toUpperCase ''MOW'' = ''MOW''" "toUpperCase ''LED'' = ''LED''" "toUpperCase ''RU'' = ''RU''" "toLowerCase ''true'' = ''true''"
    "stol ''90'' = Inr 90"
  by code_simp+

lemma russia: "COUNTRIES ! 184 = ''RU''"
  by (simp add: COUNTRIES_def)

lemma places_differ: "origin_to_code ''MOW'' \<noteq> origin_to_code ''LED''"
proof
  assume "origin_to_code ''MOW'' = origin_to_code ''LED''"
  then have "code_to_origin (origin_to_code ''MOW'') = code_to_origin (origin_to_code ''LED'')" by (rule arg_cong)
  then show False using origin_roundtrip [of "''MOW''"] origin_roundtrip [of "''LED''"] by simp
qed

lemma post_values: "country_to_code ''RU'' = Inr 184" "Date_of_string ''2017-01-10'' = Inr (sample_date 20170110)"
proof -
  show "country_to_code ''RU'' = Inr 184" using country_to_code_nth [of 184] by (simp add: russia)
  have "iso_date ''2017-01-10''" by (simp add: iso_date_def is_digit_def in_range_def)
  from Date_of_string_sample [OF this] show "Date_of_string ''2017-01-10'' = Inr (sample_date 20170110)"
    by (simp add: iso_code_def digits_value_def digit_val_def)
qed

lemma post_at: "ObjectMap_at post_params ''return_date'' = []" "ObjectMap_at post_params ''departure_date'' = ''2017-01-10''"
  "ObjectMap_at post_params ''price'' = ''90''" "ObjectMap_at post_params ''destination_country'' = ''RU''" "ObjectMap_at post_params ''origin'' = ''MOW''"
  "ObjectMap_at post_params ''destination'' = ''LED''" "ObjectMap_at post_params ''direct_flight'' = ''true''" "ObjectMap_at post_params ''locale'' = ''RU''"
  by code_simp+

lemma post_codes:
  "IATACode_of_string ''MOW'' = Inr \<lparr>paramter_undefined = False, iata_code = origin_to_code ''MOW''\<rparr>"
  "IATACode_of_string ''LED'' = Inr \<lparr>paramter_undefined = False, iata_code = origin_to_code ''LED''\<rparr>"
  "CountryCode_of_string ''RU'' = Inr \<lparr>paramter_undefined = False, country_code = 184\<rparr>"
  "Number_of_string ''90'' = Inr \<lparr>paramter_undefined = False, num_value = 90\<rparr>"
  "Boolean_of_string ''true'' = Inr \<lparr>paramter_undefined = False, bool_value = True\<rparr>"
  "Date_of_string [] = Inr undefined_date"
  by (simp_all add: IATACode_of_string_def CountryCode_of_string_def Number_of_string_def Boolean_of_string_def Date_of_string_def undefined_date_def
      post_texts post_values)

lemma post_described: "describes (received (sample_conn post_text)) posted_deal"
  "Required_of CountryCode_of_string (params (query (request (received (sample_conn post_text))))) ''locale'' = Inr \<lparr>paramter_undefined = False, country_code = 184\<rparr>"
  by (simp_all add: describes_def received_sample post_parsed post_at post_codes post_values posted_deal_def optional_def Optional_of_def Required_of_def
      require_defined_def isUndefined_def sample_date_def undefined_date_def)

lemma post_asked: "asks (sample_conn post_text) ''POST'' ''/deals/add''"
  by (simp add: asks_def received_sample post_parsed)

definition late_env :: renv where
  "late_env = sample_env\<lparr>r_clock := (\<lambda>_. 90000)\<rparr>"

lemma late_env_works: "env_works (\<lambda>_. 0) 4096 90000 late_env" "r_os late_env = healthy_os"
  using sample_works by (simp_all add: env_works_def late_env_def sample_env_def)

lemma sample_dst_takes: "takes_one healthy_os 90000 (dst_index sample_dst_db)"
proof -
  have "scannable healthy_os 90000 90000 (dst_index sample_dst_db)" by (rule sample_dst_ready(1))
  moreover have "has_room 90000 1 (dst_index sample_dst_db)"
    unfolding has_room_def sample_dst_db_def TopDstDatabase.simps one_page_basics
    by (rule exI [of _ "Suc 0"]) (simp add: one_page_index index_zero_def)
  moreover have "lock_named (dst_index sample_dst_db)" "max_elements_in_page (dst_index sample_dst_db) = 4"
    by (simp_all add: sample_dst_db_def one_page_basics)
  moreover have "max_pages (dst_index sample_dst_db) = 2" by (simp add: sample_dst_db_def one_page_basics)
  then have "recyclable healthy_os (dst_index sample_dst_db)" using healthy_mem(2) by (simp add: recyclable_def)
  moreover have "0 < expiry (dst_index sample_dst_db) 90000 0" by (simp add: expiry_def sample_dst_db_def one_page_def)
  ultimately show ?thesis by (simp add: takes_one_def scannable_def)
qed

text \<open>A server on empty tables of deals, with room for the post.\<close>

definition fresh_server :: "DealsServer \<Rightarrow> bool" where
  "fresh_server srv \<longleftrightarrow> \<not> quit_request srv \<and> deals_run (\<lambda>_. 0) 4096 90000 [] (srv_db srv) \<and>
     recyclable (r_os late_env) (db_index (srv_db srv)) \<and> recyclable (r_os late_env) (db_data (srv_db srv)) \<and>
     length (ps_data posted_deal) \<le> unat (max_elements_in_page (db_data (srv_db srv))) \<and>
     has_room 90000 (word_of_nat (length (ps_data posted_deal))) (db_data (srv_db srv)) \<and> has_room 90000 1 (db_index (srv_db srv)) \<and>
     0 < max_elements_in_page (db_index (srv_db srv)) \<and> takes_one (r_os late_env) 90000 (dst_index (srv_dst srv))"

lemma fresh_serverD:
  assumes "fresh_server srv"
  shows "\<not> quit_request srv" "deals_run (\<lambda>_. 0) 4096 90000 [] (srv_db srv)"
    "recyclable (r_os late_env) (db_index (srv_db srv))" "recyclable (r_os late_env) (db_data (srv_db srv))"
    "length (ps_data posted_deal) \<le> unat (max_elements_in_page (db_data (srv_db srv)))"
    "has_room 90000 (word_of_nat (length (ps_data posted_deal))) (db_data (srv_db srv))" "has_room 90000 1 (db_index (srv_db srv))"
    "0 < max_elements_in_page (db_index (srv_db srv))" "takes_one (r_os late_env) 90000 (dst_index (srv_dst srv))"
  using assms by (simp_all add: fresh_server_def)

lemma fresh_server_exists: "\<exists>srv. fresh_server srv"
proof -
  have x: "ps_data posted_deal = ''xy''" by (simp add: posted_deal_def)
  obtain db where "deals_run (\<lambda>_. 0) 4096 90000 [] db" "recyclable healthy_os (db_index db)" "recyclable healthy_os (db_data db)"
    "length ''xy'' \<le> unat (max_elements_in_page (db_data db))" "has_room 90000 (word_of_nat (length ''xy'')) (db_data db)" "has_room 90000 1 (db_index db)"
    "0 < max_elements_in_page (db_index db)" by (rule empty_database)
  then have "fresh_server \<lparr>srv_db = db, srv_dst = sample_dst_db, quit_request = False\<rparr>"
    using sample_dst_takes unfolding fresh_server_def x late_env_works(2) by simp
  then show ?thesis by blast
qed

lemma posted_valid: "\<not> IATACode_eq (ps_origin posted_deal) (ps_destination posted_deal)"
  "\<not> (isDefined (ps_return posted_deal) \<and> Date_gt (ps_departure posted_deal) (ps_return posted_deal))"
  using places_differ by (simp_all add: posted_deal_def IATACode_eq_def isDefined_def undefined_date_def)

theorem post_stored_witness:
  "\<exists>srv conn' srv'. deals_run (\<lambda>_. 0) 4096 90000 [] (srv_db srv) \<and> server_on_data late_env (sample_conn post_text) srv = Some (conn', srv')
     \<and> data_out conn' = data_out (sample_conn post_text) @ well_done \<and> deals_run (\<lambda>_. 0) 4096 90000 [(90000, posted_deal)] (srv_db srv')"
proof -
  obtain srv where "fresh_server srv" using fresh_server_exists by blast
  note s = fresh_serverD [OF this]
  from post_stored [OF post_asked s(1) post_described posted_valid s(2) order_refl late_env_works(1) s(3-9)] s(2) show ?thesis by auto
qed

theorem requests_refine_store_witness:
  "\<exists>srv conn' srv' t p. server_on_data late_env (sample_conn post_text) srv = Some (conn', srv')
     \<and> describes (received (sample_conn post_text)) p \<and> deals_run (\<lambda>_. 0) 4096 t [(90000, p)] (srv_db srv')"
proof -
  obtain srv where "fresh_server srv" using fresh_server_exists by blast
  note s = fresh_serverD [OF this]
  from post_request_served [OF post_asked s(1) post_described posted_valid s(2) order_refl late_env_works(1) s(3-9)] obtain conn' srv' where
    r: "server_on_data late_env (sample_conn post_text) srv = Some (conn', srv')" "data_out conn' = data_out (sample_conn post_text) @ well_done" by blast
  have len: "length (get_body (received (sample_conn post_text))) < 2 ^ 32" by (simp add: received_sample post_parsed)
  have other: "\<not> asks (sample_conn post_text) ''GET'' x" for x using post_asked by (auto simp: asks_def)
  from requests_refine_store [OF s(2) order_refl late_env_works(1) s(3,4) len r(1)] obtain t p where
    "describes (received (sample_conn post_text)) p" "deals_run (\<lambda>_. 0) 4096 t [(90000, p)] (srv_db srv')"
    using post_asked s(1) r(2) other by auto
  with r(1) show ?thesis by blast
qed

section \<open>Which searches are refused\<close>

lemma fill_query_combinations:
  "fill_query now p q = Inr q' \<Longrightarrow> unfiltered q \<Longrightarrow> filter_all_combinations q' = set_true (p_all_combinations p)"
  using fill_query_more(2) [of now p q q'] unfilteredD(13) [of q]
  by (auto simp: set_true_def isTrue_def isDefined_def)

text \<open>
  C13. A search by destination or by country is refused, as a request with a bad parameter, exactly when a
  list of destinations or countries has an empty item, an interval of dates or of days is
  reversed, a stay exceeds 255 days, the limit is not between 1 and 367, or all combinations of dates are asked for,
  which only the search by date knows; every other one returns a result.  Refused or not, a search
  leaves the store as it is.
\<close>

theorem search_rejects:
  assumes "deals_run oob psz now0 H db" and "now0 \<le> now" and "env_works oob psz now env"
    and "\<not> set_true (t_group_by_date rq)"
  shows "\<exists>r db'. run_search env rq p db = (r, db') \<and> deals_run oob psz now H db' \<and>
    (if rejected p \<or> set_true (p_all_combinations p) then \<exists>msg. r = Inl (Error msg BadParameter) else \<exists>datas. r = Inr datas)"
proof -
  have w: "works psz now (r_os env)" "r_clock env = (\<lambda>_. now)" "iteration_order (r_hist_order env)" using assms(3) by (simp_all add: env_works_def)
  note h = run_represents [OF assms(1)]
  obtain r db' where run: "run_search env rq p db = (r, db')" by fastforce
  have "deals_run oob psz now H db'"
    using run assms(4) deals_run.countries [OF assms(1,2) w(1,3)] deals_run.cheapest [OF assms(1,2) w(1,3)]
    by (auto simp: run_search_def w(2) Let_def split: if_splits)
  moreover have "if rejected p \<or> set_true (p_all_combinations p) then \<exists>msg. r = Inl (Error msg BadParameter) else \<exists>datas. r = Inr datas"
  proof (cases "set_true (t_group_by_country rq)")
    case True
    then have "searchFor (r_os env) now (CheapestByCountry_execute (r_os env) now now now (r_hist_order env)) (CheapestByCountry_new (r_raw_country env)) p db = (r, db')"
      using run assms(4) by (simp add: run_search_def w(2) Let_def)
    from by_country.search_outcome(3) [OF h assms(2) w(1,3) this] show ?thesis
      using parameters_rejected [of p now "CheapestByCountry_new (r_raw_country env)"] fill_query_combinations [OF _ unfiltered_new(2)]
      by (auto split: sum.splits if_splits)
  next
    case False
    then have "searchFor (r_os env) now (SimplyCheapest_execute (r_os env) now now now (r_hist_order env)) (SimplyCheapest_new (r_raw_cheapest env)) p db = (r, db')"
      using run assms(4) by (simp add: run_search_def w(2) Let_def)
    from by_destination.search_outcome(3) [OF h assms(2) w(1,3) this] show ?thesis
      using parameters_rejected [of p now "SimplyCheapest_new (r_raw_cheapest env)"] fill_query_combinations [OF _ unfiltered_new(1)]
      by (auto split: sum.splits if_splits)
  qed
  ultimately show ?thesis using run by blast
qed

theorem search_rejects_witness:
  "\<exists>db r. deals_run (\<lambda>_. 0) 4096 90000 [] db \<and> (\<exists>msg db'.
     run_search late_env \<lparr>t_search = sample_params, t_add_locale_top = \<lparr>paramter_undefined = True, bool_value = False\<rparr>,
       t_group_by_date = \<lparr>paramter_undefined = True, bool_value = False\<rparr>, t_group_by_country = \<lparr>paramter_undefined = True, bool_value = False\<rparr>,
       t_locale = r\<rparr> (sample_params\<lparr>p_limit := \<lparr>paramter_undefined = False, num_value = 400\<rparr>\<rparr>) db = (Inl (Error msg BadParameter), db'))"
proof -
  obtain srv where "fresh_server srv" using fresh_server_exists by blast
  note s = fresh_serverD [OF this]
  let ?b = "\<lparr>paramter_undefined = True, bool_value = False\<rparr>"
  let ?rq = "\<lambda>r. \<lparr>t_search = sample_params, t_add_locale_top = ?b, t_group_by_date = ?b, t_group_by_country = ?b, t_locale = r\<rparr>"
  let ?p = "sample_params\<lparr>p_limit := \<lparr>paramter_undefined = False, num_value = 400\<rparr>\<rparr>"
  have g: "\<not> set_true (t_group_by_date (?rq r))" for r by (simp add: set_true_def isDefined_def)
  have b: "rejected ?p" by (simp add: rejected_def bad_limit_def isDefined_def)
  from search_rejects [OF s(2) order_refl late_env_works(1) g, of _ ?p] b s(2) show ?thesis by fastforce
qed

section \<open>What a search may answer\<close>

lemma run_search_posts:
  assumes run: "deals_run oob psz now0 H db" "now0 \<le> now" and e: "env_works oob psz now env"
    and s: "run_search env rq p db = (Inr datas, db')"
  shows "\<exists>ds. list_all2 (\<lambda>d data. candidate oob now (db_context db) p H d \<and> (\<exists>e \<in> set H. filed oob e d \<and> data = ps_data (snd e))) ds datas"
proof -
  have w: "works psz now (r_os env)" "r_clock env = (\<lambda>_. now)" "iteration_order (r_hist_order env)" using e by (simp_all add: env_works_def)
  note h = run_represents [OF run(1)]
  let ?good = "\<lambda>d data. wanted now p d \<and> \<not> outdated now (db_context db) d \<and> (\<exists>e \<in> set H. filed oob e d \<and> data = ps_data (snd e))"
  have "\<exists>ds. list_all2 ?good ds datas"
  proof (cases "set_true (t_group_by_date rq)")
    case True
    then have "searchFor (r_os env) now (CheapestByDay_execute (r_os env) now now now (r_hist_order env)) (CheapestByDay_new (r_raw_day env)) p db = (Inr datas, db')"
      using s by (simp add: run_search_def w(2) Let_def)
    from by_day.search_outcome(2) [OF h run(2) w(1,3) this refl] show ?thesis by blast
  next
    case day: False
    show ?thesis
    proof (cases "set_true (t_group_by_country rq)")
      case True
      then have "searchFor (r_os env) now (CheapestByCountry_execute (r_os env) now now now (r_hist_order env)) (CheapestByCountry_new (r_raw_country env)) p db = (Inr datas, db')"
        using s day by (simp add: run_search_def w(2) Let_def)
      from by_country.search_outcome(2) [OF h run(2) w(1,3) this refl] show ?thesis by blast
    next
      case False
      then have "searchFor (r_os env) now (SimplyCheapest_execute (r_os env) now now now (r_hist_order env)) (SimplyCheapest_new (r_raw_cheapest env)) p db = (Inr datas, db')"
        using s day by (simp add: run_search_def w(2) Let_def)
      from by_destination.search_outcome(2) [OF h run(2) w(1,3) this refl] show ?thesis by blast
    qed
  qed
  then obtain ds where "list_all2 ?good ds datas" by blast
  then have "list_all2 (\<lambda>d data. candidate oob now (db_context db) p H d \<and> (\<exists>e \<in> set H. filed oob e d \<and> data = ps_data (snd e))) ds datas"
    by (rule list_all2_mono) (auto simp: candidate_def)
  then show ?thesis by blast
qed

end
