(* ===== verification/DateStrings.thy ===== *)
theory DateStrings
  imports Types SharedMemory
begin

text \<open>
  The date routines of \<^verbatim>\<open>src/utils.cpp\<close> that take strings.  They check two separators, cut the string
  at fixed places and leave the rest to \<^verbatim>\<open>std::stoi\<close>; the server itself uses the routines on numbers,
  with which these agree on \<^verbatim>\<open>YYYY-MM-DD\<close> dates.
\<close>

section \<open>Definitions\<close>

text \<open>\<^verbatim>\<open>std::string::operator[]\<close>: the character after the last is zero, what follows is outside.\<close>

definition string_index :: "string \<Rightarrow> nat \<Rightarrow> char result" where
  "string_index s i = (if i < length s then Inr (s ! i) else if i = length s then Inr NUL else Inl segv)"

definition has_dashes :: "string \<Rightarrow> bool result" where
  "has_dashes date = rbind (string_index date 4) (\<lambda>c4. if c4 \<noteq> CHR ''-'' then Inr False
     else rbind (string_index date 7) (\<lambda>c7. Inr (c7 = CHR ''-'')))"

text \<open>
  The parts of a date with dashes; the second argument of \<^verbatim>\<open>substr\<close> is a length, so the
  month keeps what follows it, where \<^verbatim>\<open>stoi\<close> stops.  The results are cut to the widths of the variables.
\<close>

definition date_parts :: "string \<Rightarrow> (u16 \<times> u8 \<times> u8) result" where
  "date_parts date =
     rbind (stoi (take 4 date)) (\<lambda>year.
     rbind (stoi (take 7 (drop 5 date))) (\<lambda>month.
     rbind (stoi (take 10 (drop 8 date))) (\<lambda>day.
       Inr (word_of_int year, word_of_int month, word_of_int day))))"

definition day_of_week_from_date :: "(int \<Rightarrow> u8) \<Rightarrow> string \<Rightarrow> u8 result" where
  "day_of_week_from_date oob date =
     rbind (has_dashes date) (\<lambda>ok. if \<not> ok then Inr 7
     else case date_parts date of
       Inl _ \<Rightarrow> Inr 7
     | Inr (int_year, int_month, int_day) \<Rightarrow> Inr (day_of_week oob int_day int_month int_year))"

definition day_of_week_str_from_date :: "(int \<Rightarrow> u8) \<Rightarrow> string \<Rightarrow> string result" where
  "day_of_week_str_from_date oob date = rbind (day_of_week_from_date oob date) (\<lambda>day. Inr (days ! unat day))"

definition days_between_date_strings :: "string \<Rightarrow> string \<Rightarrow> u32 result" where
  "days_between_date_strings date1 date2 =
     rbind (has_dashes date1) (\<lambda>ok1. if \<not> ok1 then Inr 65535
     else rbind (has_dashes date2) (\<lambda>ok2. if \<not> ok2 then Inr 65535
     else case date_parts date1 of
       Inl _ \<Rightarrow> Inr (- 1)
     | Inr (y1, m1, d1) \<Rightarrow>
         (case date_parts date2 of
            Inl _ \<Rightarrow> Inr (- 1)
          | Inr (y2, m2, d2) \<Rightarrow> Inr (rdn (uint y2) (uint m2) (uint d2) - rdn (uint y1) (uint m1) (uint d1)))))"

section \<open>Agreement with the routines on numbers\<close>

lemma dash_not_digit: "\<not> is_digit CHR ''-''"
  by (simp add: is_digit_def in_range_def)

lemma stoi_digits:
  assumes "ds \<noteq> []" "list_all is_digit ds" "length ds \<le> 4" "rest = [] \<or> hd rest = CHR ''-''"
  shows "stoi (ds @ rest) = Inr (int (digits_value ds))"
proof -
  have "digits_value ds < 10 ^ length ds" by (rule digits_value_lt [OF assms(2)])
  also have "\<dots> \<le> (10 :: nat) ^ 4" by (rule power_increasing [OF assms(3)]) simp
  finally have "digits_value ds < 2 ^ (32 - 1)" by simp
  then show ?thesis unfolding stoi_def using assms dash_not_digit by (intro strtol_digits) (auto simp: list_all_iff)
qed

lemma iso_string_parts:
  assumes "iso_date s"
  shows "has_dashes s = Inr True" "date_parts s = Inr (word_of_nat (iso_year s), word_of_nat (iso_month s), word_of_nat (iso_day s))"
proof -
  obtain a b c d e f g h where s: "s = [a, b, c, d, CHR ''-'', e, f, CHR ''-'', g, h]"
      and ds: "list_all is_digit [a, b, c, d, e, f, g, h]"
    using iso_dateE [OF assms] by metis
  show "has_dashes s = Inr True" by (simp add: s has_dashes_def string_index_def)
  have "stoi [a, b, c, d] = Inr (int (digits_value [a, b, c, d]))" using stoi_digits [of "[a, b, c, d]" "[]"] ds by simp
  moreover have "stoi [e, f, CHR ''-'', g, h] = Inr (int (digits_value [e, f]))"
    using stoi_digits [of "[e, f]" "[CHR ''-'', g, h]"] ds by simp
  moreover have "stoi [g, h] = Inr (int (digits_value [g, h]))" using stoi_digits [of "[g, h]" "[]"] ds by simp
  ultimately show "date_parts s = Inr (word_of_nat (iso_year s), word_of_nat (iso_month s), word_of_nat (iso_day s))"
    by (simp add: s date_parts_def iso_year_def iso_month_def iso_day_def)
qed

lemma iso_date_fields:
  assumes "iso_date s" "Date_of_string s = Inr d"
  shows "date_year d = word_of_nat (iso_year s)" "date_month d = word_of_nat (iso_month s)" "date_day d = word_of_nat (iso_day s)"
proof -
  have u: "unat (date_year d) = iso_year s" "unat (date_month d) = iso_month s" "unat (date_day d) = iso_day s"
    using Date_of_iso [OF assms(1)] assms(2) by auto
  show "date_year d = word_of_nat (iso_year s)" "date_month d = word_of_nat (iso_month s)" "date_day d = word_of_nat (iso_day s)"
    unfolding u [symmetric] by simp_all
qed

text \<open>
  On well-formed dates the string routines compute what the parsed dates do, and the day of the
  week has one of the seven names.
\<close>

theorem date_strings_agree:
  assumes "iso_date s1" "iso_date s2" "Date_of_string s1 = Inr d1" "Date_of_string s2 = Inr d2"
  shows "day_of_week_from_date oob s1 = Inr (Date_day_of_week oob d1)"
    and "\<exists>w \<in> set (take 7 days). day_of_week_str_from_date oob s1 = Inr w"
    and "days_between_date_strings s1 s2 = Inr (days_after d2 d1)"
proof -
  note f = iso_date_fields [OF assms(1,3)] iso_date_fields [OF assms(2,4)]
  show d: "day_of_week_from_date oob s1 = Inr (Date_day_of_week oob d1)"
    by (simp add: day_of_week_from_date_def iso_string_parts [OF assms(1)] Date_day_of_week_def f)
  let ?i = "unat (Date_day_of_week oob d1)"
  have "?i < 7" unfolding Date_day_of_week_def by (rule day_of_week_unat)
  moreover have "length (take 7 days) = 7" by (simp add: days_def)
  ultimately have "take 7 days ! ?i \<in> set (take 7 days)" by (metis nth_mem)
  then have "days ! ?i \<in> set (take 7 days)" using \<open>?i < 7\<close> by (simp only: nth_take)
  then show "\<exists>w \<in> set (take 7 days). day_of_week_str_from_date oob s1 = Inr w"
    by (intro bexI [of _ "days ! ?i"]) (simp_all add: day_of_week_str_from_date_def d)
  show "days_between_date_strings s1 s2 = Inr (days_after d2 d1)"
    by (simp add: days_between_date_strings_def iso_string_parts [OF assms(1)] iso_string_parts [OF assms(2)] days_after_def days_between_dates_def f)
qed

text \<open>A string of less than four characters is read outside its memory.\<close>

theorem short_date_read_outside:
  assumes "length date < 4"
  shows "day_of_week_from_date oob date = Inl segv" "days_between_date_strings date date2 = Inl segv"
  using assms by (simp_all add: day_of_week_from_date_def days_between_date_strings_def has_dashes_def string_index_def)

text \<open>
  The two ways in which a date can be malformed give different results: 65535, which is also the
  distance of two valid dates, for missing dashes, and the largest number otherwise.
\<close>

theorem malformed_dates_differ:
  "days_between_date_strings ''2015/01/01'' ''2015-01-02'' = Inr 65535"
  "days_between_date_strings ''20x5-ab-01'' ''2015-01-02'' = Inr (- 1)"
  "days_between_date_strings ''1850-01-01'' ''2029-06-06'' = Inr 65535"
  by code_simp+

end
