(* ===== verification/Timing.thy ===== *)
theory Timing
  imports Prelude
begin

text \<open>
  Model of \<^verbatim>\<open>src/timing.hpp\<close> and \<^verbatim>\<open>src/timing.cpp\<close>: the clock, which the tests can shift, and \<open>TimeLord\<close>,
  the counter of ticks with which they do, and \<open>Timer\<close>, which measures and prints durations.
  \<^verbatim>\<open>debug_time_shift\<close> is a global variable of the unit that reads the clock; it is zero in the server.
\<close>

section \<open>The clock\<close>

record timeval =
  tv_sec :: int
  tv_usec :: int

text \<open>\<^verbatim>\<open>timing_t\<close> is a 64-bit signed number; a date outside its range would be undefined behaviour.\<close>

definition getTimestampMs :: "u32 \<Rightarrow> timeval \<Rightarrow> int" where
  "getTimestampMs debug_time_shift tv = uint debug_time_shift + tv_sec tv * 1000 + tv_usec tv div 1000"

definition getTimestampSec :: "u32 \<Rightarrow> timeval \<Rightarrow> u32" where
  "getTimestampSec debug_time_shift tv = word_of_int (uint debug_time_shift + tv_sec tv)"

section \<open>Time travel\<close>

record TimeLord =
  tick_counter :: u32
  ticks_in_second :: u32

definition TimeLord_new :: "u32 \<Rightarrow> TimeLord" where
  "TimeLord_new n = \<lparr>tick_counter = 1, ticks_in_second = n\<rparr>"

text \<open>The operators work on the counter and the shift of the clock; the number of ticks is not zero.\<close>

definition TimeLord_uint32 :: "TimeLord \<Rightarrow> u32" where
  "TimeLord_uint32 t = tick_counter t div ticks_in_second t"

definition TimeLord_inc :: "TimeLord \<times> u32 \<Rightarrow> TimeLord \<times> u32" where
  "TimeLord_inc = (\<lambda>(t, debug_time_shift).
     let t = t\<lparr>tick_counter := tick_counter t + 1\<rparr>
     in (t, if tick_counter t mod ticks_in_second t = 0 then debug_time_shift + 1 else debug_time_shift))"

definition TimeLord_add :: "u32 \<Rightarrow> TimeLord \<times> u32 \<Rightarrow> TimeLord \<times> u32" where
  "TimeLord_add step = (\<lambda>(t, debug_time_shift).
     let t = t\<lparr>tick_counter := tick_counter t + step\<rparr>
     in (t, if tick_counter t mod ticks_in_second t = 0 then debug_time_shift + step else debug_time_shift))"

definition TimeLord_sub :: "u32 \<Rightarrow> TimeLord \<times> u32 \<Rightarrow> TimeLord \<times> u32" where
  "TimeLord_sub step = (\<lambda>(t, debug_time_shift).
     let t = t\<lparr>tick_counter := tick_counter t - step\<rparr>
     in (t, if tick_counter t mod ticks_in_second t = 0 then debug_time_shift - step else debug_time_shift))"

definition TimeLord_reset :: "TimeLord \<Rightarrow> TimeLord" where
  "TimeLord_reset t = t\<lparr>tick_counter := 1\<rparr>"

definition TimeLord_test :: "u32 \<Rightarrow> TimeLord \<Rightarrow> bool" where
  "TimeLord_test x t \<longleftrightarrow> tick_counter t \<le> x * ticks_in_second t"

section \<open>Timers\<close>

record tick_t =
  tk_text :: string
  tk_clock :: int

record Timer =
  ticks :: "tick_t list"
  timer_name :: string

text \<open>
  The readings of the clock are arguments, and what an operation prints is its result.  A tick
  without a text has an empty one.  \<^verbatim>\<open>printLastTick\<close> reads the last but one tick: \<^const>\<open>None\<close> is the read
  outside the vector that it would be with a single tick.
\<close>

definition Timer_new :: "string \<Rightarrow> int \<Rightarrow> Timer" where
  "Timer_new name now = \<lparr>ticks = [\<lparr>tk_text = [], tk_clock = now\<rparr>], timer_name = name\<rparr>"

definition add_tick :: "string option \<Rightarrow> int \<Rightarrow> Timer \<Rightarrow> Timer" where
  "add_tick note_text now t = t\<lparr>ticks := ticks t @ [\<lparr>tk_text = (case note_text of Some s \<Rightarrow> s | None \<Rightarrow> []), tk_clock = now\<rparr>]\<rparr>"

definition printLastTick :: "Timer \<Rightarrow> string option" where
  "printLastTick t =
     (if length (ticks t) < 2 then None
      else let totalms = tk_clock (last (ticks t)) - tk_clock (ticks t ! (length (ticks t) - 2))
           in Some (timer_name t @ '' '' @ to_string_int totalms @ ''ms '' @ tk_text (last (ticks t)) @ [LF]))"

fun report_loop :: "string \<Rightarrow> nat \<Rightarrow> tick_t list \<Rightarrow> string" where
  "report_loop name idx (prev # it # rest) =
     name @ '' '' @ to_string idx @ '') '' @ to_string_int (tk_clock it - tk_clock prev) @ ''ms '' @ tk_text it @ [LF]
       @ report_loop name (idx + 1) (it # rest)"
| "report_loop name idx _ = []"

definition separator :: string where "separator = replicate 44 (CHR ''-'') @ [LF]"

definition report :: "Timer \<Rightarrow> string" where
  "report t =
     separator @ report_loop (timer_name t) 1 (ticks t) @ separator
       @ timer_name t @ '' TOTAL: '' @ to_string_int (tk_clock (last (ticks t)) - tk_clock (hd (ticks t))) @ ''ms '' @ [LF] @ separator"

definition tick :: "string option \<Rightarrow> int \<Rightarrow> Timer \<Rightarrow> (string \<times> Timer) option" where
  "tick note_text now t = (let t1 = add_tick note_text now t in map_option (\<lambda>out. (out, t1)) (printLastTick t1))"

definition finish :: "string option \<Rightarrow> int \<Rightarrow> Timer \<Rightarrow> (string \<times> Timer) option" where
  "finish note_text now t = (let t1 = add_tick note_text now t in map_option (\<lambda>out. (out @ report t1, t1)) (printLastTick t1))"

section \<open>What the tests rely on\<close>

text \<open>Counting tick by tick moves the clock by one second whenever the counter completes one.\<close>

lemma div_Suc_step: "0 < k \<Longrightarrow> Suc n div k = (if Suc n mod k = 0 then Suc (n div k) else n div k)"
  by (simp add: div_Suc)

theorem ticks_shift_clock:
  assumes "2 \<le> n" "k + 1 < 2 ^ 32"
  shows "\<exists>t shift. (TimeLord_inc ^^ k) (TimeLord_new n, s) = (t, shift) \<and> unat (tick_counter t) = k + 1 \<and> ticks_in_second t = n \<and>
    shift = s + TimeLord_uint32 t"
  using assms(2)
proof (induction k)
  case 0
  have "(1 :: u32) div n = 0" using assms(1) by (simp add: word_arith_nat_div word_le_nat_alt)
  then show ?case by (simp add: TimeLord_new_def TimeLord_uint32_def)
next
  case (Suc k)
  then obtain t shift where ih: "(TimeLord_inc ^^ k) (TimeLord_new n, s) = (t, shift)" "unat (tick_counter t) = k + 1"
    "ticks_in_second t = n" "shift = s + TimeLord_uint32 t" by auto
  have step: "unat (w + 1) = Suc (unat w)" if "Suc (unat w) < 2 ^ 32" for w :: u32 using that by (simp add: unat_word_ariths)
  have u: "unat (tick_counter t + 1) = Suc (unat (tick_counter t))" by (rule step) (use Suc.prems ih(2) in simp)
  have n: "0 < unat n" using assms(1) by (simp add: word_le_nat_alt)
  have "(tick_counter t + 1) div n = (if (tick_counter t + 1) mod n = 0 then tick_counter t div n + 1 else tick_counter t div n)"
  proof (rule word_unat_eq_iff [THEN iffD2])
    let ?a = "unat (tick_counter t)"
    have z: "(tick_counter t + 1) mod n = 0 \<longleftrightarrow> Suc ?a mod unat n = 0" by (simp add: word_unat_eq_iff unat_mod_distrib u)
    have "?a div unat n \<le> ?a" by (rule div_le_dividend)
    then have "Suc (?a div unat n) < 2 ^ 32" using Suc.prems ih(2) by linarith
    then have "unat (tick_counter t div n + 1) = Suc (?a div unat n)" using step [of "tick_counter t div n"] by (simp only: unat_div)
    then show "unat ((tick_counter t + 1) div n) = unat (if (tick_counter t + 1) mod n = 0 then tick_counter t div n + 1 else tick_counter t div n)"
      unfolding z unat_div u div_Suc_step [OF n] by (simp add: unat_div)
  qed
  then show ?case using ih u by (simp add: TimeLord_inc_def TimeLord_uint32_def Let_def)
qed

text \<open>
  Steps of more than one tick do not: a step that completes seconds without ending on one does not
  move the clock at all, and one that does moves it by the number of ticks.
\<close>

theorem steps_shift_wrongly:
  "TimeLord_add 15 (TimeLord_new 10, 0) = (\<lparr>tick_counter = 16, ticks_in_second = 10\<rparr>, 0)"
  "TimeLord_uint32 \<lparr>tick_counter = 16, ticks_in_second = 10\<rparr> = 1"
  "TimeLord_add 9 (TimeLord_new 10, 0) = (\<lparr>tick_counter = 10, ticks_in_second = 10\<rparr>, 9)"
  "TimeLord_uint32 \<lparr>tick_counter = 10, ticks_in_second = 10\<rparr> = 1"
  by (simp_all add: TimeLord_add_def TimeLord_new_def TimeLord_uint32_def)

text \<open>The shift is in seconds, and moves the clock in milliseconds by as many milliseconds.\<close>

theorem shift_in_milliseconds:
  "unat s + 60 < 2 ^ 32 \<Longrightarrow> getTimestampMs (s + 60) tv = getTimestampMs s tv + 60"
  "getTimestampSec (s + 60) tv = getTimestampSec s tv + 60"
proof -
  show "getTimestampMs (s + 60) tv = getTimestampMs s tv + 60" if "unat s + 60 < 2 ^ 32"
  proof -
    have "unat (s + 60) = unat s + 60" using that by (simp add: unat_word_ariths)
    then have "uint (s + 60) = uint s + 60" by (simp only: uint_nat)
    then show ?thesis by (simp add: getTimestampMs_def)
  qed
qed (simp add: getTimestampSec_def)

section \<open>What a timer prints\<close>

text \<open>A timer has a tick from its construction on, so no operation reads outside the vector.\<close>

fun timer_run :: "(string option \<times> int) list \<Rightarrow> Timer \<Rightarrow> (string \<times> Timer) option" where
  "timer_run [] t = Some ([], t)"
| "timer_run ((note_text, now) # laps) t =
     (case tick note_text now t of
        None \<Rightarrow> None
      | Some (out, t1) \<Rightarrow> map_option (\<lambda>(rest, t2). (out @ rest, t2)) (timer_run laps t1))"

lemma printLastTick_add:
  "ticks t \<noteq> [] \<Longrightarrow> printLastTick (add_tick note_text now t) =
    Some (timer_name t @ '' '' @ to_string_int (now - tk_clock (last (ticks t))) @ ''ms '' @ (case note_text of Some s \<Rightarrow> s | None \<Rightarrow> []) @ [LF])"
  by (cases "ticks t" rule: rev_cases) (auto simp: printLastTick_def add_tick_def nth_append)

lemma tick_total: "ticks t \<noteq> [] \<Longrightarrow> \<exists>out. tick note_text now t = Some (out, add_tick note_text now t)"
  by (simp add: tick_def Let_def printLastTick_add)

definition durations :: "int list \<Rightarrow> int list" where
  "durations cs = map2 (\<lambda>a b. b - a) cs (tl cs)"

lemma durations_total: "cs \<noteq> [] \<Longrightarrow> sum_list (durations cs) = last cs - hd cs"
proof (induction cs rule: induct_list012)
  case (3 a b cs)
  then show ?case by (simp add: durations_def)
qed (simp_all add: durations_def)

lemma timer_run_ticks:
  assumes "ticks t \<noteq> []"
  shows "\<exists>out t'. timer_run laps t = Some (out, t') \<and> map tk_clock (ticks t') = map tk_clock (ticks t) @ map snd laps \<and> timer_name t' = timer_name t"
  using assms
proof (induction laps arbitrary: t)
  case (Cons l laps)
  obtain note_text now where l: "l = (note_text, now)" by (cases l) auto
  obtain o1 where o1: "tick note_text now t = Some (o1, add_tick note_text now t)" using tick_total [OF Cons.prems] by blast
  have "ticks (add_tick note_text now t) \<noteq> []" by (simp add: add_tick_def)
  from Cons.IH [OF this] obtain out t' where r: "timer_run laps (add_tick note_text now t) = Some (out, t')"
    "map tk_clock (ticks t') = map tk_clock (ticks (add_tick note_text now t)) @ map snd laps" "timer_name t' = timer_name (add_tick note_text now t)"
    by blast
  then show ?case by (simp add: l o1 add_tick_def)
qed simp

lemma report_loop_lines:
  "report_loop name idx ts = concat (map2 (\<lambda>n (ms, note_text). name @ '' '' @ to_string n @ '') '' @ to_string_int ms @ ''ms '' @ note_text @ [LF])
     [idx ..< idx + (length ts - 1)] (zip (durations (map tk_clock ts)) (map tk_text (tl ts))))"
proof (induction name idx ts rule: report_loop.induct)
  case (1 name idx prev it rest)
  have u: "[idx ..< idx + (length (prev # it # rest) - 1)] = idx # [idx + 1 ..< idx + 1 + (length (it # rest) - 1)]"
    by (simp add: upt_rec)
  show ?case unfolding u using 1 by (simp add: durations_def)
qed (simp_all add: durations_def)

text \<open>
  A timer that has been asked any number of times reports one line per tick, numbered from 1, with
  the time since the tick before, and a total that is the sum of these times.
\<close>

theorem timer_report:
  "\<exists>out t. timer_run laps (Timer_new name start) = Some (out, t) \<and>
    report t = separator @ concat (map2 (\<lambda>n (ms, note_text). name @ '' '' @ to_string n @ '') '' @ to_string_int ms @ ''ms '' @ note_text @ [LF])
        [1 ..< Suc (length laps)] (zip (durations (start # map snd laps)) (map tk_text (tl (ticks t)))))
      @ separator @ name @ '' TOTAL: '' @ to_string_int (sum_list (durations (start # map snd laps))) @ ''ms '' @ [LF] @ separator"
proof -
  have n: "ticks (Timer_new name start) \<noteq> []" by (simp add: Timer_new_def)
  obtain out t where r: "timer_run laps (Timer_new name start) = Some (out, t)" "map tk_clock (ticks t) = start # map snd laps"
    "timer_name t = name"
    using timer_run_ticks [OF n, of laps] by (auto simp: Timer_new_def)
  have ne: "ticks t \<noteq> []" using r(2) by auto
  have len: "length (ticks t) = Suc (length laps)" using arg_cong [OF r(2), of length] by simp
  have tot: "sum_list (durations (start # map snd laps)) = tk_clock (last (ticks t)) - tk_clock (hd (ticks t))"
    using durations_total [of "start # map snd laps"] unfolding r(2) [symmetric] using ne by (simp add: last_map hd_map)
  show ?thesis using r by (intro exI [of _ out] exI [of _ t]) (simp add: report_def report_loop_lines len tot del: upt_Suc)
qed

end
