(* ===== verification/Metrics.thy ===== *)
theory Metrics
  imports SharedMemory Complex_Main "HOL-Library.Char_ord" "HOL-Library.List_Lexorder"
begin

text \<open>
  Model of \<^verbatim>\<open>src/statsd_client.hpp\<close> and \<^verbatim>\<open>src/statsd_client.cpp\<close>, the client that sends metrics in UDP
  datagrams, and of its use in \<^verbatim>\<open>reportMemUsage\<close> and in the \<^verbatim>\<open>stat\<close> mode of \<^verbatim>\<open>main\<close>.

  What the system calls answer during one operation is a parameter.  Of the kernel's state the open
  descriptors of the process and the datagrams handed to \<^verbatim>\<open>sendto\<close> are kept.  A sample rate is a
  rational number; it is only compared with 1 and with the draw of \<^verbatim>\<open>random\<close>, and a float
  is subtracted from 1 without rounding where the comparison could go either way.
\<close>

section \<open>Tags\<close>

text \<open>
  \<^verbatim>\<open>Tags\<close> is a \<^verbatim>\<open>std::map\<close>: pairs in ascending order of their keys.  Strings are compared as
  sequences of unsigned bytes, which is the order of the library.  \<^verbatim>\<open>insert\<close> does not replace.
\<close>

type_synonym Tags = "(string \<times> string) list"

fun Tags_insert :: "string \<times> string \<Rightarrow> Tags \<Rightarrow> Tags" where
  "Tags_insert (k, v) [] = [(k, v)]"
| "Tags_insert (k, v) ((k', v') # m) =
     (if k < k' then (k, v) # (k', v') # m
      else if k' < k then (k', v') # Tags_insert (k, v) m
      else (k', v') # m)"

definition Tags_of :: "(string \<times> string) list \<Rightarrow> Tags" where
  "Tags_of kv = fold Tags_insert kv []"

section \<open>The client\<close>

record sockaddr_in =
  sin_port :: u16
  sin_addr :: u32

text \<open>\<^verbatim>\<open>short\<close> is a 16-bit number; \<open>exit_\<close>, which nothing reads, is left out.\<close>

record ClientData =
  d_sock :: int
  d_server :: sockaddr_in
  d_ns :: string
  d_host :: string
  d_port :: u16
  d_init :: bool

record udp =
  udp_fds :: "int set"
  datagrams :: "(sockaddr_in \<times> string) list"

type_synonym client = "ClientData \<times> udp"

text \<open>
  The answers of \<^verbatim>\<open>socket\<close>, \<^verbatim>\<open>inet_aton\<close> (\<^const>\<open>None\<close> is the result 0), \<^verbatim>\<open>getaddrinfo\<close> (the error, or the
  first address) and \<^verbatim>\<open>sendto\<close>.
\<close>

record udp_calls =
  u_socket :: int
  u_inet_aton :: "string \<Rightarrow> u32 option"
  u_getaddrinfo :: "string \<Rightarrow> int + u32"
  u_sendto :: int

definition close_fd :: "int \<Rightarrow> udp \<Rightarrow> udp" where
  "close_fd fd k = k\<lparr>udp_fds := udp_fds k - {fd}\<rparr>"

definition Client_config :: "string \<Rightarrow> int \<Rightarrow> string \<Rightarrow> client \<Rightarrow> client" where
  "Client_config host port ns = (\<lambda>(d, k).
     (d\<lparr>d_ns := ns, d_host := host, d_port := word_of_int port, d_init := False, d_sock := -1\<rparr>,
      if d_sock d \<ge> 0 then close_fd (d_sock d) k else k))"

definition Client_new :: "ClientData \<Rightarrow> string \<Rightarrow> int \<Rightarrow> string \<Rightarrow> udp \<Rightarrow> client" where
  "Client_new raw host port ns k = Client_config host port ns (raw\<lparr>d_sock := -1\<rparr>, k)"

definition Client_destroy :: "client \<Rightarrow> client" where
  "Client_destroy = (\<lambda>(d, k). if d_sock d \<ge> 0 then (d\<lparr>d_sock := -1\<rparr>, close_fd (d_sock d) k) else (d, k))"

definition Client_init :: "udp_calls \<Rightarrow> client \<Rightarrow> int \<times> client" where
  "Client_init sys = (\<lambda>(d, k).
     if d_init d then (0, (d, k))
     else
       let d1 = d\<lparr>d_sock := u_socket sys\<rparr>
       in if d_sock d1 = -1 then (-1, (d1, k))
          else
            let k1 = k\<lparr>udp_fds := insert (d_sock d1) (udp_fds k)\<rparr>;
                d2 = d1\<lparr>d_server := \<lparr>sin_port = d_port d, sin_addr = 0\<rparr>\<rparr>
            in case u_inet_aton sys (d_host d) of
                 Some a \<Rightarrow> (0, (d2\<lparr>d_server := (d_server d2)\<lparr>sin_addr := a\<rparr>, d_init := True\<rparr>, k1))
               | None \<Rightarrow>
                   (case u_getaddrinfo sys (d_host d) of
                      Inl e \<Rightarrow> (-2, (d2\<lparr>d_sock := -1\<rparr>, close_fd (d_sock d2) k1))
                    | Inr a \<Rightarrow> (0, (d2\<lparr>d_server := (d_server d2)\<lparr>sin_addr := a\<rparr>, d_init := True\<rparr>, k1))))"

definition send_to_daemon :: "udp_calls \<Rightarrow> string \<Rightarrow> client \<Rightarrow> int \<times> client" where
  "send_to_daemon sys msg c =
     (case Client_init sys c of (code, (d, k)) \<Rightarrow>
        if code \<noteq> 0 then (code, (d, k))
        else if u_sendto sys = -1 then (-1, (d, k))
        else (0, (d, k\<lparr>datagrams := datagrams k @ [(d_server d, msg)]\<rparr>)))"

section \<open>Messages\<close>

text \<open>\<^verbatim>\<open>epsilon\<close> is the float nearest to 0.0001.\<close>

definition epsilon :: rat where "epsilon = 13743895 / 2 ^ 37"

definition fequal :: "rat \<Rightarrow> rat \<Rightarrow> bool" where
  "fequal a b \<longleftrightarrow> \<bar>a - b\<bar> < epsilon"

text \<open>\<open>p\<close> is the quotient of \<^verbatim>\<open>random()\<close> and \<^verbatim>\<open>RAND_MAX\<close>.\<close>

definition should_send :: "rat \<Rightarrow> rat \<Rightarrow> bool" where
  "should_send p sample_rate = (if fequal sample_rate 1 then True else sample_rate > p)"

text \<open>\<^verbatim>\<open>find_first_of\<close>; the keys are shorter than 2 GiB, so a position fits the variable it is kept in.\<close>

fun find_first_of :: "string \<Rightarrow> string \<Rightarrow> nat option" where
  "find_first_of cs [] = None"
| "find_first_of cs (x # xs) = (if x \<in> set cs then Some 0 else map_option Suc (find_first_of cs xs))"

definition reserved_chars :: string where "reserved_chars = '':|@''"

lemma find_first_of_Some:
  "find_first_of cs s = Some i \<Longrightarrow> i < length s \<and> s ! i \<in> set cs"
  by (induction s arbitrary: i) (auto split: if_splits)

lemma find_first_of_None: "find_first_of cs s = None \<longleftrightarrow> set s \<inter> set cs = {}"
  by (induction s) auto

lemma underscore_free: "CHR ''_'' \<notin> set reserved_chars"
  by (simp add: reserved_chars_def)

lemma count_replaced:
  "i < length s \<Longrightarrow> P (s ! i) \<Longrightarrow> \<not> P c \<Longrightarrow> length (filter P (s[i := c])) < length (filter P s)"
  by (induction s arbitrary: i) (auto split: nat.splits simp: nth_Cons)

function cleanup_key :: "string \<Rightarrow> string" where
  "cleanup_key key = (case find_first_of reserved_chars key of None \<Rightarrow> key | Some pos \<Rightarrow> cleanup_key (key[pos := CHR ''_'']))"
  by auto

termination
proof (relation "measure (\<lambda>key. length (filter (\<lambda>c. c \<in> set reserved_chars) key))", goal_cases)
  case (2 key pos)
  from find_first_of_Some [OF this] show ?case
    by (auto simp: in_measure underscore_free intro!: count_replaced)
qed simp

declare cleanup_key.simps [simp del]

text \<open>\<^verbatim>\<open>std::to_string\<close> of a float: six decimals, ties to even.\<close>

definition round_even :: "rat \<Rightarrow> int" where
  "round_even x = (let f = \<lfloor>x\<rfloor>; r = x - of_int f in if r < 1 / 2 \<or> r = 1 / 2 \<and> even f then f else f + 1)"

definition to_string_float :: "rat \<Rightarrow> string" where
  "to_string_float x =
     (let n = nat (round_even (\<bar>x\<bar> * 10 ^ 6)); frac = to_string (n mod 10 ^ 6)
      in (if x < 0 then ''-'' else []) @ to_string (n div 10 ^ 6) @ ''.'' @ replicate (6 - length frac) (CHR ''0'') @ frac)"

definition tags_text :: "Tags \<Rightarrow> string" where
  "tags_text tags = (if length tags > 0 then foldl (\<lambda>text t. text @ '','' @ fst t @ ''='' @ snd t) [] tags else [])"

definition metric_text :: "string \<Rightarrow> string \<Rightarrow> 32 word \<Rightarrow> Tags \<Rightarrow> string \<Rightarrow> rat \<Rightarrow> string" where
  "metric_text ns key v tags type sample_rate =
     (let buf = ns @ cleanup_key key @ tags_text tags @ '':'' @ to_string_int (sint v) @ ''|'' @ type
      in if \<not> fequal sample_rate 1 then buf @ ''|@'' @ to_string_float sample_rate else buf)"

definition Client_send :: "udp_calls \<Rightarrow> rat \<Rightarrow> string \<Rightarrow> 32 word \<Rightarrow> Tags \<Rightarrow> string \<Rightarrow> rat \<Rightarrow> client \<Rightarrow> int \<times> client" where
  "Client_send sys p key v tags type sample_rate c =
     (if \<not> should_send p sample_rate then (0, c)
      else send_to_daemon sys (metric_text (d_ns (fst c)) key v tags type sample_rate) c)"

definition Client_count :: "udp_calls \<Rightarrow> rat \<Rightarrow> string \<Rightarrow> 32 word \<Rightarrow> Tags \<Rightarrow> rat \<Rightarrow> client \<Rightarrow> int \<times> client" where
  "Client_count sys p key v tags sample_rate = Client_send sys p key v tags ''c'' sample_rate"

definition Client_inc :: "udp_calls \<Rightarrow> rat \<Rightarrow> string \<Rightarrow> Tags \<Rightarrow> rat \<Rightarrow> client \<Rightarrow> int \<times> client" where
  "Client_inc sys p key tags sample_rate = Client_count sys p key 1 tags sample_rate"

definition Client_dec :: "udp_calls \<Rightarrow> rat \<Rightarrow> string \<Rightarrow> Tags \<Rightarrow> rat \<Rightarrow> client \<Rightarrow> int \<times> client" where
  "Client_dec sys p key tags sample_rate = Client_count sys p key (-1) tags sample_rate"

definition Client_gauge :: "udp_calls \<Rightarrow> rat \<Rightarrow> string \<Rightarrow> 32 word \<Rightarrow> Tags \<Rightarrow> rat \<Rightarrow> client \<Rightarrow> int \<times> client" where
  "Client_gauge sys p key v tags sample_rate = Client_send sys p key v tags ''g'' sample_rate"

definition Client_timing :: "udp_calls \<Rightarrow> rat \<Rightarrow> string \<Rightarrow> 32 word \<Rightarrow> Tags \<Rightarrow> rat \<Rightarrow> client \<Rightarrow> int \<times> client" where
  "Client_timing sys p key ms tags sample_rate = Client_send sys p key ms tags ''ms'' sample_rate"

section \<open>The metrics of the server\<close>

text \<open>
  \<^verbatim>\<open>reportMemUsage\<close>, which \<^verbatim>\<open>addRecord\<close> calls for a page it has not inserted into before, without its
  log lines.  The two calls of the client have system calls of their own.  The reading of the free
  memory, between them, may trap.
\<close>

definition page_use :: "PageType \<Rightarrow> string option" where
  "page_use ty = (case ty of NEW \<Rightarrow> Some ''new'' | EXPIRED \<Rightarrow> Some ''expired'' | OLDEST \<Rightarrow> Some ''oldest'' | _ \<Rightarrow> None)"

definition reportMemUsage :: "os \<Rightarrow> udp_calls \<Rightarrow> udp_calls \<Rightarrow> rat \<Rightarrow> PageType \<Rightarrow> client \<Rightarrow> client result" where
  "reportMemUsage os sys1 sys2 p current_record_type c =
     (let c1 = (case page_use current_record_type of
                  Some page \<Rightarrow> snd (Client_inc sys1 p ''dealsrv.page_use'' (Tags_of [(''page'', page)]) 1 c)
                | None \<Rightarrow> c)
      in case freemem os of
           Inl e \<Rightarrow> Inl e
         | Inr percent \<Rightarrow> Inr (snd (Client_gauge sys2 p ''dealsrv.shmem_free'' percent (Tags_of []) 1 c1)))"

text \<open>The \<^verbatim>\<open>stat\<close> mode of \<^verbatim>\<open>main\<close>.\<close>

definition main_stat :: "udp_calls \<Rightarrow> rat \<Rightarrow> client \<Rightarrow> client" where
  "main_stat sys p c = snd (Client_inc sys p ''dealstest'' (Tags_of [(''port'', ''5000'')]) 1 c)"

section \<open>Cleaning of keys\<close>

text \<open>The loop, which searches the key from its start after every replacement, replaces each reserved character once.\<close>

lemma update_map: "i < length s \<Longrightarrow> f (s ! i) = f c \<Longrightarrow> map f (s[i := c]) = map f s"
  by (metis list_update_id map_update)

theorem cleanup_key_replaces:
  "cleanup_key key = map (\<lambda>c. if c \<in> set reserved_chars then CHR ''_'' else c) key"
proof (induction key rule: cleanup_key.induct)
  case (1 key)
  show ?case
  proof (cases "find_first_of reserved_chars key")
    case None
    then have "set key \<inter> set reserved_chars = {}" by (simp add: find_first_of_None)
    then have "map (\<lambda>c. if c \<in> set reserved_chars then CHR ''_'' else c) key = key"
      by (intro map_idI) auto
    with None show ?thesis by (simp add: cleanup_key.simps [of key])
  next
    case (Some pos)
    note f = find_first_of_Some [OF Some]
    have "cleanup_key key = cleanup_key (key[pos := CHR ''_''])" using Some by (simp add: cleanup_key.simps [of key])
    also have "\<dots> = map (\<lambda>c. if c \<in> set reserved_chars then CHR ''_'' else c) (key[pos := CHR ''_''])" by (rule 1 [OF Some])
    also have "\<dots> = map (\<lambda>c. if c \<in> set reserved_chars then CHR ''_'' else c) key" using f by (intro update_map) (auto simp: underscore_free)
    finally show ?thesis .
  qed
qed

lemma cleanup_key_set: "set (cleanup_key key) \<subseteq> insert (CHR ''_'') (set key) - set reserved_chars"
  by (auto simp: cleanup_key_replaces underscore_free)

section \<open>Tags\<close>

abbreviation tags_ok :: "Tags \<Rightarrow> bool" where
  "tags_ok m \<equiv> sorted_wrt (<) (map fst m)"

lemma Tags_insert_keys: "set (map fst (Tags_insert e m)) = insert (fst e) (set (map fst m))"
  by (induction e m rule: Tags_insert.induct) auto

lemma Tags_insert_ok: "tags_ok m \<Longrightarrow> tags_ok (Tags_insert e m)"
proof (induction e m rule: Tags_insert.induct)
  case (2 k v k' v' m)
  have keys: "set (map fst (Tags_insert (k, v) m)) = insert k (set (map fst m))" using Tags_insert_keys [of "(k, v)" m] by simp
  show ?case
  proof (cases "k < k'")
    case True
    with 2(2) show ?thesis by (auto intro: less_trans)
  next
    case False
    show ?thesis
    proof (cases "k' < k")
      case True
      have "\<forall>x \<in> set (map fst (Tags_insert (k, v) m)). k' < x" unfolding keys using 2(2) True by auto
      then show ?thesis using 2(1) [OF False True] 2(2) False True by simp
    next
      case False
      with \<open>\<not> k < k'\<close> 2(2) show ?thesis by simp
    qed
  qed
qed simp

lemma Tags_insert_lookup:
  "tags_ok m \<Longrightarrow> map_of (Tags_insert (k, v) m) x = (case map_of m x of Some y \<Rightarrow> Some y | None \<Rightarrow> if x = k then Some v else None)"
proof (induction "(k, v)" m rule: Tags_insert.induct)
  case (2 k' v' m)
  have "map_of m k = None" if "k < k'"
    using 2(2) that by (auto simp: map_of_eq_None_iff dest: less_trans less_asym)
  with 2 show ?case by (auto split: option.split)
qed simp

lemma Tags_of_ok: "tags_ok (Tags_of kv)"
proof -
  have "tags_ok m \<Longrightarrow> tags_ok (fold Tags_insert kv m)" for m by (induction kv arbitrary: m) (simp_all add: Tags_insert_ok)
  then show ?thesis by (simp add: Tags_of_def)
qed

text \<open>The first of several tags with the same key is kept.\<close>

lemma Tags_of_lookup: "map_of (Tags_of kv) = map_of kv"
proof -
  have "tags_ok m \<Longrightarrow> map_of (fold Tags_insert kv m) x = (case map_of m x of Some y \<Rightarrow> Some y | None \<Rightarrow> map_of kv x)" for m x
    by (induction kv arbitrary: m) (auto simp: Tags_insert_ok Tags_insert_lookup split: option.split)
  then show ?thesis by (auto simp: Tags_of_def)
qed

lemma tags_text_concat: "tags_text tags = concat (map (\<lambda>t. '','' @ fst t @ ''='' @ snd t) tags)"
proof -
  have "foldl (\<lambda>text t. text @ '','' @ fst t @ ''='' @ snd t) a tags = a @ concat (map (\<lambda>t. '','' @ fst t @ ''='' @ snd t) tags)" for a
    by (induction tags arbitrary: a) simp_all
  then show ?thesis by (simp add: tags_text_def)
qed

section \<open>What the daemon reads\<close>

text \<open>The reader of the protocol: a name with tags, a colon, and the value, the type and the rate between bars.\<close>

fun pieces :: "char \<Rightarrow> string \<Rightarrow> string list" where
  "pieces c [] = [[]]"
| "pieces c (x # xs) = (if x = c then [] # pieces c xs else (x # hd (pieces c xs)) # tl (pieces c xs))"

definition before :: "char \<Rightarrow> string \<Rightarrow> string" where "before c s = takeWhile (\<lambda>x. x \<noteq> c) s"
definition after :: "char \<Rightarrow> string \<Rightarrow> string" where "after c s = tl (dropWhile (\<lambda>x. x \<noteq> c) s)"

record metric =
  m_name :: string
  m_tags :: "(string \<times> string) list"
  m_value :: "int result"
  m_type :: string
  m_rate :: "string option"

definition decode_metric :: "string \<Rightarrow> metric" where
  "decode_metric s =
     (let names = pieces (CHR '','') (before (CHR '':'') s); values = pieces (CHR ''|'') (after (CHR '':'') s)
      in \<lparr>m_name = hd names, m_tags = map (\<lambda>t. (before (CHR ''='') t, after (CHR ''='') t)) (tl names),
          m_value = stoi (values ! 0), m_type = values ! 1,
          m_rate = (if length values > 2 then Some (tl (values ! 2)) else None)\<rparr>)"

lemma pieces_nonempty [simp]: "pieces c s \<noteq> []"
  by (cases s) auto

lemma pieces_plain: "c \<notin> set s \<Longrightarrow> pieces c s = [s]"
  by (induction s) auto

lemma pieces_append: "c \<notin> set a \<Longrightarrow> pieces c (a @ c # s) = a # pieces c s"
  by (induction a) auto

lemma before_after [simp]:
  "c \<notin> set a \<Longrightarrow> before c (a @ c # s) = a" "c \<notin> set a \<Longrightarrow> after c (a @ c # s) = s"
  by (auto simp: before_def after_def takeWhile_append dropWhile_append)

definition plain :: "string \<Rightarrow> bool" where
  "plain s \<longleftrightarrow> set s \<inter> set '':|,='' = {}"

lemma plain_free:
  assumes "plain s"
  shows "CHR '':'' \<notin> set s" "CHR ''|'' \<notin> set s" "CHR '','' \<notin> set s" "CHR ''='' \<notin> set s"
  using assms by (auto simp: plain_def)

lemma pieces_tags:
  assumes "\<forall>t \<in> set tags. plain (fst t) \<and> plain (snd t)" "CHR '','' \<notin> set name"
  shows "pieces (CHR '','') (name @ tags_text tags) = name # map (\<lambda>t. fst t @ ''='' @ snd t) tags"
  using assms
proof (induction tags arbitrary: name)
  case Nil
  then show ?case by (simp add: tags_text_concat pieces_plain)
next
  case (Cons t tags)
  have "CHR '','' \<notin> set (fst t @ ''='' @ snd t)" using Cons.prems(1) by (auto simp: plain_free)
  from Cons.IH [OF _ this] Cons.prems show ?case by (simp add: tags_text_concat pieces_append)
qed

lemma tags_text_no_colon:
  "\<forall>t \<in> set tags. plain (fst t) \<and> plain (snd t) \<Longrightarrow> CHR '':'' \<notin> set (tags_text tags)"
  by (auto simp: tags_text_concat plain_free)

lemma metric_decodes:
  assumes "plain ns" "set key \<inter> set '',='' = {}" "\<forall>t \<in> set tags. plain (fst t) \<and> plain (snd t)" "CHR ''|'' \<notin> set type"
  shows "decode_metric (metric_text ns key v tags type rate)
    = \<lparr>m_name = ns @ cleanup_key key, m_tags = tags, m_value = Inr (sint v), m_type = type,
       m_rate = (if fequal rate 1 then None else Some (to_string_float rate))\<rparr>"
proof -
  let ?name = "ns @ cleanup_key key" and ?v = "to_string_int (sint v)"
  let ?rest = "if fequal rate 1 then [] else ''|@'' @ to_string_float rate"
  have key: "set (cleanup_key key) \<inter> set '':|,='' = {}" using cleanup_key_set [of key] assms(2) by (auto simp: reserved_chars_def)
  have msg: "metric_text ns key v tags type rate = (?name @ tags_text tags) @ CHR '':'' # (?v @ CHR ''|'' # type @ ?rest)"
    by (simp add: metric_text_def Let_def)
  have colon: "CHR '':'' \<notin> set (?name @ tags_text tags)" using key tags_text_no_colon [OF assms(3)] plain_free [OF assms(1)] by auto
  have comma: "CHR '','' \<notin> set ?name" using key plain_free [OF assms(1)] by auto
  have "\<not> is_digit (CHR ''|'')" "\<not> is_digit (CHR ''.'')" by code_simp+
  then have bar: "CHR ''|'' \<notin> set ?v" using to_string_int_chars by blast
  have float: "CHR ''|'' \<notin> set (to_string_float rate)"
    using to_string_digits \<open>\<not> is_digit (CHR ''|'')\<close> by (auto simp: to_string_float_def Let_def)
  have vals: "pieces (CHR ''|'') (?v @ CHR ''|'' # type @ ?rest) = ?v # type # (if fequal rate 1 then [] else [CHR ''@'' # to_string_float rate])"
    using bar float assms(4) by (simp add: pieces_append pieces_plain)
  have tags: "map (\<lambda>t. (before (CHR ''='') t, after (CHR ''='') t)) (map (\<lambda>t. fst t @ ''='' @ snd t) tags) = tags"
    using assms(3) by (auto simp: plain_free intro!: map_idI)
  have "stoi ?v = Inr (sint v)" by (rule stoi_to_string_int) (use sint_range_size [of v] in \<open>simp_all add: word_size\<close>)
  then show ?thesis
    unfolding decode_metric_def msg before_after(1) [OF colon] before_after(2) [OF colon] vals pieces_tags [OF assms(3) comma] Let_def
    using tags by simp
qed

section \<open>The socket of the client\<close>

text \<open>\<^verbatim>\<open>socket\<close> returns -1 or a descriptor that is not open.\<close>

definition fresh_fd :: "udp_calls \<Rightarrow> client \<Rightarrow> bool" where
  "fresh_fd sys c \<longleftrightarrow> u_socket sys = -1 \<or> 0 \<le> u_socket sys \<and> u_socket sys \<notin> udp_fds (snd c)"

text \<open>The states of a client in a process whose other descriptors are \<open>others\<close>.\<close>

inductive client_reach :: "int set \<Rightarrow> client \<Rightarrow> bool" for others where
  created: "client_reach others (Client_new raw host port ns \<lparr>udp_fds = others, datagrams = []\<rparr>)"
| configured: "client_reach others c \<Longrightarrow> client_reach others (Client_config host port ns c)"
| metric: "client_reach others c \<Longrightarrow> fresh_fd sys c \<Longrightarrow> client_reach others (snd (Client_send sys p key v tags type rate c))"
| manual: "client_reach others c \<Longrightarrow> fresh_fd sys c \<Longrightarrow> client_reach others (snd (send_to_daemon sys msg c))"

definition client_ok :: "int set \<Rightarrow> client \<Rightarrow> bool" where
  "client_ok others = (\<lambda>(d, k).
     if d_init d then 0 \<le> d_sock d \<and> d_sock d \<notin> others \<and> udp_fds k = insert (d_sock d) others \<and> sin_port (d_server d) = d_port d
     else d_sock d = -1 \<and> udp_fds k = others)"

lemma config_ok: "client_ok others c \<Longrightarrow> client_ok others (Client_config host port ns c)"
  by (cases c) (auto simp: client_ok_def Client_config_def close_fd_def split: if_splits)

lemma new_ok: "client_ok others (Client_new raw host port ns \<lparr>udp_fds = others, datagrams = q\<rparr>)"
  by (simp add: client_ok_def Client_new_def Client_config_def)

lemma init_ok:
  assumes "client_ok others c" "fresh_fd sys c"
  shows "client_ok others (snd (Client_init sys c))" "fst (Client_init sys c) = 0 \<longleftrightarrow> d_init (fst (snd (Client_init sys c)))"
    "datagrams (snd (snd (Client_init sys c))) = datagrams (snd c)" "d_port (fst (snd (Client_init sys c))) = d_port (fst c)"
  using assms
  by (cases c; auto simp: client_ok_def fresh_fd_def Client_init_def close_fd_def Let_def split: if_splits option.split sum.split)+

lemma send_to_daemon_ok:
  assumes "client_ok others c" "fresh_fd sys c"
  shows "client_ok others (snd (send_to_daemon sys msg c))"
  using init_ok(1) [OF assms] by (auto simp: send_to_daemon_def client_ok_def split: prod.split if_splits)

lemma Client_send_ok:
  "client_ok others c \<Longrightarrow> fresh_fd sys c \<Longrightarrow> client_ok others (snd (Client_send sys p key v tags type rate c))"
  by (simp add: Client_send_def send_to_daemon_ok)

lemma reach_ok: "client_reach others c \<Longrightarrow> client_ok others c"
  by (induction rule: client_reach.induct) (simp_all add: new_ok config_ok Client_send_ok send_to_daemon_ok)

text \<open>
  The client of the metrics never holds more than one socket, however its system calls fail and
  however often it is configured anew: the descriptors of the process are those of the others and
  its own one if it is connected.  Its destructor leaves the others.
\<close>

theorem client_socket:
  assumes "client_reach others (d, k)"
  shows "udp_fds k = (if d_init d then insert (d_sock d) others else others) \<and> (d_init d \<longleftrightarrow> d_sock d \<noteq> -1) \<and>
    udp_fds (snd (Client_destroy (d, k))) = others"
  using reach_ok [OF assms] by (auto simp: client_ok_def Client_destroy_def close_fd_def split: if_splits)

section \<open>Sending a metric\<close>

definition daemon_known :: "udp_calls \<Rightarrow> ClientData \<Rightarrow> bool" where
  "daemon_known sys d \<longleftrightarrow> d_init d \<or>
     u_socket sys \<noteq> -1 \<and> (u_inet_aton sys (d_host d) \<noteq> None \<or> (\<exists>a. u_getaddrinfo sys (d_host d) = Inr a))"

lemma init_known: "fst (Client_init sys (d, k)) = 0 \<longleftrightarrow> daemon_known sys d"
  by (auto simp: Client_init_def daemon_known_def Let_def split: option.split sum.split)

lemma send_to_daemon_result:
  assumes "client_ok others (d, k)" "fresh_fd sys (d, k)" "send_to_daemon sys msg (d, k) = (r, (d', k'))"
  shows "r = 0 \<longleftrightarrow> daemon_known sys d \<and> u_sendto sys \<noteq> -1"
    "datagrams k' = datagrams k @ (if r = 0 then [(d_server d', msg)] else [])"
    "r = 0 \<Longrightarrow> sin_port (d_server d') = d_port d"
proof -
  obtain c d1 k1 where i: "Client_init sys (d, k) = (c, (d1, k1))" by (metis surj_pair)
  note ok = init_ok [OF assms(1,2), unfolded i, simplified]
  have c: "c = 0 \<longleftrightarrow> daemon_known sys d" using init_known [of sys d k] by (simp add: i)
  show "r = 0 \<longleftrightarrow> daemon_known sys d \<and> u_sendto sys \<noteq> -1"
    "datagrams k' = datagrams k @ (if r = 0 then [(d_server d', msg)] else [])"
    using assms(3) c ok(3) by (auto simp: send_to_daemon_def i split: if_splits)
  show "r = 0 \<Longrightarrow> sin_port (d_server d') = d_port d"
    using assms(3) ok by (auto simp: send_to_daemon_def i client_ok_def split: if_splits)
qed


text \<open>A client with the default configuration, and a system in which every call succeeds.\<close>

definition sample_udp :: udp_calls where
  "sample_udp = \<lparr>u_socket = 3, u_inet_aton = (\<lambda>_. Some 2130706433), u_getaddrinfo = (\<lambda>_. Inl 1), u_sendto = 0\<rparr>"

definition raw_client :: ClientData where
  "raw_client = \<lparr>d_sock = 0, d_server = \<lparr>sin_port = 0, sin_addr = 0\<rparr>, d_ns = [], d_host = [], d_port = 0, d_init = True\<rparr>"

definition metric_client :: client where
  "metric_client = Client_new raw_client ''127.0.0.1'' 8125 [] \<lparr>udp_fds = {0, 1, 2}, datagrams = []\<rparr>"

lemma metric_client_reach: "client_reach {0, 1, 2} metric_client"
  unfolding metric_client_def by (rule client_reach.created)

lemma metric_client_fields:
  "metric_client = (\<lparr>d_sock = -1, d_server = \<lparr>sin_port = 0, sin_addr = 0\<rparr>, d_ns = [], d_host = ''127.0.0.1'', d_port = 8125, d_init = False\<rparr>,
     \<lparr>udp_fds = {0, 1, 2}, datagrams = []\<rparr>)"
  by (simp add: metric_client_def Client_new_def Client_config_def raw_client_def)

lemma metric_client_fresh: "fresh_fd sample_udp metric_client"
  by (simp add: fresh_fd_def sample_udp_def metric_client_fields)

theorem client_socket_witness:
  "udp_fds (snd (Client_destroy (snd (Client_send sample_udp 0 ''a:b'' 7 [] ''c'' 1 metric_client)))) = {0, 1, 2}"
proof -
  have r: "client_reach {0, 1, 2} (snd (Client_send sample_udp 0 ''a:b'' 7 [] ''c'' 1 metric_client))"
    by (rule client_reach.metric [OF metric_client_reach metric_client_fresh])
  show ?thesis
    using client_socket [of "{0, 1, 2}" "fst (snd (Client_send sample_udp 0 ''a:b'' 7 [] ''c'' 1 metric_client))"
        "snd (snd (Client_send sample_udp 0 ''a:b'' 7 [] ''c'' 1 metric_client))"] r by simp
qed


text \<open>
  When the calls succeed, a page taken into use is reported by a counter and the free memory, in
  percent, by a gauge.
\<close>

theorem page_use_reported:
  assumes "page_use ty = Some page" "d_init d" "u_sendto sys1 \<noteq> -1" "u_sendto sys2 \<noteq> -1" "freemem os = Inr percent"
  shows "\<exists>c. reportMemUsage os sys1 sys2 p ty (d, k) = Inr c \<and> map snd (datagrams (snd c)) = map snd (datagrams k) @
    [d_ns d @ ''dealsrv.page_use,page='' @ page @ '':1|c'', d_ns d @ ''dealsrv.shmem_free:'' @ to_string_int (sint percent) @ ''|g'']"
proof -
  have f: "fequal 1 1" by (simp add: fequal_def epsilon_def)
  have i: "Client_init sys (d, k) = (0, (d, k))" for sys k using assms(2) by (simp add: Client_init_def)
  have n: "to_string_int 1 = ''1''" by code_simp
  have k: "cleanup_key ''dealsrv.page_use'' = ''dealsrv.page_use''" "cleanup_key ''dealsrv.shmem_free'' = ''dealsrv.shmem_free''"
    by (simp_all add: cleanup_key_replaces reserved_chars_def)
  show ?thesis
    using assms(1,3-5)
    by (simp add: reportMemUsage_def Client_inc_def Client_count_def Client_gauge_def Client_send_def should_send_def f send_to_daemon_def i
        metric_text_def Let_def tags_text_concat Tags_of_def n k)
qed

text \<open>
  The tags and the name space are sent as they are: a tag with a colon is read as the end of the
  name, and a comma in a key as the start of a tag.
\<close>

theorem tags_not_cleaned:
  "m_value (decode_metric (metric_text [] ''key'' 1 [(''host'', ''localhost:5000'')] ''c'' 1)) = Inr 5000"
  "m_tags (decode_metric (metric_text [] ''a,b=c'' 1 [] ''c'' 1)) = [(''b'', ''c'')]"
  by code_simp+

end
