(* ===== verification/ConcurrentTables.thy ===== *)
theory ConcurrentTables
  imports TableContents
begin

text \<open>
  Several processes insert into one table.  \<^verbatim>\<open>addRecord\<close> chooses a page and reserves elements in the
  shared index under the lock of the table, leaves the lock, and only then maps the page and
  copies the records; a scan reads the index under the lock and the pages without it.  Here these
  parts are separate steps, so that the steps of different processes interleave between them.
\<close>

section \<open>Processes\<close>

text \<open>
  What a process has of its own: its mappings, its timer, its lock object, and the reservation it
  holds while it is between the two parts of \<^verbatim>\<open>addRecord\<close>.
\<close>

record 'e proc =
  p_opened :: "SharedMemoryPage list"
  p_check :: u32
  p_lock :: CriticalSection
  p_pending :: "(insert_position \<times> 'e list \<times> u32) option"

text \<open>
  All processes on one table.  The local fields of \<open>shared\<close> are not used.  \<open>finished\<close> lists what has
  been inserted: page, position and records.
\<close>

record 'e world =
  shared :: "'e Table"
  procs :: "nat \<Rightarrow> 'e proc"
  finished :: "(nat \<times> nat \<times> 'e list) list"

definition as_seen :: "'e proc \<Rightarrow> 'e Table \<Rightarrow> 'e Table" where
  "as_seen w g = g\<lparr>opened_pages_list := p_opened w, time_to_check_page_expire := p_check w, lock := p_lock w\<rparr>"

definition own_part :: "'e Table \<Rightarrow> (insert_position \<times> 'e list \<times> u32) option \<Rightarrow> 'e proc" where
  "own_part t pending =
     \<lparr>p_opened = opened_pages_list t, p_check = time_to_check_page_expire t, p_lock = lock t, p_pending = pending\<rparr>"

abbreviation view :: "'e world \<Rightarrow> nat \<Rightarrow> 'e Table" where
  "view W p \<equiv> as_seen (procs W p) (shared W)"

definition put :: "nat \<Rightarrow> 'e Table \<Rightarrow> (insert_position \<times> 'e list \<times> u32) option \<Rightarrow> 'e world \<Rightarrow> 'e world" where
  "put p t pending W = W\<lparr>shared := t, procs := (procs W)(p := own_part t pending)\<rparr>"

section \<open>The parts of an insertion\<close>

text \<open>The part of \<^verbatim>\<open>addRecord\<close> up to leaving the lock, and the whole as its composition with the rest.\<close>

definition claim :: "os \<Rightarrow> u32 \<Rightarrow> u32 \<Rightarrow> u32 \<Rightarrow> ('e Table, insert_position) op" where
  "claim os now c life = sbind lock_enter (\<lambda>_. with_guard (sbind (reserve os now c life) (\<lambda>ip. sbind lock_exit (\<lambda>_. ret ip))))"

lemma ret_neutral: "lock_neutral (ret x)"
  by (simp add: lock_neutral_def)

lemma claim_critical: "claim os now c life = critical (reserve os now c life) ret"
  by (simp add: claim_def critical_def)

text \<open>An insertion that nobody interrupts is the \<^verbatim>\<open>addRecord\<close> of the other theories.\<close>

theorem addRecord_in_parts:
  assumes "lock_idle t"
  shows "addRecord os time0 now recs c life t =
    sbind (release_expired_memory_pages os time0) (\<lambda>_. sbind (checkRecord c) (\<lambda>_. sbind (claim os now c life) (store_records os recs c))) t"
proof -
  have p: "critical (reserve os now c life) (store_records os recs c) u = sbind (claim os now c life) (store_records os recs c) u"
    if u: "lock_idle u" for u :: "'a Table"
    unfolding claim_critical sbind_def critical_exact [of "reserve os now c life" ret, OF reserve_neutral ret_neutral u]
      critical_exact [of "reserve os now c life" "store_records os recs c", OF reserve_neutral store_records_neutral u]
    by (auto split: prod.split sum.split)
  obtain r1 t1 where r: "release_expired_memory_pages os time0 t = (r1, t1)" by fastforce
  then have "lock_idle t1" using lock_balanced_idle [OF release_expired_balanced assms, of os time0] by simp
  then show ?thesis using r p [of t1] by (cases r1) (auto simp: addRecord_critical sbind_def checkRecord_def)
qed

section \<open>Interleavings\<close>

text \<open>
  Memory is not low, and at time \<open>now\<close> no page in use has expired or may be removed: as on the first day, or while every
  page is written to before it expires.
\<close>

definition quiet :: "os \<Rightarrow> u32 \<Rightarrow> 'e Table \<Rightarrow> bool" where
  "quiet os now g \<longleftrightarrow> \<not> isMemLow os \<and>
     (\<forall>i < max_pages g. 0 < expire_at (index_at g i) \<longrightarrow> now \<le> expire_at (index_at g i) \<and> maybe_in_use now (global_expire_at g) (index_at g i))"

inductive proc_step :: "nat \<Rightarrow> 'e world \<Rightarrow> 'e world \<Rightarrow> bool" for psz where
  tidy: "release_expired_memory_pages os now (view W p) = (r, t) \<Longrightarrow> quiet os now (shared W) \<Longrightarrow>
    proc_step psz W (put p t (p_pending (procs W p)) W)"
| reserve: "claim os now c life (view W p) = (Inr ip, t) \<Longrightarrow> p_pending (procs W p) = None \<Longrightarrow> quiet os now (shared W) \<Longrightarrow>
    c \<le> max_elements_in_page (shared W) \<Longrightarrow> length recs = unat c \<Longrightarrow> 0 < expiry (shared W) now life \<Longrightarrow>
    proc_step psz W (put p t (Some (ip, recs, c)) W)"
| copy: "store_records os recs c ip (view W p) = (Inr ee, t) \<Longrightarrow> p_pending (procs W p) = Some (ip, recs, c) \<Longrightarrow>
    all_ok os \<Longrightarrow> sc_page_size os = psz \<Longrightarrow>
    proc_step psz W ((put p t None W)\<lparr>finished := finished W @ [(ip_page ip, unat (ip_index ip), recs)]\<rparr>)"
| look: "getPageByName os (data_page_name (table_name (shared W)) i) (view W p) = (Inr page, t) \<Longrightarrow> i < max_pages (shared W) \<Longrightarrow>
    all_ok os \<Longrightarrow> sc_page_size os = psz \<Longrightarrow> proc_step psz W (put p t (p_pending (procs W p)) W)"

section \<open>What a process sees\<close>

lemma as_seen_simps [simp]:
  "table_index (as_seen w g) = table_index g" "data_shm (as_seen w g) = data_shm g" "global_expire_at (as_seen w g) = global_expire_at g"
  "sems (as_seen w g) = sems g" "opened_pages_list (as_seen w g) = p_opened w" "lock (as_seen w g) = p_lock w"
  "table_name (as_seen w g) = table_name g" "table_max_pages (as_seen w g) = table_max_pages g"
  "max_elements_in_page (as_seen w g) = max_elements_in_page g" "record_expire_seconds (as_seen w g) = record_expire_seconds g"
  "elem_size (as_seen w g) = elem_size g" "elem_zero (as_seen w g) = elem_zero g" "as_seen w (as_seen w' g) = as_seen w g"
  "max_pages (as_seen w g) = max_pages g" "index_at (as_seen w g) = index_at g" "table_entries (as_seen w g) = table_entries g"
  "page_elems (as_seen w g) = page_elems g" "used (as_seen w g) = used g" "page_backed (as_seen w g) = page_backed g"
  "index_inv (as_seen w g) = index_inv g" "serviceable os (as_seen w g) = serviceable os g" "expiry (as_seen w g) = expiry g"
  "recyclable os (as_seen w g) = recyclable os g" "names_fit (as_seen w g) = names_fit g" "quiet os now (as_seen w g) = quiet os now g"
  by (simp_all add: as_seen_def fun_eq_iff max_pages_def index_at_def table_entries_def page_elems_def used_def page_backed_def index_inv_def
      names_fit_def entry_ok_def own_name_def serviceable_def expiry_def recyclable_def quiet_def cong: option.case_cong)

lemma as_seen_own [simp]: "as_seen (own_part t x) t = t"
  by (simp add: as_seen_def own_part_def)

lemma own_part_simps [simp]:
  "p_opened (own_part t x) = opened_pages_list t" "p_lock (own_part t x) = lock t" "p_pending (own_part t x) = x"
  by (simp_all add: own_part_def)

definition seen :: "nat \<Rightarrow> 'e proc \<Rightarrow> 'e Table \<Rightarrow> bool" where
  "seen psz w g \<longleftrightarrow> data_inv psz (as_seen w g) \<and> synced (as_seen w g) \<and> lock_idle (as_seen w g) \<and> cs_name (p_lock w) = table_name g"

text \<open>What the steps of one process may do to the memory of the others: objects and names stay, and sizes do not change.\<close>

definition grows :: "'e Table \<Rightarrow> 'e Table \<Rightarrow> bool" where
  "grows g g' \<longleftrightarrow> same_consts g g' \<and> sem_ext (sems g) (sems g') \<and>
     length (objects (data_shm g)) \<le> length (objects (data_shm g')) \<and>
     (\<forall>k < length (objects (data_shm g)). length (elements (objects (data_shm g') ! k)) = length (elements (objects (data_shm g) ! k))) \<and>
     (\<forall>m k. names (data_shm g) m = Some k \<longrightarrow> names (data_shm g') m = Some k)"

lemma grows_trans: "grows g g' \<Longrightarrow> grows g' g'' \<Longrightarrow> grows g g''"
  by (auto simp: grows_def same_consts_def intro: sem_ext_trans)

lemma grows_seen_simps [simp]: "grows (as_seen w g) g' = grows g g'" "grows g (as_seen w g') = grows g g'"
  by (simp_all add: grows_def same_consts_def)

lemma sem_ext_Some: "sem_ext s s' \<Longrightarrow> s n = Some v \<Longrightarrow> s' n = Some v"
  unfolding sem_ext_def by (metis option.distinct(1))

lemma sem_ext_free: "sem_ext s s' \<Longrightarrow> s n \<noteq> Some 0 \<Longrightarrow> s' n \<noteq> Some 0"
  unfolding sem_ext_def by (metis One_nat_def nat.distinct(1) option.inject)

lemma seen_grows:
  assumes "seen psz w g" "grows g g'" "shm_inv (page_size_of psz g) (unat (max_elements_in_page g)) (data_shm g')"
  shows "seen psz w g'"
proof -
  have c: "table_name g' = table_name g" "max_elements_in_page g' = max_elements_in_page g" "elem_size g' = elem_size g"
    using assms(2) by (simp_all add: grows_def same_consts_def)
  have "data_inv psz (as_seen w g')" using assms
    by (fastforce simp: seen_def data_inv_def page_object_def grows_def c)
  moreover have "synced (as_seen w g')" using assms(1,2) by (simp add: seen_def synced_def grows_def)
  moreover have "lock_idle (as_seen w g')"
    using assms(1,2) sem_ext_bounded [of "sems g" "sems g'"] sem_ext_Some [of "sems g" "sems g'"]
    by (auto simp: seen_def lock_idle_def grows_def)
  ultimately show ?thesis using assms(1) c by (simp add: seen_def)
qed

text \<open>The part of the invariant that all processes share.\<close>

definition base :: "nat \<Rightarrow> 'e Table \<Rightarrow> bool" where
  "base psz g \<longleftrightarrow> index_inv g \<and> 0 < max_pages g \<and> shm_inv (page_size_of psz g) (unat (max_elements_in_page g)) (data_shm g) \<and>
     shm_sized (page_size_of psz g) (data_shm g) \<and> (\<forall>i < max_pages g. sems g (data_page_name (table_name g) i) \<noteq> Some 0) \<and> sem_bounded (sems g)"

lemma base_serviceable: "base psz g \<Longrightarrow> all_ok os \<Longrightarrow> sc_page_size os = psz \<Longrightarrow> serviceable os g"
  by (simp add: base_def serviceable_def)

lemma base_seen [simp]: "base psz (as_seen w g) = base psz g"
  by (simp add: base_def)

section \<open>What a step does\<close>

subsection \<open>Opening a page\<close>

lemma open_step:
  assumes sn: "seen psz w g" and b: "base psz g" and ok: "all_ok os" "sc_page_size os = psz" and i: "i < max_pages g"
    and run: "getPageByName os (data_page_name (table_name g) i) (as_seen w g) = (Inr page, t)"
  shows "base psz t" "seen psz (own_part t x) t" "grows g t" "same_rest (as_seen w g) t" "table_index t = table_index g"
    "page_backed g j \<Longrightarrow> page_elems t j = page_elems g j \<and> page_backed t j"
    "page_usable t page" "names (data_shm t) (data_page_name (table_name g) i) = Some (mapping page)"
proof -
  let ?n = "data_page_name (table_name g) i"
  have d: "data_inv (sc_page_size os) (as_seen w g)" and sy: "synced (as_seen w g)" using sn ok(2) by (auto simp: seen_def)
  note sp = getPageByName_spec [OF d run]
  have sv: "serviceable os t"
    using getPage_serviceable [OF _ d, of i] base_serviceable [OF b ok] b i run by (auto simp: base_def index_inv_def)
  have rest: "same_rest (as_seen w g) t" and ext: "shm_ext ?n (data_shm g) (data_shm t)" and dt: "data_inv (sc_page_size os) t" and syt: "synced t"
    and nm: "names (data_shm t) ?n = Some (mapping page)" and pu: "page_usable t page"
    using sp sy by auto
  show "same_rest (as_seen w g) t" "page_usable t page" "names (data_shm t) ?n = Some (mapping page)" by fact+
  have c: "same_consts g t" "table_index t = table_index g" using rest by (simp_all add: same_rest_def same_consts_def)
  then show "table_index t = table_index g" by simp
  have cc: "table_name t = table_name g" "max_elements_in_page t = max_elements_in_page g" "elem_size t = elem_size g" "max_pages t = max_pages g"
    using c(1) by (simp_all add: same_consts_def max_pages_def)
  have se: "sem_ext (sems g) (sems t)" and lt: "lock t = p_lock w"
    using lock_neutralD [OF getPageByName_neutral, of "as_seen w g" os ?n] b run by (simp_all add: base_def)
  have nms: "names (data_shm t) m = Some k" if "names (data_shm g) m = Some k" for m k
    using that ext nm by (cases "m = ?n") (auto simp: shm_ext_def)
  show g: "grows g t"
    unfolding grows_def using c(1) se nms ext shm_ext_nth [OF ext] by (auto simp: shm_ext_def dest: prefix_length_le)
  have "index_inv t" using same_rest_inv [OF rest] b by (simp add: base_def)
  then show "base psz t" using b dt ok(2) sv cc by (simp add: base_def serviceable_def data_inv_def)
  have "lock_idle t"
    using lock_balanced_idle [OF lock_neutral_balanced [OF getPageByName_neutral], of "as_seen w g" os ?n] sn run by (simp add: seen_def)
  then show "seen psz (own_part t x) t" using sn dt syt ok(2) lt cc by (simp add: seen_def)
  show "page_elems t j = page_elems g j \<and> page_backed t j" if bk: "page_backed g j"
  proof -
    obtain k where k: "names (data_shm g) (data_page_name (table_name g) j) = Some k" using bk by (auto simp: page_backed_def)
    then have "k < length (objects (data_shm g))" using b by (auto simp: base_def shm_inv_def)
    then have "page_elems t j = page_elems g j" using k nms shm_ext_nth [OF ext] cc by (simp add: page_elems_def)
    then show ?thesis using bk k nms cc by (simp add: page_backed_def)
  qed
qed

subsection \<open>Copying the records\<close>

lemma set_page_grows:
  assumes "base psz t" "data_inv psz t" "length (elements ob) = length (elements (page_object t page))" "st_size ob = st_size (page_object t page)"
  shows "grows t (set_page_object page ob t)" "base psz (set_page_object page ob t)"
proof -
  let ?t = "set_page_object page ob t"
  have el: "length (elements ((objects (data_shm t))[mapping page := ob] ! k)) = length (elements (objects (data_shm t) ! k))"
    "st_size ((objects (data_shm t))[mapping page := ob] ! k) = st_size (objects (data_shm t) ! k)"
    if "k < length (objects (data_shm t))" for k
    using assms(3,4) that by (cases "k = mapping page"; simp add: page_object_def)+
  show "grows t ?t" using el by (simp add: grows_def set_page_object_def same_consts_def)
  have r: "same_rest t ?t" by (rule set_page_object_rest)
  have "k < length (objects (data_shm t))" if "names (data_shm t) m = Some k" for m k using assms(1) that by (auto simp: base_def shm_inv_def)
  then have "shm_sized (page_size_of psz t) (data_shm ?t)" using assms(1) el(2) by (auto simp: base_def shm_sized_def set_page_object_def)
  moreover have "shm_inv (page_size_of psz ?t) (unat (max_elements_in_page ?t)) (data_shm ?t)"
    using set_page_object_inv [OF assms(2-4)] by (simp add: data_inv_def)
  moreover have "elem_size ?t = elem_size t" "max_elements_in_page ?t = max_elements_in_page t" "sems ?t = sems t" "table_name ?t = table_name t"
    "max_pages ?t = max_pages t"
    by (simp_all add: set_page_object_def max_pages_def)
  ultimately show "base psz ?t" using assms(1) same_rest_inv [OF r] by (simp add: base_def)
qed

lemma copy_step:
  assumes sn: "seen psz w g" and b: "base psz g" and ok: "all_ok os" "sc_page_size os = psz" and i: "i < max_pages g"
    and nm: "ip_page_name ip = data_page_name (table_name g) i" and fit: "unat (ip_index ip) + unat c \<le> unat (max_elements_in_page g)"
    and len: "length recs = unat c" and run: "store_records os recs c ip (as_seen w g) = (Inr ee, t)"
  shows "base psz t" "seen psz (own_part t x) t" "grows g t" "table_index t = table_index g" "page_backed t i"
    "\<exists>els. page_elems t i = memcpy_at (unat (ip_index ip)) recs els \<and> unat (max_elements_in_page g) \<le> length els \<and> (page_backed g i \<longrightarrow> els = page_elems g i)"
    "j \<noteq> i \<Longrightarrow> page_elems t j = page_elems g j \<and> page_backed t j = page_backed g j"
proof -
  have d: "data_inv (sc_page_size os) (as_seen w g)" and sy: "synced (as_seen w g)" using sn ok(2) by (auto simp: seen_def)
  have "unat c \<le> length recs" "take (unat c) recs = recs" using len by simp_all
  note sp = store_records_spec [OF d, of ip i c recs ee t for ee t, simplified, OF nm fit this(1), of "Inr ee" t, unfolded this(2), OF run]
  show "page_backed t i"
    "\<exists>els. page_elems t i = memcpy_at (unat (ip_index ip)) recs els \<and> unat (max_elements_in_page g) \<le> length els \<and> (page_backed g i \<longrightarrow> els = page_elems g i)"
    "j \<noteq> i \<Longrightarrow> page_elems t j = page_elems g j \<and> page_backed t j = page_backed g j"
    using sp sy by auto
  obtain page t1 where g: "getPageByName os (data_page_name (table_name g) i) (as_seen w g) = (Inr page, t1)"
    and st: "(let ob = page_object t1 page in
        if unat (ip_index ip) + unat c \<le> length (elements ob) \<and> unat c \<le> length recs
        then (Inr \<lparr>ee_page_name = ip_page_name ip, ee_index = ip_index ip, ee_size = c\<rparr>,
              set_page_object page (ob\<lparr>elements := memcpy_at (unat (ip_index ip)) (take (unat c) recs) (elements ob)\<rparr>) t1)
        else (Inl segv, t1)) = (Inr ee, t)"
    using store_records_run [OF run] nm by metis
  note o = open_step [OF sn b ok i g]
  have s1: "seen psz (own_part t1 x) t1" by (rule o(2))
  have le: "unat (max_elements_in_page g) \<le> length (elements (page_object t1 page))" using o(4,7) by (simp add: page_usable_def same_rest_def same_consts_def)
  let ?ob = "(page_object t1 page)\<lparr>elements := memcpy_at (unat (ip_index ip)) recs (elements (page_object t1 page))\<rparr>"
  have t: "t = set_page_object page ?ob t1" using st fit le len by (simp add: Let_def)
  have lm: "length (elements ?ob) = length (elements (page_object t1 page))" using fit le len by (simp add: length_memcpy_at)
  have d1: "data_inv psz t1" using s1 by (simp add: seen_def)
  note gr = set_page_grows [OF o(1) d1 lm, simplified, folded t]
  show "base psz t" "grows g t" using gr grows_trans [OF o(3)] by auto
  show "table_index t = table_index g" using o(5) by (simp add: t set_page_object_def)
  have "own_part t x = own_part t1 x" by (simp add: t own_part_def set_page_object_def)
  moreover have "shm_inv (page_size_of psz t1) (unat (max_elements_in_page t1)) (data_shm t)"
    using gr by (simp add: base_def grows_def same_consts_def)
  ultimately show "seen psz (own_part t x) t" using seen_grows [OF s1 gr(1)] by simp
qed

subsection \<open>Reserving\<close>

lemma claim_run:
  assumes idle: "lock_idle t" and inv: "index_inv t" and rc: "recyclable os t" and ch: "choose_page os now c t = ((ty, i), t1)"
  shows "ty = UNKNOWN \<Longrightarrow> fst (claim os now c life t) = Inl (Error (''addRecord::NO_SPACE_TO_INSERT'' @ [LF]) InternalError)"
    "ty \<noteq> UNKNOWN \<Longrightarrow> \<not> low_test_traps os now c t \<Longrightarrow> \<exists>s. sem_ext (sems t) s \<and> claim os now c life t =
      (Inr \<lparr>ip_type = ty, ip_page = i, ip_page_name = data_page_name (table_name t) i, ip_index = first_free t ty i\<rparr>,
       relock s (lock t) (set_index i (reserved_entry t now c life ty i) t1))"
    "low_test_traps os now c t \<Longrightarrow> fst (claim os now c life t) = Inl sigfpe"
proof -
  obtain s1 where se: "sem_ext (sems t) s1" and eq: "claim os now c life t =
    (case reserve os now c life (held t) of (Inl e, t1) \<Rightarrow> (Inl e, relock s1 (lock t) t1) | (Inr x, t1) \<Rightarrow> ret x (relock s1 (lock t) t1))"
    using critical_held [of "reserve os now c life" ret t, OF reserve_neutral ret_neutral idle] unfolding claim_critical by blast
  let ?s0 = "(sems t)(cs_name (lock t) \<mapsto> 0)" and ?l0 = "(lock t)\<lparr>unlock_needed := True\<rparr>"
  have chh: "choose_page os now c (held t) = ((ty, i), relock ?s0 ?l0 t1)" using ch by (simp add: choose_page_relock)
  show "fst (claim os now c life t) = Inl (Error (''addRecord::NO_SPACE_TO_INSERT'' @ [LF]) InternalError)" if "ty = UNKNOWN"
    using chh that low_test_choice [OF chh] unfolding eq by (auto simp: reserve_def)
  show "fst (claim os now c life t) = Inl sigfpe" if "low_test_traps os now c t"
    using that unfolding eq by (simp add: reserve_def)
  assume ty: "ty \<noteq> UNKNOWN" and tr: "\<not> low_test_traps os now c t"
  have fr: "first_free (held t) ty i = first_free t ty i" "reserved_entry (held t) now c life ty i = reserved_entry t now c life ty i"
    by (simp_all add: first_free_def reserved_entry_def own_name_def Let_def)
  have "reserve os now c life (held t) =
      (Inr \<lparr>ip_type = ty, ip_page = i, ip_page_name = data_page_name (table_name t) i, ip_index = first_free t ty i\<rparr>,
       set_index i (reserved_entry t now c life ty i) (relock ?s0 ?l0 t1))"
    using reserve_eq [of "held t" os now c ty i "relock ?s0 ?l0 t1" life] inv rc chh ty tr by (simp add: fr)
  moreover have "relock s1 (lock t) (set_index i e (relock ?s0 ?l0 t1)) = relock s1 (lock t) (set_index i e t1)" for e
    by (simp add: relock_def set_index_def)
  ultimately show "\<exists>s. sem_ext (sems t) s \<and> claim os now c life t =
      (Inr \<lparr>ip_type = ty, ip_page = i, ip_page_name = data_page_name (table_name t) i, ip_index = first_free t ty i\<rparr>,
       relock s (lock t) (set_index i (reserved_entry t now c life ty i) t1))"
    using se by (auto simp: eq)
qed

lemma claim_step:
  assumes sn: "seen psz w g" and b: "base psz g" and rc: "recyclable os g" and c: "c \<le> max_elements_in_page g" and ex: "0 < expiry g now life"
    and run: "claim os now c life (as_seen w g) = (Inr ip, t)"
  shows "base psz t" "seen psz (own_part t x) t" "grows g t" "data_shm t = data_shm g"
    "ip_page ip < max_pages g" "ip_page_name ip = data_page_name (table_name g) (ip_page ip)"
    "0 < expire_at (index_at t (ip_page ip))" "used t (ip_page ip) = unat (ip_index ip) + unat c"
    "\<exists>g1. choose_page os now c (as_seen w g) = ((ip_type ip, ip_page ip), g1)" "ip_type ip \<noteq> UNKNOWN"
    "j \<noteq> ip_page ip \<Longrightarrow> index_at t j = index_at g j"
    "if ip_type ip = CURRENT then unat (ip_index ip) = used g (ip_page ip)
     else ip_index ip = 0 \<and> expire_at (index_at t (ip_page ip)) = expiry g now life"
proof -
  let ?u = "as_seen w g"
  have idle: "lock_idle ?u" and inv: "index_inv g" using sn b by (auto simp: seen_def base_def)
  obtain ty i g1 where ch: "choose_page os now c ?u = ((ty, i), g1)" by (metis prod.exhaust)
  note cr = claim_run [of ?u, OF idle _ _ ch, of life, simplified, OF inv rc]
  have tu: "ty \<noteq> UNKNOWN" and tr: "\<not> low_test_traps os now c ?u" using cr(1,3) run by auto
  obtain s where se: "sem_ext (sems g) s"
    and ip: "ip = \<lparr>ip_type = ty, ip_page = i, ip_page_name = data_page_name (table_name g) i, ip_index = first_free ?u ty i\<rparr>"
    and t: "t = relock s (p_lock w) (set_index i (reserved_entry ?u now c life ty i) g1)"
    using cr(2) [OF tu tr] run by auto
  let ?e = "reserved_entry ?u now c life ty i"
  note sp = choose_page_spec [OF _ _ ch tu, simplified, OF inv rc]
  note eo = reserved_entry_ok [OF _ _ ch tu, simplified, OF inv rc ex c]
  have g1: "g1 = ?u \<or> g1 = update_global_expire (expire_at (index_at g i)) ?u" using sp tu by (cases ty) auto
  have i: "i < max_pages g" "i < length (elements (table_index g))" using sp inv by (auto simp: index_inv_def)
  show "ip_page ip < max_pages g" "ip_page_name ip = data_page_name (table_name g) (ip_page ip)" using i ip by simp_all
  show "\<exists>g1. choose_page os now c ?u = ((ip_type ip, ip_page ip), g1)" "ip_type ip \<noteq> UNKNOWN" using ch tu ip by simp_all
  have i1: "i < length (elements (table_index g1))" "index_at g1 = index_at g" using g1 i by auto
  have ix: "index_at t j = (if j = i then ?e else index_at g j)" for j using i1 by (simp add: t index_at_set_index)
  then show "0 < expire_at (index_at t (ip_page ip))" "j \<noteq> ip_page ip \<Longrightarrow> index_at t j = index_at g j" using eo ip by simp_all
  have cc: "table_name t = table_name g" "max_elements_in_page t = max_elements_in_page g" "elem_size t = elem_size g" "max_pages t = max_pages g"
    "lock t = p_lock w" "sems t = s" "opened_pages_list t = p_opened w" "data_shm t = data_shm g" "same_consts g t"
    using g1 by (auto simp: t same_consts_def)
  show "if ip_type ip = CURRENT then unat (ip_index ip) = used g (ip_page ip)
     else ip_index ip = 0 \<and> expire_at (index_at t (ip_page ip)) = expiry g now life"
    using ix by (simp add: ip used_def first_free_def reserved_entry_def)
  have "unat (first_free ?u ty i + c) = unat (first_free ?u ty i) + unat c"
    using eo unsigned_less [of "max_elements_in_page g", where ?'a = nat] by (simp add: unat_word_ariths)
  then show "used t (ip_page ip) = unat (ip_index ip) + unat c" using eo ix by (simp add: used_def ip cc)
  show "data_shm t = data_shm g" by (rule cc)
  have "\<forall>j < i. 0 < expire_at (index_at g j)" using sp tu used_before [OF inv] by (cases ty) auto
  moreover have "index_inv g1" "max_pages g1 = max_pages g" "entry_ok g1 = entry_ok ?u"
    using g1 inv by (auto simp: fun_eq_iff entry_ok_def own_name_def)
  ultimately have it: "index_inv t" unfolding t using i i1 eo by (simp add: index_inv_set_index)
  show gr: "grows g t" using se by (simp add: grows_def cc)
  have "s (data_page_name (table_name g) j) \<noteq> Some 0" if "j < max_pages g" for j
    using sem_ext_free [OF se] b that by (simp add: base_def)
  then show bt: "base psz t" using b it sem_ext_bounded [OF se] by (simp add: base_def cc)
  have "seen psz w t" by (rule seen_grows [OF sn gr]) (use bt in \<open>simp add: base_def cc\<close>)
  then show "seen psz (own_part t x) t"
    by (auto simp: seen_def data_inv_def synced_def lock_idle_def cc page_object_def)
qed

text \<open>While it is quiet, a page in use is only chosen when the records fit into it.\<close>

lemma quiet_recyclable: "quiet os now g \<Longrightarrow> 0 < max_pages g \<Longrightarrow> recyclable os g"
  by (simp add: quiet_def recyclable_def)

lemma quiet_current:
  assumes "index_inv g" "0 < max_pages g" "quiet os now g" "choose_page os now c g = ((ty, i), g1)" "ty \<noteq> UNKNOWN" "0 < expire_at (index_at g i)"
  shows "ty = CURRENT"
  using choose_page_spec [OF assms(1) quiet_recyclable [OF assms(3,2)] assms(4,5)] assms(3,5,6) by (cases ty) (auto simp: quiet_def)

subsection \<open>Maintenance\<close>

lemma maintenance_quiet:
  assumes "index_inv t" "quiet os now t"
  shows "release_maintenance os now t = (Inr (), t) \<or> release_maintenance os now t = (Inr (), set_check t)"
proof -
  obtain n k where f: "find_last_data now (global_expire_at t) (table_entries t) 0 0 = (n, k)" by fastforce
  note sp = find_last_data_spec [OF f]
  have len: "length (table_entries t) = max_pages t" by (rule length_table_entries [OF assms(1)])
  have "\<not> k < n - 1"
  proof
    assume k: "k < n - 1"
    then have j: "n - 1 < n" "n - 1 < max_pages t" using sp len by auto
    then have "0 < expire_at (index_at t (n - 1))" "\<not> maybe_in_use now (global_expire_at t) (index_at t (n - 1))"
      using sp k by (auto simp: table_entries_nth)
    then show False using assms(2) j by (auto simp: quiet_def)
  qed
  then show ?thesis using f by (simp add: release_maintenance_def set_check_def Let_def)
qed

lemma tidy_step:
  assumes sn: "seen psz w g" and b: "base psz g" and q: "quiet os now g" and run: "release_expired_memory_pages os now (as_seen w g) = (r, t)"
  shows "base psz t" "seen psz (own_part t x) t" "grows g t" "index_at t = index_at g" "page_elems t = page_elems g" "page_backed t = page_backed g"
proof -
  let ?u = "as_seen w g" and ?time = "now + MEMPAGE_CHECK_EXPIRED_PAGES_INTERVAL_SEC"
  let ?v = "?u\<lparr>time_to_check_page_expire := ?time\<rparr>"
  have idle: "lock_idle ?v" using sn by (auto simp: seen_def lock_idle_def)
  have inv: "index_inv g" using b by (simp add: base_def)
  have dn: "lock_neutral (modify drop_unlinked_pages)" by (rule lock_neutral_pure) (simp add: drop_unlinked_pages_def)
  have qv: "index_inv (held ?v)" "quiet os now (held ?v)"
    using inv q by (simp_all add: index_inv_def quiet_def index_at_def max_pages_def names_fit_def entry_ok_def own_name_def as_seen_def relock_def)
  obtain s where se: "sem_ext (sems g) s" and t: "t = ?u \<or> t = drop_unlinked_pages (relock s (p_lock w) (held ?v)) \<or>
      t = drop_unlinked_pages (relock s (p_lock w) (set_check (held ?v)))"
  proof (cases "time_to_check_page_expire ?u > now")
    case True
    then have "t = ?u" using run by (simp add: release_expired_memory_pages_def)
    then show thesis using that [of "sems g"] by simp
  next
    case False
    have run': "critical (release_maintenance os now) (\<lambda>_. modify drop_unlinked_pages) ?v = (r, t)"
      using False run by (simp add: release_expired_memory_pages_def critical_def)
    obtain s1 where se: "sem_ext (sems ?v) s1" and eq: "critical (release_maintenance os now) (\<lambda>_. modify drop_unlinked_pages) ?v =
      (case release_maintenance os now (held ?v) of
         (Inl e, t1) \<Rightarrow> (Inl e, relock s1 (lock ?v) t1) | (Inr x, t1) \<Rightarrow> modify drop_unlinked_pages (relock s1 (lock ?v) t1))"
      using critical_held [of "release_maintenance os now" "\<lambda>_. modify drop_unlinked_pages" ?v, OF release_maintenance_neutral dn idle] by blast
    show thesis by (rule that [of s1]) (use se run' maintenance_quiet [OF qv] in \<open>auto simp: eq\<close>)
  qed
  have cc: "table_name t = table_name g" "max_elements_in_page t = max_elements_in_page g" "elem_size t = elem_size g" "max_pages t = max_pages g"
    "lock t = p_lock w" "sems t = sems g \<or> sems t = s" "set (opened_pages_list t) \<subseteq> set (p_opened w)" "data_shm t = data_shm g" "same_consts g t"
    "elements (table_index t) = elements (table_index g)"
    using t by (auto simp: drop_unlinked_pages_def set_check_def relock_def max_pages_def same_consts_def)
  show ix: "index_at t = index_at g" by (simp add: index_at_def fun_eq_iff cc)
  show "page_elems t = page_elems g" by (simp add: page_elems_def fun_eq_iff cc cong: option.case_cong)
  then show "page_backed t = page_backed g" by (simp add: page_backed_def fun_eq_iff cc)
  have st: "sem_ext (sems g) (sems t)" using cc(6) se by auto
  show gr: "grows g t" using st cc by (simp add: grows_def)
  have "sems t (data_page_name (table_name g) j) \<noteq> Some 0" if "j < max_pages g" for j
    using sem_ext_free [OF st] b that by (simp add: base_def)
  moreover have "index_inv t" using inv cc ix by (simp add: index_inv_def names_fit_def entry_ok_def own_name_def)
  ultimately show bt: "base psz t" using b sem_ext_bounded [OF st] by (simp add: base_def cc)
  have "seen psz w t" by (rule seen_grows [OF sn gr]) (use bt in \<open>simp add: base_def cc\<close>)
  then show "seen psz (own_part t x) t" using cc(5,7)
    by (auto simp: seen_def data_inv_def synced_def lock_idle_def page_object_def)
qed

section \<open>The invariant of all processes\<close>

text \<open>An area of a page: the number of the page, the first element and the number of elements.\<close>

type_synonym area = "nat \<times> nat \<times> nat"

definition claimed :: "'e Table \<Rightarrow> area \<Rightarrow> bool" where
  "claimed g = (\<lambda>(i, s, n). i < max_pages g \<and> 0 < expire_at (index_at g i) \<and> s + n \<le> used g i)"

definition apart :: "area \<Rightarrow> area \<Rightarrow> bool" where
  "apart = (\<lambda>(i, s, n) (j, s', n'). i = j \<longrightarrow> s + n \<le> s' \<or> s' + n' \<le> s)"

definition spot :: "insert_position \<times> 'e list \<times> u32 \<Rightarrow> area" where
  "spot = (\<lambda>(ip, recs, c). (ip_page ip, unat (ip_index ip), unat c))"

definition area_of :: "nat \<times> nat \<times> 'e list \<Rightarrow> area" where
  "area_of = (\<lambda>(i, s, recs). (i, s, length recs))"

definition pending_ok :: "'e Table \<Rightarrow> insert_position \<times> 'e list \<times> u32 \<Rightarrow> bool" where
  "pending_ok g = (\<lambda>(ip, recs, c). claimed g (spot (ip, recs, c)) \<and> ip_page_name ip = data_page_name (table_name g) (ip_page ip) \<and> length recs = unat c)"

definition holds_records :: "'e Table \<Rightarrow> nat \<times> nat \<times> 'e list \<Rightarrow> bool" where
  "holds_records g = (\<lambda>(i, s, recs). claimed g (i, s, length recs) \<and> page_backed g i \<and> take (length recs) (drop s (page_elems g i)) = recs)"

abbreviation pending :: "'e world \<Rightarrow> nat \<Rightarrow> (insert_position \<times> 'e list \<times> u32) option" where
  "pending W p \<equiv> p_pending (procs W p)"

definition world_ok :: "nat \<Rightarrow> 'e world \<Rightarrow> bool" where
  "world_ok psz W \<longleftrightarrow> base psz (shared W) \<and> (\<forall>p. seen psz (procs W p) (shared W)) \<and>
     (\<forall>p x. pending W p = Some x \<longrightarrow> pending_ok (shared W) x) \<and>
     (\<forall>p q x y. p \<noteq> q \<longrightarrow> pending W p = Some x \<longrightarrow> pending W q = Some y \<longrightarrow> apart (spot x) (spot y)) \<and>
     (\<forall>f \<in> set (finished W). holds_records (shared W) f \<and> (\<forall>p x. pending W p = Some x \<longrightarrow> apart (spot x) (area_of f)))"

lemma world_okD:
  assumes "world_ok psz W"
  shows "base psz (shared W)" "seen psz (procs W p) (shared W)" "pending W p = Some x \<Longrightarrow> pending_ok (shared W) x"
    "p \<noteq> q \<Longrightarrow> pending W p = Some x \<Longrightarrow> pending W q = Some y \<Longrightarrow> apart (spot x) (spot y)"
    "f \<in> set (finished W) \<Longrightarrow> holds_records (shared W) f"
    "f \<in> set (finished W) \<Longrightarrow> pending W p = Some x \<Longrightarrow> apart (spot x) (area_of f)"
  using assms unfolding world_ok_def by blast+

lemma put_simps [simp]:
  "shared (put p t x W) = t" "procs (put p t x W) q = (if q = p then own_part t x else procs W q)" "finished (put p t x W) = finished W"
  by (simp_all add: put_def)

lemma put_seen:
  assumes "world_ok psz W" "base psz t" "seen psz (own_part t x) t" "grows (shared W) t"
  shows "seen psz (procs (put p t x W) q) t"
proof -
  have "shm_inv (page_size_of psz (shared W)) (unat (max_elements_in_page (shared W))) (data_shm t)"
    using assms(2,4) by (simp add: base_def grows_def same_consts_def)
  then show ?thesis using assms(3) seen_grows [OF world_okD(2) [OF assms(1)] assms(4)] by simp
qed

lemma apart_sym: "apart a b \<longleftrightarrow> apart b a"
  by (auto simp: apart_def)

lemma claimed_consts: "grows g t \<Longrightarrow> index_at t = index_at g \<Longrightarrow> claimed t = claimed g"
  by (auto simp: claimed_def used_def grows_def same_consts_def max_pages_def fun_eq_iff)

lemma grows_consts:
  "grows g t \<Longrightarrow> table_name t = table_name g \<and> max_elements_in_page t = max_elements_in_page g \<and> max_pages t = max_pages g"
  by (simp add: grows_def same_consts_def max_pages_def)

lemma keep_world:
  assumes W: "world_ok psz W" and t: "base psz t" "\<And>x. seen psz (own_part t x) t" "grows (shared W) t" "index_at t = index_at (shared W)"
    and el: "\<And>j. page_backed (shared W) j \<Longrightarrow> page_elems t j = page_elems (shared W) j \<and> page_backed t j"
  shows "world_ok psz (put p t (pending W p) W)"
  unfolding world_ok_def
proof (intro conjI allI impI ballI)
  note c = claimed_consts [OF t(3,4)] grows_consts [OF t(3)] and D = world_okD [OF W]
  show "base psz (shared (put p t (pending W p) W))" using t(1) by simp
  show "seen psz (procs (put p t (pending W p) W) q) (shared (put p t (pending W p) W))" for q using put_seen [OF W t(1,2,3)] by simp
  have pn: "pending (put p t (pending W p) W) q = pending W q" for q by simp
  show "pending_ok (shared (put p t (pending W p) W)) x" if "pending (put p t (pending W p) W) q = Some x" for q x
    using D(3) that unfolding pn by (auto simp: pending_ok_def c)
  show "apart (spot x) (spot y)" if "q \<noteq> q'" "pending (put p t (pending W p) W) q = Some x" "pending (put p t (pending W p) W) q' = Some y" for q q' x y
    using D(4) that unfolding pn by blast
  fix f assume f: "f \<in> set (finished (put p t (pending W p) W))"
  then show "holds_records (shared (put p t (pending W p) W)) f" using D(5) [of f] el by (auto simp: holds_records_def c)
  show "apart (spot x) (area_of f)" if "pending (put p t (pending W p) W) q = Some x" for q x using D(6) f that unfolding pn by simp
qed

lemma reserve_world:
  assumes W: "world_ok psz W" and run: "claim os now c life (view W p) = (Inr ip, t)" and q: "quiet os now (shared W)"
    and c: "c \<le> max_elements_in_page (shared W)" "length recs = unat c" and ex: "0 < expiry (shared W) now life" and idle: "pending W p = None"
  shows "world_ok psz (put p t (Some (ip, recs, c)) W)"
proof -
  let ?g = "shared W" and ?W = "put p t (Some (ip, recs, c)) W" and ?i = "ip_page ip" and ?new = "(ip, recs, c)"
  note D = world_okD [OF W]
  have inv: "index_inv ?g" "0 < max_pages ?g" using D(1) by (simp_all add: base_def)
  note st = claim_step [OF D(2) D(1) quiet_recyclable [OF q inv(2)] c(1) ex run]
  note k = grows_consts [OF st(3)]
  have cl: "claimed t a \<and> apart (spot ?new) a" if "claimed ?g a" for a
  proof -
    obtain i s n where a: "a = (i, s, n)" by (cases a)
    show ?thesis
    proof (cases "i = ?i")
      case True
      then have "0 < expire_at (index_at (view W p) ?i)" using that a by (simp add: claimed_def)
      then have "ip_type ip = CURRENT" using quiet_current [of "view W p"] inv q st(9,10) by auto
      then have "unat (ip_index ip) = used ?g ?i" using st(12) by simp
      then show ?thesis using that True st(7,8) k by (auto simp: a claimed_def apart_def spot_def)
    next
      case False
      then show ?thesis using that st(11) [of i] k by (auto simp: a claimed_def apart_def spot_def used_def)
    qed
  qed
  have pe: "page_elems t = page_elems ?g" "page_backed t = page_backed ?g"
    using st(4) k by (simp_all add: fun_eq_iff page_elems_def page_backed_def cong: option.case_cong)
  have new: "pending_ok t ?new" using st(5-8) k c(2) by (simp add: pending_ok_def claimed_def spot_def)
  have old: "pending_ok t x" "apart (spot ?new) (spot x)" "apart (spot x) (spot ?new)" if "pending W q = Some x" for q x
    using D(3) [OF that] cl [of "spot x"] k by (auto simp: pending_ok_def apart_sym)
  have fin: "holds_records t f" "apart (spot ?new) (area_of f)" if "f \<in> set (finished W)" for f
    using D(5) [OF that] cl [of "area_of f"] pe by (auto simp: holds_records_def area_of_def)
  show ?thesis
    unfolding world_ok_def
  proof (intro conjI allI impI ballI)
    show "base psz (shared ?W)" using st(1) by simp
    show "seen psz (procs ?W q) (shared ?W)" for q using put_seen [OF W st(1,2,3)] by simp
    show "pending_ok (shared ?W) x" if "pending ?W q = Some x" for q x using that new old by (auto split: if_splits)
    show "apart (spot x) (spot y)" if "q \<noteq> q'" "pending ?W q = Some x" "pending ?W q' = Some y" for q q' x y
      using that old D(4) by (auto split: if_splits)
    fix f assume f: "f \<in> set (finished ?W)"
    then show "holds_records (shared ?W) f" using fin by simp
    show "apart (spot x) (area_of f)" if "pending ?W q = Some x" for q x using that f fin D(6) by (auto split: if_splits)
  qed
qed

lemma memcpy_apart:
  assumes "k + length recs \<le> s \<or> s + n \<le> k" "k + length recs \<le> length xs"
  shows "take n (drop s (memcpy_at k recs xs)) = take n (drop s xs)"
  using assms by (auto simp: memcpy_at_def intro!: nth_equalityI simp: nth_append)

lemma copy_world:
  assumes W: "world_ok psz W" and run: "store_records os recs c ip (view W p) = (Inr ee, t)" and pd: "pending W p = Some (ip, recs, c)"
    and ok: "all_ok os" "sc_page_size os = psz"
  shows "world_ok psz ((put p t None W)\<lparr>finished := finished W @ [(ip_page ip, unat (ip_index ip), recs)]\<rparr>)"
proof -
  let ?g = "shared W" and ?i = "ip_page ip" and ?k = "unat (ip_index ip)"
  let ?W = "(put p t None W)\<lparr>finished := finished W @ [(?i, ?k, recs)]\<rparr>"
  note D = world_okD [OF W]
  have po: "pending_ok ?g (ip, recs, c)" by (rule D(3) [OF pd])
  then have cl: "claimed ?g (?i, ?k, length recs)" and i: "?i < max_pages ?g" "ip_page_name ip = data_page_name (table_name ?g) ?i"
    and len: "length recs = unat c"
    by (auto simp: pending_ok_def spot_def claimed_def)
  have "used ?g ?i \<le> unat (max_elements_in_page ?g)"
    using used_le [of ?g ?i] cl D(1) by (simp add: base_def claimed_def)
  then have fit: "?k + unat c \<le> unat (max_elements_in_page ?g)" using cl len by (simp add: claimed_def)
  note st = copy_step [OF D(2) D(1) ok i fit len run]
  have ix: "index_at t = index_at ?g" using st(4) by (simp add: index_at_def fun_eq_iff)
  note c = claimed_consts [OF st(3) ix] grows_consts [OF st(3)]
  obtain els where els: "page_elems t ?i = memcpy_at ?k recs els" "unat (max_elements_in_page ?g) \<le> length els" "page_backed ?g ?i \<longrightarrow> els = page_elems ?g ?i"
    using st(6) by blast
  have new: "holds_records t (?i, ?k, recs)"
    using cl st(5) els(1,2) fit len take_drop_memcpy_at [of ?k recs els] by (simp add: holds_records_def c)
  have old: "holds_records t f" if f: "f \<in> set (finished W)" for f
  proof -
    obtain j s xs where e: "f = (j, s, xs)" by (cases f)
    have h: "claimed ?g (j, s, length xs)" "page_backed ?g j" "take (length xs) (drop s (page_elems ?g j)) = xs"
      using D(5) [OF f] by (simp_all add: e holds_records_def)
    show ?thesis
    proof (cases "j = ?i")
      case False
      then show ?thesis using h st(7) [of j] by (simp add: e holds_records_def c)
    next
      case True
      have "?k + length recs \<le> s \<or> s + length xs \<le> ?k" using D(6) [OF f pd] True by (simp add: e apart_def spot_def area_of_def len)
      then have "take (length xs) (drop s (page_elems t j)) = take (length xs) (drop s els)"
        unfolding True els(1) using els(2) fit len by (intro memcpy_apart) auto
      then show ?thesis using h True els(3) st(5) by (simp add: e holds_records_def c)
    qed
  qed
  show ?thesis
    unfolding world_ok_def
  proof (intro conjI allI impI ballI)
    show "base psz (shared ?W)" using st(1) by simp
    show "seen psz (procs ?W q) (shared ?W)" for q using put_seen [OF W st(1,2,3)] by simp
    show "pending_ok (shared ?W) x" if "pending ?W q = Some x" for q x using that D(3) [of q x] c by (auto simp: pending_ok_def split: if_splits)
    show "apart (spot x) (spot y)" if "q \<noteq> q'" "pending ?W q = Some x" "pending ?W q' = Some y" for q q' x y
      using that D(4) by (auto split: if_splits)
    fix f assume f: "f \<in> set (finished ?W)"
    then show "holds_records (shared ?W) f" using new old [of f] by auto
    show "apart (spot x) (area_of f)" if "pending ?W q = Some x" for q x
    proof (cases "f \<in> set (finished W)")
      case True
      then show ?thesis using that D(6) by (auto split: if_splits)
    next
      case False
      then have "area_of f = spot (ip, recs, c)" using f len by (auto simp: area_of_def spot_def)
      then show ?thesis using that D(4) [OF _ _ pd] by (auto split: if_splits)
    qed
  qed
qed

lemma step_world: "proc_step psz W W' \<Longrightarrow> world_ok psz W \<Longrightarrow> world_ok psz W'"
proof (induction rule: proc_step.induct)
  case (tidy os now W p r t)
  note D = world_okD [OF tidy(3)] and st = tidy_step [OF D(2) D(1) tidy(2,1)]
  show ?case by (rule keep_world [OF tidy(3) st(1,2,3,4)]) (simp add: st)
next
  case (reserve os now c life W p ip t recs)
  then show ?case using reserve_world by blast
next
  case (copy os recs c ip W p ee t)
  then show ?case using copy_world by blast
next
  case (look os W i p page t)
  note D = world_okD [OF look(5)] and st = open_step [OF D(2) D(1) look(3,4,2,1)]
  have "index_at t = index_at (shared W)" using st(5) by (simp add: index_at_def fun_eq_iff)
  then show ?case using keep_world [OF look(5) st(1,2,3)] st(6) by blast
qed

section \<open>Insertions of several processes\<close>

text \<open>Processes that have just opened a table.\<close>

definition start :: "'e Table \<Rightarrow> 'e world" where
  "start t = \<lparr>shared = t, procs = (\<lambda>_. \<lparr>p_opened = [], p_check = 0, p_lock = \<lparr>cs_name = table_name t, unlock_needed = False\<rparr>, p_pending = None\<rparr>),
              finished = []\<rparr>"

lemma start_ok:
  assumes "table_ok psz t" "serviceable os t" "sc_page_size os = psz" "lock_named t" "0 < max_pages t"
  shows "world_ok psz (start t)"
proof -
  have "base psz t" using assms by (simp add: base_def table_ok_def serviceable_def data_inv_def)
  moreover have "sems t (table_name t) = Some 1" "sem_bounded (sems t)" using assms(1,4) by (auto simp: table_ok_def lock_idle_def lock_named_def)
  moreover have "data_inv psz t" using assms(1) by (simp add: table_ok_def)
  ultimately show ?thesis by (simp add: world_ok_def start_def seen_def data_inv_def synced_def lock_idle_def)
qed

lemma store_same_rest:
  assumes "data_inv (sc_page_size os) t" "store_records os recs c ip t = (Inr ee, t')"
  shows "same_rest t t'"
proof -
  obtain page t1 where g: "getPageByName os (ip_page_name ip) t = (Inr page, t1)"
    and s: "(let ob = page_object t1 page in
        if unat (ip_index ip) + unat c \<le> length (elements ob) \<and> unat c \<le> length recs
        then (Inr \<lparr>ee_page_name = ip_page_name ip, ee_index = ip_index ip, ee_size = c\<rparr>,
              set_page_object page (ob\<lparr>elements := memcpy_at (unat (ip_index ip)) (take (unat c) recs) (elements ob)\<rparr>) t1)
        else (Inl segv, t1)) = (Inr ee, t')"
    using assms(2) by (rule store_records_run)
  have "same_rest t t1" using getPageByName_spec [OF assms(1) g] by simp
  moreover have "same_rest t1 t'" using s set_page_object_rest(1) by (auto simp: Let_def split: if_splits)
  ultimately show ?thesis by (rule same_rest_trans)
qed

lemma run_world: "(proc_step psz)\<^sup>*\<^sup>* W W' \<Longrightarrow> world_ok psz W \<Longrightarrow> world_ok psz W' \<and> table_name (shared W') = table_name (shared W)"
proof (induction rule: rtranclp_induct)
  case (step W1 W2)
  then have w: "world_ok psz W1" "world_ok psz W2" using step_world by blast+
  note D = world_okD(2,1) [OF w(1)]
  have mp: "0 < max_pages (shared W1)" using D(2) by (simp add: base_def)
  have "table_name (shared W2) = table_name (shared W1)" using step(2)
  proof (cases rule: proc_step.cases)
    case (tidy os now p r t)
    then show ?thesis using grows_consts [OF tidy_step(3) [OF D tidy(3,2)]] by simp
  next
    case (reserve os now c life p ip t recs)
    then show ?thesis using grows_consts [OF claim_step(3) [OF D quiet_recyclable [OF reserve(4) mp] reserve(5,7,2)]] by simp
  next
    case (copy os recs c ip p ee t)
    have "data_inv (sc_page_size os) (view W1 p)" using world_okD(2) [OF w(1)] copy(5) by (simp add: seen_def)
    from store_same_rest [OF this copy(2)] show ?thesis using copy(1) by (simp add: same_rest_def same_consts_def)
  next
    case (look os i p page t)
    then show ?thesis using grows_consts [OF open_step(3) [OF D look(4,5,3,2)]] by simp
  qed
  then show ?case using step w by simp
qed simp

lemma read_page:
  assumes sn: "seen psz w g" and b: "base psz g" and bk: "page_backed g i" and i: "i < max_pages g" and ok: "all_ok os" "sc_page_size os = psz"
  shows "\<exists>t'. get_element_data os \<lparr>ee_page_name = data_page_name (table_name g) i, ee_index = k, ee_size = c\<rparr> (as_seen w g)
    = (Inr (drop (unat k) (page_elems g i)), t')"
proof -
  have d: "data_inv (sc_page_size os) (as_seen w g)" "names_fit (as_seen w g)" using sn b ok(2) by (auto simp: seen_def base_def index_inv_def)
  obtain page t where g: "getPageByName os (data_page_name (table_name g) i) (as_seen w g) = (Inr page, t)"
    using getPage_serviceable [OF _ d, of i] base_serviceable [OF b ok] i by auto
  note o = open_step [OF sn b ok i g]
  have "table_name t = table_name g" using grows_consts [OF o(3)] by simp
  then have "elements (page_object t page) = page_elems g i" using o(6) [OF bk] o(8) by (simp add: page_elems_def page_object_def)
  then show ?thesis using g by (simp add: get_element_data_def sbind_def)
qed

lemma read_finished:
  assumes W: "world_ok psz W" and f: "(i, s, recs) \<in> set (finished W)" and ok: "all_ok os" "sc_page_size os = psz"
  shows "\<exists>rest t'. get_element_data os \<lparr>ee_page_name = data_page_name (table_name (shared W)) i, ee_index = word_of_nat s, ee_size = c\<rparr> (view W q)
    = (Inr (recs @ rest), t')"
proof -
  let ?g = "shared W"
  note D = world_okD [OF W]
  have h: "i < max_pages ?g" "s + length recs \<le> used ?g i" "page_backed ?g i" "take (length recs) (drop s (page_elems ?g i)) = recs"
    using D(5) [OF f] by (auto simp: holds_records_def claimed_def)
  have "s < 2 ^ 32" using h(2) unsigned_less [of "max_elements_in_page ?g - page_elements_available (index_at ?g i)", where ?'a = nat]
    by (simp add: used_def)
  then have "unat (word_of_nat s :: u32) = s" by (rule unat_u32_of_nat)
  moreover have "drop s (page_elems ?g i) = recs @ drop (length recs) (drop s (page_elems ?g i))" using h(4) by (metis append_take_drop_id)
  ultimately show ?thesis using read_page [OF D(2) D(1) h(3,1) ok, where k = "word_of_nat s" and c = c] by metis
qed

lemma copy_possible:
  assumes W: "world_ok psz W" and pd: "pending W p = Some (ip, recs, c)" and ok: "all_ok os" "sc_page_size os = psz"
  shows "\<exists>ee t. store_records os recs c ip (view W p) = (Inr ee, t)"
proof -
  note D = world_okD [OF W]
  have po: "claimed (shared W) (ip_page ip, unat (ip_index ip), unat c)" "ip_page_name ip = data_page_name (table_name (shared W)) (ip_page ip)" "length recs = unat c"
    using D(3) [OF pd] by (auto simp: pending_ok_def spot_def)
  have "used (shared W) (ip_page ip) \<le> unat (max_elements_in_page (shared W))"
    using used_le [of "shared W" "ip_page ip"] po(1) D(1) by (simp add: base_def claimed_def)
  then show ?thesis
    using store_records_total [of os "view W p" "ip_page ip" ip c recs] base_serviceable [OF D(1) ok] D(1,2) ok po
    by (auto simp: seen_def base_def index_inv_def claimed_def)
qed

text \<open>
  C23. Any number of processes that insert into a table at the same time do not disturb each other:
  in every interleaving of their steps, as long as no page expires and memory is not low, a process that has
  reserved its elements can store its records, different reservations do not overlap, and every
  process reads the records of every finished insertion at their position.
\<close>

theorem concurrent_insertions:
  assumes "table_ok psz t" "serviceable os0 t" "sc_page_size os0 = psz" "lock_named t" "0 < max_pages t"
    and "(proc_step psz)\<^sup>*\<^sup>* (start t) W" "all_ok os" "sc_page_size os = psz"
  shows "(\<forall>(i, s, recs) \<in> set (finished W). \<forall>q. \<exists>rest t'.
      get_element_data os \<lparr>ee_page_name = data_page_name (table_name t) i, ee_index = word_of_nat s, ee_size = word_of_nat (length recs)\<rparr> (view W q)
        = (Inr (recs @ rest), t')) \<and>
    (\<forall>p ip recs c. pending W p = Some (ip, recs, c) \<longrightarrow> (\<exists>ee t'. store_records os recs c ip (view W p) = (Inr ee, t'))) \<and>
    (\<forall>p q x y. p \<noteq> q \<longrightarrow> pending W p = Some x \<longrightarrow> pending W q = Some y \<longrightarrow> apart (spot x) (spot y))"
proof (intro conjI)
  have W: "world_ok psz W" and tn: "table_name (shared W) = table_name t"
    using run_world [OF assms(6) start_ok [OF assms(1-5)]] by (auto simp: start_def)
  show "\<forall>(i, s, recs) \<in> set (finished W). \<forall>q. \<exists>rest t'.
      get_element_data os \<lparr>ee_page_name = data_page_name (table_name t) i, ee_index = word_of_nat s, ee_size = word_of_nat (length recs)\<rparr> (view W q)
        = (Inr (recs @ rest), t')"
    using read_finished [OF W _ assms(7,8), unfolded tn] by blast
  show "\<forall>p ip recs c. pending W p = Some (ip, recs, c) \<longrightarrow> (\<exists>ee t'. store_records os recs c ip (view W p) = (Inr ee, t'))"
    using copy_possible [OF W _ assms(7,8)] by blast
  show "\<forall>p q x y. p \<noteq> q \<longrightarrow> pending W p = Some x \<longrightarrow> pending W q = Some y \<longrightarrow> apart (spot x) (spot y)"
    using world_okD(4) [OF W] by blast
qed

text \<open>Two processes reserve one element each in the sample table, and copy in the other order.\<close>

lemma sample_choice: "choose_page healthy_os 100 1 (as_seen w sample_table) = ((NEW, 0), as_seen w sample_table)"
  "i < 2 \<Longrightarrow> index_at sample_table i = index_zero" "max_pages sample_table = 2"
proof -
  have c: "elem_capacity INDEX_ELEMENT_SIZE 4096 = 146" by (simp add: elem_capacity_def INDEX_ELEMENT_SIZE_def PAGE_INFORMATION_SIZE_def)
  show mp: "max_pages sample_table = 2" using sample_table_ok by blast
  show "index_at sample_table i = index_zero" if "i < 2"
    using that by (simp add: index_at_def sample_table_def zero_object_def c)
  have "table_entries (as_seen w sample_table) = [index_zero, index_zero]"
    by (simp add: table_entries_def mp) (simp add: sample_table_def zero_object_def c numeral_2_eq_2 replicate_app_Cons_same flip: replicate_append_same)
  then show "choose_page healthy_os 100 1 (as_seen w sample_table) = ((NEW, 0), as_seen w sample_table)"
    using healthy_mem by (simp add: choose_page_def index_zero_def)
qed

lemma sample_start: "world_ok 4096 (start sample_table)"
  by (rule start_ok [of _ _ healthy_os]) (use sample_ready sample_choice(3) in \<open>simp_all add: healthy_os_def\<close>)

lemma sample_all_ok: "all_ok healthy_os" "sc_page_size healthy_os = 4096"
  using healthy_mem(1) by (simp_all add: all_ok_def) (simp_all add: healthy_os_def)

lemma first_claim:
  obtains t s where "claim healthy_os 100 1 0 (view (start sample_table) 0)
      = (Inr \<lparr>ip_type = NEW, ip_page = 0, ip_page_name = data_page_name ''T'' 0, ip_index = 0\<rparr>, t)"
    "global_expire_at t = 0" "index_at t 0 = \<lparr>expire_at = 160, page_elements_available = 1, ix_page_name = own_name sample_table 0\<rparr>"
    "index_at t 1 = index_zero" "max_elements_in_page t = 2" "max_pages t = 2"
proof -
  let ?u = "view (start sample_table) 0"
  note D = world_okD [OF sample_start]
  have u: "lock_idle ?u" "index_inv sample_table" "recyclable healthy_os sample_table"
    using D(1,2) sample_ready(4) by (auto simp: seen_def base_def start_def)
  have sh: "shared (start sample_table) = sample_table" by (simp add: start_def)
  have tn: "table_name sample_table = ''T''" "global_expire_at sample_table = 0" "(0::nat) < length (elements (table_index sample_table))"
    using u(2) sample_choice(3) by (auto simp: sample_table_def index_inv_def)
  have ff: "first_free ?u NEW 0 = 0" "reserved_entry ?u 100 1 0 NEW 0 = \<lparr>expire_at = 160, page_elements_available = 1, ix_page_name = own_name sample_table 0\<rparr>"
    using sample_ready(8,9) by (simp_all add: first_free_def reserved_entry_def sh own_name_def)
  have ch: "choose_page healthy_os 100 1 ?u = ((NEW, 0), ?u)" using sample_choice(1) by (simp add: sh)
  obtain s where "claim healthy_os 100 1 0 ?u = (Inr \<lparr>ip_type = NEW, ip_page = 0, ip_page_name = data_page_name ''T'' 0, ip_index = 0\<rparr>,
       relock s (p_lock (procs (start sample_table) 0)) (set_index 0 (reserved_entry ?u 100 1 0 NEW 0) ?u))"
    using claim_run(2) [OF u(1) _ _ ch, of 0] u(2,3) by (auto simp: low_test_blocks [OF mem_blocks(1) [OF healthy_mem(1)]] sh tn ff [unfolded sh])
  from that [OF this] show thesis
    using tn sample_ready(9) sample_choice(2) [of 1] sample_choice(3) by (simp add: ff [unfolded sh] sh index_at_set_index)
qed

theorem concurrent_insertions_witness:
  "\<exists>W i s. (proc_step 4096)\<^sup>*\<^sup>* (start sample_table) W \<and> finished W = [(i, s, [8]), (0, 0, [7])] \<and>
    (\<forall>q. \<exists>rest t'. get_element_data healthy_os \<lparr>ee_page_name = data_page_name (table_name sample_table) 0, ee_index = 0, ee_size = 1\<rparr> (view W q)
      = (Inr (7 # rest), t'))"
proof -
  let ?W0 = "start sample_table" and ?ip0 = "\<lparr>ip_type = NEW, ip_page = 0, ip_page_name = data_page_name ''T'' 0, ip_index = 0\<rparr>"
  have sh: "shared ?W0 = sample_table" "\<And>p. pending ?W0 p = None" "finished ?W0 = []" by (simp_all add: start_def)
  have q0: "quiet healthy_os 100 sample_table" using healthy_mem sample_choice(2,3) by (simp add: quiet_def index_zero_def)
  obtain t0 where c0: "claim healthy_os 100 1 0 (view ?W0 0) = (Inr ?ip0, t0)" and g0: "global_expire_at t0 = 0"
    and i0: "index_at t0 0 = \<lparr>expire_at = 160, page_elements_available = 1, ix_page_name = own_name sample_table 0\<rparr>" "index_at t0 1 = index_zero"
    and m0: "max_elements_in_page t0 = 2" "max_pages t0 = 2"
    by (rule first_claim) (rule that)
  define W1 where "W1 = put 0 t0 (Some (?ip0, [7], 1)) ?W0"
  have s1: "proc_step 4096 ?W0 W1"
    unfolding W1_def by (rule proc_step.reserve [OF c0]) (use sh q0 sample_ready(7,9) in simp_all)
  have w1: "world_ok 4096 W1" using step_world [OF s1 sample_start] .
  have sh1: "shared W1 = t0" "pending W1 1 = None" "pending W1 0 = Some (?ip0, [7], 1)" "finished W1 = []" by (simp_all add: W1_def sh)
  have q1: "quiet healthy_os 100 t0"
    using healthy_mem i0 by (auto simp: quiet_def m0 g0 less_2_cases_iff index_zero_def maybe_in_use_def MEMPAGE_REMOVE_EXPIRED_PAGES_DELAY_SEC_def)
  note D1 = world_okD [OF w1]
  have "grows sample_table t0"
    using claim_step(3) [OF world_okD(2,1) [OF sample_start] _ _ _ c0] sample_ready(4,7,9) by (simp add: sh)
  then have e1: "0 < expiry t0 100 0" using sample_ready(7) by (simp add: expiry_def grows_def same_consts_def)
  obtain ty i g1 where ch: "choose_page healthy_os 100 1 (view W1 1) = ((ty, i), g1)" by (metis prod.exhaust)
  have inv1: "index_inv t0" using D1(1) by (simp add: sh1 base_def)
  have "has_room 100 1 (view W1 1)" using i0(2) m0(2) by (auto simp: has_room_def sh1 index_zero_def intro!: exI [of _ 1])
  then have "ty \<noteq> UNKNOWN" using choose_page_known [OF _ _ ch] inv1 sh1 by simp
  then obtain ip1 t1 where c1: "claim healthy_os 100 1 0 (view W1 1) = (Inr ip1, t1)"
    using claim_run(2) [OF _ _ _ ch, of 0] D1(2) [of 1] inv1 sh1 quiet_recyclable [OF q1] m0 by (auto simp: low_test_blocks [OF mem_blocks(1) [OF healthy_mem(1)]] seen_def)
  define W2 where "W2 = put 1 t1 (Some (ip1, [8], 1)) W1"
  have s2: "proc_step 4096 W1 W2"
    unfolding W2_def by (rule proc_step.reserve [OF c1]) (use sh1 q1 e1 m0 in simp_all)
  have w2: "world_ok 4096 W2" using step_world [OF s2 w1] .
  have p2: "pending W2 1 = Some (ip1, [8], 1)" "pending W2 0 = Some (?ip0, [7], 1)" "finished W2 = []" by (simp_all add: W2_def sh1)
  obtain ee1 t2 where k1: "store_records healthy_os [8] 1 ip1 (view W2 1) = (Inr ee1, t2)"
    using copy_possible [OF w2 p2(1) sample_all_ok] by blast
  define W3 where "W3 = (put 1 t2 None W2)\<lparr>finished := finished W2 @ [(ip_page ip1, unat (ip_index ip1), [8])]\<rparr>"
  have s3: "proc_step 4096 W2 W3" unfolding W3_def by (rule proc_step.copy [OF k1 p2(1) sample_all_ok])
  have w3: "world_ok 4096 W3" using step_world [OF s3 w2] .
  have p3: "pending W3 0 = Some (?ip0, [7], 1)" by (simp add: W3_def p2)
  obtain ee0 t3 where k0: "store_records healthy_os [7] 1 ?ip0 (view W3 0) = (Inr ee0, t3)"
    using copy_possible [OF w3 p3 sample_all_ok] by blast
  define W4 where "W4 = (put 0 t3 None W3)\<lparr>finished := finished W3 @ [(ip_page ?ip0, unat (ip_index ?ip0), [7])]\<rparr>"
  have s4: "proc_step 4096 W3 W4" unfolding W4_def by (rule proc_step.copy [OF k0 p3 sample_all_ok])
  have run: "(proc_step 4096)\<^sup>*\<^sup>* ?W0 W4" using s1 s2 s3 s4 by (meson rtranclp.rtrancl_into_rtrancl rtranclp.rtrancl_refl)
  have f: "finished W4 = [(ip_page ip1, unat (ip_index ip1), [8]), (0, 0, [7])]" by (simp add: W4_def W3_def p2)
  have sm: "table_ok 4096 sample_table" "serviceable healthy_os sample_table" "lock_named sample_table" "0 < max_pages sample_table"
    using sample_ready sample_all_ok(2) sample_choice(3) by simp_all
  from concurrent_insertions [OF sm(1,2) sample_all_ok(2) sm(3,4) run sample_all_ok] f
  show ?thesis using run by (intro exI [of _ W4]) auto
qed

section \<open>Where the processes do disturb each other\<close>

text \<open>
  Between the two parts of an insertion a scan by another process visits the reserved elements
  although nothing has been written: zeros, when the page is new.
\<close>

lemma open_new:
  assumes "seen psz w g" "base psz g" "all_ok os" "sc_page_size os = psz" "names (data_shm g) name = None"
    "getPageByName os name (as_seen w g) = (Inr page, t)"
  shows "set (elements (page_object t page)) \<subseteq> {elem_zero g}"
proof -
  let ?b = "page_size_of (sc_page_size os) g"
  have "localGetPageByName (p_opened w) name = None"
    using assms(1,5) by (auto simp: seen_def synced_def localGetPageByName_None)
  then obtain d s where "SharedMemoryPage_new os (elem_size g) (elem_zero g) name (max_elements_in_page g) (data_shm g, sems g) = (Inr page, (d, s))"
    and d: "data_shm t = d"
    using assms(6) by (auto simp: getPageByName_def split: sum.splits prod.splits)
  then have "sbind (page_create_or_open os (elem_size g) (elem_zero g) name ?b) (page_map os name ?b) (data_shm g) = (Inr page, d)"
    using with_cslock_body [of os name _ "data_shm g" "sems g" "Inr page" d s] by (auto simp: SharedMemoryPage_new_def Let_def split: if_splits)
  then have "objects d ! mapping page = zero_object (elem_size g) (elem_zero g) (unat ?b)"
    using assms(3,5) by (auto simp: page_create_or_open_def page_map_def sbind_def all_ok_def Let_def split: if_splits)
  then show ?thesis by (auto simp: page_object_def d zero_object_def)
qed

theorem unwritten_records_scanned:
  assumes W: "world_ok psz W" and run: "claim os now c life (view W p) = (Inr ip, t)" and q: "quiet os now (shared W)"
    and c: "c \<le> max_elements_in_page (shared W)" "length recs = unat c" and ex: "0 < expiry (shared W) now life" and idle: "pending W p = None"
    and new: "names (data_shm (shared W)) (ip_page_name ip) = None" and ok: "all_ok os'" "sc_page_size os' = psz"
  shows "unat c \<le> used t (ip_page ip)"
    "\<exists>t'. scan_page os' f (ip_page ip) acc (view (put p t (Some (ip, recs, c)) W) r)
      = (Inr (foldl f acc (replicate (used t (ip_page ip)) (elem_zero (shared W)))), t')"
proof -
  let ?g = "shared W" and ?W = "put p t (Some (ip, recs, c)) W" and ?i = "ip_page ip"
  note D = world_okD [OF W]
  have "recyclable os ?g" using q D(1) by (simp add: quiet_recyclable base_def)
  note st = claim_step [OF D(2) D(1) this c(1) ex run]
  note W' = world_okD [OF reserve_world [OF W run q c ex idle]]
  have k: "table_name t = table_name ?g" "max_pages t = max_pages ?g" "max_elements_in_page t = max_elements_in_page ?g"
    using grows_consts [OF st(3)] by simp_all
  show "unat c \<le> used t ?i" using st(8) by simp
  have ti: "base psz t" "index_inv t" using st(1) by (simp_all add: base_def)
  have nm: "cstr (ix_page_name (index_at t ?i)) = data_page_name (table_name t) ?i"
    using ti(2) st(5,7) k by (auto simp: index_inv_def entry_ok_def cstr_own_name)
  have sn: "seen psz (procs ?W r) t" using W'(2) by simp
  have d: "data_inv (sc_page_size os') (as_seen (procs ?W r) t)" "names_fit (as_seen (procs ?W r) t)"
    using sn ti ok(2) by (auto simp: seen_def index_inv_def)
  have i: "?i < max_pages t" using st(5) k by simp
  obtain page t1 where g: "getPageByName os' (data_page_name (table_name t) ?i) (as_seen (procs ?W r) t) = (Inr page, t1)"
    using getPage_serviceable [OF _ d, of ?i] base_serviceable [OF ti(1) ok] i by auto
  have z: "set (elements (page_object t1 page)) \<subseteq> {elem_zero t}"
    by (rule open_new [OF sn ti(1) ok _ g]) (use new st(4,6) k in simp)
  note o = open_step [OF sn ti(1) ok i g]
  have rest: "index_at t1 = index_at t" "max_elements_in_page t1 = max_elements_in_page t"
    using o(4,5) by (simp_all add: index_at_def fun_eq_iff same_rest_def same_consts_def)
  have "used t ?i \<le> unat (max_elements_in_page t)" using used_le [OF ti(2) i] st(7) by simp
  then have le: "used t ?i \<le> length (elements (page_object t1 page))" using o(7) rest by (simp add: page_usable_def)
  have "set (take (used t ?i) (elements (page_object t1 page))) \<subseteq> {elem_zero t}" using z set_take_subset by (metis order_trans)
  then have "take (used t ?i) (elements (page_object t1 page)) = replicate (used t ?i) (elem_zero t)"
    using le by (metis length_take min.absorb2 replicate_eqI singletonD subsetD)
  moreover have "elem_zero t = elem_zero ?g" using st(3) by (simp add: grows_def same_consts_def)
  ultimately show "\<exists>t'. scan_page os' f ?i acc (view ?W r) = (Inr (foldl f acc (replicate (used t ?i) (elem_zero ?g))), t')"
    using g le rest by (simp add: scan_page_def sbind_def nm Let_def used_def)
qed

text \<open>
  When memory is low the page that expires first is emptied and taken, also when another process
  still holds a reservation in it: both processes then write to the same elements.  Here the
  first process has reserved an element for 7 and is slow; the second one takes the page, stores 8
  and 9, and finds 7 and 9 there in the end.
\<close>

lemma oldest_taken:
  assumes "index_inv t" "index_at t 0 = \<lparr>expire_at = 160, page_elements_available = 1, ix_page_name = nm\<rparr>" "index_at t 1 = index_zero" "max_pages t = 2"
  shows "choose_page low_memory_os 101 2 t = ((OLDEST, 0), update_global_expire 160 t)"
proof -
  have l: "length (table_entries t) = 2" using length_table_entries [OF assms(1)] assms(4) by simp
  have "table_entries t = [index_at t 0, index_at t 1]"
    by (rule nth_equalityI) (use l assms(4) in \<open>auto simp: table_entries_nth less_2_cases_iff\<close>)
  then have e: "table_entries t = [\<lparr>expire_at = 160, page_elements_available = 1, ix_page_name = nm\<rparr>, index_zero]" using assms(2,3) by simp
  have "\<not> (- 1 :: u32) \<le> 160" by (simp add: word_le_nat_alt unsigned_minus_1_eq_mask mask_eq_exp_minus_1)
  then show ?thesis using healthy_mem assms(2) by (simp add: choose_page_def e index_zero_def not_le)
qed

theorem recycled_under_writer:
  "\<exists>ip0 t0 ip1 t1 ee1 t2 ee0 t3 xs t4. let opener = procs (start sample_table) 0 in
     claim healthy_os 100 1 0 (as_seen opener sample_table) = (Inr ip0, t0) \<and>
     claim low_memory_os 101 2 0 (as_seen opener t0) = (Inr ip1, t1) \<and>
     store_records low_memory_os [8, 9] 2 ip1 t1 = (Inr ee1, t2) \<and>
     store_records healthy_os [7] 1 ip0 (as_seen (own_part t0 None) t2) = (Inr ee0, t3) \<and>
     get_element_data healthy_os ee1 (as_seen (own_part t2 None) t3) = (Inr xs, t4) \<and> take 2 xs = [7, 9]"
proof -
  let ?W0 = "start sample_table" and ?ip0 = "\<lparr>ip_type = NEW, ip_page = 0, ip_page_name = data_page_name ''T'' 0, ip_index = 0 :: u32\<rparr>"
  let ?w = "procs ?W0 0"
  have sh: "shared ?W0 = sample_table" by (simp add: start_def)
  have low: "all_ok low_memory_os" "sc_page_size low_memory_os = 4096"
    using healthy_mem(3) sample_all_ok by (simp_all add: all_ok_def low_memory_os_def)
  obtain t0 where c0: "claim healthy_os 100 1 0 (as_seen ?w sample_table) = (Inr ?ip0, t0)"
    and i0: "index_at t0 0 = \<lparr>expire_at = 160, page_elements_available = 1, ix_page_name = own_name sample_table 0\<rparr>" "index_at t0 1 = index_zero"
    and m0: "max_elements_in_page t0 = 2" "max_pages t0 = 2"
    by (rule first_claim) (rule that, simp_all add: sh)
  note D = world_okD(2,1) [OF sample_start, unfolded sh]
  note st0 = claim_step [OF D sample_ready(4) _ sample_ready(7) c0, simplified sample_ready(9), simplified]
  have tn0: "table_name t0 = ''T''" "expiry t0 = expiry sample_table"
    using st0(3) by (simp_all add: grows_def same_consts_def expiry_def fun_eq_iff) (simp add: sample_table_def)
  have b0: "base 4096 t0" "index_inv t0" using st0(1) by (simp_all add: base_def)
  have sn0: "seen 4096 ?w t0" by (rule seen_grows [OF D(1) st0(3)]) (use D(2) st0(4) in \<open>simp add: base_def\<close>)
  have rc: "recyclable low_memory_os t0" using i0 m0 by (simp add: recyclable_def)
  let ?u = "as_seen ?w t0"
  have ch: "choose_page low_memory_os 101 2 ?u = ((OLDEST, 0), update_global_expire 160 ?u)"
    by (rule oldest_taken) (use b0 i0 m0 in simp_all)
  have idle: "lock_idle ?u" using sn0 by (simp add: seen_def)
  let ?ip1 = "\<lparr>ip_type = OLDEST, ip_page = 0, ip_page_name = data_page_name ''T'' 0, ip_index = 0 :: u32\<rparr>"
  obtain t1 where c1: "claim low_memory_os 101 2 0 ?u = (Inr ?ip1, t1)"
    using claim_run(2) [OF idle _ _ ch, of 0] b0(2) rc tn0 by (auto simp: low_test_blocks [OF mem_blocks(1) [OF healthy_mem(3)]] first_free_def)
  have ex: "0 < expiry t0 101 0" by (simp add: tn0(2)) (simp add: expiry_def sample_table_def)
  note st1 = claim_step [OF sn0 b0(1) rc _ ex c1, simplified m0, simplified]
  have k1: "table_name t1 = ''T''" "max_pages t1 = 2" "max_elements_in_page t1 = 2" using grows_consts [OF st1(3)] tn0 m0 by simp_all
  have b1: "base 4096 t1" "index_inv t1" using st1(1) by (simp_all add: base_def)
  have sn1: "seen 4096 (own_part t1 None) t1" by (rule st1(2))
  have nf1: "names_fit t1" "data_inv (sc_page_size low_memory_os) t1" using b1(2) sn1 low by (simp_all add: index_inv_def seen_def)
  obtain ee1 t2 where s1: "store_records low_memory_os [8, 9] 2 ?ip1 t1 = (Inr ee1, t2)"
    using store_records_total [OF base_serviceable [OF b1(1) low] nf1(2,1), of 0 ?ip1 2 "[8, 9]"] k1 by auto
  note cp1 = copy_step [OF sn1 b1(1) low, of 0 ?ip1 2 "[8, 9]" ee1 t2, simplified k1, simplified, OF s1]
  have k2: "table_name t2 = ''T''" "max_pages t2 = 2" "max_elements_in_page t2 = 2" using grows_consts [OF cp1(3)] k1 by simp_all
  have ee1: "ee1 = \<lparr>ee_page_name = data_page_name ''T'' 0, ee_index = 0, ee_size = 2\<rparr>"
    using s1 by (auto simp: Let_def elim!: store_records_run split: if_splits)
  have g02: "grows t0 t2" using grows_trans [OF st1(3) cp1(3)] .
  have sn2: "seen 4096 (own_part t0 None) t2"
    by (rule seen_grows [OF st0(2) g02]) (use cp1(1) g02 in \<open>simp add: base_def grows_def same_consts_def\<close>)
  have nf2: "names_fit (as_seen (own_part t0 None) t2)" "data_inv (sc_page_size healthy_os) (as_seen (own_part t0 None) t2)"
    using cp1(1) sn2 sample_all_ok(2) by (simp_all add: base_def index_inv_def seen_def)
  obtain ee0 t3 where s0: "store_records healthy_os [7] 1 ?ip0 (as_seen (own_part t0 None) t2) = (Inr ee0, t3)"
    using store_records_total [OF _ nf2(2,1), of 0 ?ip0 1 "[7]"] base_serviceable [OF cp1(1) sample_all_ok] k2 by auto
  note cp0 = copy_step [OF sn2 cp1(1) sample_all_ok, of 0 ?ip0 1 "[7]" ee0 t3, simplified k2, simplified, OF s0]
  obtain els where els: "page_elems t2 0 = memcpy_at 0 [8, 9] els" "2 \<le> length els" using cp1(6) by auto
  have "page_elems t3 0 = memcpy_at 0 [7] (page_elems t2 0)" using cp0(6) cp1(5) by auto
  then have p3: "take 2 (page_elems t3 0) = [7, 9]" using els by (simp add: memcpy_at_def)
  have k3: "table_name t3 = ''T''" "max_pages t3 = 2" using grows_consts [OF cp0(3)] k2 by simp_all
  have sn3: "seen 4096 (own_part t2 None) t3"
    by (rule seen_grows [OF cp1(2) cp0(3)]) (use cp0(1,3) in \<open>simp add: base_def grows_def same_consts_def\<close>)
  obtain t4 where "get_element_data healthy_os ee1 (as_seen (own_part t2 None) t3) = (Inr (page_elems t3 0), t4)"
    using read_page [OF sn3 cp0(1,5) _ sample_all_ok, of 0 2] k3 ee1 by auto
  then show ?thesis unfolding Let_def using c0 c1 s1 s0 p3 by blast
qed

end
