(* ===== verification/Spec2Isabelle.thy ===== *)
theory Spec2Isabelle
  imports ServerSafety ServerHistory DateStrings Timing Metrics ConcurrentTables
begin

text \<open>
  A verification of the deals server: an HTTP server that stores flight deals for a day in POSIX
  shared memory, which several server processes share, and answers searches for the cheapest
  ones.

  \<^bold>\<open>The program and the theories.\<close>  Bytes arrive at a connection (\<^verbatim>\<open>tcp_server\<close>), are collected by
  the HTTP parser of the connection (\<^verbatim>\<open>http\<close>) and, once they are a request, handled by
  \<^verbatim>\<open>DealsServer::on_data\<close> (\<^verbatim>\<open>deals_server.cpp\<close>), which reads the parameters (\<^verbatim>\<open>types\<close>), calls the database
  of deals or of destinations and appends one response to the output buffer.  A database
  (\<^verbatim>\<open>deals_database\<close>, \<^verbatim>\<open>top_destinations\<close>) is made of tables (\<^verbatim>\<open>shared_memory\<close>), whose operations
  take named semaphores (\<^verbatim>\<open>locks\<close>); a search fills a query object (\<^verbatim>\<open>search_query\<close>) that filters
  (\<^verbatim>\<open>deals_query\<close>) and aggregates (\<^verbatim>\<open>deals_cheapest\<close> and its variants) the records of a scan.

  \<^item> \<open>Prelude\<close>: machine words, exceptions as values (\<open>exn\<close>, \<open>result\<close>), operations on a state that
    may throw (\<open>op\<close>: a result and the state at the exit), the parts of the C++ library that are
    used (number printing and reading, substring search, \<^verbatim>\<open>std::sort\<close>, \<^verbatim>\<open>std::unordered_map\<close>), the
    locale \<open>strict_weak_order\<close> of the comparators.
  \<^item> \<open>Utils\<close>, \<open>DateStrings\<close> (\<^verbatim>\<open>utils.cpp\<close>): splitting, case conversion, weekdays and day counts, on numbers
    and on strings.
  \<^item> \<open>Timing\<close> (\<^verbatim>\<open>timing.cpp\<close>): the clock, the counter with which the tests shift it, and the timers.
  \<^item> \<open>Types\<close> (\<^verbatim>\<open>types.cpp\<close>): codes of places, countries, dates, weekdays; the parameter classes as
    records that extend \<open>BaseParameter\<close>; required and optional parameters.
  \<^item> \<open>Http\<close> (\<^verbatim>\<open>http.cpp\<close>): the incremental parser \<open>HttpParser_write\<close> and the responses.
  \<^item> \<open>Locks\<close> (\<^verbatim>\<open>locks.cpp\<close>): semaphores, \<open>CriticalSection\<close>, and the interleavings of several sections.
  \<^item> \<open>SharedMemory\<close>, \<open>TableContents\<close> (\<^verbatim>\<open>shared_memory.hpp/.cpp/.tpp\<close>): the record \<open>Table\<close> is the shared
    index and pages together with the state of one process; \<open>addRecord\<close>, \<open>processRecords\<close>,
    \<open>cleanup\<close>, \<open>release_expired_memory_pages\<close> and \<open>get_element_data\<close> are its operations.  The second
    theory has the invariant \<open>table_ok\<close>, the abstraction \<open>contents\<close> (the visible records) and the
    refinement of it by the operations.
  \<^item> \<open>ConcurrentTables\<close>: \<^verbatim>\<open>addRecord\<close> in the parts between which it does not hold the lock, and a step
    relation \<open>proc_step\<close> that interleaves these parts between any number of processes.
  \<^item> \<open>Metrics\<close> (\<^verbatim>\<open>statsd_client\<close>): the client that sends metrics in UDP datagrams, with its socket, the
    text of a metric, and a reader of the protocol; \<open>reportMemUsage\<close> of the tables.
  \<^item> \<open>MemorySafety\<close>: the invariant \<open>mem_safe\<close>, weaker than \<open>table_ok\<close>, that every operation of a table keeps
    on every way out, whatever the system calls and the clock return and also after failures that
    left the index and the pages inconsistent; \<open>safe_op\<close> states this for one operation and has a rule for
    every way to compose operations.
  \<^item> \<open>SearchQuery\<close>, \<open>DealsTypes\<close>, \<open>DealsQuery\<close>: the filters and their setters, the records of deals and
    \<^verbatim>\<open>findCheapestAndLast\<close>, and the execution of a search with the virtual functions as arguments.
  \<^item> \<open>Aggregation\<close>, \<open>DealsCheapest\<close>, \<open>DealsCheapestByCountry\<close>, \<open>DealsCheapestByDate\<close>: the locales
    \<open>deal_grouping\<close> and \<open>deal_aggregation\<close> state what the three aggregation classes have in common;
    each class interprets them.
  \<^item> \<open>DealsUniqueRoutes\<close>, \<open>DealsStats\<close>: the two reports.
  \<^item> \<open>DealsDatabase\<close>, \<open>SearchFilters\<close> (\<^verbatim>\<open>deals_database\<close>): insertion and search on the pair of tables, the
    relation \<open>holds\<close> between a deal and its data, and the meaning of the parameters of a search.
  \<^item> \<open>TableHistory\<close>: what every operation of a table keeps while the system calls succeed: the invariant
    \<open>tended\<close> (the table stays in service) and everything stored that has not expired.
  \<^item> \<open>DealsHistory\<close>: the abstract \<open>store\<close>, the list of posts since the last clearing; the relation
    \<open>represents\<close> between it and the two tables, which every operation of a run \<open>deals_run\<close> keeps; the locale
    \<open>deal_search\<close>, the interface of a search, which the three searches interpret.
  \<^item> \<open>TopDestinations\<close> (\<^verbatim>\<open>top_destinations\<close>, \<^verbatim>\<open>cache.hpp\<close>): the counted destinations and the answer cache.
  \<^item> \<open>TcpServer\<close> (\<^verbatim>\<open>tcp_server\<close>): connections and the event loop; the locales \<open>connection_handler\<close> and
    \<open>surviving_handler\<close> are what the loop relies on.
  \<^item> \<open>Server\<close>, \<open>ResultFormat\<close>, \<open>ServerRuns\<close> (\<^verbatim>\<open>deals_server.cpp\<close>): the handlers as operations on the
    connection and the server, the format of the answers, and the runs of the process as a step
    relation of event-loop turns and signals; \<open>server_on_data\<close> interprets \<open>connection_handler\<close>.
  \<^item> \<open>RecordTypes\<close>: the types of the stored records (\<open>deal_element\<close>, \<open>dst_element\<close>), which the parameter
    classes and the checks of the handlers give to every record that is inserted.
  \<^item> \<open>ServerSafety\<close>: the constructors establish and every handler keeps \<open>server_safe\<close>, by the structure of
    its code; \<open>server_on_data\<close> interprets \<open>surviving_handler\<close>, so the process is never killed.
  \<^item> \<open>ServerHistory\<close>: the handlers refine the operations of the store: posting appends, clearing empties,
    every other request leaves it.
  \<^item> \<open>Samples\<close>: a concrete table for the examples.

  \<^bold>\<open>What is shown.\<close>  Codecs and parsers: round trips of dates, places, countries and requests,
  independence of the parser from the chunking, agreement of the calendar routines with each other
  and with counting days.  Locks and tables: mutual exclusion in every interleaving, release of
  locks on every way out, memory safety, preservation of the invariant, insertions that keep the
  visible records and can be read back, scans that visit exactly the visible records, the limits
  of page recycling, and success when there is room.  Several processes: reservations never
  overlap and finished insertions are read by everyone, in every interleaving in which no page is
  taken from its records; and, shown on examples, that a scan can visit elements that
  are reserved and not yet written, and that a page can be recycled under a writer.  Searches: the filters mean what the
  parameters say, which requests are rejected, what the three aggregations return, and that the
  data of a deal is kept as long as a search may return it.  Destinations: exact counts, where the answer is not
  taken from the cache, and the age of cached answers.  Server: from a start on an empty shared memory, in
  every run, every call of \<^verbatim>\<open>on_data\<close> returns and appends at most one answer, and exactly one for a complete or malformed
  request, and none kills the process; the stored records are well typed; a response format that
  a client can decode, no leaked descriptors, the time limits, and an orderly exit.  Metrics: what a
  datagram says, and that the client keeps at most one socket.  This theory joins them: the
  bytes of a valid search request lead to a response that decodes to the data of the right deals; and after any run of
  requests these are exactly the cheapest of the posts since the last clearing, whatever pages were taken, expired or
  recycled in between.  The runs of the store assume that within each request the system calls succeed and the clock
  shows one second, that it does not go back between requests, and that memory is not low while a table is
  empty (\<open>works\<close>, \<open>recyclable\<close>); \<open>oldest_on_empty_table\<close> shows why the last is needed.  The safety of the process
  assumes none of this: calls may fail and the clock may jump.  It assumes (\<open>net_ok\<close>, \<open>env_ok\<close>) that the file
  system of the shared memory reports how many blocks it has, that the bytes waiting on a socket fit into the stack,
  and that no peer is gone when it is written to; \<open>freemem\<close>, \<open>network_read\<close> and \<open>network_write\<close> show how
  the process dies otherwise.

  Where the repository's documentation or comments promise something else than the code does, the theorems about
  searches state what both agree on, and a separate theorem, which is not among the properties, shows what the
  code does: \<open>cheapest_up_to_date\<close>, \<open>comment_example\<close>, \<open>country_answers\<close>, \<open>day_answers\<close>,
  \<open>top_destinations_cached\<close>, \<open>impossible_date_accepted\<close>, \<open>unique_routes_text\<close>, \<open>stats_text\<close>.

  \<^bold>\<open>Conventions.\<close>  Fixed-width integers are words and wrap; \<^verbatim>\<open>size_t\<close> is \<^typ>\<open>nat\<close>.  The clock is not read
  by the model: every reading is an argument, in the order of the calls.  The outcomes of system
  calls are the record \<open>os\<close> for one operation of a table, \<open>renv\<close> for one request and \<open>net\<close> for one
  turn of the event loop.  The iteration order of hash maps is an argument constrained by
  \<open>iteration_order\<close>.  Members that a constructor leaves uninitialised come from an argument \<open>raw\<close>.
  What ends the process is an exception that no handler catches (\<open>kills\<close>): \<open>segv\<close>, an access outside an
  object, and \<open>sigfpe\<close>, a division by zero; in the event loop it is \<^term>\<open>None\<close>.  The state at such an exit is never
  used.  Two reads past a table are not \<open>segv\<close>: that of \<^verbatim>\<open>day_of_week\<close> for month 0, which stays in the static
  data of the program, and that of \<^verbatim>\<open>code_to_country\<close> for the code after the last, which no request
  reaches; what they find is a parameter, \<open>oob\<close>, and the theorems hold for each of its values.  No definition needs
  fuel: all loops are structural recursions or recursions with a measure.

  \<^bold>\<open>Not modelled.\<close>  Log output; opening the listening socket and reading the command line, which
  are calls of the system without a decision of the program; the unit tests (\<^verbatim>\<open>deals_test.cpp\<close> and the
  \<^verbatim>\<open>unit_test\<close> functions); the prototypes under \<^verbatim>\<open>spike\<close>, which the server does not use.  Other processes
  that work on the same tables appear through the invariants that every operation assumes and
  restores, through the interleavings of \<open>Locks\<close>, and through those of \<open>ConcurrentTables\<close>.  There the
  copying of records is one step, and the steps are limited to times at which no page is recycled:
  the example \<open>recycled_under_writer\<close> shows why the result does not hold without this.
\<close>

section \<open>A search from the bytes of the request to the bytes of the answer\<close>

text \<open>A plain search for the cheapest deals, without the top destinations of a locale.\<close>

definition plain_search :: "TopRequest \<Rightarrow> bool" where
  "plain_search rq \<longleftrightarrow> \<not> bad_dates (t_search rq) \<and> \<not> set_true (t_add_locale_top rq) \<and> \<not> set_true (t_group_by_date rq) \<and>
     \<not> set_true (t_group_by_country rq) \<and> \<not> set_true (p_all_combinations (t_search rq)) \<and> \<not> rejected (t_search rq)"

text \<open>The bytes received so far are a complete request for \<^verbatim>\<open>/deals/top\<close> with these parameters.\<close>

definition asks_top :: "Context Connection \<Rightarrow> TopRequest \<Rightarrow> bool" where
  "asks_top conn rq \<longleftrightarrow> \<not> is_bad_request (received conn) \<and> is_request_complete (received conn) \<and>
     req_method (request (received conn)) = ''GET'' \<and> path (query (request (received conn))) = ''/deals/top'' \<and>
     read_top_request (params (query (request (received conn)))) = Inr rq"

text \<open>
  The tables can be scanned and read at the times of the request, and every deal that a search may
  return has its data.
\<close>

definition db_readable :: "renv \<Rightarrow> DealsDatabase \<Rightarrow> bool" where
  "db_readable env db \<longleftrightarrow> scannable (r_os env) (r_clock env 6) (r_clock env 7) (db_index db) \<and>
     table_ok (sc_page_size (r_os env)) (db_data db) \<and> serviceable (r_os env) (db_data db) \<and> DEALS_EXPIRES \<le> r_clock env 5 \<and>
     (\<forall>d \<in> set (contents (r_clock env 7) (index_table db)).
        outdated (r_clock env 5) (db_context db) d \<or> (\<exists>s. holds (db_data db) d s))"

definition requested_limit :: "SearchParams \<Rightarrow> nat" where
  "requested_limit p = (if isDefined (p_limit p) then unat (num_value (p_limit p)) else 20)"

lemma fill_query_fresh:
  assumes "fill_query now p (SimplyCheapest_new raw) = Inr q" "\<not> set_true (p_all_combinations p)"
  shows "SimplyCheapest_fresh q"
  using fill_query_more [OF assms(1)] cheapest_members [of q "SimplyCheapest_new raw"] assms(2)
  by (auto simp: SimplyCheapest_fresh_def SimplyCheapest_new_def SearchQuery_init_def set_true_def isTrue_def isDefined_def)

lemma fill_query_limit: "fill_query now p (SimplyCheapest_new raw) = Inr q \<Longrightarrow> unat (filter_result_limit q) = requested_limit p"
  using fill_query_fields(25,26) [OF _ unfiltered_new(1)] by (auto simp: requested_limit_def isDefined_def isUndefined_def)

lemma top_search_selects:
  assumes "plain_search rq" "db_readable env db" "iteration_order (r_hist_order env)"
  obtains res datas db' where "run_search env rq (t_search rq) db = (Inr datas, db')" "list_all2 (holds (db_data db)) res datas"
    "set res \<subseteq> set (contents (r_clock env 7) (index_table db))" "\<forall>d \<in> set res. wanted (r_clock env 4) (t_search rq) d"
    "distinct (map d_destination res)" "sorted (map d_price res)" "length res \<le> requested_limit (t_search rq)"
proof -
  let ?p = "t_search rq" and ?os = "r_os env" and ?ts = "r_clock env 5" and ?now = "r_clock env 7" and ?start = "r_clock env 4"
  let ?run = "SimplyCheapest_execute ?os ?ts (r_clock env 6) ?now (r_hist_order env)"
  let ?init = "SimplyCheapest_new (r_raw_cheapest env)"
  have rq: "\<not> rejected ?p" "\<not> set_true (p_all_combinations ?p)" "\<not> set_true (t_group_by_date rq)" "\<not> set_true (t_group_by_country rq)"
    using assms(1) by (simp_all add: plain_search_def)
  have db: "scannable ?os (r_clock env 6) ?now (index_table db)" "table_ok (sc_page_size ?os) (db_data db)" "serviceable ?os (db_data db)"
    "DEALS_EXPIRES \<le> ?ts" and hold: "\<forall>d \<in> set (contents ?now (index_table db)). outdated ?ts (db_context db) d \<or> (\<exists>s. holds (db_data db) d s)"
    using assms(2) by (simp_all add: db_readable_def)
  obtain q where q: "fill_query ?start ?p ?init = Inr q" using fill_query_total [OF rq(1)] by blast
  note fresh = fill_query_fresh [OF q rq(2)]
  let ?found = "filter (matches (search_time ?ts (index_table db) q)) (contents ?now (index_table db))"
  obtain ks t' where e: "?run q (index_table db) = (Inr (answer (\<lambda>a b. d_price a < d_price b) d_destination (unat (filter_result_limit q)) ?found ks), t')"
    and ks: "keys_of d_destination ?found ks"
    using SimplyCheapest_answer [OF db(1) assms(3) fresh, of ?ts] by blast
  define res where "res = answer (\<lambda>a b. d_price a < d_price b) d_destination (unat (filter_result_limit q)) ?found ks"
  note a = answer_by_price [OF ks, of "unat (filter_result_limit q)", folded res_def]
  have mem: "matches (search_time ?ts (index_table db) q) d" "d \<in> set (contents ?now (index_table db))" if "d \<in> set res" for d
    using a(1) that by auto
  have h: "\<exists>s. holds (db_data db) d s" if "d \<in> set res" for d
    using matches_not_outdated [OF mem(1) [OF that] db(4)] hold mem(2) [OF that] by auto
  obtain datas db' where d: "searchFor ?os ?start ?run ?init ?p db = (Inr datas, db')" "list_all2 (holds (db_data db)) res datas"
    using searchFor_reads [where p = ?p and ?q0.0 = ?init and now = ?start and run = ?run, OF q e [folded res_def] db(2,3) h] by blast
  have w: "wanted ?start ?p d" if "d \<in> set res" for d
    using mem(1) [OF that] unfolding matches_wanted [OF q unfiltered_new(1)] by blast
  have l: "length res \<le> requested_limit ?p" using a(4) fill_query_limit [OF q] by simp
  show thesis
  proof (rule that [OF _ d(2)])
    show "run_search env rq ?p db = (Inr datas, db')" using d(1) rq(3,4) by (simp add: run_search_def Let_def)
    show "set res \<subseteq> set (contents ?now (index_table db))" using mem(2) by blast
  qed (use w a(2,3) l in auto)
qed

text \<open>What the handler makes of the data that a search found.\<close>

lemma found_deals_answered:
  assumes "asks_top conn rq" "plain_search rq" "\<not> quit_request srv" and r: "run_search env rq (t_search rq) (srv_db srv) = (Inr datas, db')"
  obtains conn' s where "server_on_data env conn srv = Some (conn', srv\<lparr>srv_db := db'\<rparr>)" "data_out conn' = data_out conn @ s" "\<not> connection_alive conn'"
    "if datas = [] then s = HttpResponse_string (empty_result ''Empty result'')
     else \<exists>pos. find_sub header_end s = Some pos \<and> decode_top (drop (pos + 4) s) = datas"
proof -
  let ?c = "with_http (received conn) conn" and ?srv = "srv\<lparr>srv_db := db'\<rparr>"
  obtain s where w: "writeTopResult datas (?c, ?srv) = (Inr (), (conn_close_with s ?c, ?srv))"
    "if datas = [] then s = HttpResponse_string (empty_result ''Empty result'')
     else \<exists>pos. find_sub header_end s = Some pos \<and> decode_top (drop (pos + 4) s) = datas"
    by (rule writeTopResult_decodes) (rule that)
  have "getTop env (?c, srv) = (Inr (), (conn_close_with s ?c, ?srv))"
    using assms(1,2) r w(1)
    by (simp add: getTop_def the_connection_def of_result_def request_params_def asks_top_def plain_search_def locale_destinations_def on_db_def
        sbind_def ret_def)
  then have "server_on_data env conn srv = Some (conn_close_with s ?c, ?srv)"
    using assms(1,3) by (simp add: server_on_data_eq handle_request_def the_connection_def asks_top_def sbind_def Let_def)
  then show thesis by (rule that) (use w(2) in \<open>simp_all add: conn_close_with_def\<close>)
qed

text \<open>
  C5. A client that sends a complete, valid request for \<^verbatim>\<open>/deals/top\<close> gets the deals it asked for: the
  response, decoded as documented, is the list of the data of visible deals that satisfy every
  given parameter, at most one per destination, in ascending order of price and at most as many
  as the limit (20 when none is given); when there is none, the answer is an empty 204 response.
\<close>

theorem top_request_served:
  assumes "asks_top conn rq" and "plain_search rq" and "\<not> quit_request srv"
    and "db_readable env (srv_db srv)" and "iteration_order (r_hist_order env)"
  shows "\<exists>conn' srv' s deals datas. server_on_data env conn srv = Some (conn', srv')
    \<and> data_out conn' = data_out conn @ s \<and> \<not> connection_alive conn'
    \<and> (if datas = [] then s = HttpResponse_string (empty_result ''Empty result'')
       else \<exists>pos. find_sub header_end s = Some pos \<and> decode_top (drop (pos + 4) s) = datas)
    \<and> list_all2 (holds (db_data (srv_db srv))) deals datas
    \<and> (\<forall>d \<in> set deals. d \<in> set (contents (r_clock env 7) (index_table (srv_db srv))) \<and> wanted (r_clock env 4) (t_search rq) d)
    \<and> distinct (map d_destination deals) \<and> sorted (map d_price deals) \<and> length deals \<le> requested_limit (t_search rq)"
proof -
  obtain res datas db' where r: "run_search env rq (t_search rq) (srv_db srv) = (Inr datas, db')"
    "list_all2 (holds (db_data (srv_db srv))) res datas"
    "set res \<subseteq> set (contents (r_clock env 7) (index_table (srv_db srv)))" "\<forall>d \<in> set res. wanted (r_clock env 4) (t_search rq) d"
    "distinct (map d_destination res)" "sorted (map d_price res)" "length res \<le> requested_limit (t_search rq)"
    by (rule top_search_selects [OF assms(2,4,5)]) (rule that)
  obtain conn' s where "server_on_data env conn srv = Some (conn', srv\<lparr>srv_db := db'\<rparr>)" "data_out conn' = data_out conn @ s" "\<not> connection_alive conn'"
    "if datas = [] then s = HttpResponse_string (empty_result ''Empty result'')
     else \<exists>pos. find_sub header_end s = Some pos \<and> decode_top (drop (pos + 4) s) = datas"
    by (rule found_deals_answered [OF assms(1-3) r(1)]) (rule that)
  then show ?thesis using r(2-7) by blast
qed

definition top_text :: string where
  "top_text = ''GET /deals/top?origin=MOW&deals_limit=5 HTTP/1.0'' @ header_end"

lemma top_parsed:
  "is_bad_request (HttpParser_write HttpParser_init top_text) = False"
  "is_request_complete (HttpParser_write HttpParser_init top_text) = True"
  "req_method (request (HttpParser_write HttpParser_init top_text)) = ''GET''"
  "path (query (request (HttpParser_write HttpParser_init top_text))) = ''/deals/top''"
  "params (query (request (HttpParser_write HttpParser_init top_text))) =
     [\<lparr>obj_name = ''origin'', obj_value = ''MOW''\<rparr>, \<lparr>obj_name = ''deals_limit'', obj_value = ''5''\<rparr>]"
  by code_simp+

lemma five: "stol ''5'' = Inr 5"
  by code_simp

lemma moscow: "toUpperCase ''MOW'' = ''MOW''"
  by code_simp

lemma top_parameters:
  "\<exists>rq. read_top_request [\<lparr>obj_name = ''origin'', obj_value = ''MOW''\<rparr>, \<lparr>obj_name = ''deals_limit'', obj_value = ''5''\<rparr>] = Inr rq
     \<and> plain_search rq \<and> requested_limit (t_search rq) = 5 \<and> (\<forall>now d. wanted now (t_search rq) d \<longleftrightarrow> d_origin d = origin_to_code ''MOW'')"
  by (simp add: wanted_def moscow read_top_request_def optional_def Optional_of_def Required_of_def require_defined_def IATACode_of_string_def
      IATACodes_of_string_def CountryCodes_of_string_def CountryCode_of_string_def Date_of_string_def Weekdays_of_string_def
      Number_of_string_def Boolean_of_string_def five isUndefined_def isDefined_def plain_search_def set_true_def bad_dates_def Date_gt_def date_rel_def
      rejected_def reversed_dates_def bad_stay_def stay_value_def bad_limit_def requested_limit_def)

lemma sample_asks: "\<exists>rq. asks_top (sample_conn top_text) rq \<and> plain_search rq \<and> requested_limit (t_search rq) = 5 \<and>
    (\<forall>now d. wanted now (t_search rq) d \<longleftrightarrow> d_origin d = origin_to_code ''MOW'')"
  using top_parameters unfolding asks_top_def received_sample top_parsed by simp

lemma sample_readable: "db_readable sample_env sample_db"
proof -
  have d: "table_ok (sc_page_size healthy_os) (db_data sample_db)" "serviceable healthy_os (db_data sample_db)"
    using sample_db_tables(2) [of 0] by (auto simp: scannable_def)
  have "\<forall>d \<in> set (contents 86500 (index_table sample_db)).
      outdated 86500 (db_context sample_db) d \<or> (\<exists>s. holds (db_data sample_db) d s)"
    using sample_db_tables(3) [of 86500] sample_db_tables(4) by auto
  then show ?thesis using d sample_db_tables(1) by (simp add: db_readable_def sample_env_def DEALS_EXPIRES_def)
qed

theorem top_request_served_witness:
  "\<exists>conn' srv' s deals datas. server_on_data sample_env (sample_conn top_text) sample_server = Some (conn', srv')
    \<and> data_out conn' = s
    \<and> (if datas = [] then s = HttpResponse_string (empty_result ''Empty result'')
       else \<exists>pos. find_sub header_end s = Some pos \<and> decode_top (drop (pos + 4) s) = datas)
    \<and> list_all2 (holds (db_data sample_db)) deals datas \<and> length deals \<le> 5"
proof -
  obtain rq where rq: "asks_top (sample_conn top_text) rq" "plain_search rq" "requested_limit (t_search rq) = 5" using sample_asks by blast
  have s: "\<not> quit_request sample_server" "db_readable sample_env (srv_db sample_server)" "iteration_order (r_hist_order sample_env)"
    "srv_db sample_server = sample_db" "data_out (sample_conn top_text) = []"
    using sample_readable by (simp_all add: sample_server_def sample_env_def sample_conn_def TCPConnection_new_def)
  from top_request_served [OF rq(1,2) s(1-3)] show ?thesis unfolding s(4,5) rq(3) append_Nil by blast
qed

section \<open>A search after any run\<close>

lemma posted_search:
  assumes "plain_search rq" and "deals_run oob psz now0 H db" and "now0 \<le> now" and "env_works oob psz now env"
  obtains ds datas db' where "run_search env rq (t_search rq) db = (Inr datas, db')" "deals_run oob psz now H db'"
    "list_all2 (\<lambda>d data. \<exists>e \<in> set H. filed oob e d \<and> data = ps_data (snd e)) ds datas"
    "cheapest_of (candidate oob now (db_context db) (t_search rq) H) (requested_limit (t_search rq)) ds"
proof -
  have rq: "\<not> rejected (t_search rq)" "\<not> set_true (p_all_combinations (t_search rq))" "\<not> set_true (t_group_by_date rq)" "\<not> set_true (t_group_by_country rq)"
    using assms(1) by (simp_all add: plain_search_def)
  have w: "works psz now (r_os env)" "r_clock env = (\<lambda>_. now)" "iteration_order (r_hist_order env)" using assms(4) by (simp_all add: env_works_def)
  let ?init = "SimplyCheapest_new (r_raw_cheapest env)"
  obtain q where q: "fill_query now (t_search rq) ?init = Inr q" using fill_query_total [OF rq(1)] by blast
  have ac: "\<not> filter_all_combinations q" using fill_query_fresh [OF q rq(2)] by (simp add: SimplyCheapest_fresh_def)
  obtain ds datas db' where s: "searchFor (r_os env) now (SimplyCheapest_execute (r_os env) now now now (r_hist_order env)) ?init (t_search rq) db = (Inr datas, db')"
    and l: "list_all2 (\<lambda>d data. \<exists>e \<in> set H. filed oob e d \<and> data = ps_data (snd e)) ds datas"
    and best: "cheapest_of (candidate oob now (db_context db) (t_search rq) H) (requested_limit (t_search rq)) ds"
    using search_history [OF assms(2,3) w(1,3) q ac] unfolding fill_query_limit [OF q] by blast
  have "run_search env rq (t_search rq) db = (Inr datas, db')" using s rq(3,4) by (simp add: run_search_def Let_def w(2))
  then show thesis using deals_run.cheapest [OF assms(2,3) w(1,3) s] l best by (rule that)
qed


definition moscow_post :: post where
  "moscow_post = sample_post\<lparr>ps_origin := \<lparr>paramter_undefined = False, iata_code = origin_to_code ''MOW''\<rparr>\<rparr>"

lemma moscow_info: "\<forall>pos. \<exists>d. post_info (\<lambda>_. 0) now moscow_post pos = Inr d"
  using sample_post_info [of now] by (auto simp: moscow_post_def deal_info_def IATACode_get_code_def isUndefined_def rbind_eq_Inr sample_post_def Let_def)


text \<open>
  C3. No search invents or leaks a deal.  After any run, whatever the parameters and however the search groups
  its result, every data string it answers is that of a post since the last clearing that satisfies every
  parameter and is not outdated.
\<close>

theorem answers_are_posts:
  assumes "deals_run oob psz now0 H db" and "now0 \<le> now" and "env_works oob psz now env"
    and "run_search env rq p db = (Inr datas, db')"
  shows "\<exists>ds. list_all2 (\<lambda>d data. candidate oob now (db_context db) p H d \<and> (\<exists>e \<in> set H. filed oob e d \<and> data = ps_data (snd e))) ds datas"
  by (rule run_search_posts [OF assms])

theorem answers_are_posts_witness:
  "\<exists>rq db datas db'. deals_run (\<lambda>_. 0) 4096 90000 [(90000, moscow_post)] db \<and>
     run_search late_env rq (t_search rq) db = (Inr datas, db') \<and> set datas \<subseteq> {''xy''}"
proof -
  obtain rq where rq: "plain_search rq" using sample_asks by blast
  have data: "ps_data moscow_post = ''xy''" by (simp add: moscow_post_def sample_data)
  obtain db where db: "deals_run (\<lambda>_. 0) 4096 90000 [(90000, moscow_post)] db" using posted_database [OF moscow_info data] by blast
  obtain ds datas db' where r: "run_search late_env rq (t_search rq) db = (Inr datas, db')"
    by (rule posted_search [OF rq db order_refl late_env_works(1)])
  from answers_are_posts [OF db order_refl late_env_works(1) r] have "set datas \<subseteq> {''xy''}"
    using data by (fastforce simp: list_all2_conv_all_nth in_set_conv_nth)
  then show ?thesis using db r by blast
qed

end
